(* ===== verification/Rad_Prelude.thy ===== *)
theory Rad_Prelude
  imports Main
begin

text \<open>
  Shared vocabulary of the development: the faults a C++ operation can raise, the result
  type that carries them, sequencing of fallible steps, and generic list facts that the
  components use. A failed \<open>assert\<close>, an access outside an allocation or an access to a
  cell without a live object is a fault value, so an operation that would have undefined
  behaviour never silently returns a result in the model.
\<close>

section \<open>Faults and results\<close>

datatype fault =
    Assertion        \<comment> \<open>an \<open>assert\<close> of the source fails\<close>
  | Out_of_bounds    \<comment> \<open>a memory access outside the allocated block\<close>
  | Dead_read        \<comment> \<open>a read of a cell that holds no live object\<close>
  | Dead_destroy     \<comment> \<open>a destructor call on a cell that holds no live object\<close>
  | Live_construct   \<comment> \<open>construction over a live object whose destructor is not trivial\<close>
  | Null_pointer     \<comment> \<open>a null pointer is dereferenced\<close>
  | Dangling_pointer \<comment> \<open>the object would be left holding pointers into a freed block\<close>
  | Value_too_large  \<comment> \<open>\<open>std::system_error\<close> with \<open>std::errc::value_too_large\<close>\<close>
  | Out_of_range     \<comment> \<open>\<open>std::out_of_range\<close>\<close>
  | Contract_violation \<comment> \<open>a precondition of a standard library call is violated\<close>
  | Division_by_zero \<comment> \<open>an integer division by zero\<close>
  | Shift_overflow   \<comment> \<open>a shift by at least the width of the operand\<close>

type_synonym 'a res = "fault + 'a"

definition bind_res :: "'a res \<Rightarrow> ('a \<Rightarrow> 'b res) \<Rightarrow> 'b res" where
  "bind_res m f = (case m of Inl e \<Rightarrow> Inl e | Inr x \<Rightarrow> f x)"

definition ensure :: "bool \<Rightarrow> fault \<Rightarrow> unit res" where
  "ensure b e = (if b then Inr () else Inl e)"

named_theorems res_simps \<open>evaluation of sequenced steps\<close>
named_theorems op_defs \<open>definitions of the operations of a component\<close>

lemma bind_res_simps [simp, res_simps]:
  "bind_res (Inr x) f = f x"
  "bind_res (Inl e) f = Inl e"
  by (simp_all add: bind_res_def)

lemma bind_res_assoc: "bind_res (bind_res m f) g = bind_res m (\<lambda>x. bind_res (f x) g)"
  by (cases m) simp_all

lemma bind_res_eq_Inr:
  "bind_res m f = Inr y \<longleftrightarrow> (\<exists>x. m = Inr x \<and> f x = Inr y)"
  by (cases m) simp_all

lemma bind_res_cong [fundef_cong]:
  "m = m' \<Longrightarrow> (\<And>x. m' = Inr x \<Longrightarrow> f x = g x) \<Longrightarrow> bind_res m f = bind_res m' g"
  by (cases m') simp_all

lemma ensure_simps [simp, res_simps]:
  "b \<Longrightarrow> ensure b e = Inr ()"
  "\<not> b \<Longrightarrow> ensure b e = Inl e"
  by (simp_all add: ensure_def)

lemma ensure_eq_Inr [simp]: "ensure b e = Inr u \<longleftrightarrow> b"
  by (simp add: ensure_def)

section \<open>Computations that may not return\<close>

text \<open>\<open>None\<close>: the code loops for ever; \<open>Some (Inl e)\<close>: it faults; \<open>Some (Inr x)\<close>: it returns.\<close>

type_synonym 'a run = "'a res option"

definition bind_run :: "'a run \<Rightarrow> ('a \<Rightarrow> 'b run) \<Rightarrow> 'b run" where
  "bind_run m f = (case m of None \<Rightarrow> None | Some r \<Rightarrow> (case r of Inl e \<Rightarrow> Some (Inl e) | Inr x \<Rightarrow> f x))"

lemma bind_run_simps [simp]:
  "bind_run None f = None"
  "bind_run (Some (Inl e)) f = Some (Inl e)"
  "bind_run (Some (Inr x)) f = f x"
  by (simp_all add: bind_run_def)

lemma bind_run_eq_Inr:
  "bind_run m f = Some (Inr y) \<longleftrightarrow> (\<exists>x. m = Some (Inr x) \<and> f x = Some (Inr y))"
  by (auto simp: bind_run_def split: option.splits sum.splits)

section \<open>List facts\<close>

lemma nth_append_mid:
  "i = length xs \<Longrightarrow> (xs @ y # zs) ! i = y"
  by simp

lemma update_append_mid:
  "i = length xs \<Longrightarrow> (xs @ y # zs)[i := v] = xs @ v # zs"
  by simp

lemma split_append:
  assumes "n \<le> length xs"
  obtains ys zs where "xs = ys @ zs" and "length ys = n"
proof
  show "xs = take n xs @ drop n xs" by simp
  show "length (take n xs) = n" using assms by simp
qed

lemma split_append_end:
  assumes "n \<le> length xs"
  shows "\<exists>ys zs. xs = ys @ zs \<and> length zs = n"
proof -
  have "xs = take (length xs - n) xs @ drop (length xs - n) xs" by simp
  moreover have "length (drop (length xs - n) xs) = n" using assms by simp
  ultimately show ?thesis by blast
qed

lemma length_neq_NilE:
  assumes "xs \<noteq> []"
  obtains y ys where "xs = y # ys"
  using assms by (cases xs) auto

lemma rotate_append_segments:
  "n = length xs \<Longrightarrow> rotate n (xs @ ys) = ys @ xs"
  by (simp add: rotate_append)

lemma drop_append_exact: "n = length xs \<Longrightarrow> drop n (xs @ ys) = ys"
  by simp

lemma take_append_exact: "n = length xs \<Longrightarrow> take n (xs @ ys) = xs"
  by simp

end
