(* ===== verification/Cell_Memory.thy ===== *)
theory Cell_Memory
  imports Rad_Prelude
begin

text \<open>
  Raw element storage. An allocated block of \<open>n\<close> elements is a list of \<open>n\<close> cells; a cell is
  \<open>None\<close> while it is raw memory and \<open>Some v\<close> while an object with value \<open>v\<close> lives in it.
  A pointer into the block is its offset from the start of the block. The flag \<open>td\<close> is
  \<open>std::is_trivially_destructible_v<T>\<close>: destroying such an element leaves its bytes in
  place, and constructing over such an element loses nothing; for every other element type
  constructing over a live object is a fault, and so is destroying a dead one.
\<close>

type_synonym 'a cells = "'a option list"

section \<open>Single cells\<close>

definition construct :: "bool \<Rightarrow> nat \<Rightarrow> 'a \<Rightarrow> 'a cells \<Rightarrow> 'a cells res" where
  "construct td p v m =
     (if length m \<le> p then Inl Out_of_bounds
      else if m ! p \<noteq> None \<and> \<not> td then Inl Live_construct
      else Inr (m[p := Some v]))"

definition destroy_at :: "bool \<Rightarrow> nat \<Rightarrow> 'a cells \<Rightarrow> 'a cells res" where
  "destroy_at td p m =
     (if length m \<le> p then Inl Out_of_bounds
      else if m ! p = None then Inl Dead_destroy
      else Inr (if td then m else m[p := None]))"

definition load :: "nat \<Rightarrow> 'a cells \<Rightarrow> 'a res" where
  "load p m =
     (if length m \<le> p then Inl Out_of_bounds
      else case m ! p of None \<Rightarrow> Inl Dead_read | Some v \<Rightarrow> Inr v)"

section \<open>Ranges\<close>

fun destroy_n :: "bool \<Rightarrow> nat \<Rightarrow> nat \<Rightarrow> 'a cells \<Rightarrow> 'a cells res" where
  "destroy_n td p 0 m = Inr m"
| "destroy_n td p (Suc n) m = bind_res (destroy_at td p m) (destroy_n td (Suc p) n)"

definition destroy_range :: "bool \<Rightarrow> nat \<Rightarrow> nat \<Rightarrow> 'a cells \<Rightarrow> 'a cells res" where
  "destroy_range td p q m = (if q < p then Inl Out_of_bounds else destroy_n td p (q - p) m)"

fun load_n :: "nat \<Rightarrow> nat \<Rightarrow> 'a cells \<Rightarrow> 'a list res" where
  "load_n p 0 m = Inr []"
| "load_n p (Suc n) m =
     bind_res (load p m) (\<lambda>v. bind_res (load_n (Suc p) n m) (\<lambda>vs. Inr (v # vs)))"

definition load_range :: "nat \<Rightarrow> nat \<Rightarrow> 'a cells \<Rightarrow> 'a list res" where
  "load_range p q m = (if q < p then Inl Out_of_bounds else load_n p (q - p) m)"

text \<open>
  \<open>std::uninitialized_copy\<close> into the block: constructs the values one after the other and
  returns the pointer past the last constructed cell with the new block.
\<close>

fun uninitialized_copy :: "bool \<Rightarrow> 'a list \<Rightarrow> nat \<Rightarrow> 'a cells \<Rightarrow> ('a cells \<times> nat) res" where
  "uninitialized_copy td [] p m = Inr (m, p)"
| "uninitialized_copy td (v # vs) p m =
     bind_res (construct td p v m) (uninitialized_copy td vs (Suc p))"

section \<open>Segments\<close>

text \<open>
  A segment is vacant when new elements may be constructed in it: its cells are raw, or the
  element type is trivially destructible. \<open>corpse\<close> is what destroying a segment leaves.
\<close>

definition vacant :: "bool \<Rightarrow> 'a cells \<Rightarrow> bool" where
  "vacant td D \<longleftrightarrow> td \<or> list_all (\<lambda>c. c = None) D"

definition corpse :: "bool \<Rightarrow> 'a list \<Rightarrow> 'a cells" where
  "corpse td xs = (if td then map Some xs else replicate (length xs) None)"

lemma vacant_simps [simp]:
  "vacant td []"
  "vacant td (c # D) \<longleftrightarrow> (td \<or> c = None) \<and> vacant td D"
  "vacant td (D @ E) \<longleftrightarrow> vacant td D \<and> vacant td E"
  "vacant td (replicate n None)"
  "vacant True D"
  by (auto simp: vacant_def list_all_iff)

lemma vacant_corpse [simp]: "vacant td (corpse td xs)"
  by (simp add: corpse_def)

lemma length_corpse [simp]: "length (corpse td xs) = length xs"
  by (simp add: corpse_def)

lemma corpse_eq_Nil [simp]: "corpse td xs = [] \<longleftrightarrow> xs = []"
  by (simp add: corpse_def)

lemma corpse_simps [simp]:
  "corpse td [] = []"
  "corpse td (x # xs) = (if td then Some x else None) # corpse td xs"
  "corpse td (xs @ ys) = corpse td xs @ corpse td ys"
  by (simp_all add: corpse_def replicate_add)

lemma construct_segment:
  assumes "p = length A" and "td \<or> c = None"
  shows "construct td p v (A @ c # B) = Inr (A @ Some v # B)"
  using assms by (auto simp: construct_def)

lemma destroy_at_segment:
  assumes "p = length A"
  shows "destroy_at td p (A @ Some x # B) = Inr (A @ corpse td [x] @ B)"
  using assms by (simp add: destroy_at_def)

lemma load_segment:
  assumes "p = length A"
  shows "load p (A @ Some x # B) = Inr x"
  using assms by (simp add: load_def)

lemma uninitialized_copy_segment:
  assumes "p = length A" and "length D = length xs" and "vacant td D"
  shows "uninitialized_copy td xs p (A @ D @ B) = Inr (A @ map Some xs @ B, p + length xs)"
  using assms
proof (induction xs arbitrary: A D p)
  case Nil
  then show ?case by simp
next
  case (Cons x xs)
  then obtain d D' where D: "D = d # D'" by (cases D) auto
  have "construct td p x (A @ d # D' @ B) = Inr ((A @ [Some x]) @ D' @ B)"
    using Cons.prems D by (simp add: construct_segment)
  moreover have "uninitialized_copy td xs (Suc p) ((A @ [Some x]) @ D' @ B)
      = Inr ((A @ [Some x]) @ map Some xs @ B, Suc p + length xs)"
    using Cons.prems D by (intro Cons.IH) auto
  ultimately show ?case using D by simp
qed

lemma destroy_n_segment:
  assumes "p = length A" and "n = length xs"
  shows "destroy_n td p n (A @ map Some xs @ B) = Inr (A @ corpse td xs @ B)"
  using assms
proof (induction xs arbitrary: A p n)
  case Nil
  then show ?case by simp
next
  case (Cons x xs)
  have "destroy_n td (Suc p) (length xs) ((A @ corpse td [x]) @ map Some xs @ B)
      = Inr ((A @ corpse td [x]) @ corpse td xs @ B)"
    using Cons.prems by (intro Cons.IH) auto
  with Cons.prems show ?case
    by (simp add: destroy_at_segment del: corpse_simps) (simp add: corpse_def)
qed

lemma destroy_range_segment:
  assumes "p = length A" and "q = length A + length xs"
  shows "destroy_range td p q (A @ map Some xs @ B) = Inr (A @ corpse td xs @ B)"
  using assms by (simp add: destroy_range_def destroy_n_segment)

lemma load_n_segment:
  assumes "p = length A" and "n = length xs"
  shows "load_n p n (A @ map Some xs @ B) = Inr xs"
  using assms
proof (induction xs arbitrary: A p n)
  case Nil
  then show ?case by simp
next
  case (Cons x xs)
  have "load_n (Suc p) (length xs) ((A @ [Some x]) @ map Some xs @ B) = Inr xs"
    using Cons.prems by (intro Cons.IH) auto
  with Cons.prems show ?case
    by (simp add: load_segment)
qed

lemma load_range_segment:
  assumes "p = length A" and "q = length A + length xs"
  shows "load_range p q (A @ map Some xs @ B) = Inr xs"
  using assms by (simp add: load_range_def load_n_segment)

lemma load_range_empty [simp]: "load_range p p m = Inr []"
  by (simp add: load_range_def)

lemma destroy_range_empty [simp]: "destroy_range td p p m = Inr m"
  by (simp add: destroy_range_def)

end
