(* ===== verification/Ring_Buffer.thy ===== *)
theory Ring_Buffer
  imports Cell_Memory
begin

text \<open>
  The model of \<open>rad::ring_buffer<T, Allocator>\<close> (\<open>src/include/rad/ring_buffer.h\<close>): its state
  and every element operation, in the order of the header. The block between
  \<open>storage_.start_ptr()\<close> and \<open>storage_.end_ptr()\<close> is the cell list \<open>cells\<close>; the pointers
  \<open>front_ptr_\<close> and \<open>back_ptr_\<close> are offsets from \<open>storage_.start_ptr()\<close>. A null block has no
  cells and its pointers, all null, have offset 0. The type parameter's
  \<open>std::is_trivially_destructible_v<T>\<close> is carried as \<open>trivial_dtor\<close>. Constructors of the
  element type do not throw in the model. Sizes are natural numbers: every size of the class
  is bounded by the capacity of an allocated block, so \<open>size_t\<close> does not wrap.
\<close>

section \<open>State\<close>

record 'a ring_buffer =
  trivial_dtor :: bool
  has_storage :: bool
  cells :: "'a cells"
  front_ptr :: nat
  back_ptr :: nat
  rb_count :: nat

section \<open>Observers\<close>

definition capacity :: "'a ring_buffer \<Rightarrow> nat" where
  "capacity rb = length (cells rb)"

definition end_ptr :: "'a ring_buffer \<Rightarrow> nat" where
  "end_ptr rb = length (cells rb)"

definition rb_size :: "'a ring_buffer \<Rightarrow> nat" where
  "rb_size rb = rb_count rb"

definition reserve :: "'a ring_buffer \<Rightarrow> nat" where
  "reserve rb = capacity rb - rb_size rb"

definition rb_empty :: "'a ring_buffer \<Rightarrow> bool" where
  "rb_empty rb \<longleftrightarrow> rb_size rb = 0"

definition full :: "'a ring_buffer \<Rightarrow> bool" where
  "full rb \<longleftrightarrow> rb_size rb = capacity rb"

definition is_linearized :: "'a ring_buffer \<Rightarrow> bool" where
  "is_linearized rb \<longleftrightarrow> back_ptr rb > front_ptr rb \<or> back_ptr rb = 0"

text \<open>\<open>get_array<1>\<close> and \<open>get_array<2>\<close>: the two spans as pairs of offsets.\<close>

definition get_array1 :: "bool \<Rightarrow> 'a ring_buffer \<Rightarrow> nat \<times> nat" where
  "get_array1 is_buffer_linearized rb =
     (if is_buffer_linearized then (front_ptr rb, front_ptr rb + rb_size rb)
      else (front_ptr rb, end_ptr rb))"

definition get_array2 :: "bool \<Rightarrow> 'a ring_buffer \<Rightarrow> nat \<times> nat" where
  "get_array2 is_buffer_linearized rb =
     (if is_buffer_linearized then (0, 0) else (0, back_ptr rb))"

definition array_one :: "'a ring_buffer \<Rightarrow> 'a list res" where
  "array_one rb = (let (p, q) = get_array1 (is_linearized rb) rb in load_range p q (cells rb))"

definition array_two :: "'a ring_buffer \<Rightarrow> 'a list res" where
  "array_two rb = (let (p, q) = get_array2 (is_linearized rb) rb in load_range p q (cells rb))"

section \<open>Pointer arithmetic\<close>

definition increment :: "'a ring_buffer \<Rightarrow> nat \<Rightarrow> nat" where
  "increment rb ptr = (let ptr' = Suc ptr in if ptr' = end_ptr rb then 0 else ptr')"

definition decrement :: "'a ring_buffer \<Rightarrow> nat \<Rightarrow> nat" where
  "decrement rb ptr = (let ptr' = (if ptr = 0 then end_ptr rb else ptr) in ptr' - 1)"

definition increment_back :: "'a ring_buffer \<Rightarrow> 'a ring_buffer" where
  "increment_back rb =
     rb\<lparr>back_ptr := increment rb (back_ptr rb), rb_count := rb_count rb + 1\<rparr>"

definition increment_front :: "'a ring_buffer \<Rightarrow> 'a ring_buffer" where
  "increment_front rb =
     rb\<lparr>front_ptr := increment rb (front_ptr rb), rb_count := rb_count rb - 1\<rparr>"

definition decrement_back :: "'a ring_buffer \<Rightarrow> 'a ring_buffer" where
  "decrement_back rb =
     rb\<lparr>back_ptr := decrement rb (back_ptr rb), rb_count := rb_count rb - 1\<rparr>"

definition reset_if_empty :: "'a ring_buffer \<Rightarrow> 'a ring_buffer" where
  "reset_if_empty rb = (if rb_count rb = 0 then rb\<lparr>front_ptr := 0, back_ptr := 0\<rparr> else rb)"

definition index_to_pointer :: "'a ring_buffer \<Rightarrow> nat \<Rightarrow> nat res" where
  "index_to_pointer rb i =
     bind_res (ensure (i < rb_size rb) Assertion) (\<lambda>_.
       if is_linearized rb then Inr (front_ptr rb + i)
       else let array_1_size = end_ptr rb - front_ptr rb in
         if i < array_1_size then Inr (front_ptr rb + i) else Inr (i - array_1_size))"

section \<open>Destruction\<close>

definition destroy_all :: "'a ring_buffer \<Rightarrow> 'a ring_buffer res" where
  "destroy_all rb =
     (if \<not> trivial_dtor rb \<and> \<not> rb_empty rb then
        let linearized = is_linearized rb;
            (p1, q1) = get_array1 linearized rb;
            (p2, q2) = get_array2 linearized rb
        in bind_res (destroy_range (trivial_dtor rb) p1 q1 (cells rb)) (\<lambda>m1.
           bind_res (destroy_range (trivial_dtor rb) p2 q2 m1) (\<lambda>m2.
           Inr (rb\<lparr>cells := m2\<rparr>)))
      else Inr rb)"

definition clear :: "'a ring_buffer \<Rightarrow> 'a ring_buffer res" where
  "clear rb =
     (if \<not> has_storage rb then Inr rb
      else bind_res (destroy_all rb) (\<lambda>rb1.
        Inr (rb1\<lparr>front_ptr := 0, back_ptr := 0, rb_count := 0\<rparr>)))"

section \<open>Removing single elements\<close>

definition pop_front_value :: "'a ring_buffer \<Rightarrow> ('a \<times> 'a ring_buffer) res" where
  "pop_front_value rb =
     bind_res (ensure (has_storage rb) Assertion) (\<lambda>_.
     bind_res (ensure (\<not> rb_empty rb) Assertion) (\<lambda>_.
     bind_res (load (front_ptr rb) (cells rb)) (\<lambda>value.
     bind_res (destroy_at (trivial_dtor rb) (front_ptr rb) (cells rb)) (\<lambda>m.
     Inr (value, reset_if_empty (increment_front (rb\<lparr>cells := m\<rparr>)))))))"

definition pop_front :: "'a ring_buffer \<Rightarrow> 'a ring_buffer res" where
  "pop_front rb =
     bind_res (ensure (has_storage rb) Assertion) (\<lambda>_.
     bind_res (ensure (\<not> rb_empty rb) Assertion) (\<lambda>_.
     bind_res (destroy_at (trivial_dtor rb) (front_ptr rb) (cells rb)) (\<lambda>m.
     Inr (reset_if_empty (increment_front (rb\<lparr>cells := m\<rparr>))))))"

definition try_pop_front_value :: "'a ring_buffer \<Rightarrow> ('a option \<times> 'a ring_buffer) res" where
  "try_pop_front_value rb =
     (if rb_empty rb then Inr (None, rb)
      else bind_res (pop_front_value rb) (\<lambda>(v, rb1). Inr (Some v, rb1)))"

definition try_pop_front :: "'a ring_buffer \<Rightarrow> (bool \<times> 'a ring_buffer) res" where
  "try_pop_front rb =
     (if rb_empty rb then Inr (False, rb)
      else bind_res (pop_front rb) (\<lambda>rb1. Inr (True, rb1)))"

definition pop_back_value :: "'a ring_buffer \<Rightarrow> ('a \<times> 'a ring_buffer) res" where
  "pop_back_value rb =
     bind_res (ensure (has_storage rb) Assertion) (\<lambda>_.
     bind_res (ensure (\<not> rb_empty rb) Assertion) (\<lambda>_.
     let rb1 = decrement_back rb in
     bind_res (load (back_ptr rb1) (cells rb1)) (\<lambda>value.
     bind_res (destroy_at (trivial_dtor rb1) (back_ptr rb1) (cells rb1)) (\<lambda>m.
     Inr (value, reset_if_empty (rb1\<lparr>cells := m\<rparr>))))))"

definition pop_back :: "'a ring_buffer \<Rightarrow> 'a ring_buffer res" where
  "pop_back rb =
     bind_res (ensure (has_storage rb) Assertion) (\<lambda>_.
     bind_res (ensure (\<not> rb_empty rb) Assertion) (\<lambda>_.
     let rb1 = decrement_back rb in
     bind_res (destroy_at (trivial_dtor rb1) (back_ptr rb1) (cells rb1)) (\<lambda>m.
     Inr (reset_if_empty (rb1\<lparr>cells := m\<rparr>)))))"

definition try_pop_back_value :: "'a ring_buffer \<Rightarrow> ('a option \<times> 'a ring_buffer) res" where
  "try_pop_back_value rb =
     (if rb_empty rb then Inr (None, rb)
      else bind_res (pop_back_value rb) (\<lambda>(v, rb1). Inr (Some v, rb1)))"

definition try_pop_back :: "'a ring_buffer \<Rightarrow> (bool \<times> 'a ring_buffer) res" where
  "try_pop_back rb =
     (if rb_empty rb then Inr (False, rb)
      else bind_res (pop_back rb) (\<lambda>rb1. Inr (True, rb1)))"

section \<open>Adding single elements\<close>

definition unchecked_emplace_back :: "'a \<Rightarrow> 'a ring_buffer \<Rightarrow> 'a ring_buffer res" where
  "unchecked_emplace_back v rb =
     bind_res (ensure (has_storage rb) Assertion) (\<lambda>_.
     bind_res (ensure (\<not> full rb) Assertion) (\<lambda>_.
     bind_res (construct (trivial_dtor rb) (back_ptr rb) v (cells rb)) (\<lambda>m.
     Inr (increment_back (rb\<lparr>cells := m\<rparr>)))))"

definition emplace_back :: "'a \<Rightarrow> 'a ring_buffer \<Rightarrow> 'a ring_buffer res" where
  "emplace_back v rb =
     bind_res (if full rb then pop_front rb else Inr rb) (unchecked_emplace_back v)"

definition try_emplace_back :: "'a \<Rightarrow> 'a ring_buffer \<Rightarrow> (bool \<times> 'a ring_buffer) res" where
  "try_emplace_back v rb =
     (if full rb then Inr (False, rb)
      else bind_res (unchecked_emplace_back v rb) (\<lambda>rb1. Inr (True, rb1)))"

definition unchecked_push_back :: "'a \<Rightarrow> 'a ring_buffer \<Rightarrow> 'a ring_buffer res" where
  "unchecked_push_back v rb = unchecked_emplace_back v rb"

definition push_back :: "'a \<Rightarrow> 'a ring_buffer \<Rightarrow> 'a ring_buffer res" where
  "push_back v rb = emplace_back v rb"

definition try_push_back :: "'a \<Rightarrow> 'a ring_buffer \<Rightarrow> (bool \<times> 'a ring_buffer) res" where
  "try_push_back v rb = try_emplace_back v rb"

section \<open>Adding a range\<close>

text \<open>
  The three outer branches of \<open>insert_back\<close>: the range fits into the free cells, the range is
  shorter than the capacity, the range is at least as long as the capacity. The input range
  \<open>[first, last)\<close> is the list of its values; \<open>first + n\<close> splits it after \<open>n\<close> values.
\<close>

definition insert_back_fits :: "'a list \<Rightarrow> 'a ring_buffer \<Rightarrow> ('a cells \<times> nat) res" where
  "insert_back_fits xs rb =
     (let td = trivial_dtor rb; m = cells rb in
      if front_ptr rb = 0 then
        bind_res (uninitialized_copy td xs (back_ptr rb) m) (\<lambda>(m1, b1).
          Inr (m1, if b1 = end_ptr rb then 0 else b1))
      else if back_ptr rb = 0 \<or> \<not> is_linearized rb then
        uninitialized_copy td xs (back_ptr rb) m
      else
        let end1 = min (length xs) (end_ptr rb - back_ptr rb) in
        bind_res (uninitialized_copy td (take end1 xs) (back_ptr rb) m) (\<lambda>(m1, b1).
          if end1 \<noteq> length xs then uninitialized_copy td (drop end1 xs) 0 m1
          else if b1 = end_ptr rb then Inr (m1, 0)
          else Inr (m1, b1)))"

definition insert_back_overwrites :: "'a list \<Rightarrow> 'a ring_buffer \<Rightarrow> ('a cells \<times> nat) res" where
  "insert_back_overwrites xs rb =
     (let td = trivial_dtor rb; m = cells rb; range_size = length xs;
          available_size = reserve rb
      in
      if front_ptr rb = 0 then
        bind_res (destroy_range td (front_ptr rb) (front_ptr rb + range_size - available_size) m)
          (\<lambda>m1. bind_res (uninitialized_copy td (take available_size xs) (back_ptr rb) m1)
          (\<lambda>(m2, _). uninitialized_copy td (drop available_size xs) 0 m2))
      else if back_ptr rb = 0 then
        bind_res (destroy_range td (front_ptr rb) (front_ptr rb + range_size - available_size) m)
          (uninitialized_copy td xs (back_ptr rb))
      else if \<not> is_linearized rb then
        let array1_size = end_ptr rb - front_ptr rb;
            range1 = range_size - available_size;
            to_copy = min range1 array1_size;
            range2 = range1 - to_copy;
            end1 = available_size + to_copy
        in
        bind_res (destroy_range td (front_ptr rb) (front_ptr rb + to_copy) m) (\<lambda>m1.
        bind_res (uninitialized_copy td (take end1 xs) (back_ptr rb) m1) (\<lambda>(m2, p).
          if range2 \<noteq> 0 then
            bind_res (destroy_range td 0 range2 m2) (uninitialized_copy td (drop end1 xs) 0)
          else if p = end_ptr rb then Inr (m2, 0)
          else Inr (m2, p)))
      else
        let end1 = end_ptr rb - back_ptr rb in
        bind_res (destroy_range td (front_ptr rb)
            (front_ptr rb + (range_size - available_size)) m) (\<lambda>m1.
        bind_res (uninitialized_copy td (take end1 xs) (back_ptr rb) m1) (\<lambda>(m2, _).
          uninitialized_copy td (drop end1 xs) 0 m2)))"

definition insert_back :: "'a list \<Rightarrow> 'a ring_buffer \<Rightarrow> 'a ring_buffer res" where
  "insert_back xs rb =
     bind_res (ensure (has_storage rb) Assertion) (\<lambda>_.
       let range_size = length xs; available_size = reserve rb; capacity_size = capacity rb in
       if available_size \<ge> range_size then
         bind_res (insert_back_fits xs rb) (\<lambda>(m1, b1).
           Inr (rb\<lparr>cells := m1, back_ptr := b1, rb_count := rb_count rb + range_size\<rparr>))
       else if range_size < capacity_size then
         bind_res (insert_back_overwrites xs rb) (\<lambda>(m1, p).
           Inr (rb\<lparr>cells := m1, front_ptr := p, back_ptr := p, rb_count := capacity_size\<rparr>))
       else
         bind_res (clear rb) (\<lambda>rb1.
         bind_res (uninitialized_copy (trivial_dtor rb1)
             (drop (range_size - capacity_size) xs) 0 (cells rb1)) (\<lambda>(m1, _).
           Inr (rb1\<lparr>cells := m1, rb_count := capacity_size\<rparr>))))"

section \<open>Removing a range\<close>

text \<open>The values moved to the output iterator are returned in the order they are written.\<close>

definition pop_front_n :: "nat \<Rightarrow> 'a ring_buffer \<Rightarrow> ('a list \<times> 'a ring_buffer) res" where
  "pop_front_n num0 rb =
     (let td = trivial_dtor rb; m = cells rb; num = min num0 (rb_size rb) in
      if num = 0 then Inr ([], rb)
      else bind_res
        (if is_linearized rb then
           bind_res (load_range (front_ptr rb) (front_ptr rb + num) m) (\<lambda>ret.
           bind_res (destroy_range td (front_ptr rb) (front_ptr rb + num) m) (\<lambda>m1.
           let f = front_ptr rb + num in
           Inr (ret, m1, if f = end_ptr rb then 0 else f)))
         else
           let (p1, q1) = get_array1 False rb; num1 = min num (q1 - p1) in
           bind_res (load_range p1 (p1 + num1) m) (\<lambda>ret1.
           bind_res (destroy_range td p1 (p1 + num1) m) (\<lambda>m1.
           let f = front_ptr rb + num1;
               f1 = (if f = end_ptr rb then 0 else f);
               rem = num - num1
           in if rem > 0 then
                let (p2, q2) = get_array2 False rb in
                bind_res (load_range p2 (p2 + rem) m1) (\<lambda>ret2.
                bind_res (destroy_range td p2 (p2 + rem) m1) (\<lambda>m2.
                Inr (ret1 @ ret2, m2, f1 + rem)))
              else Inr (ret1, m1, f1))))
        (\<lambda>(ret, m1, f1).
          Inr (ret, reset_if_empty
            (rb\<lparr>cells := m1, front_ptr := f1, rb_count := rb_count rb - num\<rparr>))))"

definition pop_back_n :: "nat \<Rightarrow> 'a ring_buffer \<Rightarrow> ('a list \<times> 'a ring_buffer) res" where
  "pop_back_n num0 rb =
     (let td = trivial_dtor rb; m = cells rb; num = min num0 (rb_size rb) in
      if num = 0 then Inr ([], rb)
      else bind_res
        (if is_linearized rb then
           let end_copy_ptr = (if back_ptr rb = 0 then end_ptr rb else back_ptr rb);
               b1 = end_copy_ptr - num
           in
           bind_res (load_range b1 end_copy_ptr m) (\<lambda>ret.
           bind_res (destroy_range td b1 end_copy_ptr m) (\<lambda>m1.
           Inr (ret, m1, b1)))
         else
           let (p2, q2) = get_array2 False rb;
               num1 = min num (q2 - p2);
               rem = num - num1;
               (p1, q1) = get_array1 False rb;
               start_copy1 = q1 - rem;
               start_copy2 = q2 - num1
           in
           bind_res (if rem > 0 then load_range start_copy1 q1 m else Inr []) (\<lambda>ret1.
           bind_res (load_range start_copy2 q2 m) (\<lambda>ret2.
           bind_res (destroy_range td start_copy2 q2 m) (\<lambda>m1.
           bind_res (if rem > 0 then destroy_range td start_copy1 (start_copy1 + rem) m1
                     else Inr m1) (\<lambda>m2.
           Inr (ret1 @ ret2, m2, start_copy2))))))
        (\<lambda>(ret, m1, b1).
          Inr (ret, reset_if_empty
            (rb\<lparr>cells := m1, back_ptr := b1, rb_count := rb_count rb - num\<rparr>))))"

section \<open>Element access\<close>

definition rb_front :: "'a ring_buffer \<Rightarrow> 'a res" where
  "rb_front rb =
     bind_res (ensure (has_storage rb) Assertion) (\<lambda>_.
     bind_res (ensure (\<not> rb_empty rb) Assertion) (\<lambda>_.
     load (front_ptr rb) (cells rb)))"

definition rb_back :: "'a ring_buffer \<Rightarrow> 'a res" where
  "rb_back rb =
     bind_res (ensure (has_storage rb) Assertion) (\<lambda>_.
     bind_res (ensure (\<not> rb_empty rb) Assertion) (\<lambda>_.
     load (decrement rb (back_ptr rb)) (cells rb)))"

definition subscript :: "'a ring_buffer \<Rightarrow> nat \<Rightarrow> 'a res" where
  "subscript rb index =
     bind_res (ensure (has_storage rb) Assertion) (\<lambda>_.
     bind_res (ensure (index < rb_size rb) Assertion) (\<lambda>_.
     bind_res (index_to_pointer rb index) (\<lambda>p. load p (cells rb))))"

definition rb_at :: "'a ring_buffer \<Rightarrow> nat \<Rightarrow> 'a res" where
  "rb_at rb index = (if index \<ge> rb_size rb then Inl Out_of_range else subscript rb index)"

section \<open>Linearization\<close>

definition move_one :: "bool \<Rightarrow> nat \<Rightarrow> nat \<Rightarrow> 'a cells \<Rightarrow> 'a cells res" where
  "move_one td src dst m =
     bind_res (load src m) (\<lambda>v. bind_res (construct td dst v m) (destroy_at td src))"

fun move_forward :: "bool \<Rightarrow> nat \<Rightarrow> nat \<Rightarrow> nat \<Rightarrow> 'a cells \<Rightarrow> 'a cells res" where
  "move_forward td src dst 0 m = Inr m"
| "move_forward td src dst (Suc n) m =
     bind_res (move_one td src dst m) (move_forward td (Suc src) (Suc dst) n)"

fun move_backward :: "bool \<Rightarrow> nat \<Rightarrow> nat \<Rightarrow> nat \<Rightarrow> 'a cells \<Rightarrow> 'a cells res" where
  "move_backward td src dst 0 m = Inr m"
| "move_backward td src dst (Suc n) m =
     bind_res (move_one td (src + n) (dst + n) m) (move_backward td src dst n)"

definition uninitialized_move_overlap ::
    "bool \<Rightarrow> nat \<Rightarrow> nat \<Rightarrow> nat \<Rightarrow> 'a cells \<Rightarrow> 'a cells res" where
  "uninitialized_move_overlap td first lst d_first m =
     (if first \<ge> lst \<or> d_first = first then Inr m
      else if d_first \<ge> lst \<or> d_first < first then
        move_forward td first d_first (lst - first) m
      else move_backward td first d_first (lst - first) m)"

text \<open>
  The loop of \<open>linearize\<close>, with \<open>reserve_size = Suc r\<close> (the code enters it with a positive
  reserve), \<open>array1 = [p1, q1)\<close> and the moving array 2 at \<open>[p2, p2 + n2)\<close>.
\<close>

function linearize_loop ::
    "bool \<Rightarrow> nat \<Rightarrow> nat \<Rightarrow> nat \<Rightarrow> nat \<Rightarrow> nat \<Rightarrow> nat \<Rightarrow> 'a cells \<Rightarrow> 'a cells res" where
  "linearize_loop td r p1 q1 p2 n2 new_array1 m =
     (if q1 \<le> p1 then Inr m
      else
        let shift_distance = min (Suc r) (q1 - p1) in
        bind_res (uninitialized_move_overlap td p2 (p2 + n2) (p2 + shift_distance) m) (\<lambda>m1.
        bind_res (load_range p1 (p1 + shift_distance) m1) (\<lambda>vs.
        bind_res (uninitialized_copy td vs new_array1 m1) (\<lambda>(m2, new_array1').
        bind_res (destroy_range td p1 (p1 + shift_distance) m2) (\<lambda>m3.
        linearize_loop td r (p1 + shift_distance) q1 (p2 + shift_distance) n2
          new_array1' m3)))))"
  by pat_completeness auto
termination
  by (relation "measure (\<lambda>(td, r, p1, q1, p2, n2, na, m). q1 - p1)") auto

declare linearize_loop.simps [simp del]

definition linearize :: "'a ring_buffer \<Rightarrow> (nat option \<times> 'a ring_buffer) res" where
  "linearize rb =
     (if rb_empty rb then Inr (None, rb)
      else if is_linearized rb then Inr (Some (front_ptr rb), rb)
      else
        let reserve_size = reserve rb in
        if reserve_size = 0 then
          bind_res (ensure (front_ptr rb = back_ptr rb \<and> front_ptr rb > 0) Assertion) (\<lambda>_.
          Inr (Some 0, rb\<lparr>cells := drop (front_ptr rb) (cells rb) @ take (front_ptr rb) (cells rb),
                          front_ptr := 0, back_ptr := 0\<rparr>))
        else
          let (p1, q1) = get_array1 False rb; (p2, q2) = get_array2 False rb in
          bind_res (linearize_loop (trivial_dtor rb) (reserve_size - 1) p1 q1 p2 (q2 - p2) 0
              (cells rb)) (\<lambda>m1.
          Inr (Some 0, rb\<lparr>cells := m1, front_ptr := 0, back_ptr := rb_size rb\<rparr>)))"

section \<open>Searching\<close>

fun find_range :: "('a \<Rightarrow> bool) \<Rightarrow> nat \<Rightarrow> nat \<Rightarrow> 'a cells \<Rightarrow> nat option res" where
  "find_range pred p 0 m = Inr None"
| "find_range pred p (Suc n) m =
     bind_res (load p m) (\<lambda>v. if pred v then Inr (Some p) else find_range pred (Suc p) n m)"

text \<open>An iterator is its \<open>ptr_\<close> member; \<open>None\<close> is the null pointer of \<open>end()\<close>.\<close>

definition find_if :: "('a \<Rightarrow> bool) \<Rightarrow> 'a ring_buffer \<Rightarrow> nat option res" where
  "find_if pred rb =
     (let linearized = is_linearized rb;
          (p1, q1) = get_array1 linearized rb;
          (p2, q2) = get_array2 linearized rb
      in bind_res (find_range pred p1 (q1 - p1) (cells rb)) (\<lambda>it.
         case it of Some p \<Rightarrow> Inr (Some p)
         | None \<Rightarrow> if linearized then Inr None
                   else find_range pred p2 (q2 - p2) (cells rb)))"

definition find_value :: "'a \<Rightarrow> 'a ring_buffer \<Rightarrow> nat option res" where
  "find_value value rb = find_if (\<lambda>v. v = value) rb"

lemmas rb_observers [op_defs] =
  capacity_def end_ptr_def rb_size_def reserve_def rb_empty_def full_def is_linearized_def
  get_array1_def get_array2_def increment_def decrement_def increment_back_def
  increment_front_def decrement_back_def reset_if_empty_def

end
