(* ===== verification/Ring_Layout.thy ===== *)
theory Ring_Layout
  imports Ring_Buffer
begin

text \<open>
  The representation invariant \<open>wf_ring\<close> of the ring buffer and its abstraction \<open>contents\<close>,
  the list of stored elements from the oldest to the newest. A well-formed ring has one of
  two layouts, the ones drawn in the header: \<open>linear\<close>, where the elements are one segment of
  the block, and \<open>wrapped\<close>, where they are a suffix and a prefix of it. Every proof about an
  operation starts from \<open>wf_ring_cases\<close> and ends with \<open>linear_wf\<close> or \<open>wrapped_wf\<close>.
\<close>

section \<open>Invariant and abstraction\<close>

definition live_cells :: "'a ring_buffer \<Rightarrow> 'a cells" where
  "live_cells rb =
     take (rb_count rb) (drop (front_ptr rb) (cells rb) @ take (front_ptr rb) (cells rb))"

definition spare_cells :: "'a ring_buffer \<Rightarrow> 'a cells" where
  "spare_cells rb =
     drop (rb_count rb) (drop (front_ptr rb) (cells rb) @ take (front_ptr rb) (cells rb))"

definition contents :: "'a ring_buffer \<Rightarrow> 'a list" where
  "contents rb = map the (live_cells rb)"

definition wf_ring :: "'a ring_buffer \<Rightarrow> bool" where
  "wf_ring rb \<longleftrightarrow>
     (\<not> has_storage rb \<longrightarrow> cells rb = []) \<and>
     rb_count rb \<le> length (cells rb) \<and>
     (if rb_count rb = 0 then front_ptr rb = 0 else front_ptr rb < length (cells rb)) \<and>
     back_ptr rb = (front_ptr rb + rb_count rb) mod length (cells rb) \<and>
     list_all (\<lambda>c. c \<noteq> None) (live_cells rb) \<and>
     vacant (trivial_dtor rb) (spare_cells rb)"

section \<open>The two layouts\<close>

definition linear :: "'a ring_buffer \<Rightarrow> 'a cells \<Rightarrow> 'a list \<Rightarrow> 'a cells \<Rightarrow> bool" where
  "linear rb A xs C \<longleftrightarrow>
     cells rb = A @ map Some xs @ C \<and> front_ptr rb = length A \<and> rb_count rb = length xs \<and>
     back_ptr rb = (if C = [] then 0 else length A + length xs) \<and>
     vacant (trivial_dtor rb) A \<and> vacant (trivial_dtor rb) C \<and>
     (xs = [] \<longrightarrow> A = []) \<and> (\<not> has_storage rb \<longrightarrow> cells rb = [])"

definition wrapped :: "'a ring_buffer \<Rightarrow> 'a list \<Rightarrow> 'a list \<Rightarrow> 'a cells \<Rightarrow> bool" where
  "wrapped rb ys zs G \<longleftrightarrow>
     cells rb = map Some zs @ G @ map Some ys \<and> ys \<noteq> [] \<and> zs \<noteq> [] \<and>
     front_ptr rb = length zs + length G \<and> back_ptr rb = length zs \<and>
     rb_count rb = length ys + length zs \<and>
     vacant (trivial_dtor rb) G \<and> has_storage rb"

lemma linear_wf:
  assumes "linear rb A xs C"
  shows "wf_ring rb" and "contents rb = xs"
proof -
  from assms have live: "live_cells rb = map Some xs" and spare: "spare_cells rb = C @ A"
    by (auto simp: linear_def live_cells_def spare_cells_def)
  have "back_ptr rb = (front_ptr rb + rb_count rb) mod length (cells rb)"
    using assms by (cases "C = []") (auto simp: linear_def)
  then show "wf_ring rb"
    using assms live spare by (auto simp: wf_ring_def linear_def list_all_iff)
  show "contents rb = xs"
    using live by (simp add: contents_def comp_def)
qed

lemma wrapped_wf:
  assumes "wrapped rb ys zs G"
  shows "wf_ring rb" and "contents rb = ys @ zs"
proof -
  from assms have "drop (front_ptr rb) (cells rb) = map Some ys"
    and "take (front_ptr rb) (cells rb) = map Some zs @ G"
    by (auto simp: wrapped_def)
  then have live: "live_cells rb = map Some (ys @ zs)" and spare: "spare_cells rb = G"
    using assms by (auto simp: wrapped_def live_cells_def spare_cells_def)
  have "front_ptr rb + rb_count rb = length zs + length (cells rb)"
    and lt: "length zs < length (cells rb)"
    using assms by (auto simp: wrapped_def)
  then have "(front_ptr rb + rb_count rb) mod length (cells rb) = length zs"
    by simp
  then have "back_ptr rb = (front_ptr rb + rb_count rb) mod length (cells rb)"
    using assms by (simp add: wrapped_def)
  then show "wf_ring rb"
    using assms live spare by (auto simp: wf_ring_def wrapped_def list_all_iff)
  show "contents rb = ys @ zs"
    using live by (simp add: contents_def comp_def)
qed

lemma live_segment: "list_all (\<lambda>c. c \<noteq> None) m \<Longrightarrow> m = map Some (map the m)"
  by (induction m) auto

lemma wf_ring_linear:
  assumes "wf_ring rb" and fit: "front_ptr rb + rb_count rb \<le> length (cells rb)"
  shows "linear rb (take (front_ptr rb) (cells rb)) (contents rb)
           (drop (front_ptr rb + rb_count rb) (cells rb))"
proof -
  let ?f = "front_ptr rb" and ?n = "rb_count rb" and ?m = "cells rb"
  have live: "live_cells rb = take ?n (drop ?f ?m)"
    and spare: "spare_cells rb = drop (?f + ?n) ?m @ take ?f ?m"
    using fit by (simp_all add: live_cells_def spare_cells_def add.commute)
  from assms(1) have "live_cells rb = map Some (contents rb)"
    unfolding contents_def by (intro live_segment) (simp add: wf_ring_def)
  then have "?m = take ?f ?m @ map Some (contents rb) @ drop (?f + ?n) ?m"
    using live by (metis add.commute append_take_drop_id drop_drop)
  moreover have "length (contents rb) = ?n"
    using fit live by (simp add: contents_def)
  moreover have "back_ptr rb = (if drop (?f + ?n) ?m = [] then 0 else ?f + ?n)"
    using assms by (auto simp: wf_ring_def)
  ultimately show ?thesis
    using assms spare unfolding linear_def wf_ring_def by (auto split: if_splits)
qed

lemma wf_ring_wrapped:
  assumes "wf_ring rb" and fit: "length (cells rb) < front_ptr rb + rb_count rb"
  shows "\<exists>ys zs G. contents rb = ys @ zs \<and> wrapped rb ys zs G"
proof -
  let ?f = "front_ptr rb" and ?n = "rb_count rb" and ?m = "cells rb"
  define k where "k = ?f + ?n - length ?m"
  have bounds: "?f < length ?m" "k \<le> ?f" "0 < k" "?n = (length ?m - ?f) + k" "?n \<le> length ?m"
    using assms by (auto simp: wf_ring_def k_def split: if_splits)
  have live: "live_cells rb = drop ?f ?m @ take k ?m"
    and spare: "spare_cells rb = drop k (take ?f ?m)"
    using bounds by (auto simp: live_cells_def spare_cells_def min_def)
  have all: "list_all (\<lambda>c. c \<noteq> None) (drop ?f ?m)" "list_all (\<lambda>c. c \<noteq> None) (take k ?m)"
    using assms(1) live by (auto simp: wf_ring_def)
  define ys zs where "ys = map the (drop ?f ?m)" and "zs = map the (take k ?m)"
  have Y: "map Some ys = drop ?f ?m" and Z: "map Some zs = take k ?m"
    unfolding ys_def zs_def by (rule live_segment [symmetric], fact all)+
  have len: "length ys = length ?m - ?f" "length zs = k"
    using bounds by (simp_all add: ys_def zs_def)
  define G where "G = drop k (take ?f ?m)"
  have "take k ?m = take k (take ?f ?m)"
    using bounds by (simp add: min_def)
  then have "take k ?m @ G = take ?f ?m"
    by (simp only: G_def append_take_drop_id)
  then have "map Some zs @ G @ map Some ys = take ?f ?m @ drop ?f ?m"
    by (simp only: Y Z append.assoc [symmetric])
  then have seg: "?m = map Some zs @ G @ map Some ys"
    by (simp only: append_take_drop_id)
  have "back_ptr rb = k"
    using assms(1) bounds by (auto simp: wf_ring_def mod_if)
  moreover have "?f = length zs + length G" and "?n = length ys + length zs"
    using bounds len by (simp_all add: G_def)
  moreover have "vacant (trivial_dtor rb) G"
    using assms(1) spare by (simp add: wf_ring_def G_def)
  moreover have "ys \<noteq> []" and "zs \<noteq> []" and "has_storage rb"
    using assms(1) bounds len by (auto simp: wf_ring_def)
  ultimately have "wrapped rb ys zs G"
    unfolding wrapped_def using seg len(2) by simp
  moreover have "contents rb = ys @ zs"
    by (simp add: contents_def live ys_def zs_def)
  ultimately show ?thesis by blast
qed

lemma wf_ring_cases [consumes 1, case_names linear wrapped]:
  assumes "wf_ring rb"
  obtains A C where "linear rb A (contents rb) C"
    | ys zs G where "contents rb = ys @ zs" and "wrapped rb ys zs G"
  using assms wf_ring_linear wf_ring_wrapped by (metis not_le)

section \<open>Observers under the invariant\<close>

lemma length_contents: "wf_ring rb \<Longrightarrow> length (contents rb) = rb_count rb"
  by (auto simp: wf_ring_def contents_def live_cells_def)

lemma rb_size_contents: "wf_ring rb \<Longrightarrow> rb_size rb = length (contents rb)"
  by (simp add: length_contents rb_size_def)

lemma rb_empty_contents: "wf_ring rb \<Longrightarrow> rb_empty rb \<longleftrightarrow> contents rb = []"
  by (simp add: rb_empty_def rb_size_contents)

lemma full_contents: "wf_ring rb \<Longrightarrow> full rb \<longleftrightarrow> length (contents rb) = capacity rb"
  by (simp add: full_def rb_size_contents)

lemma contents_le_capacity: "wf_ring rb \<Longrightarrow> length (contents rb) \<le> capacity rb"
  by (simp add: length_contents wf_ring_def capacity_def)

lemma linear_is_linearized: "linear rb A xs C \<Longrightarrow> is_linearized rb"
  by (cases xs) (auto simp: linear_def is_linearized_def)

lemma wrapped_not_linearized: "wrapped rb ys zs G \<Longrightarrow> \<not> is_linearized rb"
  by (auto simp: wrapped_def is_linearized_def)

lemma wf_storage: "wf_ring rb \<Longrightarrow> contents rb \<noteq> [] \<Longrightarrow> has_storage rb"
  using length_contents [of rb] by (auto simp: wf_ring_def)

lemma wf_storage_capacity: "wf_ring rb \<Longrightarrow> 0 < capacity rb \<Longrightarrow> has_storage rb"
  by (auto simp: wf_ring_def capacity_def)

end
