(* ===== verification/Ring_Single.thy ===== *)
theory Ring_Single
  imports Ring_Layout
begin

text \<open>
  The single-element operations of the ring buffer against the list they represent:
  \<open>becomes rb xs r\<close> says that the operation returned (no fault), that the resulting ring is
  well formed, that it holds exactly \<open>xs\<close> and that block and element type are unchanged.
\<close>

definition becomes :: "'a ring_buffer \<Rightarrow> 'a list \<Rightarrow> 'a ring_buffer res \<Rightarrow> bool" where
  "becomes rb xs r \<longleftrightarrow>
     (\<exists>rb'. r = Inr rb' \<and> wf_ring rb' \<and> contents rb' = xs \<and> capacity rb' = capacity rb \<and>
            trivial_dtor rb' = trivial_dtor rb \<and> has_storage rb' = has_storage rb)"

lemma becomesE:
  assumes "becomes rb xs r"
  obtains rb' where "r = Inr rb'" "wf_ring rb'" "contents rb' = xs" "capacity rb' = capacity rb"
    "trivial_dtor rb' = trivial_dtor rb" "has_storage rb' = has_storage rb"
  using assms by (auto simp: becomes_def)

lemma becomes_linear:
  assumes "r = Inr rb'" and "linear rb' A xs C" and "length (cells rb') = length (cells rb)"
    and "trivial_dtor rb' = trivial_dtor rb" and "has_storage rb' = has_storage rb"
  shows "becomes rb xs r"
  using assms linear_wf [OF assms(2)] by (auto simp: becomes_def capacity_def)

lemma becomes_wrapped:
  assumes "r = Inr rb'" and "wrapped rb' ys zs G" and "length (cells rb') = length (cells rb)"
    and "trivial_dtor rb' = trivial_dtor rb" and "has_storage rb' = has_storage rb"
    and "xs = ys @ zs"
  shows "becomes rb xs r"
  using assms wrapped_wf [OF assms(2)] by (auto simp: becomes_def capacity_def)

lemma becomes_refl: "wf_ring rb \<Longrightarrow> becomes rb (contents rb) (Inr rb)"
  by (simp add: becomes_def)

lemma becomes_bind:
  assumes "becomes rb xs m"
    and "\<And>rb'. wf_ring rb' \<Longrightarrow> contents rb' = xs \<Longrightarrow> capacity rb' = capacity rb \<Longrightarrow>
           has_storage rb' = has_storage rb \<Longrightarrow> becomes rb' ys (f rb')"
  shows "becomes rb ys (bind_res m f)"
proof -
  from assms(1) obtain rb' where rb': "m = Inr rb'" "wf_ring rb'" "contents rb' = xs"
    "capacity rb' = capacity rb" "trivial_dtor rb' = trivial_dtor rb"
    "has_storage rb' = has_storage rb"
    by (rule becomesE)
  with assms(2) [of rb'] show ?thesis
    by (auto simp: becomes_def)
qed

section \<open>Adding one element\<close>

lemma unchecked_emplace_back_linear:
  assumes lin: "linear rb A xs C" and st: "has_storage rb" and room: "length xs < capacity rb"
  shows "becomes rb (xs @ [v]) (unchecked_emplace_back v rb)"
proof (cases C)
  case (Cons c C')
  let ?rb = "increment_back (rb\<lparr>cells := (A @ map Some xs) @ Some v # C'\<rparr>)"
  have "construct (trivial_dtor rb) (back_ptr rb) v ((A @ map Some xs) @ c # C')
      = Inr ((A @ map Some xs) @ Some v # C')"
    using lin Cons by (intro construct_segment) (auto simp: linear_def)
  moreover have "cells rb = (A @ map Some xs) @ c # C'"
    using lin Cons by (simp add: linear_def)
  ultimately have "unchecked_emplace_back v rb = Inr ?rb"
    using st room lin by (simp add: unchecked_emplace_back_def full_def rb_size_def linear_def)
  moreover have "linear ?rb A (xs @ [v]) C'"
    using lin Cons st by (auto simp: linear_def op_defs)
  ultimately show ?thesis
    by (rule becomes_linear) (use lin Cons in \<open>auto simp: linear_def op_defs\<close>)
next
  case Nil
  then obtain a A' where A: "A = a # A'"
    using lin room by (cases A) (auto simp: linear_def capacity_def)
  let ?rb = "increment_back (rb\<lparr>cells := Some v # A' @ map Some xs\<rparr>)"
  have "construct (trivial_dtor rb) 0 v ([] @ a # A' @ map Some xs)
      = Inr ([] @ Some v # A' @ map Some xs)"
    using lin A by (intro construct_segment) (auto simp: linear_def)
  then have "unchecked_emplace_back v rb = Inr ?rb"
    using st room lin Nil A
    by (simp add: unchecked_emplace_back_def full_def rb_size_def linear_def)
  moreover have "wrapped ?rb xs [v] A'"
    using lin Nil A st by (auto simp: linear_def wrapped_def op_defs)
  ultimately show ?thesis
    by (rule becomes_wrapped) (use lin Nil A in \<open>auto simp: linear_def op_defs\<close>)
qed

lemma unchecked_emplace_back_wrapped:
  assumes wr: "wrapped rb ys zs G" and room: "length ys + length zs < capacity rb"
  shows "becomes rb ((ys @ zs) @ [v]) (unchecked_emplace_back v rb)"
proof -
  obtain g G' where G: "G = g # G'"
    using wr room by (cases G) (auto simp: wrapped_def capacity_def)
  let ?rb = "increment_back (rb\<lparr>cells := map Some zs @ Some v # G' @ map Some ys\<rparr>)"
  have "construct (trivial_dtor rb) (back_ptr rb) v (map Some zs @ g # G' @ map Some ys)
      = Inr (map Some zs @ Some v # G' @ map Some ys)"
    using wr G by (intro construct_segment) (auto simp: wrapped_def)
  then have "unchecked_emplace_back v rb = Inr ?rb"
    using room wr G
    by (simp add: unchecked_emplace_back_def full_def rb_size_def wrapped_def)
  moreover have "wrapped ?rb ys (zs @ [v]) G'"
    using wr G by (auto simp: wrapped_def op_defs)
  ultimately show ?thesis
    by (rule becomes_wrapped) (use wr G in \<open>auto simp: wrapped_def op_defs\<close>)
qed

lemma unchecked_emplace_back_becomes:
  assumes "wf_ring rb" and "length (contents rb) < capacity rb"
  shows "becomes rb (contents rb @ [v]) (unchecked_emplace_back v rb)"
  using assms(1)
proof (cases rule: wf_ring_cases)
  case (linear A C)
  with assms show ?thesis
    by (intro unchecked_emplace_back_linear) (auto intro: wf_storage_capacity)
next
  case (wrapped ys zs G)
  with assms show ?thesis
    using unchecked_emplace_back_wrapped by fastforce
qed

section \<open>Removing one element\<close>

lemma destroy_front_linear:
  assumes lin: "linear rb A (x # xs) C"
  shows "load (front_ptr rb) (cells rb) = Inr x"
    and "destroy_at (trivial_dtor rb) (front_ptr rb) (cells rb)
           = Inr (A @ corpse (trivial_dtor rb) [x] @ map Some xs @ C)"
  using lin by (simp_all add: linear_def load_segment destroy_at_segment del: corpse_simps)

lemma pop_front_linear:
  assumes lin: "linear rb A (x # xs) C"
  shows "becomes rb xs (Inr (reset_if_empty (increment_front
           (rb\<lparr>cells := A @ corpse (trivial_dtor rb) [x] @ map Some xs @ C\<rparr>))))"
proof (cases xs)
  case Nil
  then show ?thesis
    using lin
    by (intro becomes_linear [where A = "[]" and C = "A @ corpse (trivial_dtor rb) [x] @ C", OF refl])
      (auto simp: linear_def op_defs)
next
  case Cons
  then show ?thesis
    using lin
    by (intro becomes_linear [where A = "A @ corpse (trivial_dtor rb) [x]" and C = C, OF refl])
      (auto simp: linear_def op_defs)
qed

lemma destroy_front_wrapped:
  assumes wr: "wrapped rb (y # ys) zs G"
  shows "load (front_ptr rb) (cells rb) = Inr y"
    and "destroy_at (trivial_dtor rb) (front_ptr rb) (cells rb)
           = Inr (map Some zs @ (G @ corpse (trivial_dtor rb) [y]) @ map Some ys)"
proof -
  have c: "cells rb = (map Some zs @ G) @ Some y # map Some ys"
    using wr by (simp add: wrapped_def)
  have p: "front_ptr rb = length (map Some zs @ G)"
    using wr by (simp add: wrapped_def)
  show "load (front_ptr rb) (cells rb) = Inr y"
    unfolding c by (rule load_segment [OF p])
  show "destroy_at (trivial_dtor rb) (front_ptr rb) (cells rb)
      = Inr (map Some zs @ (G @ corpse (trivial_dtor rb) [y]) @ map Some ys)"
    unfolding c destroy_at_segment [OF p] by (simp only: append.assoc)
qed

lemma pop_front_wrapped:
  assumes wr: "wrapped rb (y # ys) zs G"
  shows "becomes rb (ys @ zs) (Inr (reset_if_empty (increment_front
           (rb\<lparr>cells := map Some zs @ (G @ corpse (trivial_dtor rb) [y]) @ map Some ys\<rparr>))))"
proof (cases ys)
  case Nil
  then show ?thesis
    using wr
    by (intro becomes_linear [where A = "[]" and C = "G @ corpse (trivial_dtor rb) [y]", OF refl])
      (auto simp: wrapped_def linear_def op_defs)
next
  case Cons
  then show ?thesis
    using wr
    by (intro becomes_wrapped [where ys = ys and zs = zs and
          G = "G @ corpse (trivial_dtor rb) [y]", OF refl])
      (auto simp: wrapped_def op_defs)
qed

lemma pop_front_value_becomes:
  assumes "wf_ring rb" and ne: "contents rb = x # xs"
  shows "\<exists>rb'. pop_front_value rb = Inr (x, rb') \<and> pop_front rb = Inr rb' \<and>
           becomes rb xs (Inr rb')"
proof -
  have st: "has_storage rb" "\<not> rb_empty rb"
    using assms by (auto simp: wf_storage rb_empty_contents)
  from assms(1) show ?thesis
  proof (cases rule: wf_ring_cases)
    case (linear A C)
    with ne have lin: "linear rb A (x # xs) C" by simp
    show ?thesis
      unfolding pop_front_value_def pop_front_def destroy_front_linear [OF lin]
      using st pop_front_linear [OF lin] by (simp del: corpse_simps)
  next
    case (wrapped ys zs G)
    then have "ys \<noteq> []" by (simp add: wrapped_def)
    then obtain y ys' where ys: "ys = y # ys'" by (rule length_neq_NilE)
    then have wr: "wrapped rb (x # ys') zs G" and xs: "xs = ys' @ zs"
      using ne wrapped by auto
    show ?thesis
      unfolding xs pop_front_value_def pop_front_def destroy_front_wrapped [OF wr]
      using st pop_front_wrapped [OF wr] by (simp del: corpse_simps)
  qed
qed

lemma back_cell_linear:
  assumes lin: "linear rb A (xs @ [x]) C"
  shows "decrement rb (back_ptr rb) = length A + length xs"
    and "load (length A + length xs) (cells rb) = Inr x"
    and "destroy_at (trivial_dtor rb) (length A + length xs) (cells rb)
           = Inr (A @ map Some xs @ corpse (trivial_dtor rb) [x] @ C)"
proof -
  have c: "cells rb = (A @ map Some xs) @ Some x # C"
    using lin by (simp add: linear_def)
  have p: "length A + length xs = length (A @ map Some xs)" by simp
  show "decrement rb (back_ptr rb) = length A + length xs"
    using lin by (auto simp: linear_def op_defs)
  show "load (length A + length xs) (cells rb) = Inr x"
    unfolding c by (rule load_segment [OF p])
  show "destroy_at (trivial_dtor rb) (length A + length xs) (cells rb)
      = Inr (A @ map Some xs @ corpse (trivial_dtor rb) [x] @ C)"
    unfolding c destroy_at_segment [OF p] by (simp only: append.assoc)
qed

lemma back_cell_wrapped:
  assumes wr: "wrapped rb ys (zs @ [z]) G"
  shows "decrement rb (back_ptr rb) = length zs"
    and "load (length zs) (cells rb) = Inr z"
    and "destroy_at (trivial_dtor rb) (length zs) (cells rb)
           = Inr (map Some zs @ (corpse (trivial_dtor rb) [z] @ G) @ map Some ys)"
proof -
  have c: "cells rb = map Some zs @ Some z # G @ map Some ys"
    using wr by (simp add: wrapped_def)
  have p: "length zs = length (map Some zs)" by simp
  show "decrement rb (back_ptr rb) = length zs"
    using wr by (auto simp: wrapped_def op_defs)
  show "load (length zs) (cells rb) = Inr z"
    unfolding c by (rule load_segment [OF p])
  show "destroy_at (trivial_dtor rb) (length zs) (cells rb)
      = Inr (map Some zs @ (corpse (trivial_dtor rb) [z] @ G) @ map Some ys)"
    unfolding c destroy_at_segment [OF p] by (simp only: append.assoc)
qed

lemma pop_back_linear:
  assumes lin: "linear rb A (xs @ [x]) C"
  shows "becomes rb xs (Inr (reset_if_empty (decrement_back rb
           \<lparr>cells := A @ map Some xs @ corpse (trivial_dtor rb) [x] @ C\<rparr>)))"
proof (cases xs)
  case Nil
  with lin back_cell_linear(1) [OF lin] show ?thesis
    by (intro becomes_linear [where A = "[]" and C = "A @ corpse (trivial_dtor rb) [x] @ C", OF refl])
      (auto simp: linear_def decrement_back_def reset_if_empty_def)
next
  case Cons
  with lin back_cell_linear(1) [OF lin] show ?thesis
    by (intro becomes_linear [where A = A and C = "corpse (trivial_dtor rb) [x] @ C", OF refl])
      (auto simp: linear_def decrement_back_def reset_if_empty_def)
qed

lemma pop_back_wrapped:
  assumes wr: "wrapped rb ys (zs @ [z]) G"
  shows "becomes rb (ys @ zs) (Inr (reset_if_empty (decrement_back rb
           \<lparr>cells := map Some zs @ (corpse (trivial_dtor rb) [z] @ G) @ map Some ys\<rparr>)))"
proof (cases zs)
  case Nil
  with wr back_cell_wrapped(1) [OF wr] show ?thesis
    by (intro becomes_linear [where A = "corpse (trivial_dtor rb) [z] @ G" and C = "[]", OF refl])
      (auto simp: linear_def wrapped_def decrement_back_def reset_if_empty_def)
next
  case Cons
  with wr back_cell_wrapped(1) [OF wr] show ?thesis
    by (intro becomes_wrapped [where ys = ys and zs = zs and
          G = "corpse (trivial_dtor rb) [z] @ G", OF refl])
      (auto simp: wrapped_def decrement_back_def reset_if_empty_def)
qed

lemma wrapped_snoc:
  assumes "wrapped rb ys zs G"
  obtains zs' z where "zs = zs' @ [z]"
  using assms by (cases zs rule: rev_cases) (auto simp: wrapped_def)

lemma pop_back_value_becomes:
  assumes "wf_ring rb" and ne: "contents rb = xs @ [x]"
  shows "\<exists>rb'. pop_back_value rb = Inr (x, rb') \<and> pop_back rb = Inr rb' \<and>
           rb_back rb = Inr x \<and> becomes rb xs (Inr rb')"
proof -
  have st: "has_storage rb" "\<not> rb_empty rb"
    using assms by (auto simp: wf_storage rb_empty_contents)
  have dec: "back_ptr (decrement_back rb) = decrement rb (back_ptr rb)"
    "cells (decrement_back rb) = cells rb" "trivial_dtor (decrement_back rb) = trivial_dtor rb"
    by (simp_all add: decrement_back_def)
  from assms(1) show ?thesis
  proof (cases rule: wf_ring_cases)
    case (linear A C)
    with ne have lin: "linear rb A (xs @ [x]) C" by simp
    show ?thesis
      unfolding pop_back_value_def pop_back_def rb_back_def Let_def dec back_cell_linear [OF lin]
      using st pop_back_linear [OF lin] by (simp del: corpse_simps)
  next
    case (wrapped ys zs G)
    then obtain zs' z where zs: "zs = zs' @ [z]" using wrapped_snoc by blast
    then have wr: "wrapped rb ys (zs' @ [x]) G" and xs: "xs = ys @ zs'"
      using ne wrapped by auto
    show ?thesis
      unfolding xs pop_back_value_def pop_back_def rb_back_def Let_def dec back_cell_wrapped [OF wr]
      using st pop_back_wrapped [OF wr] by (simp del: corpse_simps)
  qed
qed

section \<open>Access by index\<close>

lemma index_to_pointer_load:
  assumes "wf_ring rb" and i: "i < length (contents rb)"
  shows "\<exists>p. index_to_pointer rb i = Inr p \<and> p = (front_ptr rb + i) mod capacity rb \<and>
           load p (cells rb) = Inr (contents rb ! i)"
  using assms(1)
proof (cases rule: wf_ring_cases)
  case (linear A C)
  then have "load (length A + i) (cells rb) = Inr (contents rb ! i)"
    using i by (simp add: linear_def load_def nth_append)
  with linear i show ?thesis
    using linear_is_linearized [OF linear]
    by (simp add: index_to_pointer_def rb_size_def linear_def capacity_def)
next
  case (wrapped ys zs G)
  note not_lin = wrapped_not_linearized [OF wrapped(2)]
  show ?thesis
  proof (cases "i < length ys")
    case True
    then have "load (front_ptr rb + i) (cells rb) = Inr (contents rb ! i)"
      using wrapped by (simp add: wrapped_def load_def nth_append)
    with True wrapped i not_lin show ?thesis
      by (simp add: index_to_pointer_def rb_size_def end_ptr_def wrapped_def capacity_def)
  next
    case False
    with i wrapped have k: "i - length ys < length zs" by simp
    then have "load (i - length ys) (cells rb) = Inr (contents rb ! i)"
      using wrapped False by (simp add: wrapped_def load_def nth_append)
    moreover have eq: "front_ptr rb + i = (i - length ys) + length (cells rb)"
      and lt: "i - length ys < length (cells rb)"
      using wrapped False k by (auto simp: wrapped_def)
    have "(front_ptr rb + i) mod capacity rb = i - length ys"
      unfolding capacity_def eq mod_add_self2 using lt by (rule mod_less)
    ultimately show ?thesis
      using False wrapped i not_lin
      by (simp add: index_to_pointer_def rb_size_def end_ptr_def wrapped_def)
  qed
qed

lemma subscript_contents:
  assumes "wf_ring rb" and "i < length (contents rb)"
  shows "subscript rb i = Inr (contents rb ! i)"
proof -
  have "has_storage rb" using assms by (auto intro: wf_storage)
  with index_to_pointer_load [OF assms] assms show ?thesis
    by (auto simp: subscript_def rb_size_contents)
qed

lemma rb_front_contents:
  assumes "wf_ring rb" and "contents rb = x # xs"
  shows "rb_front rb = Inr x"
proof -
  have "has_storage rb" "\<not> rb_empty rb"
    using assms by (auto simp: wf_storage rb_empty_contents)
  moreover have "load (front_ptr rb) (cells rb) = Inr x"
  proof -
    obtain p where "p = (front_ptr rb + 0) mod capacity rb" and "load p (cells rb) = Inr x"
      using index_to_pointer_load [OF assms(1), of 0] assms(2) by auto
    moreover have "front_ptr rb < capacity rb"
      using assms length_contents [OF assms(1)]
      by (auto simp: wf_ring_def capacity_def split: if_splits)
    ultimately show ?thesis by simp
  qed
  ultimately show ?thesis by (simp add: rb_front_def)
qed

end
