(* ===== verification/Ring_Insert.thy ===== *)
theory Ring_Insert
  imports Ring_Single
begin

text \<open>
  \<open>clear\<close> and \<open>insert_back\<close>: after inserting a range the ring holds the newest elements of
  the old contents followed by the range, as many as the capacity allows. One lemma per
  branch of the code and layout of the ring; \<open>becomes_full\<close> closes the branches that leave the
  ring full.
\<close>

section \<open>Clearing\<close>

lemma becomes_cleared:
  assumes "has_storage rb" and "length m = length (cells rb)" and "vacant (trivial_dtor rb) m"
  shows "becomes rb [] (Inr (rb\<lparr>cells := m, front_ptr := 0, back_ptr := 0, rb_count := 0\<rparr>))"
  by (rule becomes_linear [where A = "[]" and C = m, OF refl])
    (use assms in \<open>auto simp: linear_def\<close>)

lemma destroy_all_cells:
  assumes "wf_ring rb"
  shows "\<exists>m. destroy_all rb = Inr (rb\<lparr>cells := m\<rparr>) \<and> length m = length (cells rb) \<and>
           vacant (trivial_dtor rb) m"
proof (cases "\<not> trivial_dtor rb \<and> \<not> rb_empty rb")
  case False
  moreover have "vacant (trivial_dtor rb) (cells rb)" if "rb_empty rb"
    using that assms by (auto simp: wf_ring_def rb_empty_def rb_size_def spare_cells_def)
  moreover have "vacant (trivial_dtor rb) (cells rb)" if "trivial_dtor rb"
    using that by simp
  ultimately have "destroy_all rb = Inr (rb\<lparr>cells := cells rb\<rparr>)"
    and "vacant (trivial_dtor rb) (cells rb)"
    unfolding destroy_all_def by auto
  then show ?thesis by blast
next
  case True
  from assms show ?thesis
  proof (cases rule: wf_ring_cases)
    case (linear A C)
    define xs where "xs = contents rb"
    have "destroy_range (trivial_dtor rb) (length A) (length A + length xs)
        (A @ map Some xs @ C) = Inr (A @ corpse (trivial_dtor rb) xs @ C)"
      by (rule destroy_range_segment) simp_all
    then have "destroy_all rb = Inr (rb\<lparr>cells := A @ corpse (trivial_dtor rb) xs @ C\<rparr>)"
      using linear_is_linearized [OF linear] linear True unfolding xs_def
      by (simp add: destroy_all_def get_array1_def get_array2_def linear_def rb_size_def)
    with linear show ?thesis
      unfolding xs_def by (auto simp: linear_def)
  next
    case (wrapped ys zs G)
    have "destroy_range (trivial_dtor rb) (length zs + length G)
        (length zs + (length G + length ys)) ((map Some zs @ G) @ map Some ys @ [])
        = Inr ((map Some zs @ G) @ corpse (trivial_dtor rb) ys @ [])"
      by (rule destroy_range_segment) simp_all
    moreover have "destroy_range (trivial_dtor rb) 0 (length zs)
        ([] @ map Some zs @ (G @ corpse (trivial_dtor rb) ys))
        = Inr ([] @ corpse (trivial_dtor rb) zs @ (G @ corpse (trivial_dtor rb) ys))"
      by (rule destroy_range_segment) simp_all
    ultimately have "destroy_all rb = Inr (rb\<lparr>cells :=
        corpse (trivial_dtor rb) zs @ G @ corpse (trivial_dtor rb) ys\<rparr>)"
      using wrapped True wrapped_not_linearized [OF wrapped(2)]
      by (simp add: destroy_all_def get_array1_def get_array2_def wrapped_def rb_size_def
          end_ptr_def)
    with wrapped show ?thesis
      by (auto simp: wrapped_def)
  qed
qed

lemma clear_becomes:
  assumes "wf_ring rb"
  shows "becomes rb [] (clear rb)"
proof (cases "has_storage rb")
  case True
  obtain m where m: "destroy_all rb = Inr (rb\<lparr>cells := m\<rparr>)" "length m = length (cells rb)"
    "vacant (trivial_dtor rb) m"
    using destroy_all_cells [OF assms] by blast
  with True show ?thesis
    using becomes_cleared [OF True m(2,3)] by (simp add: clear_def)
next
  case False
  then have "contents rb = []" using assms wf_storage by blast
  then have "becomes rb [] (Inr rb)" using becomes_refl [OF assms] by simp
  with False show ?thesis by (simp add: clear_def)
qed

lemma clear_pointers:
  assumes "wf_ring rb" and "has_storage rb"
  shows "\<exists>m. clear rb = Inr (rb\<lparr>cells := m, front_ptr := 0, back_ptr := 0, rb_count := 0\<rparr>) \<and>
           length m = length (cells rb) \<and> vacant (trivial_dtor rb) m"
  using destroy_all_cells [OF assms(1)] assms(2) by (auto simp: clear_def)

section \<open>The range fits\<close>

abbreviation with_back :: "'a ring_buffer \<Rightarrow> nat \<Rightarrow> 'a cells \<times> nat \<Rightarrow> 'a ring_buffer res" where
  "with_back rb n \<equiv> \<lambda>(m1, b1).
     Inr (rb\<lparr>cells := m1, back_ptr := b1, rb_count := rb_count rb + n\<rparr>)"

lemma insert_fits_at_start:
  assumes lin: "linear rb [] ys C" and st: "has_storage rb" and fit: "length xs \<le> length C"
  shows "becomes rb (ys @ xs) (bind_res (insert_back_fits xs rb) (with_back rb (length xs)))"
proof (cases "C = []")
  case True
  then have xs: "xs = []" using fit by simp
  have "insert_back_fits xs rb = Inr (cells rb, 0)"
    using lin True xs by (simp add: insert_back_fits_def linear_def end_ptr_def)
  then show ?thesis
    by (simp only: bind_res_simps prod.case, intro becomes_linear [where A = "[]" and C = "[]", OF refl])
      (use lin True xs st in \<open>auto simp: linear_def\<close>)
next
  case False
  from fit obtain D C' where C: "C = D @ C'" "length D = length xs" by (rule split_append)
  have "uninitialized_copy (trivial_dtor rb) xs (length ys) (map Some ys @ D @ C')
      = Inr (map Some ys @ map Some xs @ C', length ys + length xs)"
    using lin C by (intro uninitialized_copy_segment) (auto simp: linear_def)
  moreover have "front_ptr rb = 0" "back_ptr rb = length ys" "cells rb = map Some ys @ D @ C'"
    using lin C False by (auto simp: linear_def)
  ultimately have "insert_back_fits xs rb = Inr (map Some ys @ map Some xs @ C',
      if length ys + length xs = end_ptr rb then 0 else length ys + length xs)"
    by (simp add: insert_back_fits_def)
  then show ?thesis
    by (simp only: bind_res_simps prod.case, intro becomes_linear [where A = "[]" and C = C', OF refl])
      (use lin C st in \<open>auto simp: linear_def end_ptr_def\<close>)
qed

lemma insert_fits_before:
  assumes lin: "linear rb A ys []" and st: "has_storage rb" and A: "A \<noteq> []"
    and fit: "length xs \<le> length A"
  shows "becomes rb (ys @ xs) (bind_res (insert_back_fits xs rb) (with_back rb (length xs)))"
proof -
  from fit obtain D A' where D: "A = D @ A'" "length D = length xs" by (rule split_append)
  have "uninitialized_copy (trivial_dtor rb) xs 0 ([] @ D @ (A' @ map Some ys))
      = Inr ([] @ map Some xs @ (A' @ map Some ys), 0 + length xs)"
    using lin D by (intro uninitialized_copy_segment) (auto simp: linear_def)
  moreover have "front_ptr rb \<noteq> 0" "back_ptr rb = 0" "cells rb = D @ A' @ map Some ys"
    using lin A D by (auto simp: linear_def)
  ultimately have eq: "insert_back_fits xs rb = Inr (map Some xs @ A' @ map Some ys, length xs)"
    by (simp add: insert_back_fits_def)
  show ?thesis
  proof (cases "xs = []")
    case True
    then show ?thesis
      unfolding eq by (simp only: bind_res_simps prod.case, intro becomes_linear [where A = A and C = "[]", OF refl])
        (use lin D st A in \<open>auto simp: linear_def\<close>)
  next
    case False
    then show ?thesis
      unfolding eq
      by (simp only: bind_res_simps prod.case, intro becomes_wrapped [where ys = ys and zs = xs and G = A', OF refl])
        (use lin D st A in \<open>auto simp: linear_def wrapped_def\<close>)
  qed
qed

lemma insert_fits_middle:
  assumes lin: "linear rb A ys C" and st: "has_storage rb" and ne: "A \<noteq> []" "C \<noteq> []"
    and fit: "length xs \<le> length A + length C"
  shows "becomes rb (ys @ xs) (bind_res (insert_back_fits xs rb) (with_back rb (length xs)))"
proof -
  have b: "back_ptr rb = length A + length ys" "end_ptr rb - back_ptr rb = length C"
    "\<not> (back_ptr rb = 0 \<or> \<not> is_linearized rb)" "front_ptr rb \<noteq> 0"
    using lin ne linear_is_linearized [OF lin] by (auto simp: linear_def end_ptr_def)
  have c: "cells rb = (A @ map Some ys) @ C" using lin by (simp add: linear_def)
  show ?thesis
  proof (cases "length xs \<le> length C")
    case True
    then obtain D C' where D: "C = D @ C'" "length D = length xs" by (rule split_append)
    have "uninitialized_copy (trivial_dtor rb) xs (back_ptr rb) ((A @ map Some ys) @ D @ C')
        = Inr ((A @ map Some ys) @ map Some xs @ C', back_ptr rb + length xs)"
      using lin D b by (intro uninitialized_copy_segment) (auto simp: linear_def)
    then have "insert_back_fits xs rb = Inr ((A @ map Some ys) @ map Some xs @ C',
        if back_ptr rb + length xs = end_ptr rb then 0 else back_ptr rb + length xs)"
      using True b(2-4) c D(1)
      by (simp add: insert_back_fits_def min_absorb1 del: append_assoc)
    then show ?thesis
      by (simp only: bind_res_simps prod.case, intro becomes_linear [where A = A and C = C', OF refl])
        (use lin D st ne in \<open>auto simp: linear_def end_ptr_def\<close>)
  next
    case False
    define k where "k = length C"
    have k: "k < length xs" "min (length xs) (length C) = k" using False by (auto simp: k_def)
    have "length (drop k xs) \<le> length A" using fit by (simp add: k_def)
    then obtain D A' where D: "A = D @ A'" "length D = length (drop k xs)" by (rule split_append)
    have "uninitialized_copy (trivial_dtor rb) (take k xs) (back_ptr rb) ((A @ map Some ys) @ C @ [])
        = Inr ((A @ map Some ys) @ map Some (take k xs) @ [], back_ptr rb + length (take k xs))"
      using lin k b by (intro uninitialized_copy_segment) (auto simp: linear_def k_def)
    moreover have "uninitialized_copy (trivial_dtor rb) (drop k xs) 0
          ([] @ D @ (A' @ map Some ys @ map Some (take k xs)))
        = Inr ([] @ map Some (drop k xs) @ (A' @ map Some ys @ map Some (take k xs)),
            0 + length (drop k xs))"
      using lin D by (intro uninitialized_copy_segment) (auto simp: linear_def)
    ultimately have "insert_back_fits xs rb
        = Inr (map Some (drop k xs) @ A' @ map Some (ys @ take k xs), length (drop k xs))"
      using b(2-4) c D(1) k by (simp add: insert_back_fits_def)
    then show ?thesis
      by (simp only: bind_res_simps prod.case, intro becomes_wrapped
          [where ys = "ys @ take k xs" and zs = "drop k xs" and G = A', OF refl])
        (use lin D st ne k in \<open>auto simp: linear_def wrapped_def k_def\<close>)
  qed
qed

lemma insert_fits_wrapped:
  assumes wr: "wrapped rb ys zs G" and fit: "length xs \<le> length G"
  shows "becomes rb ((ys @ zs) @ xs)
           (bind_res (insert_back_fits xs rb) (with_back rb (length xs)))"
proof -
  from fit obtain D G' where D: "G = D @ G'" "length D = length xs" by (rule split_append)
  have "uninitialized_copy (trivial_dtor rb) xs (length zs) (map Some zs @ D @ (G' @ map Some ys))
      = Inr (map Some zs @ map Some xs @ (G' @ map Some ys), length zs + length xs)"
    using wr D by (intro uninitialized_copy_segment) (auto simp: wrapped_def)
  then have "insert_back_fits xs rb
      = Inr (map Some zs @ map Some xs @ G' @ map Some ys, length zs + length xs)"
    using wr D wrapped_not_linearized [OF wr] by (simp add: insert_back_fits_def wrapped_def)
  then show ?thesis
    by (simp only: bind_res_simps prod.case, intro becomes_wrapped [where ys = ys and zs = "zs @ xs" and G = G', OF refl])
      (use wr D in \<open>auto simp: wrapped_def\<close>)
qed

lemma insert_back_fits_becomes:
  assumes "wf_ring rb" and st: "has_storage rb" and fit: "length xs \<le> reserve rb"
  shows "becomes rb (contents rb @ xs)
           (bind_res (insert_back_fits xs rb) (with_back rb (length xs)))"
  using assms(1)
proof (cases rule: wf_ring_cases)
  case (linear A C)
  then have "reserve rb = length A + length C"
    by (simp add: reserve_def capacity_def rb_size_def linear_def)
  with fit have fit': "length xs \<le> length A + length C" by simp
  show ?thesis
  proof (cases "A = []")
    case True
    with linear fit' st show ?thesis by (intro insert_fits_at_start) auto
  next
    case A: False
    show ?thesis
    proof (cases "C = []")
      case True
      with linear A fit' st show ?thesis by (intro insert_fits_before) auto
    next
      case False
      with linear A fit' st show ?thesis by (intro insert_fits_middle) auto
    qed
  qed
next
  case (wrapped ys zs G)
  then have "reserve rb = length G"
    by (simp add: reserve_def capacity_def rb_size_def wrapped_def)
  with wrapped fit show ?thesis
    using insert_fits_wrapped by fastforce
qed

section \<open>The range overwrites the oldest elements\<close>

abbreviation with_full :: "'a ring_buffer \<Rightarrow> 'a cells \<times> nat \<Rightarrow> 'a ring_buffer res" where
  "with_full rb \<equiv> \<lambda>(m1, p).
     Inr (rb\<lparr>cells := m1, front_ptr := p, back_ptr := p, rb_count := capacity rb\<rparr>)"

lemma becomes_full:
  assumes "r = Inr (map Some zs @ map Some ws, p)" and "p = length zs" and "ws \<noteq> []"
    and "length zs + length ws = capacity rb" and "has_storage rb" and "xs = ws @ zs"
  shows "becomes rb xs (bind_res r (with_full rb))"
proof (cases "zs = []")
  case True
  with assms show ?thesis
    by (simp only: bind_res_simps prod.case,
        intro becomes_linear [where A = "[]" and C = "[]", OF refl])
      (auto simp: linear_def capacity_def)
next
  case False
  with assms show ?thesis
    by (simp only: bind_res_simps prod.case,
        intro becomes_wrapped [where ys = ws and zs = zs and G = "[]", OF refl])
      (auto simp: wrapped_def capacity_def)
qed

lemma overwrite_at_start:
  assumes lin: "linear rb [] ys C" and st: "has_storage rb"
    and big: "length C < length xs" "length xs < capacity rb"
  shows "becomes rb (drop (length xs - length C) ys @ xs)
           (bind_res (insert_back_overwrites xs rb) (with_full rb))"
proof -
  let ?td = "trivial_dtor rb" and ?a = "length C"
  define r where "r = length xs - ?a"
  have sz: "reserve rb = ?a" "capacity rb = length ys + ?a" "front_ptr rb = 0"
    using lin by (auto simp: linear_def reserve_def capacity_def rb_size_def)
  have r: "r < length ys" "length (drop ?a xs) = r" using big sz by (auto simp: r_def)
  obtain y1 y2 where ys: "ys = y1 @ y2" "length y1 = r"
    using r by (meson split_append less_imp_le)
  have "destroy_range ?td 0 (length xs - ?a) ([] @ map Some y1 @ (map Some y2 @ C))
      = Inr ([] @ corpse ?td y1 @ (map Some y2 @ C))"
    using ys by (intro destroy_range_segment) (auto simp: r_def)
  moreover have "\<exists>q. uninitialized_copy ?td (take ?a xs) (back_ptr rb)
        ((corpse ?td y1 @ map Some y2) @ C @ [])
      = Inr ((corpse ?td y1 @ map Some y2) @ map Some (take ?a xs) @ [], q)"
  proof (cases "C = []")
    case False
    then show ?thesis
      using lin ys big
      by (intro exI [where x = "back_ptr rb + length (take ?a xs)"] uninitialized_copy_segment)
        (auto simp: linear_def)
  qed simp
  moreover have "uninitialized_copy ?td (drop ?a xs) 0
        ([] @ corpse ?td y1 @ (map Some y2 @ map Some (take ?a xs)))
      = Inr ([] @ map Some (drop ?a xs) @ (map Some y2 @ map Some (take ?a xs)),
          0 + length (drop ?a xs))"
    using ys r by (intro uninitialized_copy_segment) auto
  moreover have "cells rb = map Some y1 @ map Some y2 @ C"
    using lin ys by (simp add: linear_def)
  ultimately have "insert_back_overwrites xs rb
      = Inr (map Some (drop ?a xs) @ map Some (y2 @ take ?a xs), r)"
    using sz r by (auto simp: insert_back_overwrites_def Let_def)
  then show ?thesis
    by (rule becomes_full) (use ys r sz st big in \<open>auto simp: r_def\<close>)
qed

lemma overwrite_before:
  assumes lin: "linear rb A ys []" and st: "has_storage rb" and A: "A \<noteq> []"
    and big: "length A < length xs" "length xs < capacity rb"
  shows "becomes rb (drop (length xs - length A) ys @ xs)
           (bind_res (insert_back_overwrites xs rb) (with_full rb))"
proof -
  let ?td = "trivial_dtor rb"
  define r where "r = length xs - length A"
  have sz: "reserve rb = length A" "capacity rb = length A + length ys" "front_ptr rb = length A"
    "back_ptr rb = 0" "front_ptr rb \<noteq> 0"
    using lin A by (auto simp: linear_def reserve_def capacity_def rb_size_def)
  have r: "r < length ys" "length A + r = length xs" using big sz by (auto simp: r_def)
  obtain y1 y2 where ys: "ys = y1 @ y2" "length y1 = r"
    using r by (meson split_append less_imp_le)
  have "destroy_range ?td (length A) (length A + length xs - length A)
        (A @ map Some y1 @ map Some y2) = Inr (A @ corpse ?td y1 @ map Some y2)"
    using ys r by (intro destroy_range_segment) auto
  moreover have "uninitialized_copy ?td xs 0 ([] @ (A @ corpse ?td y1) @ map Some y2)
      = Inr ([] @ map Some xs @ map Some y2, 0 + length xs)"
    using ys r lin by (intro uninitialized_copy_segment) (auto simp: linear_def)
  moreover have "cells rb = A @ map Some y1 @ map Some y2"
    using lin ys by (simp add: linear_def)
  ultimately have "insert_back_overwrites xs rb = Inr (map Some xs @ map Some y2, length xs)"
    using sz A by (auto simp: insert_back_overwrites_def Let_def)
  then show ?thesis
    by (rule becomes_full) (use ys r sz st big in \<open>auto simp: r_def\<close>)
qed

lemma overwrite_middle:
  assumes lin: "linear rb A ys C" and st: "has_storage rb" and ne: "A \<noteq> []" "C \<noteq> []"
    and big: "length A + length C < length xs" "length xs < capacity rb"
  shows "becomes rb (drop (length xs - (length A + length C)) ys @ xs)
           (bind_res (insert_back_overwrites xs rb) (with_full rb))"
proof -
  let ?td = "trivial_dtor rb" and ?c = "length C"
  define r where "r = length xs - (length A + ?c)"
  have sz: "reserve rb = length A + ?c" "capacity rb = length A + length ys + ?c"
    "front_ptr rb = length A" "back_ptr rb = length A + length ys" "back_ptr rb \<noteq> 0"
    "front_ptr rb \<noteq> 0" "is_linearized rb" "end_ptr rb - back_ptr rb = ?c"
    using lin ne linear_is_linearized [OF lin]
    by (auto simp: linear_def reserve_def capacity_def rb_size_def end_ptr_def)
  have r: "r < length ys" "length A + r = length (drop ?c xs)" using big sz by (auto simp: r_def)
  obtain y1 y2 where ys: "ys = y1 @ y2" "length y1 = r"
    using r by (meson split_append less_imp_le)
  have "destroy_range ?td (length A) (length A + (length xs - (length A + ?c)))
        (A @ map Some y1 @ (map Some y2 @ C)) = Inr (A @ corpse ?td y1 @ (map Some y2 @ C))"
    using ys r by (intro destroy_range_segment) (auto simp: r_def)
  moreover have "uninitialized_copy ?td (take ?c xs) (back_ptr rb)
        ((A @ corpse ?td y1 @ map Some y2) @ C @ [])
      = Inr ((A @ corpse ?td y1 @ map Some y2) @ map Some (take ?c xs) @ [],
          back_ptr rb + length (take ?c xs))"
    using lin ys big sz(4) by (intro uninitialized_copy_segment) (auto simp: linear_def)
  moreover have "uninitialized_copy ?td (drop ?c xs) 0
        ([] @ (A @ corpse ?td y1) @ (map Some y2 @ map Some (take ?c xs)))
      = Inr ([] @ map Some (drop ?c xs) @ (map Some y2 @ map Some (take ?c xs)),
          0 + length (drop ?c xs))"
    using ys r lin by (intro uninitialized_copy_segment) (auto simp: linear_def)
  moreover have "cells rb = A @ map Some y1 @ map Some y2 @ C"
    using lin ys by (simp add: linear_def)
  ultimately have "insert_back_overwrites xs rb
      = Inr (map Some (drop ?c xs) @ map Some (y2 @ take ?c xs), length (drop ?c xs))"
    using sz(1,3) sz(5-8) by (simp add: insert_back_overwrites_def Let_def)
  then show ?thesis
    by (rule becomes_full) (use ys r sz st big in \<open>auto simp: r_def\<close>)
qed

lemma overwrite_wrapped_array1:
  assumes wr: "wrapped rb ys zs G" and big: "length G < length xs"
    and small: "length xs - length G \<le> length ys"
  shows "becomes rb (drop (length xs - length G) (ys @ zs) @ xs)
           (bind_res (insert_back_overwrites xs rb) (with_full rb))"
proof -
  let ?td = "trivial_dtor rb"
  define r where "r = length xs - length G"
  have sz: "reserve rb = length G" "capacity rb = length zs + (length G + length ys)"
    "front_ptr rb = length zs + length G" "back_ptr rb = length zs" "back_ptr rb \<noteq> 0"
    "front_ptr rb \<noteq> 0" "\<not> is_linearized rb" "end_ptr rb - front_ptr rb = length ys"
    "end_ptr rb = length zs + (length G + length ys)" "has_storage rb"
    using wr wrapped_not_linearized [OF wr]
    by (auto simp: wrapped_def reserve_def capacity_def rb_size_def end_ptr_def)
  have r: "r \<le> length ys" "length G + r = length xs" "min r (length ys) = r"
    using big small by (auto simp: r_def)
  obtain y1 y2 where ys: "ys = y1 @ y2" "length y1 = r"
    using r(1) by (rule split_append)
  have "destroy_range ?td (length zs + length G) (length zs + length G + r)
        ((map Some zs @ G) @ map Some y1 @ map Some y2)
      = Inr ((map Some zs @ G) @ corpse ?td y1 @ map Some y2)"
    using ys by (intro destroy_range_segment) auto
  moreover have "uninitialized_copy ?td xs (length zs)
        (map Some zs @ (G @ corpse ?td y1) @ map Some y2)
      = Inr (map Some zs @ map Some xs @ map Some y2, length zs + length xs)"
    using ys r wr by (intro uninitialized_copy_segment) (auto simp: wrapped_def)
  moreover have "cells rb = map Some zs @ G @ map Some y1 @ map Some y2"
    using wr ys by (simp add: wrapped_def)
  ultimately have eq: "insert_back_overwrites xs rb = Inr (map Some (zs @ xs) @ map Some y2,
      if length zs + length xs = end_ptr rb then 0 else length zs + length xs)"
    using sz(1,3,4,6,7,8) sz(5) r(2,3)
    by (simp add: insert_back_overwrites_def Let_def r_def [symmetric])
  show ?thesis
  proof (cases "y2 = []")
    case True
    with eq have "insert_back_overwrites xs rb = Inr (map Some [] @ map Some (zs @ xs), 0)"
      using sz(9) r ys by simp
    then show ?thesis
      by (rule becomes_full) (use True ys r sz wr in \<open>auto simp: r_def wrapped_def\<close>)
  next
    case False
    with eq have "insert_back_overwrites xs rb
        = Inr (map Some (zs @ xs) @ map Some y2, length (zs @ xs))"
      using sz(9) r ys by auto
    then show ?thesis
      by (rule becomes_full) (use False ys r sz in \<open>auto simp: r_def\<close>)
  qed
qed

lemma overwrite_wrapped_array2:
  assumes wr: "wrapped rb ys zs G" and big: "length ys < length xs - length G"
    and small: "length xs < capacity rb"
  shows "becomes rb (drop (length xs - length G) (ys @ zs) @ xs)
           (bind_res (insert_back_overwrites xs rb) (with_full rb))"
proof -
  let ?td = "trivial_dtor rb"
  define e r where "e = length G + length ys" and "r = length xs - e"
  have sz: "reserve rb = length G" "capacity rb = length zs + (length G + length ys)"
    "front_ptr rb = length zs + length G" "back_ptr rb = length zs" "back_ptr rb \<noteq> 0"
    "front_ptr rb \<noteq> 0" "\<not> is_linearized rb" "end_ptr rb - front_ptr rb = length ys"
    "has_storage rb"
    using wr wrapped_not_linearized [OF wr]
    by (auto simp: wrapped_def reserve_def capacity_def rb_size_def end_ptr_def)
  have r: "0 < r" "r < length zs" "length (drop e xs) = r" "length (take e xs) = e"
    "min (length xs - length G) (length ys) = length ys"
    "length xs - length G - length ys = r"
    using big small sz(2) by (auto simp: r_def e_def)
  obtain z1 z2 where zs: "zs = z1 @ z2" "length z1 = r"
    using r(2) by (meson split_append less_imp_le)
  have "destroy_range ?td (length zs + length G) (length zs + length G + length ys)
        ((map Some zs @ G) @ map Some ys @ []) = Inr ((map Some zs @ G) @ corpse ?td ys @ [])"
    by (intro destroy_range_segment) auto
  moreover have "uninitialized_copy ?td (take e xs) (length zs)
        (map Some zs @ (G @ corpse ?td ys) @ [])
      = Inr (map Some zs @ map Some (take e xs) @ [], length zs + length (take e xs))"
    using r wr by (intro uninitialized_copy_segment) (auto simp: wrapped_def e_def)
  moreover have "destroy_range ?td 0 r ([] @ map Some z1 @ (map Some z2 @ map Some (take e xs)))
      = Inr ([] @ corpse ?td z1 @ (map Some z2 @ map Some (take e xs)))"
    using zs by (intro destroy_range_segment) auto
  then have "destroy_range ?td 0 r (map Some zs @ map Some (take e xs))
      = Inr (corpse ?td z1 @ map Some z2 @ map Some (take e xs))"
    using zs(1) by simp
  moreover have "uninitialized_copy ?td (drop e xs) 0
        ([] @ corpse ?td z1 @ (map Some z2 @ map Some (take e xs)))
      = Inr ([] @ map Some (drop e xs) @ (map Some z2 @ map Some (take e xs)),
          0 + length (drop e xs))"
    using zs r by (intro uninitialized_copy_segment) auto
  moreover have "cells rb = map Some zs @ G @ map Some ys"
    using wr by (simp add: wrapped_def)
  ultimately have "insert_back_overwrites xs rb
      = Inr (map Some (drop e xs) @ map Some (z2 @ take e xs), r)"
    using sz(1,3,4,7,8) r(1,3,4) wr big
    by (simp add: insert_back_overwrites_def Let_def r(5) e_def [symmetric] r_def [symmetric]
        wrapped_def
        del: length_drop length_take)
  then show ?thesis
    by (rule becomes_full) (use zs r sz wr in \<open>auto simp: e_def r_def wrapped_def\<close>)
qed

lemma insert_back_overwrites_becomes:
  assumes "wf_ring rb" and st: "has_storage rb"
    and big: "reserve rb < length xs" "length xs < capacity rb"
  shows "becomes rb (drop (length xs - reserve rb) (contents rb) @ xs)
           (bind_res (insert_back_overwrites xs rb) (with_full rb))"
  using assms(1)
proof (cases rule: wf_ring_cases)
  case (linear A C)
  then have rs: "reserve rb = length A + length C"
    by (simp add: reserve_def capacity_def rb_size_def linear_def)
  consider "A = []" | "A \<noteq> []" "C = []" | "A \<noteq> []" "C \<noteq> []" by blast
  then show ?thesis
  proof cases
    case 1
    with linear big st rs show ?thesis using overwrite_at_start [of rb _ C xs] by simp
  next
    case 2
    with linear big st rs show ?thesis using overwrite_before [of rb A _ xs] by simp
  next
    case 3
    with linear big st rs show ?thesis using overwrite_middle [of rb A _ C xs] by simp
  qed
next
  case (wrapped ys zs G)
  then have rs: "reserve rb = length G"
    by (simp add: reserve_def capacity_def rb_size_def wrapped_def)
  with wrapped big show ?thesis
    using overwrite_wrapped_array1 [OF wrapped(2), of xs]
      overwrite_wrapped_array2 [OF wrapped(2), of xs]
    by (cases "length xs - length G \<le> length ys") simp_all
qed

section \<open>Inserting a range\<close>

lemma insert_back_becomes:
  assumes wf: "wf_ring rb" and st: "has_storage rb"
  shows "becomes rb
           (drop (length (contents rb) + length xs - capacity rb) (contents rb @ xs))
           (insert_back xs rb)"
proof -
  have rs: "reserve rb = capacity rb - length (contents rb)"
    "length (contents rb) \<le> capacity rb"
    using wf by (simp_all add: reserve_def rb_size_contents contents_le_capacity)
  consider (fits) "length xs \<le> reserve rb"
    | (over) "reserve rb < length xs" "length xs < capacity rb"
    | (all) "reserve rb < length xs" "capacity rb \<le> length xs"
    by linarith
  then show ?thesis
  proof cases
    case fits
    with insert_back_fits_becomes [OF wf st fits] rs st show ?thesis
      by (simp add: insert_back_def)
  next
    case over
    have "drop (length (contents rb) + length xs - capacity rb) (contents rb @ xs)
        = drop (length xs - reserve rb) (contents rb) @ xs"
      using rs over by (simp add: add.commute)
    with insert_back_overwrites_becomes [OF wf st over] over st show ?thesis
      by (simp add: insert_back_def)
  next
    case all
    obtain m where m: "clear rb = Inr (rb\<lparr>cells := m, front_ptr := 0, back_ptr := 0, rb_count := 0\<rparr>)"
      "length m = length (cells rb)" "vacant (trivial_dtor rb) m"
      using clear_pointers [OF wf st] by blast
    let ?xs = "drop (length xs - capacity rb) xs"
    have "uninitialized_copy (trivial_dtor rb) ?xs 0 ([] @ m @ [])
        = Inr ([] @ map Some ?xs @ [], 0 + length ?xs)"
      using m all by (intro uninitialized_copy_segment) (auto simp: capacity_def)
    then have "insert_back xs rb = Inr (rb\<lparr>cells := map Some ?xs, front_ptr := 0, back_ptr := 0,
        rb_count := capacity rb\<rparr>)"
      using m all st by (simp add: insert_back_def Let_def)
    moreover have "drop (length (contents rb) + length xs - capacity rb) (contents rb @ xs) = ?xs"
      using all rs by simp
    ultimately show ?thesis
      by (simp, intro becomes_linear [where A = "[]" and C = "[]", OF refl])
        (use all st in \<open>auto simp: linear_def capacity_def\<close>)
  qed
qed

end
