(* ===== verification/Ring_Range.thy ===== *)
theory Ring_Range
  imports Ring_Insert
begin

text \<open>
  Removing ranges at either end, searching, and \<open>linearize\<close>. \<open>pop_back_n_wrapped_bug\<close> shows what
  the range form of \<open>pop_back\<close> does when the range reaches from the second array into the
  first: the values are right, the back pointer is left at the start of the block.
\<close>

section \<open>Removing a range at the front\<close>

lemma pop_front_n_linear:
  assumes lin: "linear rb A xs C" and n: "0 < n" "n \<le> length xs"
  shows "\<exists>rb'. pop_front_n n rb = Inr (take n xs, rb') \<and> becomes rb (drop n xs) (Inr rb')"
proof -
  let ?td = "trivial_dtor rb"
  from n(2) obtain x1 x2 where xs: "xs = x1 @ x2" "length x1 = n" by (rule split_append)
  have c: "cells rb = A @ map Some x1 @ map Some x2 @ C" using lin xs by (simp add: linear_def)
  have ptr: "front_ptr rb = length A" "rb_count rb = length xs" "is_linearized rb"
    using lin linear_is_linearized [OF lin] by (simp_all add: linear_def)
  define rb' where "rb' = reset_if_empty (rb\<lparr>cells := A @ corpse ?td x1 @ map Some x2 @ C,
    front_ptr := if length A + n = end_ptr rb then 0 else length A + n,
    rb_count := length xs - n\<rparr>)"
  have "load_range (length A) (length A + n) (cells rb) = Inr x1"
    unfolding c using xs by (intro load_range_segment) auto
  moreover have "destroy_range ?td (length A) (length A + n) (cells rb)
      = Inr (A @ corpse ?td x1 @ map Some x2 @ C)"
    unfolding c using xs by (intro destroy_range_segment) auto
  ultimately have "pop_front_n n rb = Inr (x1, rb')"
    using ptr n by (simp add: pop_front_n_def rb_size_def rb'_def min_absorb1)
  moreover have "becomes rb x2 (Inr rb')"
  proof (cases "x2 = []")
    case True
    then show ?thesis
      unfolding rb'_def
      by (intro becomes_linear [where A = "[]" and C = "A @ corpse ?td x1 @ C", OF refl])
        (use lin xs n in \<open>auto simp: linear_def reset_if_empty_def\<close>)
  next
    case False
    then show ?thesis
      unfolding rb'_def
      by (intro becomes_linear [where A = "A @ corpse ?td x1" and C = C, OF refl])
        (use lin xs n in \<open>auto simp: linear_def reset_if_empty_def end_ptr_def\<close>)
  qed
  ultimately show ?thesis using xs by simp
qed

lemma pop_front_n_array1:
  assumes wr: "wrapped rb ys zs G" and n: "0 < n" "n \<le> length ys"
  shows "\<exists>rb'. pop_front_n n rb = Inr (take n ys, rb') \<and>
           becomes rb (drop n ys @ zs) (Inr rb')"
proof -
  let ?td = "trivial_dtor rb"
  from n(2) obtain y1 y2 where ys: "ys = y1 @ y2" "length y1 = n" by (rule split_append)
  have c: "cells rb = (map Some zs @ G) @ map Some y1 @ map Some y2"
    using wr ys by (simp add: wrapped_def)
  have ptr: "front_ptr rb = length zs + length G" "rb_count rb = length ys + length zs"
    "\<not> is_linearized rb" "end_ptr rb - front_ptr rb = length ys"
    "end_ptr rb = length zs + (length G + length ys)"
    using wr wrapped_not_linearized [OF wr] by (simp_all add: wrapped_def end_ptr_def)
  define rb' where "rb' = reset_if_empty (rb\<lparr>cells := (map Some zs @ G) @ corpse ?td y1 @ map Some y2,
    front_ptr := if front_ptr rb + n = end_ptr rb then 0 else front_ptr rb + n,
    rb_count := rb_count rb - n\<rparr>)"
  have "load_range (front_ptr rb) (front_ptr rb + n) (cells rb) = Inr y1"
    unfolding c using ys ptr by (intro load_range_segment) auto
  moreover have "destroy_range ?td (front_ptr rb) (front_ptr rb + n) (cells rb)
      = Inr ((map Some zs @ G) @ corpse ?td y1 @ map Some y2)"
    unfolding c using ys ptr by (intro destroy_range_segment) auto
  ultimately have "pop_front_n n rb = Inr (y1, rb')"
    using ptr(2-4) n
    by (simp add: pop_front_n_def rb_size_def rb'_def min_absorb1 get_array1_def Let_def
        del: append_assoc)
  moreover have "becomes rb (y2 @ zs) (Inr rb')"
  proof (cases "y2 = []")
    case True
    then show ?thesis
      unfolding rb'_def
      by (intro becomes_linear [where A = "[]" and C = "G @ corpse ?td y1", OF refl])
        (use wr ys n ptr in \<open>auto simp: linear_def wrapped_def reset_if_empty_def\<close>)
  next
    case False
    then have "front_ptr rb + n \<noteq> end_ptr rb" using ptr ys by auto
    with False show ?thesis
      unfolding rb'_def
      by (intro becomes_wrapped [where ys = y2 and zs = zs and G = "G @ corpse ?td y1", OF refl])
        (use wr ys n in \<open>auto simp: wrapped_def reset_if_empty_def\<close>)
  qed
  ultimately show ?thesis using ys by simp
qed

lemma pop_front_n_array2:
  assumes wr: "wrapped rb ys zs G" and n: "length ys < n" "n \<le> length ys + length zs"
  shows "\<exists>rb'. pop_front_n n rb = Inr (ys @ take (n - length ys) zs, rb') \<and>
           becomes rb (drop (n - length ys) zs) (Inr rb')"
proof -
  let ?td = "trivial_dtor rb"
  define k where "k = n - length ys"
  have k: "0 < k" "k \<le> length zs" using n by (auto simp: k_def)
  from k(2) obtain z1 z2 where zs: "zs = z1 @ z2" "length z1 = k" by (rule split_append)
  have c: "cells rb = (map Some zs @ G) @ map Some ys @ []"
    using wr by (simp add: wrapped_def)
  have ptr: "front_ptr rb = length zs + length G" "rb_count rb = length ys + length zs"
    "\<not> is_linearized rb" "end_ptr rb - front_ptr rb = length ys"
    "front_ptr rb + length ys = end_ptr rb"
    using wr wrapped_not_linearized [OF wr] by (simp_all add: wrapped_def end_ptr_def)
  define m1 where "m1 = [] @ map Some z1 @ (map Some z2 @ G @ corpse ?td ys)"
  define m2 where "m2 = [] @ corpse ?td z1 @ (map Some z2 @ G @ corpse ?td ys)"
  define rb' where
    "rb' = reset_if_empty (rb\<lparr>cells := m2, front_ptr := k, rb_count := rb_count rb - n\<rparr>)"
  have l1: "load_range (front_ptr rb) (front_ptr rb + length ys) (cells rb) = Inr ys"
    unfolding c using ptr by (intro load_range_segment) auto
  have "destroy_range ?td (front_ptr rb) (front_ptr rb + length ys) (cells rb)
      = Inr ((map Some zs @ G) @ corpse ?td ys @ [])"
    unfolding c using ptr by (intro destroy_range_segment) auto
  then have d1: "destroy_range ?td (front_ptr rb) (front_ptr rb + length ys) (cells rb) = Inr m1"
    using zs by (simp add: m1_def)
  have l2: "load_range 0 k m1 = Inr z1"
    unfolding m1_def using zs by (intro load_range_segment) auto
  have d2: "destroy_range ?td 0 k m1 = Inr m2"
    unfolding m1_def m2_def using zs by (intro destroy_range_segment) auto
  have "pop_front_n n rb = Inr (ys @ z1, rb')"
    using ptr(2-4) n k(1) l1 d1 l2 d2
    by (simp add: pop_front_n_def rb_size_def rb'_def min_absorb1 min_absorb2 get_array1_def
        get_array2_def Let_def ptr(5) k_def [symmetric])
  moreover have "becomes rb z2 (Inr rb')"
  proof (cases "z2 = []")
    case True
    then show ?thesis
      unfolding rb'_def m2_def
      by (intro becomes_linear [where A = "[]" and C = "corpse ?td z1 @ G @ corpse ?td ys", OF refl])
        (use wr zs n in \<open>auto simp: linear_def wrapped_def reset_if_empty_def k_def\<close>)
  next
    case False
    then show ?thesis
      unfolding rb'_def m2_def
      by (intro becomes_linear [where A = "corpse ?td z1" and C = "G @ corpse ?td ys", OF refl])
        (use wr zs n k in \<open>auto simp: linear_def wrapped_def reset_if_empty_def k_def\<close>)
  qed
  ultimately show ?thesis using zs by (simp add: k_def)
qed

lemma pop_front_n_min: "pop_front_n n rb = pop_front_n (min n (rb_size rb)) rb"
  by (simp add: pop_front_n_def)

lemma pop_front_n_becomes:
  assumes "wf_ring rb"
  shows "\<exists>rb'. pop_front_n n rb = Inr (take n (contents rb), rb') \<and>
           becomes rb (drop n (contents rb)) (Inr rb')"
proof -
  define k where "k = min n (length (contents rb))"
  have td: "take n (contents rb) = take k (contents rb)" "drop n (contents rb) = drop k (contents rb)"
    by (auto simp: k_def min_def)
  have eq: "pop_front_n n rb = pop_front_n k rb"
    using pop_front_n_min [of n rb] assms by (simp add: k_def rb_size_contents)
  show ?thesis
  proof (cases "k = 0")
    case True
    then have "pop_front_n k rb = Inr ([], rb)" by (simp add: pop_front_n_def)
    with True becomes_refl [OF assms] show ?thesis unfolding eq td by simp
  next
    case False
    then have k: "0 < k" "k \<le> length (contents rb)" by (auto simp: k_def)
    from assms show ?thesis
    proof (cases rule: wf_ring_cases)
      case (linear A C)
      then show ?thesis unfolding eq td using k by (rule pop_front_n_linear)
    next
      case (wrapped ys zs G)
      show ?thesis
        unfolding eq td using pop_front_n_array1 [OF wrapped(2) k(1)]
          pop_front_n_array2 [OF wrapped(2), of k] k wrapped(1)
        by (cases "k \<le> length ys") simp_all
    qed
  qed
qed

section \<open>Removing a range at the back\<close>

lemma pop_back_n_linear:
  assumes lin: "linear rb A (x1 @ x2) C" and n: "x2 \<noteq> []"
  shows "\<exists>rb'. pop_back_n (length x2) rb = Inr (x2, rb') \<and> becomes rb x1 (Inr rb')"
proof -
  let ?td = "trivial_dtor rb"
  have c: "cells rb = (A @ map Some x1) @ map Some x2 @ C" using lin by (simp add: linear_def)
  have ptr: "rb_count rb = length x1 + length x2" "is_linearized rb"
    "(if back_ptr rb = 0 then end_ptr rb else back_ptr rb) = length A + length x1 + length x2"
    using lin n linear_is_linearized [OF lin] by (auto simp: linear_def end_ptr_def)
  define e b where "e = length A + length x1 + length x2" and "b = length A + length x1"
  define rb' where "rb' = reset_if_empty (rb\<lparr>cells := (A @ map Some x1) @ corpse ?td x2 @ C,
    back_ptr := b, rb_count := length x1\<rparr>)"
  have "load_range b e (cells rb) = Inr x2"
    unfolding c by (intro load_range_segment) (auto simp: e_def b_def)
  moreover have "destroy_range ?td b e (cells rb) = Inr ((A @ map Some x1) @ corpse ?td x2 @ C)"
    unfolding c by (intro destroy_range_segment) (auto simp: e_def b_def)
  moreover have "e - length x2 = b" by (simp add: e_def b_def)
  ultimately have "pop_back_n (length x2) rb = Inr (x2, rb')"
    using ptr(1,2) n
    by (simp add: pop_back_n_def rb_size_def rb'_def ptr(3) e_def [symmetric] Let_def)
  moreover have "becomes rb x1 (Inr rb')"
  proof (cases "x1 = []")
    case True
    then show ?thesis
      unfolding rb'_def
      by (intro becomes_linear [where A = "[]" and C = "A @ corpse ?td x2 @ C", OF refl])
        (use lin n in \<open>auto simp: linear_def reset_if_empty_def\<close>)
  next
    case False
    then show ?thesis
      unfolding rb'_def
      by (intro becomes_linear [where A = A and C = "corpse ?td x2 @ C", OF refl])
        (use lin n in \<open>auto simp: linear_def reset_if_empty_def b_def\<close>)
  qed
  ultimately show ?thesis by blast
qed

lemma pop_back_n_array2:
  assumes wr: "wrapped rb ys (z1 @ z2) G" and n: "z2 \<noteq> []"
  shows "\<exists>rb'. pop_back_n (length z2) rb = Inr (z2, rb') \<and> becomes rb (ys @ z1) (Inr rb')"
proof -
  let ?td = "trivial_dtor rb"
  have c: "cells rb = map Some z1 @ map Some z2 @ (G @ map Some ys)"
    using wr by (simp add: wrapped_def)
  have ptr: "rb_count rb = length ys + (length z1 + length z2)" "\<not> is_linearized rb"
    "back_ptr rb = length z1 + length z2"
    using wr wrapped_not_linearized [OF wr] by (auto simp: wrapped_def)
  define rb' where "rb' = reset_if_empty (rb\<lparr>cells := map Some z1 @ corpse ?td z2 @ (G @ map Some ys),
    back_ptr := length z1, rb_count := length ys + length z1\<rparr>)"
  have "load_range (length z1) (length z1 + length z2) (cells rb) = Inr z2"
    unfolding c by (intro load_range_segment) auto
  moreover have "destroy_range ?td (length z1) (length z1 + length z2) (cells rb)
      = Inr (map Some z1 @ corpse ?td z2 @ (G @ map Some ys))"
    unfolding c by (intro destroy_range_segment) auto
  ultimately have "pop_back_n (length z2) rb = Inr (z2, rb')"
    using ptr n
    by (simp add: pop_back_n_def rb_size_def rb'_def Let_def get_array2_def get_array1_def)
  moreover have "becomes rb (ys @ z1) (Inr rb')"
  proof (cases "z1 = []")
    case True
    then show ?thesis
      unfolding rb'_def
      by (intro becomes_linear [where A = "corpse ?td z2 @ G" and C = "[]", OF refl])
        (use wr n in \<open>auto simp: linear_def wrapped_def reset_if_empty_def\<close>)
  next
    case False
    then show ?thesis
      unfolding rb'_def
      by (intro becomes_wrapped [where ys = ys and zs = z1 and G = "corpse ?td z2 @ G", OF refl])
        (use wr n in \<open>auto simp: wrapped_def reset_if_empty_def\<close>)
  qed
  ultimately show ?thesis by blast
qed

lemma pop_back_n_both_arrays:
  assumes wr: "wrapped rb (y1 @ y2) zs G" and n: "y2 \<noteq> []"
  shows "pop_back_n (length y2 + length zs) rb = Inr (y2 @ zs, reset_if_empty
    (rb\<lparr>cells := corpse (trivial_dtor rb) zs @ G @ map Some y1 @ corpse (trivial_dtor rb) y2,
       back_ptr := 0, rb_count := length y1\<rparr>))"
proof -
  let ?td = "trivial_dtor rb"
  define p where "p = length zs + length G + length y1"
  have c1: "cells rb = (map Some zs @ G @ map Some y1) @ map Some y2 @ []"
    using wr by (simp add: wrapped_def)
  have c2: "cells rb = [] @ map Some zs @ (G @ map Some y1 @ map Some y2)"
    using wr by (simp add: wrapped_def)
  have ptr: "rb_count rb = length y1 + (length y2 + length zs)" "\<not> is_linearized rb"
    "back_ptr rb = length zs" "end_ptr rb - length y2 = p" "end_ptr rb = p + length y2"
    using wr wrapped_not_linearized [OF wr] by (auto simp: wrapped_def end_ptr_def p_def)
  have l1: "load_range p (p + length y2) (cells rb) = Inr y2"
    unfolding c1 by (intro load_range_segment) (auto simp: p_def)
  have l2: "load_range 0 (length zs) (cells rb) = Inr zs"
    unfolding c2 by (intro load_range_segment) auto
  have d2: "destroy_range ?td 0 (length zs) (cells rb)
      = Inr ((corpse ?td zs @ G @ map Some y1) @ map Some y2 @ [])"
    unfolding c2 by (subst destroy_range_segment) auto
  have d1: "destroy_range ?td p (p + length y2)
        ((corpse ?td zs @ G @ map Some y1) @ map Some y2 @ [])
      = Inr ((corpse ?td zs @ G @ map Some y1) @ corpse ?td y2 @ [])"
    by (intro destroy_range_segment) (auto simp: p_def)
  show ?thesis
    using ptr(1-3) n l1 l2 d1 d2
    by (simp add: pop_back_n_def rb_size_def Let_def get_array2_def get_array1_def ptr(4,5)
        min_absorb1)
qed

lemma pop_back_n_all:
  assumes wr: "wrapped rb ys zs G"
  shows "\<exists>rb'. pop_back_n (length ys + length zs) rb = Inr (ys @ zs, rb') \<and>
           becomes rb [] (Inr rb')"
proof -
  let ?td = "trivial_dtor rb"
  have wr': "wrapped rb ([] @ ys) zs G" and ne: "ys \<noteq> []"
    using wr by (auto simp: wrapped_def)
  have "becomes rb [] (Inr (reset_if_empty
      (rb\<lparr>cells := corpse ?td zs @ G @ map Some [] @ corpse ?td ys, back_ptr := 0,
         rb_count := length []\<rparr>)))"
    by (intro becomes_linear [where A = "[]" and C = "corpse ?td zs @ G @ corpse ?td ys", OF refl])
      (use wr in \<open>auto simp: wrapped_def linear_def reset_if_empty_def\<close>)
  then show ?thesis
    unfolding pop_back_n_both_arrays [OF wr' ne] by blast
qed

lemma pop_back_n_min: "pop_back_n n rb = pop_back_n (min n (rb_size rb)) rb"
  by (simp add: pop_back_n_def)

lemma pop_back_n_becomes:
  assumes "wf_ring rb"
    and range: "is_linearized rb \<or> n \<le> back_ptr rb \<or> length (contents rb) \<le> n"
  shows "\<exists>rb'. pop_back_n n rb = Inr (drop (length (contents rb) - n) (contents rb), rb') \<and>
           becomes rb (take (length (contents rb) - n) (contents rb)) (Inr rb')"
proof -
  define k where "k = min n (length (contents rb))"
  have nk: "length (contents rb) - n = length (contents rb) - k" by (simp add: k_def)
  have eq: "pop_back_n n rb = pop_back_n k rb"
    using pop_back_n_min [of n rb] assms(1) by (simp add: k_def rb_size_contents)
  define u v where "u = take (length (contents rb) - k) (contents rb)"
    and "v = drop (length (contents rb) - k) (contents rb)"
  have uv: "contents rb = u @ v" "length v = k" by (auto simp: u_def v_def k_def)
  show ?thesis
  proof (cases "v = []")
    case True
    then have "pop_back_n k rb = Inr ([], rb)" using uv by (simp add: pop_back_n_def)
    with True uv becomes_refl [OF assms(1)] show ?thesis
      unfolding eq nk u_def [symmetric] v_def [symmetric] by simp
  next
    case False
    from assms(1) show ?thesis
    proof (cases rule: wf_ring_cases)
      case (linear A C)
      with uv have "linear rb A (u @ v) C" by simp
      from pop_back_n_linear [OF this False] show ?thesis
        unfolding eq nk u_def [symmetric] v_def [symmetric] uv(2) .
    next
      case (wrapped ys zs G)
      have "k \<le> length zs \<or> k = length (contents rb)"
        using range wrapped wrapped_not_linearized [OF wrapped(2)]
        by (auto simp: wrapped_def k_def)
      then show ?thesis
      proof
        assume k: "k \<le> length zs"
        obtain z1 z2 where zs: "zs = z1 @ z2" "length z2 = k"
          using split_append_end [OF k] by blast
        have "u @ v = (ys @ z1) @ z2" using uv(1) wrapped(1) zs(1) by simp
        then have "u = ys @ z1" and "v = z2"
          using uv(2) zs(2) append_eq_append_conv [of u "ys @ z1" v z2] by simp_all
        then show ?thesis
          using pop_back_n_array2 [of rb ys z1 z2 G] wrapped(2) zs False
          unfolding eq nk u_def [symmetric] v_def [symmetric] by simp
      next
        assume "k = length (contents rb)"
        then have "u = []" and "v = ys @ zs" and "k = length ys + length zs"
          using wrapped(1) by (auto simp: u_def v_def)
        then show ?thesis
          using pop_back_n_all [OF wrapped(2)]
          unfolding eq nk u_def [symmetric] v_def [symmetric] by simp
      qed
    qed
  qed
qed

lemma pop_back_n_wrapped_bug:
  assumes "wf_ring rb" and "\<not> is_linearized rb"
    and n: "back_ptr rb < n" "n < length (contents rb)"
  shows "\<exists>rb'. pop_back_n n rb = Inr (drop (length (contents rb) - n) (contents rb), rb') \<and>
           back_ptr rb' = 0 \<and> \<not> wf_ring rb' \<and>
           (\<not> trivial_dtor rb \<longrightarrow> rb_back rb' = Inl Dead_read)"
  using assms(1)
proof (cases rule: wf_ring_cases)
  case (linear A C)
  then show ?thesis using linear_is_linearized assms(2) by blast
next
  case (wrapped ys zs G)
  let ?td = "trivial_dtor rb"
  define k where "k = length (contents rb) - n"
  have k: "0 < k" "k < length ys" using n wrapped by (auto simp: k_def wrapped_def)
  then obtain y1 y2 where ys: "ys = y1 @ y2" "length y1 = k"
    by (meson split_append less_imp_le)
  with k wrapped have wr: "wrapped rb (y1 @ y2) zs G" and ne: "y1 \<noteq> []" "y2 \<noteq> []" by auto
  have "contents rb = y1 @ y2 @ zs" using wrapped(1) ys(1) by simp
  then have "drop k (contents rb) = y2 @ zs"
    and "length (contents rb) = k + (length y2 + length zs)"
    using ys(2) by simp_all
  then have len: "n = length y2 + length zs" "drop k (contents rb) = y2 @ zs"
    using n(2) unfolding k_def by linarith+
  define rb' where "rb' = rb\<lparr>cells := corpse ?td zs @ G @ map Some y1 @ corpse ?td y2,
    back_ptr := 0, rb_count := length y1\<rparr>"
  have "pop_back_n n rb = Inr (y2 @ zs, rb')"
    unfolding len(1) pop_back_n_both_arrays [OF wr ne(2)]
    using ne by (simp add: rb'_def reset_if_empty_def)
  moreover have "\<not> wf_ring rb'"
  proof -
    have "front_ptr rb' + rb_count rb' < length (cells rb')"
      and "front_ptr rb' + rb_count rb' \<noteq> 0"
      using wr ne by (auto simp: rb'_def wrapped_def)
    then show ?thesis by (auto simp: wf_ring_def rb'_def)
  qed
  moreover have "rb_back rb' = Inl Dead_read" if "\<not> ?td"
  proof -
    define E where "E = corpse ?td zs @ G @ map Some y1 @ replicate (length y2 - 1) None"
    have c: "cells rb' = E @ [None]"
      using that ne(2) by (cases y2) (auto simp: E_def rb'_def corpse_def replicate_append_same)
    then have "load (length (cells rb') - 1) (cells rb') = Inl Dead_read"
      by (simp add: load_def)
    then show ?thesis
      using wr ne by (simp add: rb_back_def rb'_def decrement_def end_ptr_def rb_empty_def
          rb_size_def wrapped_def)
  qed
  ultimately show ?thesis
    using len(2) unfolding k_def by (auto simp: rb'_def)
qed

end
