(* ===== verification/Ring_Linearize.thy ===== *)
theory Ring_Linearize
  imports Ring_Range
begin

text \<open>
  \<open>linearize\<close> rearranges a wrapped ring in place so that its elements become one segment at the
  start of the block. The loop moves array 2 to the right by at most the size of the gap and
  moves as many elements of array 1 in front of it; \<open>linearize_loop_segments\<close> is its invariant.
  Also here: \<open>find_if\<close> against the first matching position of the contents.
\<close>

section \<open>Moving a segment\<close>

lemma move_one_segment:
  assumes "src = length A" and "dst = length A + 1 + length E" and "td \<or> d = None"
  shows "move_one td src dst (A @ Some x # E @ d # B) = Inr (A @ corpse td [x] @ E @ Some x # B)"
proof -
  have "construct td dst x ((A @ Some x # E) @ d # B) = Inr ((A @ Some x # E) @ Some x # B)"
    using assms by (intro construct_segment) auto
  moreover have "destroy_at td src (A @ Some x # (E @ Some x # B))
      = Inr (A @ corpse td [x] @ (E @ Some x # B))"
    using assms by (intro destroy_at_segment) auto
  ultimately show ?thesis
    using assms(1) by (simp add: move_one_def load_segment)
qed

lemma move_forward_segment:
  assumes "src = length A" and "dst = length A + length xs + length E"
    and "length D = length xs" and "vacant td D"
  shows "move_forward td src dst (length xs) (A @ map Some xs @ E @ D @ B)
           = Inr (A @ corpse td xs @ E @ map Some xs @ B)"
  using assms
proof (induction xs arbitrary: A E D src dst)
  case Nil
  then show ?case by simp
next
  case (Cons x xs)
  then obtain d D' where D: "D = d # D'" by (cases D) auto
  have "move_one td src dst (A @ Some x # (map Some xs @ E) @ d # (D' @ B))
      = Inr (A @ corpse td [x] @ (map Some xs @ E) @ Some x # (D' @ B))"
    using Cons.prems D by (intro move_one_segment) auto
  moreover have "move_forward td (Suc src) (Suc dst) (length xs)
        ((A @ corpse td [x]) @ map Some xs @ (E @ [Some x]) @ D' @ B)
      = Inr ((A @ corpse td [x]) @ corpse td xs @ (E @ [Some x]) @ map Some xs @ B)"
    using Cons.prems D by (intro Cons.IH) auto
  ultimately show ?case
    using D by simp
qed

lemma move_backward_segment:
  assumes "src = length A" and "length D = s" and "0 < s" and "vacant td D"
  shows "\<exists>H. length H = s \<and> vacant td H \<and>
           move_backward td src (src + s) (length xs) (A @ map Some xs @ D @ B)
             = Inr (A @ H @ map Some xs @ B)"
  using assms
proof (induction xs arbitrary: D B rule: rev_induct)
  case Nil
  then show ?case by auto
next
  case (snoc x xs)
  then obtain D' d where D: "D = D' @ [d]" by (cases D rule: rev_cases) auto
  have "move_one td (src + length xs) (src + s + length xs)
        ((A @ map Some xs) @ Some x # D' @ d # B)
      = Inr ((A @ map Some xs) @ corpse td [x] @ D' @ Some x # B)"
    using snoc.prems D by (intro move_one_segment) auto
  moreover have "length (corpse td [x] @ D') = s" "vacant td (corpse td [x] @ D')"
    using snoc.prems D by auto
  then obtain H where "length H = s" "vacant td H"
    "move_backward td src (src + s) (length xs)
        (A @ map Some xs @ (corpse td [x] @ D') @ (Some x # B))
      = Inr (A @ H @ map Some xs @ (Some x # B))"
    using snoc.IH [of "corpse td [x] @ D'" "Some x # B"] snoc.prems(1,3) by metis
  ultimately show ?case
    using D by (intro exI [of _ H]) simp
qed

lemma uninitialized_move_overlap_right:
  assumes "p = length A" and "length D = s" and "0 < s" and "vacant td D" and "zs \<noteq> []"
  shows "\<exists>H. length H = s \<and> vacant td H \<and>
           uninitialized_move_overlap td p (p + length zs) (p + s) (A @ map Some zs @ D @ B)
             = Inr (A @ H @ map Some zs @ B)"
proof (cases "length zs \<le> s")
  case True
  then obtain D1 D2 where D: "D = D1 @ D2" "length D2 = length zs"
    using split_append_end [of "length zs" D] assms by auto
  have "move_forward td p (p + s) (length zs) (A @ map Some zs @ D1 @ D2 @ B)
      = Inr (A @ corpse td zs @ D1 @ map Some zs @ B)"
    using assms D True by (intro move_forward_segment) auto
  moreover have "length (corpse td zs @ D1) = s" "vacant td (corpse td zs @ D1)"
    using assms D by auto
  ultimately show ?thesis
    using assms True D
    by (intro exI [of _ "corpse td zs @ D1"]) (simp add: uninitialized_move_overlap_def)
next
  case False
  then show ?thesis
    using move_backward_segment [of p A D s td zs B] assms
    by (auto simp: uninitialized_move_overlap_def)
qed

section \<open>The loop\<close>

lemma linearize_loop_step:
  assumes gap: "length G = Suc r" "vacant td G" and zs: "zs \<noteq> []" and ys: "us \<noteq> []"
    and s: "length us \<le> Suc r"
    and p: "p2 = length P" "p1 = length P + length zs + Suc r"
  shows "\<exists>G' m1. length G' = Suc r \<and> vacant td G' \<and>
     uninitialized_move_overlap td p2 (p2 + length zs) (p2 + length us)
       (map Some P @ map Some zs @ G @ map Some (us @ vs)) = Inr m1 \<and>
     load_range p1 (p1 + length us) m1 = Inr us \<and>
     (\<exists>m2. uninitialized_copy td us p2 m1 = Inr (m2, p2 + length us) \<and>
       destroy_range td p1 (p1 + length us) m2
         = Inr (map Some (P @ us) @ map Some zs @ G' @ map Some vs))"
proof -
  obtain D B where G: "G = D @ B" "length D = length us"
    using s gap(1) by (metis split_append)
  obtain H where H: "length H = length us" "vacant td H"
    and mv: "uninitialized_move_overlap td p2 (p2 + length zs) (p2 + length us)
      (map Some P @ map Some zs @ D @ (B @ map Some (us @ vs)))
        = Inr (map Some P @ H @ map Some zs @ (B @ map Some (us @ vs)))"
    using uninitialized_move_overlap_right [of p2 "map Some P" D "length us" td zs
        "B @ map Some (us @ vs)"] gap zs ys p(1) G by auto
  define m1 where "m1 = map Some P @ H @ map Some zs @ B @ map Some (us @ vs)"
  have m1: "m1 = (map Some P @ H @ map Some zs @ B) @ map Some us @ map Some vs"
    by (simp add: m1_def)
  have lenB: "length B + length us = Suc r" using G gap by simp
  have "load_range p1 (p1 + length us) m1 = Inr us"
    unfolding m1 using H p lenB by (intro load_range_segment) auto
  moreover have "uninitialized_copy td us p2 (map Some P @ H @ (map Some zs @ B @ map Some (us @ vs)))
      = Inr (map Some P @ map Some us @ (map Some zs @ B @ map Some (us @ vs)), p2 + length us)"
    using H p by (intro uninitialized_copy_segment) auto
  moreover have "destroy_range td p1 (p1 + length us)
        ((map Some P @ map Some us @ map Some zs @ B) @ map Some us @ map Some vs)
      = Inr ((map Some P @ map Some us @ map Some zs @ B) @ corpse td us @ map Some vs)"
    using p lenB by (intro destroy_range_segment) auto
  moreover have "length (B @ corpse td us) = Suc r" "vacant td (B @ corpse td us)"
    using lenB gap G by auto
  ultimately show ?thesis
    using mv G(1) by (intro exI [of _ "B @ corpse td us"] exI [of _ m1]) (simp add: m1_def)
qed

lemma linearize_loop_segments:
  assumes "length G = Suc r" and "vacant td G" and "zs \<noteq> []"
    and "p2 = length P" and "p1 = length P + length zs + Suc r" and "q1 = p1 + length ys"
  shows "\<exists>G'. length G' = Suc r \<and> vacant td G' \<and>
     linearize_loop td r p1 q1 p2 (length zs) p2 (map Some P @ map Some zs @ G @ map Some ys)
       = Inr (map Some (P @ ys) @ map Some zs @ G')"
  using assms
proof (induction "length ys" arbitrary: ys P G p1 p2 rule: less_induct)
  case less
  show ?case
  proof (cases "ys = []")
    case True
    with less.prems show ?thesis
      by (intro exI [of _ G]) (simp add: linearize_loop.simps)
  next
    case False
    define s where "s = min (Suc r) (length ys)"
    have "s \<le> length ys" by (simp add: s_def)
    then obtain us vs where ys: "ys = us @ vs" "length us = s" by (rule split_append)
    have us: "us \<noteq> []" "length us \<le> Suc r"
      using ys(2) False by (auto simp: s_def min_def split: if_splits)
    obtain G' m1 m2 where G': "length G' = Suc r" "vacant td G'"
      and steps: "uninitialized_move_overlap td p2 (p2 + length zs) (p2 + length us)
          (map Some P @ map Some zs @ G @ map Some (us @ vs)) = Inr m1"
        "load_range p1 (p1 + length us) m1 = Inr us"
        "uninitialized_copy td us p2 m1 = Inr (m2, p2 + length us)"
        "destroy_range td p1 (p1 + length us) m2
          = Inr (map Some (P @ us) @ map Some zs @ G' @ map Some vs)"
      using linearize_loop_step [OF less.prems(1-3) us(1,2) less.prems(4,5), of vs] by blast
    obtain G'' where G'': "length G'' = Suc r" "vacant td G''"
      "linearize_loop td r (p1 + length us) q1 (p2 + length us) (length zs) (p2 + length us)
          (map Some (P @ us) @ map Some zs @ G' @ map Some vs)
        = Inr (map Some ((P @ us) @ vs) @ map Some zs @ G'')"
      using less.hyps [of vs G' "p2 + length us" "P @ us" "p1 + length us"] us less.prems ys G'
      by auto
    have min: "min (Suc r) (q1 - p1) = length us"
      using ys(2) less.prems by (simp add: s_def)
    have "\<not> q1 \<le> p1" using less.prems False by simp
    with steps G''(3) min ys(1)
    have "linearize_loop td r p1 q1 p2 (length zs) p2 (map Some P @ map Some zs @ G @ map Some ys)
        = Inr (map Some (P @ ys) @ map Some zs @ G'')"
      by (subst linearize_loop.simps) (simp add: Let_def)
    with G'' show ?thesis by blast
  qed
qed

section \<open>Linearizing a ring\<close>

lemma linearize_becomes:
  assumes "wf_ring rb"
  shows "\<exists>p rb'. linearize rb = Inr (p, rb') \<and> becomes rb (contents rb) (Inr rb') \<and>
           is_linearized rb' \<and>
           p = (if contents rb = [] then None else Some (front_ptr rb'))"
  using assms
proof (cases rule: wf_ring_cases)
  case (linear A C)
  with assms show ?thesis
    using linear_is_linearized [OF linear] becomes_refl [OF assms]
    by (auto simp: linearize_def rb_empty_contents)
next
  case (wrapped ys zs G)
  let ?td = "trivial_dtor rb"
  have ptr: "front_ptr rb = length zs + length G" "back_ptr rb = length zs"
    "rb_count rb = length ys + length zs" "has_storage rb" "ys \<noteq> []" "zs \<noteq> []"
    "cells rb = map Some zs @ G @ map Some ys" "vacant ?td G"
    "end_ptr rb = length zs + length G + length ys" "reserve rb = length G"
    "\<not> is_linearized rb" "\<not> rb_empty rb"
    using wrapped(2) wrapped_not_linearized [OF wrapped(2)]
    by (auto simp: wrapped_def end_ptr_def reserve_def capacity_def rb_size_def rb_empty_def)
  show ?thesis
  proof (cases G)
    case Nil
    let ?rb = "rb\<lparr>cells := map Some (ys @ zs), front_ptr := 0, back_ptr := 0\<rparr>"
    have "linearize rb = Inr (Some 0, ?rb)"
      using ptr Nil by (simp add: linearize_def Let_def)
    moreover have "becomes rb (ys @ zs) (Inr ?rb)"
      by (intro becomes_linear [where A = "[]" and C = "[]", OF refl])
        (use ptr Nil in \<open>auto simp: linear_def\<close>)
    ultimately show ?thesis
      using wrapped(1) ptr(5) by (auto simp: is_linearized_def)
  next
    case (Cons g G0)
    obtain G' where G': "length G' = Suc (length G0)" "vacant ?td G'"
      "linearize_loop ?td (length G0) (length zs + length G) (end_ptr rb) 0 (length zs) 0
          (map Some [] @ map Some zs @ G @ map Some ys)
        = Inr (map Some ([] @ ys) @ map Some zs @ G')"
      using linearize_loop_segments [of G "length G0" ?td zs 0 "[]" "length zs + length G"
          "end_ptr rb" ys] ptr Cons by auto
    let ?rb = "rb\<lparr>cells := map Some ys @ map Some zs @ G', front_ptr := 0,
      back_ptr := length ys + length zs\<rparr>"
    have "linearize rb = Inr (Some 0, ?rb)"
      using ptr Cons G'(3) by (simp add: linearize_def Let_def get_array1_def get_array2_def rb_size_def)
    moreover have "becomes rb (ys @ zs) (Inr ?rb)"
      by (intro becomes_linear [where A = "[]" and C = G', OF refl])
        (use ptr Cons G' in \<open>auto simp: linear_def\<close>)
    ultimately show ?thesis
      using wrapped(1) ptr(5) by (auto simp: is_linearized_def)
  qed
qed

section \<open>Searching\<close>

definition first_match :: "('a \<Rightarrow> bool) \<Rightarrow> 'a list \<Rightarrow> nat" where
  "first_match pred xs = length (takeWhile (\<lambda>x. \<not> pred x) xs)"

lemma first_match_simps [simp]:
  "first_match pred [] = 0"
  "first_match pred (x # xs) = (if pred x then 0 else Suc (first_match pred xs))"
  by (simp_all add: first_match_def)

lemma first_match_le: "first_match pred xs \<le> length xs"
  by (simp add: first_match_def length_takeWhile_le)

lemma first_match_append:
  "first_match pred (xs @ ys)
     = (if first_match pred xs < length xs then first_match pred xs
        else length xs + first_match pred ys)"
  by (induction xs) auto

lemma find_range_segment:
  assumes "p = length A"
  shows "find_range pred p (length xs) (A @ map Some xs @ B)
    = Inr (if first_match pred xs < length xs then Some (p + first_match pred xs) else None)"
  using assms
proof (induction xs arbitrary: A p)
  case Nil
  then show ?case by simp
next
  case (Cons x xs)
  have "find_range pred (Suc p) (length xs) ((A @ [Some x]) @ map Some xs @ B)
      = Inr (if first_match pred xs < length xs then Some (Suc p + first_match pred xs) else None)"
    using Cons.prems by (intro Cons.IH) auto
  with Cons.prems show ?case
    by (simp add: load_segment)
qed

lemma find_if_contents:
  assumes "wf_ring rb"
  shows "find_if pred rb = Inr (let i = first_match pred (contents rb) in
           if i < length (contents rb) then Some ((front_ptr rb + i) mod capacity rb) else None)"
  using assms
proof (cases rule: wf_ring_cases)
  case (linear A C)
  define xs where "xs = contents rb"
  have "find_range pred (length A) (length xs) (cells rb)
      = Inr (if first_match pred xs < length xs then Some (length A + first_match pred xs) else None)"
    using linear find_range_segment [of "length A" A pred xs C] by (simp add: linear_def xs_def)
  then show ?thesis
    using linear linear_is_linearized [OF linear]
    by (auto simp: find_if_def get_array1_def get_array2_def rb_size_def linear_def xs_def Let_def
        capacity_def)
next
  case (wrapped ys zs G)
  let ?i = "first_match pred ys" and ?j = "first_match pred zs"
  have c: "cells rb = (map Some zs @ G) @ map Some ys @ []"
    and ptr: "front_ptr rb = length zs + length G" "end_ptr rb - front_ptr rb = length ys"
      "back_ptr rb = length zs" "\<not> is_linearized rb"
      "capacity rb = length zs + length G + length ys" "ys \<noteq> []"
    using wrapped(2) wrapped_not_linearized [OF wrapped(2)]
    by (simp_all add: wrapped_def end_ptr_def capacity_def)
  have "find_range pred (front_ptr rb) (length ys) (cells rb)
      = Inr (if ?i < length ys then Some (front_ptr rb + ?i) else None)"
    unfolding c by (rule find_range_segment) (simp add: ptr)
  moreover have "find_range pred 0 (length zs) (cells rb)
      = Inr (if ?j < length zs then Some ?j else None)"
    using find_range_segment [of 0 "[]" pred zs "G @ map Some ys"] c by simp
  moreover have "(front_ptr rb + (length ys + ?j)) mod capacity rb = ?j" if "?j < length zs"
  proof -
    have "front_ptr rb + (length ys + ?j) = ?j + capacity rb" and "?j < capacity rb"
      using that ptr by simp_all
    then show ?thesis by (simp only: mod_add_self2 mod_less)
  qed
  ultimately show ?thesis
    using ptr wrapped(1)
    by (auto simp: find_if_def get_array1_def get_array2_def Let_def first_match_append)
qed

end
