(* ===== verification/Ring_Iterator.thy ===== *)
theory Ring_Iterator
  imports Ring_Linearize
begin

text \<open>
  \<open>ring_buffer_iterator\<close> of \<open>src/include/rad/ring_buffer.h\<close>. An iterator is its \<open>ptr_\<close> member, an
  offset into the block, with \<open>None\<close> for the null pointer that stands for \<open>end()\<close>. \<open>it_at rb i\<close> is
  the iterator at position \<open>i\<close> of the contents; the operators are shown to move along these
  positions, traversal from \<open>begin()\<close> to \<open>end()\<close> reads the contents, and \<open>end() - n\<close> is shown to be
  wrong unless the elements end at the end of the block.
\<close>

section \<open>Model\<close>

definition it_begin :: "'a ring_buffer \<Rightarrow> nat option" where
  "it_begin rb = (if \<not> rb_empty rb then Some (front_ptr rb) else None)"

definition it_end :: "'a ring_buffer \<Rightarrow> nat option" where
  "it_end rb = None"

definition validate_pointer :: "'a ring_buffer \<Rightarrow> nat \<Rightarrow> bool" where
  "validate_pointer rb p =
     (if full rb then p < end_ptr rb
      else if is_linearized rb then
        (if back_ptr rb = 0 then front_ptr rb \<le> p \<and> p < end_ptr rb
         else front_ptr rb \<le> p \<and> p < back_ptr rb)
      else (front_ptr rb \<le> p \<and> p < end_ptr rb) \<or> p < back_ptr rb)"

definition pointer_to_index :: "'a ring_buffer \<Rightarrow> nat option \<Rightarrow> nat res" where
  "pointer_to_index rb it =
     (case it of
        None \<Rightarrow> Inr (rb_size rb)
      | Some p \<Rightarrow> bind_res (ensure (p < end_ptr rb) Assertion) (\<lambda>_.
          if p \<ge> front_ptr rb then Inr (p - front_ptr rb)
          else Inr (p + (end_ptr rb - front_ptr rb))))"

definition increment_by :: "'a ring_buffer \<Rightarrow> nat \<Rightarrow> nat \<Rightarrow> nat res" where
  "increment_by rb ptr n =
     bind_res (pointer_to_index rb (Some ptr)) (\<lambda>i.
     bind_res (ensure (n \<le> rb_size rb - i) Assertion) (\<lambda>_.
     let ptr' = ptr + n in
     Inr (if ptr' \<ge> end_ptr rb then ptr' - capacity rb else ptr')))"

definition decrement_by :: "'a ring_buffer \<Rightarrow> nat option \<Rightarrow> nat \<Rightarrow> nat res" where
  "decrement_by rb it n =
     (case it of
        None \<Rightarrow> bind_res (ensure (rb_size rb \<ge> n) Assertion) (\<lambda>_. Inr (end_ptr rb - n))
      | Some ptr \<Rightarrow>
          bind_res (pointer_to_index rb (Some ptr)) (\<lambda>i.
          bind_res (ensure (n \<le> i) Assertion) (\<lambda>_.
          Inr (if ptr < n then ptr + capacity rb - n else ptr - n))))"

definition it_deref :: "'a ring_buffer \<Rightarrow> nat option \<Rightarrow> 'a res" where
  "it_deref rb it =
     (case it of
        None \<Rightarrow> Inl Assertion
      | Some p \<Rightarrow> bind_res (ensure (validate_pointer rb p) Assertion) (\<lambda>_. load p (cells rb)))"

definition it_incr :: "'a ring_buffer \<Rightarrow> nat option \<Rightarrow> nat option res" where
  "it_incr rb it =
     (case it of
        None \<Rightarrow> Inl Assertion
      | Some p \<Rightarrow> let q = increment rb p in Inr (if q = back_ptr rb then None else Some q))"

definition it_decr :: "'a ring_buffer \<Rightarrow> nat option \<Rightarrow> nat option res" where
  "it_decr rb it =
     bind_res (ensure (has_storage rb \<and> it \<noteq> Some (front_ptr rb)) Assertion) (\<lambda>_.
       let p = (case it of None \<Rightarrow> back_ptr rb | Some p \<Rightarrow> p) in
       Inr (Some (decrement rb p)))"

definition it_diff :: "'a ring_buffer \<Rightarrow> nat option \<Rightarrow> nat option \<Rightarrow> int res" where
  "it_diff rb it other =
     bind_res (pointer_to_index rb it) (\<lambda>i.
     bind_res (pointer_to_index rb other) (\<lambda>j. Inr (int i - int j)))"

definition it_advance :: "'a ring_buffer \<Rightarrow> nat option \<Rightarrow> nat \<Rightarrow> nat option res" where
  "it_advance rb it n =
     (case it of
        None \<Rightarrow> Inl Assertion
      | Some p \<Rightarrow> bind_res (increment_by rb p n) (\<lambda>q.
          Inr (if q = back_ptr rb then None else Some q)))"

definition it_retreat :: "'a ring_buffer \<Rightarrow> nat option \<Rightarrow> nat \<Rightarrow> nat option res" where
  "it_retreat rb it n =
     bind_res (ensure (has_storage rb \<and> it \<noteq> Some (front_ptr rb)) Assertion) (\<lambda>_.
     bind_res (decrement_by rb it n) (\<lambda>q. Inr (Some q)))"

definition it_plus :: "'a ring_buffer \<Rightarrow> nat option \<Rightarrow> int \<Rightarrow> nat option res" where
  "it_plus rb it n =
     (if n = 0 then Inr it
      else if n < 0 then it_retreat rb it (nat (- n))
      else it_advance rb it (nat n))"

text \<open>
  Reading the range \<open>[begin(), end())\<close> with \<open>*it\<close> and \<open>++it\<close>, as an algorithm over the ring's
  iterators does. The first argument bounds the number of steps; \<open>None\<close> means the bound was
  reached.
\<close>

fun it_collect :: "nat \<Rightarrow> 'a ring_buffer \<Rightarrow> nat option \<Rightarrow> 'a list res option" where
  "it_collect 0 rb it = None"
| "it_collect (Suc k) rb it =
     (if it = it_end rb then Some (Inr [])
      else case bind_res (it_deref rb it) (\<lambda>v. bind_res (it_incr rb it) (\<lambda>it'. Inr (v, it'))) of
             Inl e \<Rightarrow> Some (Inl e)
           | Inr (v, it') \<Rightarrow>
               map_option (\<lambda>r. bind_res r (\<lambda>vs. Inr (v # vs))) (it_collect k rb it'))"

definition begin_to_end :: "'a ring_buffer \<Rightarrow> 'a list res option" where
  "begin_to_end rb = it_collect (Suc (rb_size rb)) rb (it_begin rb)"

fun eq_loop ::
    "nat \<Rightarrow> 'a ring_buffer \<Rightarrow> 'a ring_buffer \<Rightarrow> nat option \<Rightarrow> nat option \<Rightarrow> bool res option" where
  "eq_loop 0 lhs rhs first1 first2 = None"
| "eq_loop (Suc k) lhs rhs first1 first2 =
     (if first1 = it_end rhs then Some (Inr True)
      else case bind_res (it_deref rhs first1) (\<lambda>v1. bind_res (it_incr rhs first1) (\<lambda>i1.
                bind_res (it_deref lhs first2) (\<lambda>v2. bind_res (it_incr lhs first2) (\<lambda>i2.
                Inr (v1, v2, i1, i2))))) of
             Inl e \<Rightarrow> Some (Inl e)
           | Inr (v1, v2, i1, i2) \<Rightarrow>
               if v1 \<noteq> v2 then Some (Inr False) else eq_loop k lhs rhs i1 i2)"

definition rb_eq :: "'a ring_buffer \<Rightarrow> 'a ring_buffer \<Rightarrow> bool res option" where
  "rb_eq lhs rhs =
     (if rb_size lhs \<noteq> rb_size rhs then Some (Inr False)
      else eq_loop (Suc (rb_size rhs)) lhs rhs (it_begin rhs) (it_begin lhs))"

section \<open>Positions\<close>

definition ring_pos :: "'a ring_buffer \<Rightarrow> nat \<Rightarrow> nat" where
  "ring_pos rb i = (front_ptr rb + i) mod capacity rb"

definition it_at :: "'a ring_buffer \<Rightarrow> nat \<Rightarrow> nat option" where
  "it_at rb i = (if i = length (contents rb) then None else Some (ring_pos rb i))"

lemma mod_pos_inj:
  fixes f i j c :: nat
  assumes "i < j" and "j - i < c"
  shows "(f + i) mod c \<noteq> (f + j) mod c"
proof
  assume "(f + i) mod c = (f + j) mod c"
  then have "c dvd (f + j) - (f + i)"
    using mod_eq_dvd_iff_nat [of "f + i" "f + j" c] assms(1) by simp
  then show False using assms by (auto dest: dvd_imp_le)
qed

lemma wf_bounds:
  assumes "wf_ring rb" and "contents rb \<noteq> []"
  shows "front_ptr rb < capacity rb" and "length (contents rb) \<le> capacity rb"
    and "back_ptr rb = ring_pos rb (length (contents rb))" and "has_storage rb"
    and "end_ptr rb = capacity rb" and "rb_size rb = length (contents rb)"
  using assms length_contents [OF assms(1)] wf_storage
  by (auto simp: wf_ring_def capacity_def ring_pos_def end_ptr_def rb_size_def split: if_splits)

lemma ring_pos_less: "0 < capacity rb \<Longrightarrow> ring_pos rb i < capacity rb"
  by (simp add: ring_pos_def)

lemma increment_ring_pos:
  "0 < capacity rb \<Longrightarrow> increment rb (ring_pos rb i) = ring_pos rb (Suc i)"
  by (simp add: increment_def ring_pos_def end_ptr_def capacity_def mod_Suc)

lemma decrement_ring_pos:
  assumes "0 < capacity rb"
  shows "decrement rb (ring_pos rb (Suc i)) = ring_pos rb i"
  using assms by (auto simp: decrement_def ring_pos_def end_ptr_def capacity_def mod_Suc Let_def)

lemma ring_pos_eq_back:
  assumes "wf_ring rb" and "0 < i" and "i \<le> length (contents rb)"
  shows "ring_pos rb i = back_ptr rb \<longleftrightarrow> i = length (contents rb)"
proof -
  have ne: "contents rb \<noteq> []" using assms by auto
  show ?thesis
    using wf_bounds [OF assms(1) ne] assms mod_pos_inj [of i "length (contents rb)" "capacity rb"]
    by (cases "i = length (contents rb)") (auto simp: ring_pos_def)
qed

lemma ring_pos_eq_front:
  assumes "wf_ring rb" and "i < length (contents rb)"
  shows "ring_pos rb i = front_ptr rb \<longleftrightarrow> i = 0"
proof -
  have ne: "contents rb \<noteq> []" using assms by auto
  note b = wf_bounds [OF assms(1) ne]
  have "ring_pos rb 0 = front_ptr rb" using b(1) by (simp add: ring_pos_def)
  then show ?thesis
    using b(2) assms mod_pos_inj [of 0 i "capacity rb" "front_ptr rb"]
    by (cases "i = 0") (auto simp: ring_pos_def)
qed

lemma load_ring_pos:
  assumes "wf_ring rb" and "i < length (contents rb)"
  shows "load (ring_pos rb i) (cells rb) = Inr (contents rb ! i)"
  using index_to_pointer_load [OF assms] by (auto simp: ring_pos_def)

lemma ring_pos_index:
  assumes "wf_ring rb" and "i < length (contents rb)"
  shows "ring_pos rb i \<ge> front_ptr rb \<and> ring_pos rb i - front_ptr rb = i \<or>
         ring_pos rb i < front_ptr rb \<and> ring_pos rb i + (end_ptr rb - front_ptr rb) = i"
proof -
  have "contents rb \<noteq> []" using assms by auto
  note b = wf_bounds [OF assms(1) this]
  show ?thesis
  proof (cases "front_ptr rb + i < capacity rb")
    case True
    then show ?thesis by (simp add: ring_pos_def)
  next
    case False
    then have "ring_pos rb i = front_ptr rb + i - capacity rb"
      using b assms(2) by (simp add: ring_pos_def mod_if)
    with False b assms(2) show ?thesis by auto
  qed
qed

lemma validate_ring_pos:
  assumes "wf_ring rb" and "i < length (contents rb)"
  shows "validate_pointer rb (ring_pos rb i)"
proof -
  have ne: "contents rb \<noteq> []" using assms by auto
  note b = wf_bounds [OF assms(1) ne]
  have lt: "ring_pos rb i < end_ptr rb" using b by (simp add: ring_pos_def)
  from assms(1) show ?thesis
  proof (cases rule: wf_ring_cases)
    case (linear A C)
    then have "ring_pos rb i = length A + i"
      using assms(2) by (simp add: ring_pos_def linear_def capacity_def)
    with linear lt assms(2) show ?thesis
      using linear_is_linearized [OF linear] by (auto simp: validate_pointer_def linear_def)
  next
    case (wrapped ys zs G)
    with lt ring_pos_index [OF assms] assms(2) show ?thesis
      using wrapped_not_linearized [OF wrapped(2)]
      by (auto simp: validate_pointer_def wrapped_def end_ptr_def)
  qed
qed

section \<open>The operators move along the positions\<close>

lemma it_at_begin: "wf_ring rb \<Longrightarrow> it_at rb 0 = it_begin rb"
  using wf_bounds(1) [of rb]
  by (auto simp: it_at_def it_begin_def rb_empty_contents ring_pos_def)

lemma it_at_end: "it_at rb (length (contents rb)) = it_end rb"
  by (simp add: it_at_def it_end_def)

lemma it_deref_at:
  assumes "wf_ring rb" and "i < length (contents rb)"
  shows "it_deref rb (it_at rb i) = Inr (contents rb ! i)"
  using assms by (simp add: it_deref_def it_at_def validate_ring_pos load_ring_pos)

lemma pointer_to_index_at:
  assumes "wf_ring rb" and "i \<le> length (contents rb)"
  shows "pointer_to_index rb (it_at rb i) = Inr i"
proof (cases "i = length (contents rb)")
  case True
  then show ?thesis
    using assms by (simp add: it_at_def pointer_to_index_def rb_size_contents)
next
  case False
  with assms have i: "i < length (contents rb)" by simp
  then have ne: "contents rb \<noteq> []" by auto
  have "ring_pos rb i < end_ptr rb"
    using wf_bounds [OF assms(1) ne] by (simp add: ring_pos_def)
  with ring_pos_index [OF assms(1) i] False show ?thesis
    by (auto simp: it_at_def pointer_to_index_def)
qed

lemma it_incr_at:
  assumes "wf_ring rb" and "i < length (contents rb)"
  shows "it_incr rb (it_at rb i) = Inr (it_at rb (Suc i))"
proof -
  have ne: "contents rb \<noteq> []" using assms by auto
  have "0 < capacity rb" using wf_bounds [OF assms(1) ne] by simp
  then show ?thesis
    using assms ring_pos_eq_back [OF assms(1), of "Suc i"]
    by (auto simp: it_incr_def it_at_def increment_ring_pos Let_def)
qed

lemma it_decr_at:
  assumes "wf_ring rb" and "i < length (contents rb)"
  shows "it_decr rb (it_at rb (Suc i)) = Inr (it_at rb i)"
proof -
  have ne: "contents rb \<noteq> []" using assms by auto
  note b = wf_bounds [OF assms(1) ne]
  have cap: "0 < capacity rb" using b by simp
  have "(case it_at rb (Suc i) of None \<Rightarrow> back_ptr rb | Some p \<Rightarrow> p) = ring_pos rb (Suc i)"
    using b(3) by (simp add: it_at_def)
  moreover have "it_at rb (Suc i) \<noteq> Some (front_ptr rb)"
    using assms ring_pos_eq_front [OF assms(1), of "Suc i"] by (auto simp: it_at_def)
  ultimately show ?thesis
    using b(4) assms(2) decrement_ring_pos [OF cap] by (simp add: it_decr_def it_at_def)
qed

lemma it_diff_at:
  assumes "wf_ring rb" and "i \<le> length (contents rb)" and "j \<le> length (contents rb)"
  shows "it_diff rb (it_at rb i) (it_at rb j) = Inr (int i - int j)"
  using assms by (simp add: it_diff_def pointer_to_index_at)

lemma ring_pos_add:
  assumes "wf_ring rb" and "i < length (contents rb)" and "i + n \<le> length (contents rb)"
  shows "(if ring_pos rb i + n \<ge> end_ptr rb then ring_pos rb i + n - capacity rb
          else ring_pos rb i + n) = ring_pos rb (i + n)"
proof -
  have ne: "contents rb \<noteq> []" using assms by auto
  note b = wf_bounds [OF assms(1) ne]
  have lt: "ring_pos rb i < capacity rb" using b by (simp add: ring_pos_def)
  have "ring_pos rb (i + n) = (ring_pos rb i + n) mod capacity rb"
    by (simp add: ring_pos_def mod_add_left_eq add.assoc)
  also have "\<dots> = (if ring_pos rb i + n \<ge> end_ptr rb then ring_pos rb i + n - capacity rb
          else ring_pos rb i + n)"
    using lt b(2,5) assms(3) by (auto simp: mod_if)
  finally show ?thesis ..
qed

lemma ring_pos_sub:
  assumes "wf_ring rb" and "i < length (contents rb)" and "n \<le> i"
  shows "(if ring_pos rb i < n then ring_pos rb i + capacity rb - n else ring_pos rb i - n)
    = ring_pos rb (i - n)"
proof -
  have ne: "contents rb \<noteq> []" using assms by auto
  note b = wf_bounds [OF assms(1) ne]
  have "ring_pos rb i = (if ring_pos rb (i - n) + n \<ge> end_ptr rb
      then ring_pos rb (i - n) + n - capacity rb else ring_pos rb (i - n) + n)"
    using ring_pos_add [of rb "i - n" n] assms by simp
  then show ?thesis
    using assms b(2,5) ring_pos_less [of rb "i - n"] b(1) by (auto split: if_splits)
qed

lemma it_plus_forward:
  assumes "wf_ring rb" and "i < length (contents rb)" and "0 < n" "i + n \<le> length (contents rb)"
  shows "it_plus rb (it_at rb i) (int n) = Inr (it_at rb (i + n))"
proof -
  have ne: "contents rb \<noteq> []" using assms by auto
  note b = wf_bounds [OF assms(1) ne]
  have at: "it_at rb i = Some (ring_pos rb i)" using assms by (simp add: it_at_def)
  have "pointer_to_index rb (Some (ring_pos rb i)) = Inr i"
    using pointer_to_index_at [of rb i] assms at by simp
  then have "increment_by rb (ring_pos rb i) n = Inr (ring_pos rb (i + n))"
    using assms b(6) ring_pos_add [OF assms(1,2,4)] by (simp add: increment_by_def Let_def)
  then show ?thesis
    using at assms ring_pos_eq_back [OF assms(1), of "i + n"]
    by (simp add: it_plus_def it_advance_def it_at_def)
qed

lemma it_plus_backward:
  assumes "wf_ring rb" and "i < length (contents rb)" and "0 < n" "n \<le> i"
  shows "it_plus rb (it_at rb i) (- int n) = Inr (it_at rb (i - n))"
proof -
  have ne: "contents rb \<noteq> []" using assms by auto
  note b = wf_bounds [OF assms(1) ne]
  have at: "it_at rb i = Some (ring_pos rb i)" using assms by (simp add: it_at_def)
  have "pointer_to_index rb (Some (ring_pos rb i)) = Inr i"
    using pointer_to_index_at [of rb i] assms at by simp
  then have "decrement_by rb (Some (ring_pos rb i)) n = Inr (ring_pos rb (i - n))"
    using assms ring_pos_sub [OF assms(1,2,4)] by (simp add: decrement_by_def)
  then show ?thesis
    using at assms b(4) ring_pos_eq_front [OF assms(1), of i]
    by (simp add: it_plus_def it_retreat_def it_at_def)
qed

lemma it_plus_from_end:
  assumes "wf_ring rb" and "0 < n" and "n \<le> length (contents rb)"
  shows "it_plus rb (it_end rb) (- int n) = Inr (Some (capacity rb - n))"
    and "Some (capacity rb - n) = it_at rb (length (contents rb) - n) \<longleftrightarrow> back_ptr rb = 0"
proof -
  have ne: "contents rb \<noteq> []" using assms by auto
  note b = wf_bounds [OF assms(1) ne]
  show "it_plus rb (it_end rb) (- int n) = Inr (Some (capacity rb - n))"
    using assms b by (simp add: it_plus_def it_retreat_def it_end_def decrement_by_def)
  let ?k = "length (contents rb) - n"
  have pos: "ring_pos rb ?k < capacity rb" using b by (simp add: ring_pos_def)
  have "back_ptr rb = (if ring_pos rb ?k + n \<ge> end_ptr rb then ring_pos rb ?k + n - capacity rb
          else ring_pos rb ?k + n)"
    using ring_pos_add [of rb ?k n] assms b(3) by simp
  then have "back_ptr rb = 0 \<longleftrightarrow> ring_pos rb ?k = capacity rb - n"
    using b(2,5) assms(2,3) pos by auto
  moreover have "it_at rb ?k = Some (ring_pos rb ?k)" using assms by (simp add: it_at_def)
  ultimately show "Some (capacity rb - n) = it_at rb ?k \<longleftrightarrow> back_ptr rb = 0" by auto
qed

section \<open>Traversal and comparison\<close>

lemma it_collect_at:
  assumes "wf_ring rb" and "i \<le> length (contents rb)" and "length (contents rb) - i < k"
  shows "it_collect k rb (it_at rb i) = Some (Inr (drop i (contents rb)))"
  using assms(2,3)
proof (induction k arbitrary: i)
  case 0
  then show ?case by simp
next
  case (Suc k)
  show ?case
  proof (cases "i = length (contents rb)")
    case True
    then show ?thesis by (simp add: it_at_def it_end_def)
  next
    case False
    with Suc.prems have i: "i < length (contents rb)" by simp
    then have "it_at rb i \<noteq> it_end rb" by (simp add: it_at_def it_end_def)
    moreover have "it_collect k rb (it_at rb (Suc i)) = Some (Inr (drop (Suc i) (contents rb)))"
      using Suc i by simp
    ultimately show ?thesis
      using i it_deref_at [OF assms(1) i] it_incr_at [OF assms(1) i]
      by (simp add: Cons_nth_drop_Suc)
  qed
qed

lemma begin_to_end_contents:
  assumes "wf_ring rb"
  shows "begin_to_end rb = Some (Inr (contents rb))"
  using it_collect_at [OF assms, of 0 "Suc (length (contents rb))"] assms
  by (simp add: begin_to_end_def rb_size_contents it_at_begin [symmetric])

lemma eq_loop_at:
  assumes "wf_ring lhs" and "wf_ring rhs" and "length (contents lhs) = length (contents rhs)"
    and "i \<le> length (contents rhs)" and "length (contents rhs) - i < k"
  shows "eq_loop k lhs rhs (it_at rhs i) (it_at lhs i)
    = Some (Inr (drop i (contents lhs) = drop i (contents rhs)))"
  using assms(4,5)
proof (induction k arbitrary: i)
  case 0
  then show ?case by simp
next
  case (Suc k)
  show ?case
  proof (cases "i = length (contents rhs)")
    case True
    then show ?thesis using assms(3) by (simp add: it_at_def it_end_def)
  next
    case False
    with Suc.prems have i: "i < length (contents rhs)" by simp
    then have i': "i < length (contents lhs)" using assms(3) by simp
    have "it_at rhs i \<noteq> it_end rhs" using i by (simp add: it_at_def it_end_def)
    moreover have "eq_loop k lhs rhs (it_at rhs (Suc i)) (it_at lhs (Suc i))
        = Some (Inr (drop (Suc i) (contents lhs) = drop (Suc i) (contents rhs)))"
      using Suc i by simp
    ultimately show ?thesis
      using i i' it_deref_at [OF assms(1) i'] it_incr_at [OF assms(1) i']
        it_deref_at [OF assms(2) i] it_incr_at [OF assms(2) i]
        Cons_nth_drop_Suc [OF i] Cons_nth_drop_Suc [OF i']
      by (auto simp flip: Cons_nth_drop_Suc)
  qed
qed

lemma rb_eq_contents:
  assumes "wf_ring lhs" and "wf_ring rhs"
  shows "rb_eq lhs rhs = Some (Inr (contents lhs = contents rhs))"
proof (cases "length (contents lhs) = length (contents rhs)")
  case True
  then show ?thesis
    using eq_loop_at [OF assms True, of 0 "Suc (length (contents rhs))"] assms
    by (simp add: rb_eq_def rb_size_contents it_at_begin [symmetric])
next
  case False
  then have "contents lhs \<noteq> contents rhs" by auto
  with False assms show ?thesis by (simp add: rb_eq_def rb_size_contents)
qed

end
