(* ===== verification/Ring_Lifetime.thy ===== *)
theory Ring_Lifetime
  imports Ring_Iterator
begin

text \<open>
  Construction, copying, moving, resizing and destruction of ring buffers. The first
  component of every result is the number of blocks that are allocated and not yet freed,
  so that a block the code loses stays visible. \<open>take_storage\<close> is the value of
  \<open>replace_on_move || always_equal || get_allocator() == other.get_allocator()\<close>, which is true
  for \<open>std::allocator\<close>; \<open>self\<close> is the self-assignment test.
\<close>

section \<open>Model\<close>

definition null_ring :: "bool \<Rightarrow> 'a ring_buffer" where
  "null_ring td = \<lparr>trivial_dtor = td, has_storage = False, cells = [],
     front_ptr = 0, back_ptr = 0, rb_count = 0\<rparr>"

definition storage_allocate :: "nat \<Rightarrow> nat \<Rightarrow> 'a ring_buffer \<Rightarrow> nat \<times> 'a ring_buffer" where
  "storage_allocate n blocks rb =
     (if has_storage rb then blocks + 1 - 1 else blocks + 1,
      rb\<lparr>has_storage := True, cells := replicate n None\<rparr>)"

definition ring_with_capacity :: "bool \<Rightarrow> nat \<Rightarrow> nat \<Rightarrow> nat \<times> 'a ring_buffer" where
  "ring_with_capacity td n blocks = storage_allocate n blocks (null_ring td)"

definition ring_fill :: "bool \<Rightarrow> nat \<Rightarrow> 'a \<Rightarrow> nat \<Rightarrow> (nat \<times> 'a ring_buffer) res" where
  "ring_fill td n value blocks =
     (let (blocks1, rb) = ring_with_capacity td n blocks in
      bind_res (uninitialized_copy td (replicate n value) 0 (cells rb)) (\<lambda>(m, _).
        Inr (blocks1, rb\<lparr>cells := m, rb_count := n\<rparr>)))"

definition ring_fill_alloc :: "bool \<Rightarrow> nat \<Rightarrow> 'a \<Rightarrow> nat \<Rightarrow> (nat \<times> 'a ring_buffer) res" where
  "ring_fill_alloc td n value blocks =
     (let (blocks1, rb) = ring_with_capacity td n blocks in
      bind_res (uninitialized_copy td (replicate n value) 0 (cells rb)) (\<lambda>(m, _).
        Inr (blocks1, rb\<lparr>cells := m, back_ptr := end_ptr rb, rb_count := n\<rparr>)))"

definition make_sure_capacity_is_larger_than_size :: "nat \<Rightarrow> nat \<Rightarrow> nat res" where
  "make_sure_capacity_is_larger_than_size cap n =
     (if n > cap then Inl Value_too_large else Inr cap)"

definition ring_sized :: "bool \<Rightarrow> nat \<Rightarrow> nat \<Rightarrow> 'a \<Rightarrow> nat \<Rightarrow> (nat \<times> 'a ring_buffer) res" where
  "ring_sized td cap n value blocks =
     bind_res (make_sure_capacity_is_larger_than_size cap n) (\<lambda>c.
       let (blocks1, rb) = ring_with_capacity td c blocks;
           b = (if n = end_ptr rb then 0 else n)
       in bind_res (uninitialized_copy td (replicate n value) 0 (cells rb)) (\<lambda>(m, _).
            Inr (blocks1, rb\<lparr>cells := m, back_ptr := b, rb_count := n\<rparr>)))"

definition ring_from_range :: "bool \<Rightarrow> 'a list \<Rightarrow> nat \<Rightarrow> (nat \<times> 'a ring_buffer) res" where
  "ring_from_range td xs blocks =
     (let (blocks1, rb) = ring_with_capacity td (length xs) blocks in
      bind_res (uninitialized_copy td xs (front_ptr rb) (cells rb)) (\<lambda>(m, _).
        Inr (blocks1, rb\<lparr>cells := m, rb_count := capacity rb\<rparr>)))"

definition copy_items :: "'a ring_buffer \<Rightarrow> 'a ring_buffer \<Rightarrow> 'a ring_buffer res" where
  "copy_items rb other =
     (let linearized = is_linearized other;
          (p1, q1) = get_array1 linearized other;
          (p2, q2) = get_array2 linearized other
      in bind_res (load_range p1 q1 (cells other)) (\<lambda>vs1.
         bind_res (uninitialized_copy (trivial_dtor rb) vs1 0 (cells rb)) (\<lambda>(m1, b1).
         bind_res (load_range p2 q2 (cells other)) (\<lambda>vs2.
         bind_res (uninitialized_copy (trivial_dtor rb) vs2 b1 m1) (\<lambda>(m2, b2).
         Inr (rb\<lparr>cells := m2, front_ptr := 0,
                 back_ptr := (if b2 = end_ptr rb then 0 else b2),
                 rb_count := rb_count other\<rparr>))))))"

definition copy_other_items ::
    "nat \<Rightarrow> 'a ring_buffer \<Rightarrow> 'a ring_buffer \<Rightarrow> (nat \<times> 'a ring_buffer) res" where
  "copy_other_items blocks rb other =
     (let (blocks1, rb1) =
        (if capacity rb < capacity other then storage_allocate (capacity other) blocks rb
         else (blocks, rb))
      in bind_res (copy_items rb1 other) (\<lambda>rb2. Inr (blocks1, rb2)))"

definition copy_construct :: "nat \<Rightarrow> 'a ring_buffer \<Rightarrow> (nat \<times> 'a ring_buffer) res" where
  "copy_construct blocks other =
     (if \<not> rb_empty other then copy_other_items blocks (null_ring (trivial_dtor other)) other
      else Inr (blocks, null_ring (trivial_dtor other)))"

definition move_construct :: "'a ring_buffer \<Rightarrow> 'a ring_buffer \<times> 'a ring_buffer" where
  "move_construct other = (other, null_ring (trivial_dtor other))"

definition destruct :: "nat \<Rightarrow> 'a ring_buffer \<Rightarrow> nat res" where
  "destruct blocks rb =
     bind_res (if has_storage rb then destroy_all rb else Inr rb) (\<lambda>_.
       Inr (if has_storage rb then blocks - 1 else blocks))"

definition copy_another_ring_buffer ::
    "nat \<Rightarrow> 'a ring_buffer \<Rightarrow> 'a ring_buffer \<Rightarrow> (nat \<times> 'a ring_buffer) res" where
  "copy_another_ring_buffer blocks rb other =
     bind_res (ensure (rb_empty rb) Assertion) (\<lambda>_.
       if rb_empty other then Inr (blocks, rb)
       else
         let (blocks1, rb1) =
           (if capacity rb < capacity other then storage_allocate (capacity other) blocks rb
            else (blocks, rb))
         in copy_other_items blocks1 rb1 other)"

definition copy_assign ::
    "bool \<Rightarrow> nat \<Rightarrow> 'a ring_buffer \<Rightarrow> 'a ring_buffer \<Rightarrow> (nat \<times> 'a ring_buffer) res" where
  "copy_assign self blocks rb other =
     (if self then Inr (blocks, rb)
      else bind_res (clear rb) (\<lambda>rb1. copy_another_ring_buffer blocks rb1 other))"

text \<open>
  When the storage cannot be taken and \<open>other\<close> is empty, the code returns after a possible
  reallocation without re-seating \<open>front_ptr_\<close> and \<open>back_ptr_\<close>, which then point into the
  freed block. Offsets cannot represent that state, so the model reports it as a fault.
\<close>

definition move_another_ring_buffer ::
    "bool \<Rightarrow> nat \<Rightarrow> 'a ring_buffer \<Rightarrow> 'a ring_buffer \<Rightarrow>
     (nat \<times> 'a ring_buffer \<times> 'a ring_buffer) res" where
  "move_another_ring_buffer take_storage blocks rb other =
     bind_res (ensure (rb_empty rb) Assertion) (\<lambda>_.
       if take_storage then Inr (blocks, other, null_ring (trivial_dtor other))
       else
         let (blocks1, rb1) =
           (if capacity rb < capacity other then storage_allocate (capacity other) blocks rb
            else (blocks, rb))
         in if rb_empty other then
              (if capacity rb < capacity other then Inl Dangling_pointer
               else Inr (blocks1, rb1, other))
            else bind_res (copy_items rb1 other) (\<lambda>rb2. Inr (blocks1, rb2, other)))"

definition move_assign ::
    "bool \<Rightarrow> bool \<Rightarrow> nat \<Rightarrow> 'a ring_buffer \<Rightarrow> 'a ring_buffer \<Rightarrow>
     (nat \<times> 'a ring_buffer \<times> 'a ring_buffer) res" where
  "move_assign self take_storage blocks rb other =
     (if self then Inr (blocks, rb, rb)
      else bind_res (clear rb) (\<lambda>rb1. move_another_ring_buffer take_storage blocks rb1 other))"

definition swap :: "'a ring_buffer \<Rightarrow> 'a ring_buffer \<Rightarrow> 'a ring_buffer \<times> 'a ring_buffer" where
  "swap rb other = (other, rb)"

definition set_capacity ::
    "nat \<Rightarrow> nat \<Rightarrow> 'a ring_buffer \<Rightarrow> (nat \<times> 'a ring_buffer) res option" where
  "set_capacity blocks n rb =
     (if n = capacity rb then Some (Inr (blocks, rb))
      else
        let (blocks1, rbuf) = ring_with_capacity (trivial_dtor rb) n blocks in
        map_option (\<lambda>r.
          bind_res r (\<lambda>xs.
          bind_res (insert_back xs rbuf) (\<lambda>rbuf1.
          bind_res (move_assign False True blocks1 rb rbuf1) (\<lambda>(blocks2, rb2, rbuf2).
          bind_res (destruct blocks2 rbuf2) (\<lambda>blocks3. Inr (blocks3, rb2))))))
          (begin_to_end rb))"

lemma pop_back_count:
  "pop_back rb = Inr rb' \<Longrightarrow> rb_count rb' = rb_count rb - 1 \<and> 0 < rb_count rb"
  by (auto simp: pop_back_def bind_res_eq_Inr op_defs Let_def split: if_splits)

lemma unchecked_emplace_back_count:
  "unchecked_emplace_back v rb = Inr rb' \<Longrightarrow> rb_count rb' = rb_count rb + 1"
  by (auto simp: unchecked_emplace_back_def bind_res_eq_Inr increment_back_def)

function pop_back_while :: "nat \<Rightarrow> 'a ring_buffer \<Rightarrow> 'a ring_buffer res" where
  "pop_back_while new_size rb =
     (if rb_size rb > new_size then bind_res (pop_back rb) (pop_back_while new_size) else Inr rb)"
  by pat_completeness auto
termination
  by (relation "measure (\<lambda>(new_size, rb). rb_size rb)")
    (auto simp: rb_size_def dest!: pop_back_count)

function emplace_back_while :: "nat \<Rightarrow> 'a \<Rightarrow> 'a ring_buffer \<Rightarrow> 'a ring_buffer res" where
  "emplace_back_while new_size v rb =
     (if rb_size rb < new_size then
        bind_res (unchecked_emplace_back v rb) (emplace_back_while new_size v)
      else Inr rb)"
  by pat_completeness auto
termination
  by (relation "measure (\<lambda>(new_size, v, rb). new_size - rb_size rb)")
    (auto simp: rb_size_def dest!: unchecked_emplace_back_count)

declare pop_back_while.simps [simp del] emplace_back_while.simps [simp del]

definition resize_trivial_shrink :: "nat \<Rightarrow> 'a ring_buffer \<Rightarrow> 'a ring_buffer" where
  "resize_trivial_shrink new_size rb =
     (let b = front_ptr rb + new_size in
      rb\<lparr>back_ptr := (if b \<ge> end_ptr rb then b - end_ptr rb else b), rb_count := new_size\<rparr>)"

text \<open>
  The last loop of \<open>resize\<close> runs \<open>while (!full())\<close>; the size never exceeds the capacity, so this
  is \<open>while (size() < capacity())\<close>.
\<close>

definition resize ::
    "nat \<Rightarrow> nat \<Rightarrow> 'a \<Rightarrow> 'a ring_buffer \<Rightarrow> (nat \<times> 'a ring_buffer) res option" where
  "resize blocks new_size value rb =
     (if new_size = rb_size rb then Some (Inr (blocks, rb))
      else if new_size > capacity rb then
        let (temp, moved) = move_construct rb in
        map_option (\<lambda>r.
          bind_res r (\<lambda>(blocks1, rb1).
          bind_res (array_one temp) (\<lambda>vs1.
          bind_res (uninitialized_copy (trivial_dtor rb) vs1 (front_ptr rb1) (cells rb1)) (\<lambda>(m1, b1).
          bind_res (array_two temp) (\<lambda>vs2.
          bind_res (uninitialized_copy (trivial_dtor rb) vs2 b1 m1) (\<lambda>(m2, b2).
          bind_res (uninitialized_copy (trivial_dtor rb) (replicate (end_ptr rb1 - b2) value) b2 m2)
            (\<lambda>(m3, _).
          bind_res (destruct blocks1 temp) (\<lambda>blocks2.
          Inr (blocks2, rb1\<lparr>cells := m3, back_ptr := 0, rb_count := new_size\<rparr>)))))))))
          (set_capacity blocks new_size moved)
      else if new_size < capacity rb then
        Some (bind_res
          (if rb_size rb > new_size then
             (if \<not> trivial_dtor rb then pop_back_while new_size rb
              else Inr (resize_trivial_shrink new_size rb))
           else emplace_back_while new_size value rb)
          (\<lambda>rb1. Inr (blocks, rb1)))
      else Some (bind_res (emplace_back_while (capacity rb) value rb) (\<lambda>rb1. Inr (blocks, rb1))))"

section \<open>Construction\<close>

definition holds :: "'a ring_buffer \<Rightarrow> 'a list \<Rightarrow> nat \<Rightarrow> bool" where
  "holds rb xs cap \<longleftrightarrow> wf_ring rb \<and> contents rb = xs \<and> capacity rb = cap"

lemma holds_linear:
  assumes "linear rb A xs C" and "length (cells rb) = cap"
  shows "holds rb xs cap"
  using linear_wf [OF assms(1)] assms(2) by (simp add: holds_def capacity_def)

lemma null_ring_holds: "holds (null_ring td) [] 0"
  by (rule holds_linear [where A = "[]" and C = "[]"]) (simp_all add: linear_def null_ring_def)

lemma null_ring_simps [simp]:
  "has_storage (null_ring td) \<longleftrightarrow> False" "cells (null_ring td) = []" "rb_count (null_ring td) = 0"
  "front_ptr (null_ring td) = 0" "back_ptr (null_ring td) = 0" "trivial_dtor (null_ring td) = td"
  by (simp_all add: null_ring_def)

lemma storage_allocate_simps [simp]:
  "has_storage (snd (storage_allocate n blocks rb))"
  "cells (snd (storage_allocate n blocks rb)) = replicate n None"
  "front_ptr (snd (storage_allocate n blocks rb)) = front_ptr rb"
  "back_ptr (snd (storage_allocate n blocks rb)) = back_ptr rb"
  "rb_count (snd (storage_allocate n blocks rb)) = rb_count rb"
  "trivial_dtor (snd (storage_allocate n blocks rb)) = trivial_dtor rb"
  by (simp_all add: storage_allocate_def)

lemma ring_with_capacity_holds:
  "holds (snd (ring_with_capacity td n blocks)) [] n"
  "has_storage (snd (ring_with_capacity td n blocks))"
  "trivial_dtor (snd (ring_with_capacity td n blocks)) = td"
  "fst (ring_with_capacity td n blocks) = blocks + 1"
  by (auto simp: ring_with_capacity_def storage_allocate_def linear_def
      intro!: holds_linear [where A = "[]" and C = "replicate n None"])

lemma copy_into_fresh:
  assumes "length xs \<le> n"
  shows "uninitialized_copy td xs 0 (replicate n None)
    = Inr (map Some xs @ replicate (n - length xs) None, length xs)"
proof -
  have "replicate n None = [] @ replicate (length xs) None @ replicate (n - length xs) (None :: 'a option)"
    using assms by (simp flip: replicate_add)
  then show ?thesis
    using uninitialized_copy_segment [of 0 "[]" "replicate (length xs) None" xs td
        "replicate (n - length xs) None"] by simp
qed

lemma ring_sized_ok:
  assumes "n \<le> cap"
  shows "\<exists>rb. ring_sized td cap n v blocks = Inr (blocks + 1, rb) \<and> holds rb (replicate n v) cap"
proof -
  let ?rb = "\<lparr>trivial_dtor = td, has_storage = True,
    cells = map Some (replicate n v) @ replicate (cap - n) None, front_ptr = 0,
    back_ptr = (if n = cap then 0 else n), rb_count = n\<rparr>"
  have "ring_sized td cap n v blocks = Inr (blocks + 1, ?rb)"
    using assms copy_into_fresh [of "replicate n v" cap td]
    by (simp add: ring_sized_def make_sure_capacity_is_larger_than_size_def ring_with_capacity_def
        storage_allocate_def null_ring_def end_ptr_def Let_def)
  moreover have "holds ?rb (replicate n v) cap"
    by (rule holds_linear [where A = "[]" and C = "replicate (cap - n) None"])
      (use assms in \<open>auto simp: linear_def\<close>)
  ultimately show ?thesis by blast
qed

lemma ring_from_range_ok:
  "\<exists>rb. ring_from_range td xs blocks = Inr (blocks + 1, rb) \<and> holds rb xs (length xs)"
proof -
  let ?rb = "\<lparr>trivial_dtor = td, has_storage = True, cells = map Some xs, front_ptr = 0,
    back_ptr = 0, rb_count = length xs\<rparr>"
  have "ring_from_range td xs blocks = Inr (blocks + 1, ?rb)"
    using copy_into_fresh [of xs "length xs" td]
    by (simp add: ring_from_range_def ring_with_capacity_def storage_allocate_def null_ring_def
        capacity_def)
  moreover have "holds ?rb xs (length xs)"
    by (rule holds_linear [where A = "[]" and C = "[]"]) (auto simp: linear_def)
  ultimately show ?thesis by blast
qed

lemma ring_fill_ok:
  "\<exists>rb. ring_fill td n v blocks = Inr (blocks + 1, rb) \<and> holds rb (replicate n v) n"
proof -
  let ?rb = "\<lparr>trivial_dtor = td, has_storage = True, cells = map Some (replicate n v),
    front_ptr = 0, back_ptr = 0, rb_count = n\<rparr>"
  have "ring_fill td n v blocks = Inr (blocks + 1, ?rb)"
    using copy_into_fresh [of "replicate n v" n td]
    by (simp add: ring_fill_def ring_with_capacity_def storage_allocate_def null_ring_def)
  moreover have "holds ?rb (replicate n v) n"
    by (rule holds_linear [where A = "[]" and C = "[]"]) (auto simp: linear_def)
  ultimately show ?thesis by blast
qed

lemma ring_fill_alloc_overrun:
  assumes "1 < n"
  shows "\<exists>rb. ring_fill_alloc td n v blocks = Inr (blocks + 1, rb) \<and>
           emplace_back w rb = Inl Out_of_bounds"
proof -
  obtain k where n: "n = Suc (Suc k)" using assms by (metis less_natE add_Suc One_nat_def)
  let ?rb = "\<lparr>trivial_dtor = td, has_storage = True, cells = map Some (replicate n v),
    front_ptr = 0, back_ptr = n, rb_count = n\<rparr>"
  have "ring_fill_alloc td n v blocks = Inr (blocks + 1, ?rb)"
    using copy_into_fresh [of "replicate n v" n td]
    by (simp add: ring_fill_alloc_def ring_with_capacity_def storage_allocate_def null_ring_def
        end_ptr_def)
  moreover have "emplace_back w ?rb = Inl Out_of_bounds"
    using n by (simp add: emplace_back_def op_defs pop_front_def destroy_at_def
        unchecked_emplace_back_def construct_def)
  ultimately show ?thesis by blast
qed

section \<open>Copying and moving\<close>

lemma array_spans:
  assumes "wf_ring rb"
  shows "\<exists>vs1 vs2 p1 q1 p2 q2. get_array1 (is_linearized rb) rb = (p1, q1) \<and>
           get_array2 (is_linearized rb) rb = (p2, q2) \<and>
           load_range p1 q1 (cells rb) = Inr vs1 \<and> load_range p2 q2 (cells rb) = Inr vs2 \<and>
           contents rb = vs1 @ vs2"
  using assms
proof (cases rule: wf_ring_cases)
  case (linear A C)
  define xs where "xs = contents rb"
  have "load_range (length A) (length A + length xs) (cells rb) = Inr xs"
    using linear load_range_segment [of "length A" A "length A + length xs" xs C]
    by (simp add: linear_def xs_def)
  then show ?thesis
    using linear linear_is_linearized [OF linear] unfolding xs_def
    by (simp add: get_array1_def get_array2_def rb_size_def linear_def)
next
  case (wrapped ys zs G)
  have c: "cells rb = (map Some zs @ G) @ map Some ys @ []"
    and ptr: "front_ptr rb = length zs + length G" "end_ptr rb = length zs + length G + length ys"
      "back_ptr rb = length zs" "\<not> is_linearized rb"
    using wrapped(2) wrapped_not_linearized [OF wrapped(2)]
    by (simp_all add: wrapped_def end_ptr_def)
  have "load_range (front_ptr rb) (end_ptr rb) (cells rb) = Inr ys"
    unfolding c by (rule load_range_segment) (simp_all add: ptr)
  moreover have "load_range 0 (length zs) (cells rb) = Inr zs"
    using load_range_segment [of 0 "[]" "length zs" zs "G @ map Some ys"] c by simp
  ultimately show ?thesis
    using ptr wrapped(1) by (simp add: get_array1_def get_array2_def)
qed

lemma array_one_two_contents:
  assumes "wf_ring rb"
  shows "\<exists>vs1 vs2. array_one rb = Inr vs1 \<and> array_two rb = Inr vs2 \<and> contents rb = vs1 @ vs2"
  using array_spans [OF assms] by (auto simp: array_one_def array_two_def)

lemma copy_two_segments:
  assumes "vacant td m" and "length vs1 + length vs2 \<le> length m"
  shows "\<exists>m1 C. uninitialized_copy td vs1 0 m = Inr (m1, length vs1) \<and>
     uninitialized_copy td vs2 (length vs1) m1
       = Inr (map Some (vs1 @ vs2) @ C, length vs1 + length vs2) \<and>
     vacant td C \<and> length C = length m - (length vs1 + length vs2)"
proof -
  have "length vs1 \<le> length m" using assms(2) by simp
  then obtain D1 R where m: "m = D1 @ R" "length D1 = length vs1" by (rule split_append)
  then have "length vs2 \<le> length R" using assms(2) by simp
  then obtain D2 C where R: "R = D2 @ C" "length D2 = length vs2" by (rule split_append)
  have "uninitialized_copy td vs1 0 ([] @ D1 @ R) = Inr ([] @ map Some vs1 @ R, 0 + length vs1)"
    using m assms(1) by (intro uninitialized_copy_segment) auto
  moreover have "uninitialized_copy td vs2 (length vs1) (map Some vs1 @ D2 @ C)
      = Inr (map Some vs1 @ map Some vs2 @ C, length vs1 + length vs2)"
    using m R assms(1) by (intro uninitialized_copy_segment) auto
  ultimately show ?thesis
    using m R assms(1) by auto
qed

lemma copy_items_holds:
  assumes "wf_ring other" and st: "has_storage rb" and vac: "vacant (trivial_dtor rb) (cells rb)"
    and room: "length (contents other) \<le> capacity rb"
  shows "\<exists>rb'. copy_items rb other = Inr rb' \<and> holds rb' (contents other) (capacity rb)"
proof -
  let ?td = "trivial_dtor rb"
  obtain vs1 vs2 p1 q1 p2 q2 where arr: "get_array1 (is_linearized other) other = (p1, q1)"
    "get_array2 (is_linearized other) other = (p2, q2)"
    "load_range p1 q1 (cells other) = Inr vs1" "load_range p2 q2 (cells other) = Inr vs2"
    and vs: "contents other = vs1 @ vs2"
    using array_spans [OF assms(1)] by blast
  obtain m1 C where cp: "uninitialized_copy ?td vs1 0 (cells rb) = Inr (m1, length vs1)"
    "uninitialized_copy ?td vs2 (length vs1) m1
       = Inr (map Some (vs1 @ vs2) @ C, length vs1 + length vs2)"
    and C: "vacant ?td C" "length C = length (cells rb) - (length vs1 + length vs2)"
    using copy_two_segments [OF vac, of vs1 vs2] room vs by (auto simp: capacity_def)
  define n where "n = length vs1 + length vs2"
  let ?rb = "rb\<lparr>cells := map Some (vs1 @ vs2) @ C, front_ptr := 0,
    back_ptr := (if n = end_ptr rb then 0 else n), rb_count := rb_count other\<rparr>"
  have "copy_items rb other = Inr ?rb"
    using arr cp by (simp add: copy_items_def Let_def n_def)
  moreover have "holds ?rb (contents other) (capacity rb)"
  proof (rule holds_linear [where A = "[]" and C = C])
    show "linear ?rb [] (contents other) C"
      using C st room vs length_contents [OF assms(1)]
      by (auto simp: linear_def end_ptr_def capacity_def n_def)
    show "length (cells ?rb) = capacity rb"
      using C room vs by (simp add: capacity_def)
  qed
  ultimately show ?thesis by blast
qed

lemma copy_other_items_holds:
  assumes "wf_ring other" and ne: "contents other \<noteq> []"
    and vac: "vacant (trivial_dtor rb) (cells rb)" and cap: "\<not> has_storage rb \<longrightarrow> cells rb = []"
  shows "\<exists>rb'. copy_other_items blocks rb other
      = Inr (if has_storage rb then blocks else blocks + 1, rb') \<and>
    holds rb' (contents other) (max (capacity rb) (capacity other))"
proof (cases "capacity rb < capacity other")
  case True
  let ?rb = "snd (storage_allocate (capacity other) blocks rb)"
  obtain rb' where "copy_items ?rb other = Inr rb'" "holds rb' (contents other) (capacity ?rb)"
    using copy_items_holds [OF assms(1), of ?rb] contents_le_capacity [OF assms(1)]
    by (auto simp: capacity_def)
  with True show ?thesis
    by (auto simp: copy_other_items_def storage_allocate_def capacity_def)
next
  case False
  have le: "length (contents other) \<le> capacity other" using contents_le_capacity [OF assms(1)] .
  with False ne have "0 < capacity rb" by (cases "contents other") auto
  then have st: "has_storage rb" using cap by (auto simp: capacity_def)
  have "length (contents other) \<le> capacity rb" using False le by simp
  then obtain rb' where "copy_items rb other = Inr rb'" "holds rb' (contents other) (capacity rb)"
    using copy_items_holds [OF assms(1) st vac] by blast
  with False st show ?thesis
    by (auto simp: copy_other_items_def max_def)
qed

end
