(* ===== verification/Ring_Assign.thy ===== *)
theory Ring_Assign
  imports Ring_Lifetime
begin

text \<open>
  What copying, moving, \<open>set_capacity\<close> and \<open>resize\<close> do to the represented list and to the
  number of allocated blocks. Each result is stated with \<open>holds\<close>: the resulting ring is well
  formed, holds the given list and has the given capacity.
\<close>

section \<open>Copying\<close>

lemma wf_empty_vacant: "wf_ring rb \<Longrightarrow> contents rb = [] \<Longrightarrow> vacant (trivial_dtor rb) (cells rb)"
proof -
  assume wf: "wf_ring rb" and "contents rb = []"
  then have "rb_count rb = 0" using length_contents [OF wf] by simp
  moreover from this wf have "front_ptr rb = 0" by (simp add: wf_ring_def)
  ultimately show ?thesis using wf by (simp add: wf_ring_def spare_cells_def)
qed

lemma holds_wf: "holds rb xs cap \<Longrightarrow> wf_ring rb"
  by (simp add: holds_def)

lemma null_ring_wf [simp]: "wf_ring (null_ring td)"
  by (rule holds_wf [OF null_ring_holds])

lemma wf_no_storage: "wf_ring rb \<Longrightarrow> \<not> has_storage rb \<longrightarrow> cells rb = []"
  by (simp add: wf_ring_def)

lemma copy_construct_holds:
  assumes "wf_ring other"
  shows "\<exists>rb'. copy_construct blocks other
      = Inr (if contents other = [] then blocks else blocks + 1, rb') \<and>
    holds rb' (contents other) (if contents other = [] then 0 else capacity other)"
proof (cases "contents other = []")
  case True
  then show ?thesis
    using assms null_ring_holds by (auto simp: copy_construct_def rb_empty_contents)
next
  case False
  then show ?thesis
    using copy_other_items_holds [OF assms False, of "null_ring (trivial_dtor other)" blocks] assms
    by (auto simp: copy_construct_def rb_empty_contents capacity_def)
qed

lemma copy_assign_holds:
  assumes rb: "wf_ring rb" and other: "wf_ring other"
  shows "\<exists>rb'. copy_assign False blocks rb other
      = Inr (if contents other = [] \<or> has_storage rb then blocks else blocks + 1, rb') \<and>
    holds rb' (contents other)
      (if contents other = [] then capacity rb else max (capacity rb) (capacity other))"
proof -
  obtain rb1 where cl: "clear rb = Inr rb1" "wf_ring rb1" "contents rb1 = []"
    "capacity rb1 = capacity rb" "has_storage rb1 = has_storage rb"
    using clear_becomes [OF rb] by (rule becomesE)
  have e: "rb_empty rb1" using cl by (simp add: rb_empty_contents)
  show ?thesis
  proof (cases "contents other = []")
    case True
    then show ?thesis
      using cl e other
      by (auto simp: copy_assign_def copy_another_ring_buffer_def rb_empty_contents holds_def)
  next
    case False
    let ?alloc = "capacity rb1 < capacity other"
    define st where "st = (if ?alloc then storage_allocate (capacity other) blocks rb1
      else (blocks, rb1))"
    have "vacant (trivial_dtor (snd st)) (cells (snd st))"
      "\<not> has_storage (snd st) \<longrightarrow> cells (snd st) = []"
      using cl wf_empty_vacant wf_no_storage [of rb1] by (auto simp: st_def)
    from copy_other_items_holds [OF other False this, of "fst st"]
    obtain rb' where rb': "copy_other_items (fst st) (snd st) other
        = Inr (if has_storage (snd st) then fst st else fst st + 1, rb')"
      "holds rb' (contents other) (max (capacity (snd st)) (capacity other))"
      by blast
    have "max (capacity (snd st)) (capacity other) = max (capacity rb) (capacity other)"
      using cl by (auto simp: st_def capacity_def)
    moreover have "(if has_storage (snd st) then fst st else fst st + 1)
        = (if has_storage rb then blocks else blocks + 1)"
      using cl by (auto simp: st_def storage_allocate_def)
    ultimately show ?thesis
      using cl e False rb' other
      by (auto simp: copy_assign_def copy_another_ring_buffer_def rb_empty_contents st_def
          split: prod.splits if_splits)
  qed
qed

section \<open>Moving and destruction\<close>

lemma destruct_blocks:
  assumes "wf_ring rb"
  shows "destruct blocks rb = Inr (if has_storage rb then blocks - 1 else blocks)"
  using destroy_all_cells [OF assms] by (auto simp: destruct_def)

lemma destruct_null [simp]: "destruct blocks (null_ring td) = Inr blocks"
  by (simp add: destruct_blocks)

lemma move_assign_take:
  assumes "wf_ring rb"
  shows "move_assign False True blocks rb other = Inr (blocks, other, null_ring (trivial_dtor other))"
proof -
  obtain rb1 where "clear rb = Inr rb1" "wf_ring rb1" "contents rb1 = []"
    using clear_becomes [OF assms] by (rule becomesE)
  then show ?thesis
    by (simp add: move_assign_def move_another_ring_buffer_def rb_empty_contents)
qed

lemma move_assign_copy:
  assumes rb: "wf_ring rb" and other: "wf_ring other" and ne: "contents other \<noteq> []"
  shows "\<exists>rb'. move_assign False False blocks rb other
      = Inr (if has_storage rb then blocks else blocks + 1, rb', other) \<and>
    holds rb' (contents other) (max (capacity rb) (capacity other))"
proof -
  obtain rb1 where cl: "clear rb = Inr rb1" "wf_ring rb1" "contents rb1 = []"
    "capacity rb1 = capacity rb" "has_storage rb1 = has_storage rb"
    using clear_becomes [OF rb] by (rule becomesE)
  have "\<exists>rb'. copy_other_items blocks rb1 other
      = Inr (if has_storage rb1 then blocks else blocks + 1, rb') \<and>
    holds rb' (contents other) (max (capacity rb1) (capacity other))"
    using copy_other_items_holds [OF other ne] cl wf_empty_vacant wf_no_storage by blast
  then obtain rb' where "copy_other_items blocks rb1 other
      = Inr (if has_storage rb then blocks else blocks + 1, rb')"
    and h: "holds rb' (contents other) (max (capacity rb) (capacity other))"
    using cl by auto
  then have "move_another_ring_buffer False blocks rb1 other
      = Inr (if has_storage rb then blocks else blocks + 1, rb', other)"
    using cl ne other
    by (auto simp: move_another_ring_buffer_def copy_other_items_def rb_empty_contents
        bind_res_eq_Inr Let_def split: prod.splits if_splits)
  with h cl show ?thesis by (auto simp: move_assign_def)
qed

lemma move_assign_leaks:
  assumes "wf_ring rb" and "wf_ring other" and "has_storage rb" and "has_storage other"
    and "move_assign False True blocks rb other = Inr (blocks1, rb', other')"
    and "destruct blocks1 rb' = Inr blocks2" and "destruct blocks2 other' = Inr blocks3"
  shows "blocks3 = blocks - 1"
proof -
  have "blocks1 = blocks" "rb' = other" "other' = null_ring (trivial_dtor other)"
    using assms(5) move_assign_take [OF assms(1)] by auto
  then show ?thesis
    using assms destruct_blocks [of rb' blocks1] by auto
qed

section \<open>Changing the capacity\<close>

lemma set_capacity_holds:
  assumes "wf_ring rb" and "n \<noteq> capacity rb"
  shows "\<exists>rb'. set_capacity blocks n rb = Some (Inr (blocks + 1, rb')) \<and>
    holds rb' (drop (length (contents rb) - n) (contents rb)) n"
proof -
  define rbuf where "rbuf = (snd (ring_with_capacity (trivial_dtor rb) n blocks) :: 'a ring_buffer)"
  have fresh: "ring_with_capacity (trivial_dtor rb) n blocks = (blocks + 1, rbuf)"
    using ring_with_capacity_holds(4) by (simp add: rbuf_def prod_eq_iff)
  have h: "holds rbuf [] n" and st: "has_storage rbuf"
    by (simp_all add: rbuf_def ring_with_capacity_holds)
  obtain rbuf1 where ins: "insert_back (contents rb) rbuf = Inr rbuf1"
    and h1: "holds rbuf1 (drop (length (contents rb) - n) (contents rb)) n"
    using insert_back_becomes [OF _ st, of "contents rb"] h
    by (auto simp: holds_def elim!: becomesE)
  show ?thesis
    using assms fresh ins h1
    by (simp add: set_capacity_def begin_to_end_contents move_assign_take)
qed

lemma set_capacity_same: "set_capacity blocks (capacity rb) rb = Some (Inr (blocks, rb))"
  by (simp add: set_capacity_def)

end
