(* ===== verification/Ring_Resize.thy ===== *)
theory Ring_Resize
  imports Ring_Assign
begin

text \<open>
  \<open>resize\<close>: growing within the capacity, growing beyond it, and shrinking. Shrinking to the
  size 0 with a trivially destructible element type keeps \<open>front_ptr_\<close> where it was, which the
  rest of the class does not expect of an empty buffer; the last section shows the write past
  the block that follows.
\<close>

section \<open>The two loops\<close>

lemma pop_back_while_becomes:
  assumes "wf_ring rb"
  shows "becomes rb (take n (contents rb)) (pop_back_while n rb)"
  using assms
proof (induction "rb_count rb" arbitrary: rb)
  case 0
  then show ?case
    using length_contents [OF 0(2)] becomes_refl [OF 0(2)]
    by (simp add: pop_back_while.simps [of n rb] rb_size_contents)
next
  case (Suc k)
  show ?case
  proof (cases "n < length (contents rb)")
    case False
    with Suc.prems show ?thesis
      using becomes_refl [OF Suc.prems]
      by (simp add: pop_back_while.simps [of n rb] rb_size_contents)
  next
    case True
    then obtain xs x where xs: "contents rb = xs @ [x]" by (cases "contents rb" rule: rev_cases) auto
    then obtain rb1 where pb: "pop_back rb = Inr rb1" and b1: "becomes rb xs (Inr rb1)"
      using pop_back_value_becomes [OF Suc.prems] by blast
    have "becomes rb (take n xs) (bind_res (pop_back rb) (pop_back_while n))"
      unfolding pb
    proof (rule becomes_bind [OF b1])
      fix rb' assume rb': "wf_ring rb'" "contents rb' = xs"
      then have "k = rb_count rb'"
        using Suc.hyps(2) xs length_contents [OF Suc.prems] length_contents [OF rb'(1)] by simp
      then show "becomes rb' (take n xs) (pop_back_while n rb')"
        using Suc.hyps(1) [OF _ rb'(1)] rb'(2) by simp
    qed
    with True xs Suc.prems show ?thesis
      by (simp add: pop_back_while.simps [of n rb] rb_size_contents)
  qed
qed

lemma emplace_back_while_becomes:
  assumes "wf_ring rb" and "n \<le> capacity rb"
  shows "becomes rb (contents rb @ replicate (n - length (contents rb)) v) (emplace_back_while n v rb)"
  using assms
proof (induction "n - length (contents rb)" arbitrary: rb)
  case 0
  then show ?case
    using becomes_refl [OF 0(2)] by (simp add: emplace_back_while.simps [of n v rb] rb_size_contents)
next
  case (Suc k)
  then have lt: "length (contents rb) < n" by simp
  have "becomes rb (contents rb @ replicate (Suc k) v)
      (bind_res (unchecked_emplace_back v rb) (emplace_back_while n v))"
  proof (rule becomes_bind [OF unchecked_emplace_back_becomes])
    show "wf_ring rb" "length (contents rb) < capacity rb" using Suc.prems lt by simp_all
  next
    fix rb' assume rb': "wf_ring rb'" "contents rb' = contents rb @ [v]" "capacity rb' = capacity rb"
    then have "k = n - length (contents rb')" using Suc.hyps(2) by simp
    from Suc.hyps(1) [OF this rb'(1)] this
    show "becomes rb' (contents rb @ replicate (Suc k) v) (emplace_back_while n v rb')"
      using rb' Suc.prems by (simp add: replicate_append_same)
  qed
  with lt Suc.prems Suc.hyps(2) show ?case
    by (simp add: emplace_back_while.simps [of n v rb] rb_size_contents)
qed

section \<open>Results of resize\<close>

lemma becomes_holds:
  assumes "becomes rb xs r"
  obtains rb' where "r = Inr rb'" and "holds rb' xs (capacity rb)"
  using assms by (auto simp: becomes_def holds_def)

lemma resize_grow_within:
  assumes "wf_ring rb" and "length (contents rb) \<le> n" and "n \<le> capacity rb"
  shows "\<exists>rb'. resize blocks n v rb = Some (Inr (blocks, rb')) \<and>
    holds rb' (contents rb @ replicate (n - length (contents rb)) v) (capacity rb)"
proof (cases "n = length (contents rb)")
  case True
  with assms show ?thesis by (simp add: resize_def rb_size_contents holds_def)
next
  case False
  obtain rb' where "emplace_back_while n v rb = Inr rb'"
    and "holds rb' (contents rb @ replicate (n - length (contents rb)) v) (capacity rb)"
    using emplace_back_while_becomes [OF assms(1,3)] by (rule becomes_holds)
  with False assms show ?thesis
    by (auto simp: resize_def rb_size_contents)
qed

lemma resize_trivial_shrink_holds:
  assumes "wf_ring rb" and td: "trivial_dtor rb" and n: "n < length (contents rb)"
    and keep: "0 < n \<or> front_ptr rb = 0"
  shows "holds (resize_trivial_shrink n rb) (take n (contents rb)) (capacity rb)"
proof -
  let ?rb = "resize_trivial_shrink n rb"
  have same: "cells ?rb = cells rb" "front_ptr ?rb = front_ptr rb" "rb_count ?rb = n"
    "trivial_dtor ?rb = trivial_dtor rb" "has_storage ?rb = has_storage rb"
    by (simp_all add: resize_trivial_shrink_def Let_def)
  have live: "live_cells ?rb = take n (live_cells rb)"
    using n length_contents [OF assms(1)]
    by (simp add: live_cells_def same min_absorb1 del: take_append)
  have f: "front_ptr rb < length (cells rb)"
    using assms n length_contents [OF assms(1)] by (auto simp: wf_ring_def split: if_splits)
  have nc: "n < length (cells rb)"
    using n contents_le_capacity [OF assms(1)] by (simp add: capacity_def)
  have "back_ptr ?rb = (front_ptr rb + n) mod length (cells rb)"
    using f nc by (auto simp: resize_trivial_shrink_def Let_def end_ptr_def mod_if)
  then have "wf_ring ?rb"
    using assms f nc live unfolding wf_ring_def same
    by (auto simp: list_all_iff dest: in_set_takeD)
  then show ?thesis
    by (simp add: holds_def contents_def live take_map capacity_def same)
qed

lemma resize_shrink:
  assumes "wf_ring rb" and n: "n < length (contents rb)"
    and keep: "trivial_dtor rb \<longrightarrow> 0 < n \<or> front_ptr rb = 0"
  shows "\<exists>rb'. resize blocks n v rb = Some (Inr (blocks, rb')) \<and>
    holds rb' (take n (contents rb)) (capacity rb)"
proof -
  have nc: "n < capacity rb" using n contents_le_capacity [OF assms(1)] by simp
  obtain rb1 where pb: "pop_back_while n rb = Inr rb1"
    "holds rb1 (take n (contents rb)) (capacity rb)"
    using pop_back_while_becomes [OF assms(1)] by (rule becomes_holds)
  then show ?thesis
    using assms nc resize_trivial_shrink_holds [OF assms(1) _ n]
    by (auto simp: resize_def rb_size_contents)
qed

lemma uninitialized_copy_append:
  "uninitialized_copy td (xs @ ys) p m =
     bind_res (uninitialized_copy td xs p m) (\<lambda>(m1, p1). uninitialized_copy td ys p1 m1)"
proof (induction xs arbitrary: p m)
  case (Cons x xs)
  then have "uninitialized_copy td (xs @ ys) (Suc p) = (\<lambda>m. bind_res (uninitialized_copy td xs (Suc p) m)
      (\<lambda>(m1, p1). uninitialized_copy td ys p1 m1))"
    by (rule ext)
  then show ?case by (simp add: bind_res_assoc)
qed simp

lemma null_ring_contents: "contents (null_ring td) = []"
  by (simp add: contents_def live_cells_def)

lemma begin_to_end_null: "begin_to_end (null_ring td) = Some (Inr [])"
  using begin_to_end_contents [OF null_ring_wf] by (simp add: null_ring_contents)

lemma insert_back_nothing:
  assumes "wf_ring rb" and "has_storage rb" and "contents rb = []"
  shows "insert_back [] rb = Inr rb"
proof -
  have "front_ptr rb = 0" "back_ptr rb = 0" "rb_count rb = 0"
    using assms length_contents [OF assms(1)] by (simp_all add: wf_ring_def)
  with assms(2) show ?thesis
    by (simp add: insert_back_def insert_back_fits_def Let_def)
qed

lemma set_capacity_null:
  assumes "0 < n"
  shows "set_capacity blocks n (null_ring td) = Some (Inr (blocks + 1,
    \<lparr>trivial_dtor = td, has_storage = True, cells = replicate n None, front_ptr = 0,
     back_ptr = 0, rb_count = 0\<rparr>))"
proof -
  let ?fresh = "\<lparr>trivial_dtor = td, has_storage = True, cells = replicate n (None :: 'a option),
     front_ptr = 0, back_ptr = 0, rb_count = 0\<rparr>"
  have fresh: "ring_with_capacity td n blocks = (blocks + 1, ?fresh)"
    by (simp add: ring_with_capacity_def storage_allocate_def null_ring_def)
  have "holds ?fresh [] n"
    by (rule holds_linear [where A = "[]" and C = "replicate n None"]) (simp_all add: linear_def)
  then have "insert_back [] ?fresh = Inr ?fresh"
    by (intro insert_back_nothing) (auto simp: holds_def)
  with assms fresh show ?thesis
    by (simp add: set_capacity_def capacity_def begin_to_end_null move_assign_take)
qed

lemma resize_grow_beyond:
  assumes wf: "wf_ring rb" and n: "capacity rb < n"
  shows "\<exists>rb'. resize blocks n v rb
      = Some (Inr (if has_storage rb then blocks else blocks + 1, rb')) \<and>
    holds rb' (contents rb @ replicate (n - length (contents rb)) v) n"
proof -
  let ?td = "trivial_dtor rb" and ?len = "length (contents rb)"
  have len: "?len \<le> capacity rb" using contents_le_capacity [OF wf] .
  obtain vs1 vs2 where vs: "array_one rb = Inr vs1" "array_two rb = Inr vs2"
    "contents rb = vs1 @ vs2"
    using array_one_two_contents [OF wf] by blast
  define zs where "zs = contents rb @ replicate (n - ?len) v"
  have lz: "length zs = n" using len n by (simp add: zs_def)
  have "uninitialized_copy ?td zs 0 (replicate n None) = Inr (map Some zs, n)"
    using copy_into_fresh [of zs n ?td] lz by simp
  then obtain m1 m2 b1 b2 where
    cp: "uninitialized_copy ?td vs1 0 (replicate n None) = Inr (m1, b1)"
    "uninitialized_copy ?td vs2 b1 m1 = Inr (m2, b2)"
    "uninitialized_copy ?td (replicate (n - ?len) v) b2 m2 = Inr (map Some zs, n)"
    unfolding zs_def vs(3)
    by (auto simp: uninitialized_copy_append bind_res_assoc bind_res_eq_Inr)
  have "uninitialized_copy ?td (contents rb) 0 (replicate n None)
      = Inr (map Some (contents rb) @ replicate (n - ?len) None, ?len)"
    using len n by (intro copy_into_fresh) simp
  then have b2: "b2 = ?len"
    using cp unfolding vs(3) by (simp add: uninitialized_copy_append)
  define rb' where "rb' = \<lparr>trivial_dtor = ?td, has_storage = True, cells = map Some zs,
    front_ptr = 0, back_ptr = 0, rb_count = n\<rparr>"
  have "resize blocks n v rb
      = Some (Inr (if has_storage rb then blocks else blocks + 1, rb'))"
    using n len cp b2 vs(1,2)
    by (simp add: resize_def rb_size_contents [OF wf] move_construct_def end_ptr_def rb'_def
        set_capacity_null destruct_blocks [OF wf])
  moreover have "holds rb' zs n"
    by (rule holds_linear [where A = "[]" and C = "[]"]) (auto simp: linear_def rb'_def lz)
  ultimately show ?thesis unfolding zs_def by blast
qed

section \<open>Shrinking to nothing\<close>

lemma uninitialized_copy_overrun:
  assumes "length m < p + length xs" and "p \<le> length m"
  shows "uninitialized_copy True xs p m = Inl Out_of_bounds"
  using assms
proof (induction xs arbitrary: p m)
  case (Cons x xs)
  then show ?case by (cases "p = length m") (auto simp: construct_def)
qed simp

lemma resize_zero_trivial:
  assumes wf: "wf_ring rb" and td: "trivial_dtor rb" and f: "front_ptr rb \<noteq> 0"
  shows "resize blocks 0 v rb
    = Some (Inr (blocks, rb\<lparr>back_ptr := front_ptr rb, rb_count := 0\<rparr>))"
proof -
  have "rb_count rb \<noteq> 0" "front_ptr rb < end_ptr rb"
    using wf f by (auto simp: wf_ring_def end_ptr_def split: if_splits)
  then show ?thesis
    using td by (auto simp: resize_def rb_size_def resize_trivial_shrink_def capacity_def
        end_ptr_def Let_def)
qed

lemma resize_zero_overrun:
  assumes wf: "wf_ring rb" and td: "trivial_dtor rb" and f: "front_ptr rb \<noteq> 0"
    and xs: "length xs \<le> capacity rb" "capacity rb < front_ptr rb + length xs"
  shows "\<exists>rb'. resize blocks 0 v rb = Some (Inr (blocks, rb')) \<and> \<not> wf_ring rb' \<and>
    length xs \<le> reserve rb' \<and> insert_back xs rb' = Inl Out_of_bounds"
proof -
  let ?rb = "rb\<lparr>back_ptr := front_ptr rb, rb_count := 0\<rparr>"
  have front: "front_ptr rb < length (cells rb)" and st: "has_storage rb"
    using wf f by (auto simp: wf_ring_def split: if_splits)
  have "uninitialized_copy True xs (front_ptr rb) (cells rb) = Inl Out_of_bounds"
    using front xs by (intro uninitialized_copy_overrun) (simp_all add: capacity_def)
  then have "insert_back xs ?rb = Inl Out_of_bounds"
    using st f td xs
    by (simp add: insert_back_def insert_back_fits_def reserve_def rb_size_def capacity_def
        is_linearized_def Let_def)
  moreover have "\<not> wf_ring ?rb" and "length xs \<le> reserve ?rb"
    using f xs by (simp_all add: wf_ring_def reserve_def rb_size_def capacity_def)
  ultimately show ?thesis
    using resize_zero_trivial [OF wf td f] by blast
qed

end
