(* ===== verification/Refinement.thy ===== *)
theory Refinement
  imports Rad_Prelude
begin

text \<open>
  The interface between a component and its clients. A component is a step function over its
  concrete state that may fault or not return; its contract is a total step function over an abstract state
  together with the obligations \<open>pre\<close> of the caller. The locale \<open>data_refinement\<close> states that
  the component meets its contract on one call; inside it, the same is proved once for every
  sequence of calls. Each component of the development interprets it on its own operations.
\<close>

section \<open>Sequences of calls\<close>

fun run_steps :: "('c \<Rightarrow> 's \<Rightarrow> ('o \<times> 's) run) \<Rightarrow> 'c list \<Rightarrow> 's \<Rightarrow> ('o list \<times> 's) run" where
  "run_steps step [] s = Some (Inr ([], s))"
| "run_steps step (c # cs) s =
     bind_run (step c s) (\<lambda>(out, s1).
     bind_run (run_steps step cs s1) (\<lambda>(outs, s2). Some (Inr (out # outs, s2))))"

fun run_spec :: "('c \<Rightarrow> 'b \<Rightarrow> 'o \<times> 'b) \<Rightarrow> 'c list \<Rightarrow> 'b \<Rightarrow> 'o list \<times> 'b" where
  "run_spec spec [] b = ([], b)"
| "run_spec spec (c # cs) b =
     (let (out, b1) = spec c b; (outs, b2) = run_spec spec cs b1 in (out # outs, b2))"

fun admissible :: "('c \<Rightarrow> 'b \<Rightarrow> bool) \<Rightarrow> ('c \<Rightarrow> 'b \<Rightarrow> 'o \<times> 'b) \<Rightarrow> 'c list \<Rightarrow> 'b \<Rightarrow> bool" where
  "admissible pre spec [] b \<longleftrightarrow> True"
| "admissible pre spec (c # cs) b \<longleftrightarrow> pre c b \<and> admissible pre spec cs (snd (spec c b))"

lemma run_spec_Cons [simp]:
  "fst (run_spec spec (c # cs) b) = fst (spec c b) # fst (run_spec spec cs (snd (spec c b)))"
  "snd (run_spec spec (c # cs) b) = snd (run_spec spec cs (snd (spec c b)))"
  by (simp_all add: Let_def split: prod.splits)

declare run_spec.simps(2) [simp del]

lemma run_spec_append:
  "run_spec spec (cs @ ds) b =
     (let (outs, b1) = run_spec spec cs b; (outs2, b2) = run_spec spec ds b1 in (outs @ outs2, b2))"
  by (induction cs arbitrary: b) (auto simp: run_spec.simps Let_def split: prod.splits)

lemma admissible_append:
  "admissible pre spec (cs @ ds) b \<longleftrightarrow>
     admissible pre spec cs b \<and> admissible pre spec ds (snd (run_spec spec cs b))"
  by (induction cs arbitrary: b) auto

section \<open>Refinement of a contract\<close>

locale data_refinement =
  fixes inv :: "'s \<Rightarrow> bool"
    and abs :: "'s \<Rightarrow> 'b"
    and pre :: "'c \<Rightarrow> 'b \<Rightarrow> bool"
    and step :: "'c \<Rightarrow> 's \<Rightarrow> ('o \<times> 's) run"
    and spec :: "'c \<Rightarrow> 'b \<Rightarrow> 'o \<times> 'b"
  assumes step_refines: "inv s \<Longrightarrow> pre c (abs s) \<Longrightarrow>
    \<exists>s'. step c s = Some (Inr (fst (spec c (abs s)), s')) \<and> inv s' \<and> abs s' = snd (spec c (abs s))"
begin

lemma run_refines:
  assumes "inv s" and "admissible pre spec cs (abs s)"
  shows "\<exists>s'. run_steps step cs s = Some (Inr (fst (run_spec spec cs (abs s)), s')) \<and> inv s' \<and>
           abs s' = snd (run_spec spec cs (abs s))"
  using assms
proof (induction cs arbitrary: s)
  case (Cons c cs)
  then obtain s1 where s1: "step c s = Some (Inr (fst (spec c (abs s)), s1))" "inv s1"
    "abs s1 = snd (spec c (abs s))"
    using step_refines by fastforce
  with Cons obtain s2 where "run_steps step cs s1 = Some (Inr (fst (run_spec spec cs (abs s1)), s2))"
    "inv s2" "abs s2 = snd (run_spec spec cs (abs s1))"
    by fastforce
  with s1 show ?case by simp
qed simp

lemma run_returns:
  assumes "inv s" and "admissible pre spec cs (abs s)"
  shows "run_steps step cs s \<noteq> None \<and> run_steps step cs s \<noteq> Some (Inl e)"
  using run_refines [OF assms] by auto

end

text \<open>A contract whose abstract states satisfy an invariant of their own.\<close>

locale guarded_refinement = data_refinement inv abs pre step spec
  for inv :: "'s \<Rightarrow> bool" and abs :: "'s \<Rightarrow> 'b" and pre :: "'c \<Rightarrow> 'b \<Rightarrow> bool"
    and step :: "'c \<Rightarrow> 's \<Rightarrow> ('o \<times> 's) run" and spec :: "'c \<Rightarrow> 'b \<Rightarrow> 'o \<times> 'b" +
  fixes good :: "'b \<Rightarrow> bool"
  assumes spec_keeps_good: "good b \<Longrightarrow> pre c b \<Longrightarrow> good (snd (spec c b))"
begin

lemma run_spec_good: "good b \<Longrightarrow> admissible pre spec cs b \<Longrightarrow> good (snd (run_spec spec cs b))"
  by (induction cs arbitrary: b) (auto simp: spec_keeps_good)

lemma run_good:
  assumes "inv s" and "good (abs s)" and "admissible pre spec cs (abs s)"
    and "run_steps step cs s = Some (Inr (outs, s'))"
  shows "good (abs s')"
  using run_refines [OF assms(1,3)] run_spec_good [OF assms(2,3)] assms(4) by auto

end

end
