(* ===== verification/Ring_Client.thy ===== *)
theory Ring_Client
  imports Ring_Resize Refinement
begin

text \<open>
  The ring buffer against its contract, a bounded queue that overwrites its oldest elements.
  \<open>ring_step\<close> dispatches the calls of the class, \<open>queue_spec\<close> is the contract over the pair of
  the capacity and the list of elements, and the interpretation of \<open>guarded_refinement\<close> carries
  both to arbitrary sequences of calls.
\<close>

section \<open>Calls, outputs and the contract\<close>

datatype 'a ring_cmd =
    Emplace_back 'a
  | Try_emplace_back 'a
  | Insert_back "'a list"
  | Try_pop_front
  | Try_pop_back
  | Pop_front_n nat
  | At nat
  | Find_if "'a \<Rightarrow> bool"
  | Linearize
  | Clear

datatype 'a ring_out = Done | Flag bool | Item "'a option" | Items "'a list"

definition at_result :: "'a res \<Rightarrow> 'a option res" where
  "at_result r =
     (case r of Inr v \<Rightarrow> Inr (Some v) | Inl e \<Rightarrow> if e = Out_of_range then Inr None else Inl e)"

fun ring_step :: "'a ring_cmd \<Rightarrow> 'a ring_buffer \<Rightarrow> ('a ring_out \<times> 'a ring_buffer) res" where
  "ring_step (Emplace_back v) rb = bind_res (emplace_back v rb) (\<lambda>rb1. Inr (Done, rb1))"
| "ring_step (Try_emplace_back v) rb =
     bind_res (try_emplace_back v rb) (\<lambda>(b, rb1). Inr (Flag b, rb1))"
| "ring_step (Insert_back xs) rb = bind_res (insert_back xs rb) (\<lambda>rb1. Inr (Done, rb1))"
| "ring_step Try_pop_front rb = bind_res (try_pop_front_value rb) (\<lambda>(v, rb1). Inr (Item v, rb1))"
| "ring_step Try_pop_back rb = bind_res (try_pop_back_value rb) (\<lambda>(v, rb1). Inr (Item v, rb1))"
| "ring_step (Pop_front_n n) rb = bind_res (pop_front_n n rb) (\<lambda>(vs, rb1). Inr (Items vs, rb1))"
| "ring_step (At i) rb = bind_res (at_result (rb_at rb i)) (\<lambda>v. Inr (Item v, rb))"
| "ring_step (Find_if p) rb = bind_res (find_if p rb) (\<lambda>it.
     case it of None \<Rightarrow> Inr (Item None, rb)
     | Some q \<Rightarrow> bind_res (it_deref rb (Some q)) (\<lambda>v. Inr (Item (Some v), rb)))"
| "ring_step Linearize rb = bind_res (linearize rb) (\<lambda>(_, rb1). Inr (Done, rb1))"
| "ring_step Clear rb = bind_res (clear rb) (\<lambda>rb1. Inr (Done, rb1))"

definition keep_last :: "nat \<Rightarrow> 'a list \<Rightarrow> 'a list" where
  "keep_last n xs = drop (length xs - n) xs"

fun queue_spec :: "'a ring_cmd \<Rightarrow> nat \<times> 'a list \<Rightarrow> 'a ring_out \<times> (nat \<times> 'a list)" where
  "queue_spec (Emplace_back v) (n, xs) = (Done, n, keep_last n (xs @ [v]))"
| "queue_spec (Try_emplace_back v) (n, xs) =
     (if length xs = n then (Flag False, n, xs) else (Flag True, n, xs @ [v]))"
| "queue_spec (Insert_back ys) (n, xs) = (Done, n, keep_last n (xs @ ys))"
| "queue_spec Try_pop_front (n, xs) =
     (case xs of [] \<Rightarrow> (Item None, n, []) | x # xs' \<Rightarrow> (Item (Some x), n, xs'))"
| "queue_spec Try_pop_back (n, xs) =
     (if xs = [] then (Item None, n, []) else (Item (Some (last xs)), n, butlast xs))"
| "queue_spec (Pop_front_n k) (n, xs) = (Items (take k xs), n, drop k xs)"
| "queue_spec (At i) (n, xs) = (Item (if i < length xs then Some (xs ! i) else None), n, xs)"
| "queue_spec (Find_if p) (n, xs) = (Item (find p xs), n, xs)"
| "queue_spec Linearize (n, xs) = (Done, n, xs)"
| "queue_spec Clear (n, xs) = (Done, n, [])"

definition ring_inv :: "'a ring_buffer \<Rightarrow> bool" where
  "ring_inv rb \<longleftrightarrow> wf_ring rb \<and> 0 < capacity rb"

definition ring_abs :: "'a ring_buffer \<Rightarrow> nat \<times> 'a list" where
  "ring_abs rb = (capacity rb, contents rb)"

definition queue_bounded :: "nat \<times> 'a list \<Rightarrow> bool" where
  "queue_bounded q \<longleftrightarrow> length (snd q) \<le> fst q"

section \<open>The operations that combine others\<close>

lemma emplace_back_becomes:
  assumes wf: "wf_ring rb" and cap: "0 < capacity rb"
  shows "becomes rb (keep_last (capacity rb) (contents rb @ [v])) (emplace_back v rb)"
proof (cases "full rb")
  case False
  have "length (contents rb) < capacity rb"
    using False wf contents_le_capacity [OF wf] by (simp add: full_contents le_neq_implies_less)
  then show ?thesis
    using False unchecked_emplace_back_becomes [OF wf, of v]
    by (simp add: emplace_back_def keep_last_def)
next
  case True
  then have len: "length (contents rb) = capacity rb" using wf by (simp add: full_contents)
  with cap obtain x xs where xs: "contents rb = x # xs" by (cases "contents rb") auto
  then obtain rb1 where "pop_front rb = Inr rb1" "becomes rb xs (Inr rb1)"
    using pop_front_value_becomes [OF wf] by blast
  moreover have "becomes rb (xs @ [v]) (bind_res (Inr rb1) (unchecked_emplace_back v))"
  proof (rule becomes_bind)
    show "becomes rb xs (Inr rb1)" by fact
    fix rb' assume "wf_ring rb'" "contents rb' = xs" "capacity rb' = capacity rb"
    then show "becomes rb' (xs @ [v]) (unchecked_emplace_back v rb')"
      using unchecked_emplace_back_becomes [of rb' v] len xs by simp
  qed
  ultimately show ?thesis
    using True len xs by (simp add: emplace_back_def keep_last_def)
qed

lemma try_emplace_back_becomes:
  assumes "wf_ring rb"
  shows "\<exists>rb'. try_emplace_back v rb = Inr (length (contents rb) < capacity rb, rb') \<and>
    becomes rb (contents rb @ (if length (contents rb) < capacity rb then [v] else [])) (Inr rb')"
proof (cases "full rb")
  case True
  with assms show ?thesis
    by (simp add: try_emplace_back_def full_contents becomes_refl)
next
  case False
  then have "length (contents rb) < capacity rb"
    using assms contents_le_capacity [OF assms] by (simp add: full_contents le_neq_implies_less)
  with False show ?thesis
    using unchecked_emplace_back_becomes [OF assms, of v]
    by (auto simp: try_emplace_back_def becomes_def)
qed

lemma rb_at_contents:
  assumes "wf_ring rb"
  shows "rb_at rb i = (if i < length (contents rb) then Inr (contents rb ! i) else Inl Out_of_range)"
  using assms by (simp add: rb_at_def rb_size_contents subscript_contents)

lemma find_first_match:
  "find p xs = (if first_match p xs < length xs then Some (xs ! first_match p xs) else None)"
  by (induction xs) auto

lemma find_if_deref:
  assumes "wf_ring rb" and "find_if p rb = Inr (Some q)"
  shows "find p (contents rb) \<noteq> None \<and> it_deref rb (Some q) = Inr (the (find p (contents rb)))"
proof -
  let ?i = "first_match p (contents rb)"
  have i: "?i < length (contents rb)" and q: "q = (front_ptr rb + ?i) mod capacity rb"
    using assms find_if_contents [OF assms(1), of p] by (auto simp: Let_def split: if_splits)
  have "it_at rb ?i = Some q" using i q by (simp add: it_at_def ring_pos_def)
  then have "it_deref rb (Some q) = Inr (contents rb ! ?i)"
    using it_deref_at [OF assms(1) i] by simp
  then show ?thesis using i by (simp add: find_first_match)
qed

section \<open>One call against the contract\<close>

lemma step_becomes:
  assumes "ring_inv rb" and "becomes rb xs (Inr rb')"
  shows "ring_inv rb' \<and> ring_abs rb' = (capacity rb, xs)"
  using assms by (auto simp: ring_inv_def ring_abs_def becomes_def)

lemma ring_step_mutators:
  assumes inv: "ring_inv rb"
  shows "\<exists>rb'. ring_step (Emplace_back v) rb = Inr (Done, rb') \<and> ring_inv rb' \<and>
      ring_abs rb' = (capacity rb, keep_last (capacity rb) (contents rb @ [v]))"
    and "\<exists>rb'. ring_step (Insert_back ys) rb = Inr (Done, rb') \<and> ring_inv rb' \<and>
      ring_abs rb' = (capacity rb, keep_last (capacity rb) (contents rb @ ys))"
    and "\<exists>rb'. ring_step Linearize rb = Inr (Done, rb') \<and> ring_inv rb' \<and>
      ring_abs rb' = (capacity rb, contents rb)"
    and "\<exists>rb'. ring_step Clear rb = Inr (Done, rb') \<and> ring_inv rb' \<and>
      ring_abs rb' = (capacity rb, [])"
proof -
  have wf: "wf_ring rb" and cap: "0 < capacity rb" and st: "has_storage rb"
    using inv by (auto simp: ring_inv_def intro: wf_storage_capacity)
  show "\<exists>rb'. ring_step (Emplace_back v) rb = Inr (Done, rb') \<and> ring_inv rb' \<and>
      ring_abs rb' = (capacity rb, keep_last (capacity rb) (contents rb @ [v]))"
    using emplace_back_becomes [OF wf cap, of v] inv
    by (auto simp: ring_inv_def ring_abs_def elim!: becomesE)
  show "\<exists>rb'. ring_step (Insert_back ys) rb = Inr (Done, rb') \<and> ring_inv rb' \<and>
      ring_abs rb' = (capacity rb, keep_last (capacity rb) (contents rb @ ys))"
    using insert_back_becomes [OF wf st, of ys] inv
    by (auto simp: keep_last_def ring_inv_def ring_abs_def elim!: becomesE)
  show "\<exists>rb'. ring_step Linearize rb = Inr (Done, rb') \<and> ring_inv rb' \<and>
      ring_abs rb' = (capacity rb, contents rb)"
    using linearize_becomes [OF wf] step_becomes [OF inv] by auto
  show "\<exists>rb'. ring_step Clear rb = Inr (Done, rb') \<and> ring_inv rb' \<and>
      ring_abs rb' = (capacity rb, [])"
    using clear_becomes [OF wf] inv by (auto simp: ring_inv_def ring_abs_def elim!: becomesE)
qed

lemma ring_step_removals:
  assumes inv: "ring_inv rb"
  shows "\<exists>rb'. ring_step Try_pop_front rb = Inr (fst (queue_spec Try_pop_front (ring_abs rb)), rb') \<and>
      ring_inv rb' \<and> ring_abs rb' = snd (queue_spec Try_pop_front (ring_abs rb))"
    and "\<exists>rb'. ring_step Try_pop_back rb = Inr (fst (queue_spec Try_pop_back (ring_abs rb)), rb') \<and>
      ring_inv rb' \<and> ring_abs rb' = snd (queue_spec Try_pop_back (ring_abs rb))"
    and "\<exists>rb'. ring_step (Pop_front_n k) rb = Inr (Items (take k (contents rb)), rb') \<and>
      ring_inv rb' \<and> ring_abs rb' = (capacity rb, drop k (contents rb))"
proof -
  have wf: "wf_ring rb" using inv by (simp add: ring_inv_def)
  show "\<exists>rb'. ring_step Try_pop_front rb = Inr (fst (queue_spec Try_pop_front (ring_abs rb)), rb') \<and>
      ring_inv rb' \<and> ring_abs rb' = snd (queue_spec Try_pop_front (ring_abs rb))"
    using pop_front_value_becomes [OF wf] inv wf step_becomes [OF inv]
    by (cases "contents rb")
      (fastforce simp: try_pop_front_value_def rb_empty_contents ring_abs_def)+
  show "\<exists>rb'. ring_step Try_pop_back rb = Inr (fst (queue_spec Try_pop_back (ring_abs rb)), rb') \<and>
      ring_inv rb' \<and> ring_abs rb' = snd (queue_spec Try_pop_back (ring_abs rb))"
    using pop_back_value_becomes [OF wf] inv wf step_becomes [OF inv]
    by (cases "contents rb" rule: rev_cases)
      (fastforce simp: try_pop_back_value_def rb_empty_contents ring_abs_def)+
  show "\<exists>rb'. ring_step (Pop_front_n k) rb = Inr (Items (take k (contents rb)), rb') \<and>
      ring_inv rb' \<and> ring_abs rb' = (capacity rb, drop k (contents rb))"
    using pop_front_n_becomes [OF wf, of k] step_becomes [OF inv] by auto
qed

lemma ring_step_observers:
  assumes inv: "ring_inv rb"
  shows "ring_step (At i) rb
      = Inr (Item (if i < length (contents rb) then Some (contents rb ! i) else None), rb)"
    and "ring_step (Find_if p) rb = Inr (Item (find p (contents rb)), rb)"
proof -
  have wf: "wf_ring rb" using inv by (simp add: ring_inv_def)
  then show "ring_step (At i) rb
      = Inr (Item (if i < length (contents rb) then Some (contents rb ! i) else None), rb)"
    by (simp add: rb_at_contents at_result_def)
  show "ring_step (Find_if p) rb = Inr (Item (find p (contents rb)), rb)"
  proof (cases "find_if p rb")
    case (Inl e)
    then show ?thesis using find_if_contents [OF wf, of p] by simp
  next
    case (Inr it)
    show ?thesis
    proof (cases it)
      case None
      then have "first_match p (contents rb) = length (contents rb)"
        using Inr find_if_contents [OF wf, of p] first_match_le [of p "contents rb"]
        by (auto simp: Let_def split: if_splits)
      then have "find p (contents rb) = None" by (simp add: find_first_match)
      with Inr None show ?thesis by simp
    next
      case (Some q)
      with Inr find_if_deref [OF wf, of p q] show ?thesis by auto
    qed
  qed
qed

lemma ring_step_refines:
  assumes "ring_inv rb"
  shows "\<exists>rb'. ring_step c rb = Inr (fst (queue_spec c (ring_abs rb)), rb') \<and> ring_inv rb' \<and>
           ring_abs rb' = snd (queue_spec c (ring_abs rb))"
proof (cases c)
  case (Try_emplace_back v)
  then show ?thesis
    using try_emplace_back_becomes [of rb v] step_becomes [OF assms]
      contents_le_capacity [of rb] assms
    by (auto simp: ring_inv_def ring_abs_def split: if_splits)
qed (use ring_step_mutators [OF assms] ring_step_removals [OF assms]
      ring_step_observers [OF assms] assms in \<open>simp_all add: ring_abs_def\<close>)

lemma queue_spec_bounded:
  assumes "queue_bounded q"
  shows "queue_bounded (snd (queue_spec c q))"
  using assms
  by (cases q; cases c) (auto simp: queue_bounded_def keep_last_def split: list.splits)

interpretation rq: guarded_refinement ring_inv ring_abs "\<lambda>_ _. True"
    "\<lambda>c s. Some (ring_step c s)" queue_spec queue_bounded
  by unfold_locales (use ring_step_refines queue_spec_bounded in \<open>auto\<close>)

lemma admissible_True [simp]: "admissible (\<lambda>_ _. True) spec cs b"
  by (induction cs arbitrary: b) simp_all

lemma keep_last_append:
  "keep_last n (keep_last n xs @ ys) = keep_last n (xs @ ys)"
  by (cases "n \<le> length xs") (auto simp: keep_last_def add.commute)

lemma run_emplace_back:
  assumes "length xs \<le> n"
  shows "snd (run_spec queue_spec (map Emplace_back vs) (n, xs)) = (n, keep_last n (xs @ vs))"
  using assms
proof (induction vs arbitrary: xs)
  case (Cons v vs)
  then show ?case
    using keep_last_append [of n "xs @ [v]" vs] Cons.IH [of "keep_last n (xs @ [v])"]
    by (simp add: keep_last_def)
qed (simp add: keep_last_def)

end
