(* ===== verification/Ring_Properties.thy ===== *)
theory Ring_Properties
  imports Ring_Client
begin

text \<open>
  The properties of the ring buffer, each with a witness on the wrapped ring \<open>sample_ring\<close> of
  capacity 4 that holds 1, 2, 3.
\<close>

definition sample_ring :: "nat ring_buffer" where
  "sample_ring = \<lparr>trivial_dtor = False, has_storage = True,
     cells = [Some 3, None, Some 1, Some 2], front_ptr = 2, back_ptr = 1, rb_count = 3\<rparr>"

definition trivial_ring :: "nat ring_buffer" where
  "trivial_ring = sample_ring\<lparr>trivial_dtor := True\<rparr>"

lemma sample_ring_facts [simp]:
  "wf_ring sample_ring" "contents sample_ring = [1, 2, 3]" "capacity sample_ring = 4"
  "has_storage sample_ring" "front_ptr sample_ring = 2" "back_ptr sample_ring = 1"
  "\<not> is_linearized sample_ring" "\<not> trivial_dtor sample_ring"
  by (simp_all add: sample_ring_def wf_ring_def contents_def live_cells_def spare_cells_def
      capacity_def is_linearized_def vacant_def)

lemma trivial_ring_facts [simp]:
  "wf_ring trivial_ring" "contents trivial_ring = [1, 2, 3]" "capacity trivial_ring = 4"
  "trivial_dtor trivial_ring" "front_ptr trivial_ring = 2"
  by (simp_all add: trivial_ring_def sample_ring_def wf_ring_def contents_def live_cells_def
      spare_cells_def capacity_def vacant_def)

lemma sample_ring_inv [simp]: "ring_inv sample_ring" "ring_abs sample_ring = (4, [1, 2, 3])"
  by (simp_all add: ring_inv_def ring_abs_def)

text \<open>
  C1: From a well-formed ring of positive capacity, every sequence of the ten calls \<open>emplace_back\<close>, \<open>try_emplace_back\<close>,
  \<open>insert_back\<close> of a range, \<open>try_pop_front\<close>, \<open>try_pop_back\<close>, \<open>pop_front\<close> of a range, \<open>at\<close>, \<open>find_if\<close>, \<open>linearize\<close> and \<open>clear\<close>
  returns without a fault and behaves as a queue bounded by the capacity that overwrites its oldest elements.
\<close>

theorem ring_runs_as_bounded_queue:
  assumes "ring_inv rb"
  shows "\<exists>rb'. run_steps (\<lambda>c s. Some (ring_step c s)) cmds rb
      = Some (Inr (fst (run_spec queue_spec cmds (ring_abs rb)), rb')) \<and> ring_inv rb' \<and>
    ring_abs rb' = snd (run_spec queue_spec cmds (ring_abs rb))"
  using rq.run_refines [OF assms, of cmds] by simp

theorem ring_runs_as_bounded_queue_witness:
  "\<exists>rb'. run_steps (\<lambda>c s. Some (ring_step c s))
       [Emplace_back 4, Emplace_back 5, Try_pop_front, Try_pop_back] sample_ring
     = Some (Inr ([Done, Done, Item (Some 2), Item (Some 5)], rb')) \<and>
     ring_abs rb' = (4, [3, 4])"
  using ring_runs_as_bounded_queue
    [of sample_ring "[Emplace_back 4, Emplace_back 5, Try_pop_front, Try_pop_back]"]
  by (auto simp: keep_last_def)

text \<open>
  C2: \<open>insert_back\<close> of a range of any length, in every layout of the buffer, keeps the newest
  elements that fit, the old ones first, and leaves the capacity unchanged.
\<close>

theorem insert_back_keeps_newest:
  assumes "wf_ring rb" and "has_storage rb"
  shows "\<exists>rb'. insert_back xs rb = Inr rb' \<and> wf_ring rb' \<and> capacity rb' = capacity rb \<and>
    contents rb' = drop (length (contents rb) + length xs - capacity rb) (contents rb @ xs)"
  using insert_back_becomes [OF assms, of xs] by (auto simp: becomes_def)

theorem insert_back_keeps_newest_witness:
  "\<exists>rb'. insert_back [4, 5, 6] sample_ring = Inr rb' \<and> contents rb' = [3, 4, 5, 6]"
  using insert_back_keeps_newest [of sample_ring "[4, 5, 6]"] by auto

text \<open>
  C3: \<open>linearize\<close> never faults, keeps the elements and their order, and leaves one contiguous
  segment that starts at the returned pointer.
\<close>

theorem linearize_keeps_contents:
  assumes "wf_ring rb"
  shows "\<exists>p rb'. linearize rb = Inr (p, rb') \<and> wf_ring rb' \<and> contents rb' = contents rb \<and>
    capacity rb' = capacity rb \<and> is_linearized rb' \<and>
    p = (if contents rb = [] then None else Some (front_ptr rb'))"
  using linearize_becomes [OF assms] by (auto simp: becomes_def)

theorem linearize_keeps_contents_witness:
  "\<exists>p rb'. linearize sample_ring = Inr (p, rb') \<and> contents rb' = [1, 2, 3] \<and> is_linearized rb'"
  using linearize_keeps_contents [of sample_ring] by auto

text \<open>
  C4: The range forms of \<open>pop_front\<close> and \<open>pop_back\<close> move out the first and the last elements in order. \<open>pop_front\<close>
  keeps the rest in every layout, \<open>pop_back\<close> keeps it unless the range reaches from the second array into the
  first without taking everything: then \<open>back_ptr_\<close> is left at the start of the block, the buffer is ill formed, and for
  elements with a destructor \<open>back()\<close> reads a dead element.
\<close>

theorem pop_ranges:
  assumes "wf_ring rb"
  shows "(\<exists>rb1. pop_front_n n rb = Inr (take n (contents rb), rb1) \<and>
      wf_ring rb1 \<and> contents rb1 = drop n (contents rb)) \<and>
    (is_linearized rb \<or> m \<le> back_ptr rb \<or> length (contents rb) \<le> m \<longrightarrow>
      (\<exists>rb2. pop_back_n m rb = Inr (drop (length (contents rb) - m) (contents rb), rb2) \<and>
        wf_ring rb2 \<and> contents rb2 = take (length (contents rb) - m) (contents rb))) \<and>
    (\<not> is_linearized rb \<and> back_ptr rb < m \<and> m < length (contents rb) \<longrightarrow>
      (\<exists>rb2. pop_back_n m rb = Inr (drop (length (contents rb) - m) (contents rb), rb2) \<and>
        back_ptr rb2 = 0 \<and> \<not> wf_ring rb2 \<and> (\<not> trivial_dtor rb \<longrightarrow> rb_back rb2 = Inl Dead_read)))"
  using pop_front_n_becomes [OF assms, of n] pop_back_n_becomes [OF assms, of m]
    pop_back_n_wrapped_bug [OF assms, of m]
  by (auto simp: becomes_def)

theorem pop_ranges_witness:
  "(\<exists>rb1. pop_front_n 2 sample_ring = Inr ([1, 2], rb1) \<and> contents rb1 = [3]) \<and>
   (\<exists>rb2. pop_back_n 1 sample_ring = Inr ([3], rb2) \<and> contents rb2 = [1, 2]) \<and>
   (\<exists>rb3. pop_back_n 2 sample_ring = Inr ([2, 3], rb3) \<and> \<not> wf_ring rb3 \<and> rb_back rb3 = Inl Dead_read)"
  using pop_ranges [of sample_ring 2 1] pop_ranges [of sample_ring 2 2] by auto

text \<open>
  C5: The iterator loop from \<open>begin()\<close> to \<open>end()\<close> ends and visits exactly the elements in order,
  and \<open>operator==\<close> decides equality of the represented sequences, whatever the layouts.
\<close>

theorem iteration_and_equality:
  assumes "wf_ring lhs" and "wf_ring rhs"
  shows "begin_to_end lhs = Some (Inr (contents lhs)) \<and>
    rb_eq lhs rhs = Some (Inr (contents lhs = contents rhs))"
  using begin_to_end_contents [OF assms(1)] rb_eq_contents [OF assms] by simp

theorem iteration_and_equality_witness:
  "begin_to_end sample_ring = Some (Inr [1, 2, 3]) \<and>
   rb_eq sample_ring sample_ring = Some (Inr True)"
  using iteration_and_equality [of sample_ring sample_ring] by simp

text \<open>
  Random access: moving an iterator that denotes element \<open>i\<close> forwards or backwards gives the
  iterator of the element that many places away, and the difference of two iterators is the
  difference of their indices.
\<close>

theorem iterator_arithmetic:
  assumes "wf_ring rb" and "i < length (contents rb)" and "j \<le> length (contents rb)"
  shows "(i < j \<longrightarrow> it_plus rb (it_at rb i) (int j - int i) = Inr (it_at rb j)) \<and>
    (j < i \<longrightarrow> it_plus rb (it_at rb i) (int j - int i) = Inr (it_at rb j)) \<and>
    it_diff rb (it_at rb j) (it_at rb i) = Inr (int j - int i) \<and>
    it_deref rb (it_at rb i) = Inr (contents rb ! i)"
proof (intro conjI impI)
  assume "i < j"
  then show "it_plus rb (it_at rb i) (int j - int i) = Inr (it_at rb j)"
    using it_plus_forward [OF assms(1,2), of "j - i"] assms(3) by (simp add: of_nat_diff)
next
  assume "j < i"
  then show "it_plus rb (it_at rb i) (int j - int i) = Inr (it_at rb j)"
    using it_plus_backward [OF assms(1,2), of "i - j"] by (simp add: of_nat_diff)
qed (use assms it_diff_at [of rb j i] it_deref_at in simp_all)

theorem iterator_arithmetic_witness:
  "it_plus sample_ring (it_at sample_ring 0) 2 = Inr (it_at sample_ring 2) \<and>
   it_diff sample_ring (it_at sample_ring 2) (it_at sample_ring 0) = Inr 2 \<and>
   it_deref sample_ring (it_at sample_ring 0) = Inr 1"
  using iterator_arithmetic [of sample_ring 0 2] by simp

text \<open>
  \<open>end() - n\<close> steps back from the end of the block instead of the end of the data: it denotes
  the element \<open>n\<close> places from the end only when the data ends at the end of the block.
\<close>

theorem end_minus_n:
  assumes "wf_ring rb" and "0 < n" and "n \<le> length (contents rb)"
  shows "it_plus rb (it_end rb) (- int n) = Inr (it_at rb (length (contents rb) - n)) \<longleftrightarrow>
    back_ptr rb = 0"
  using it_plus_from_end [OF assms] by simp

theorem end_minus_n_witness:
  "it_plus sample_ring (it_end sample_ring) (- 1) \<noteq> Inr (it_at sample_ring 2)"
  using end_minus_n [of sample_ring 1] by (simp add: numeral_2_eq_2)

text \<open>
  C6: Copy assignment clears the target and leaves it with the same elements as the source, in a
  block at least as large as both, without losing a block.
\<close>

theorem copy_assign_copies:
  assumes "wf_ring rb" and "wf_ring other"
  shows "\<exists>rb'. copy_assign False blocks rb other
      = Inr (if contents other = [] \<or> has_storage rb then blocks else blocks + 1, rb') \<and>
    wf_ring rb' \<and> contents rb' = contents other \<and>
    capacity rb' = (if contents other = [] then capacity rb else max (capacity rb) (capacity other))"
  using copy_assign_holds [OF assms, of blocks] by (auto simp: holds_def)

theorem copy_assign_copies_witness:
  "\<exists>rb'. copy_assign False 2 sample_ring trivial_ring = Inr (2, rb') \<and> contents rb' = [1, 2, 3]"
  using copy_assign_copies [of sample_ring trivial_ring 2] by auto

text \<open>
  C7: \<open>set_capacity\<close> keeps the newest elements that fit the new capacity, and the number of
  allocated blocks grows by one although the old block is no longer referenced.
\<close>

theorem set_capacity_keeps_newest:
  assumes "wf_ring rb" and "n \<noteq> capacity rb"
  shows "\<exists>rb'. set_capacity blocks n rb = Some (Inr (blocks + 1, rb')) \<and> wf_ring rb' \<and>
    contents rb' = drop (length (contents rb) - n) (contents rb) \<and> capacity rb' = n"
  using set_capacity_holds [OF assms, of blocks] by (auto simp: holds_def)

theorem set_capacity_keeps_newest_witness:
  "\<exists>rb'. set_capacity 1 2 sample_ring = Some (Inr (2, rb')) \<and> contents rb' = [2, 3]"
  using set_capacity_keeps_newest [of sample_ring 2 1] by (auto simp: numeral_2_eq_2)

text \<open>
  C8: \<open>resize\<close> appends copies of the value up to the new size, within the block or in a larger
  one, and truncates to the first elements when it shrinks; the one shrinking case excluded here
  is the size 0 with a trivially destructible type and a front that is not at the start.
\<close>

theorem resize_contents:
  assumes "wf_ring rb" and "trivial_dtor rb \<longrightarrow> 0 < n \<or> front_ptr rb = 0"
  shows "\<exists>blocks' rb'. resize blocks n v rb = Some (Inr (blocks', rb')) \<and> wf_ring rb' \<and>
    contents rb' = take n (contents rb) @ replicate (n - length (contents rb)) v \<and>
    capacity rb' = max n (capacity rb)"
proof -
  consider "n < length (contents rb)" | "length (contents rb) \<le> n" "n \<le> capacity rb"
    | "capacity rb < n" by linarith
  then show ?thesis
  proof cases
    case 1
    then have "n < capacity rb" using contents_le_capacity [OF assms(1)] by simp
    with 1 show ?thesis
      using resize_shrink [OF assms(1) 1 assms(2), of blocks v] by (auto simp: holds_def max_def)
  next
    case 2
    then show ?thesis
      using resize_grow_within [OF assms(1) 2, of blocks v] by (auto simp: holds_def max_def)
  next
    case 3
    then have "length (contents rb) \<le> n" using contents_le_capacity [OF assms(1)] by simp
    with 3 show ?thesis
      using resize_grow_beyond [OF assms(1) 3, of blocks v] by (auto simp: holds_def max_def)
  qed
qed

theorem resize_contents_witness:
  "\<exists>blocks' rb'. resize 1 5 9 sample_ring = Some (Inr (blocks', rb')) \<and>
     contents rb' = [1, 2, 3, 9, 9]"
  using resize_contents [of sample_ring 5 1 9] by (auto simp: numeral_2_eq_2)

text \<open>
  Resizing a buffer of trivially destructible elements to 0 leaves the front where it was;
  a following \<open>insert_back\<close> of a range that fits the free space writes past the block.
\<close>

theorem resize_to_zero_overrun:
  assumes "wf_ring rb" and "trivial_dtor rb" and "front_ptr rb \<noteq> 0"
    and "length xs \<le> capacity rb" and "capacity rb < front_ptr rb + length xs"
  shows "\<exists>rb'. resize blocks 0 v rb = Some (Inr (blocks, rb')) \<and> length xs \<le> reserve rb' \<and>
    insert_back xs rb' = Inl Out_of_bounds"
  using resize_zero_overrun [OF assms, of blocks v] by auto

theorem resize_to_zero_overrun_witness:
  "\<exists>rb'. resize 1 0 0 trivial_ring = Some (Inr (1, rb')) \<and>
     insert_back [7, 8, 9] rb' = Inl Out_of_bounds"
  using resize_to_zero_overrun [of trivial_ring "[7, 8, 9]" 1 0] by auto

text \<open>
  The filling constructor that takes an allocator leaves \<open>back_ptr_\<close> at the end of the
  block, and the next \<open>emplace_back\<close> constructs an element outside it.
\<close>

theorem fill_with_allocator_overrun:
  assumes "1 < n"
  shows "\<exists>rb. ring_fill_alloc td n v blocks = Inr (blocks + 1, rb) \<and>
    emplace_back w rb = Inl Out_of_bounds"
  using ring_fill_alloc_overrun [OF assms] .

theorem fill_with_allocator_overrun_witness:
  "\<exists>rb. ring_fill_alloc True 3 (0 :: nat) 0 = Inr (1, rb) \<and> emplace_back 1 rb = Inl Out_of_bounds"
  using fill_with_allocator_overrun [of 3 True "0 :: nat" 0 1] by simp

end
