(* ===== verification/Byte_Memory.thy ===== *)
theory Byte_Memory
  imports Rad_Prelude
begin

text \<open>
  Plain memory without object lifetimes, as the byte-oriented components use it: a block is the
  list of its bytes and a pointer is an offset. Reads and writes outside the block are faults.
\<close>

definition read_mem :: "nat \<Rightarrow> nat \<Rightarrow> 'b list \<Rightarrow> 'b list res" where
  "read_mem p n m = (if p + n \<le> length m then Inr (take n (drop p m)) else Inl Out_of_bounds)"

definition write_mem :: "nat \<Rightarrow> 'b list \<Rightarrow> 'b list \<Rightarrow> 'b list res" where
  "write_mem p xs m =
     (if p + length xs \<le> length m then Inr (take p m @ xs @ drop (p + length xs) m)
      else Inl Out_of_bounds)"

text \<open>\<open>std::memmove\<close>: the source is read in full before the destination is written.\<close>

definition move_mem :: "nat \<Rightarrow> nat \<Rightarrow> nat \<Rightarrow> 'b list \<Rightarrow> 'b list res" where
  "move_mem dst src n m = bind_res (read_mem src n m) (\<lambda>xs. write_mem dst xs m)"

lemma read_mem_eq_Inr: "read_mem p n m = Inr xs \<longleftrightarrow> p + n \<le> length m \<and> xs = take n (drop p m)"
  by (auto simp: read_mem_def)

lemma read_mem_inside [simp]: "p + n \<le> length m \<Longrightarrow> read_mem p n m = Inr (take n (drop p m))"
  by (simp add: read_mem_def)

lemma read_mem_outside [simp]: "length m < p + n \<Longrightarrow> read_mem p n m = Inl Out_of_bounds"
  by (simp add: read_mem_def)

lemma write_mem_inside [simp]:
  "p + length xs \<le> length m \<Longrightarrow> write_mem p xs m = Inr (take p m @ xs @ drop (p + length xs) m)"
  by (simp add: write_mem_def)

lemma write_mem_eq_Inr:
  "write_mem p xs m = Inr m' \<longleftrightarrow>
     p + length xs \<le> length m \<and> m' = take p m @ xs @ drop (p + length xs) m"
  by (auto simp: write_mem_def)

lemma length_write_mem: "write_mem p xs m = Inr m' \<Longrightarrow> length m' = length m"
  by (auto simp: write_mem_def split: if_splits)

lemma length_move_mem: "move_mem d s n m = Inr m' \<Longrightarrow> length m' = length m"
  by (auto simp: move_mem_def bind_res_eq_Inr dest: length_write_mem)

lemma read_write_same:
  assumes "write_mem p xs m = Inr m'"
  shows "take (length xs) (drop p m') = xs"
  using assms by (auto simp: write_mem_def split: if_splits)

lemma write_mem_before:
  assumes "write_mem p xs m = Inr m'" and "i < p"
  shows "m' ! i = m ! i"
  using assms by (auto simp: write_mem_def nth_append split: if_splits)

end
