(* ===== verification/Ring_View.thy ===== *)
theory Ring_View
  imports Byte_Memory Refinement "HOL-Library.Word"
begin

text \<open>
  The model of \<open>rad::ring_consumer\<close> and \<open>rad::ring_consumer_producer\<close>
  (\<open>src/include/rad/ring_buffer_consumer.h\<close>) with the two routines they call in
  \<open>src/src/ring_buffer_consumer_producer.cpp\<close>. The underlying linear buffer \<open>[begin_ptr,
  begin_ptr + capacity_)\<close> is the byte list \<open>view_mem\<close>; pointers are offsets from \<open>begin_ptr\<close>.
  A returned buffer is a pair of an offset and a size; the default-constructed buffer is \<open>(0, 0)\<close>.
  An output buffer of \<open>n\<close> bytes is its size; the bytes copied into it are returned.
\<close>

section \<open>State\<close>

type_synonym byte = "8 word"

record ring_view =
  view_mem :: "byte list"
  used_size :: nat
  start_off :: nat
  back_off :: nat

section \<open>The consumer\<close>

definition view_capacity :: "ring_view \<Rightarrow> nat" where
  "view_capacity v = length (view_mem v)"

definition ring_consumer :: "byte list \<Rightarrow> nat \<Rightarrow> ring_view" where
  "ring_consumer data_buffer commit_size =
     (let used = min (length data_buffer) commit_size in
      \<lparr>view_mem = data_buffer, used_size = used, start_off = 0, back_off = used\<rparr>)"

definition increment_pointer :: "ring_view \<Rightarrow> nat \<Rightarrow> nat \<Rightarrow> nat" where
  "increment_pointer v p n =
     (let p1 = p + n; end_p = view_capacity v in if p1 \<ge> end_p then p1 - end_p else p1)"

definition consume :: "nat \<Rightarrow> ring_view \<Rightarrow> ring_view res" where
  "consume n v =
     bind_res (ensure (n \<le> used_size v) Assertion) (\<lambda>_.
       let u = used_size v - n in
       if u = 0 then Inr (v\<lparr>used_size := u, start_off := 0, back_off := 0\<rparr>)
       else Inr (v\<lparr>used_size := u, start_off := increment_pointer v (start_off v) n\<rparr>))"

definition view_clear :: "ring_view \<Rightarrow> ring_view" where
  "view_clear v = v\<lparr>used_size := 0, start_off := 0, back_off := 0\<rparr>"

definition view_space :: "ring_view \<Rightarrow> nat" where
  "view_space v = view_capacity v - used_size v"

definition view_empty :: "ring_view \<Rightarrow> bool" where
  "view_empty v \<longleftrightarrow> used_size v = 0"

definition view_full :: "ring_view \<Rightarrow> bool" where
  "view_full v \<longleftrightarrow> used_size v = view_capacity v"

definition view_is_linearized :: "ring_view \<Rightarrow> bool" where
  "view_is_linearized v \<longleftrightarrow> back_off v \<ge> start_off v \<or> back_off v = 0"

definition available_buffers :: "ring_view \<Rightarrow> (nat \<times> nat) \<times> (nat \<times> nat)" where
  "available_buffers v =
     (if view_is_linearized v then ((start_off v, used_size v), (0, 0))
      else ((start_off v, view_capacity v - start_off v), (0, back_off v)))"

definition available_buffers_n :: "nat \<Rightarrow> ring_view \<Rightarrow> (nat \<times> nat) \<times> (nat \<times> nat)" where
  "available_buffers_n n0 v =
     (let n = min n0 (used_size v) in
      if view_is_linearized v then ((start_off v, n), (0, 0))
      else
        let first_buff_size = min (view_capacity v - start_off v) n;
            n1 = n - first_buff_size;
            second_buff_size = min (back_off v) n1
        in ((start_off v, first_buff_size), (0, second_buff_size)))"

definition peek :: "nat \<Rightarrow> ring_view \<Rightarrow> byte list res" where
  "peek buff_size v =
     (if buff_size = 0 \<or> view_empty v then Inr []
      else
        let ((p1, s1), (p2, s2)) = available_buffers v;
            n1 = min s1 buff_size
        in bind_res (if n1 > 0 then read_mem p1 n1 (view_mem v) else Inr []) (\<lambda>bs1.
             if buff_size - n1 = 0 \<or> s2 = 0 then Inr bs1
             else
               let n2 = min s2 (buff_size - n1) in
               bind_res (read_mem p2 n2 (view_mem v)) (\<lambda>bs2. Inr (bs1 @ bs2))))"

definition write_to :: "nat \<Rightarrow> ring_view \<Rightarrow> (byte list \<times> ring_view) res" where
  "write_to buff_size v =
     bind_res (peek buff_size v) (\<lambda>bs.
     bind_res (consume (length bs) v) (\<lambda>v1. Inr (bs, v1)))"

definition get_data :: "nat \<Rightarrow> ring_view \<Rightarrow> (byte list \<times> ring_view) res" where
  "get_data buff_size v = write_to buff_size v"

definition write_to_dynamic :: "nat \<Rightarrow> ring_view \<Rightarrow> (byte list \<times> ring_view) res" where
  "write_to_dynamic n v =
     (if view_empty v \<or> n = 0 then Inr ([], v)
      else
        let ((p1, s1), (p2, s2)) = available_buffers_n n v in
        bind_res (if s1 \<noteq> 0 then read_mem p1 s1 (view_mem v) else Inr []) (\<lambda>bs1.
        bind_res (if s2 \<noteq> 0 then read_mem p2 s2 (view_mem v) else Inr []) (\<lambda>bs2.
        bind_res (consume (length bs1 + length bs2) v) (\<lambda>v1. Inr (bs1 @ bs2, v1)))))"

section \<open>The producer\<close>

definition ring_consumer_producer :: "byte list \<Rightarrow> nat \<Rightarrow> ring_view res" where
  "ring_consumer_producer space_buffer commit_size =
     bind_res (ensure (commit_size \<le> length space_buffer) Assertion) (\<lambda>_.
       Inr (ring_consumer space_buffer commit_size))"

definition commit :: "nat \<Rightarrow> ring_view \<Rightarrow> ring_view res" where
  "commit n v =
     bind_res (ensure (n + used_size v \<le> view_capacity v) Assertion) (\<lambda>_.
       Inr (v\<lparr>back_off := increment_pointer v (back_off v) n, used_size := used_size v + n\<rparr>))"

definition available_space :: "ring_view \<Rightarrow> (nat \<times> nat) \<times> (nat \<times> nat)" where
  "available_space v =
     (if view_is_linearized v then ((back_off v, view_capacity v - back_off v), (0, start_off v))
      else ((back_off v, view_space v), (0, 0)))"

definition available_space_n :: "nat \<Rightarrow> ring_view \<Rightarrow> (nat \<times> nat) \<times> (nat \<times> nat)" where
  "available_space_n n v =
     (let ((p1, s1), (p2, s2)) = available_space v in
      if n < s1 then ((p1, n), (0, 0))
      else let n1 = n - s1 in ((p1, s1), (p2, if n1 < s2 then n1 else s2)))"

text \<open>\<open>read_from\<close> copies into the free space it was told of, then commits.\<close>

definition read_from_copy :: "byte list \<Rightarrow> ring_view \<Rightarrow> (nat \<times> byte list) res" where
  "read_from_copy buff v =
     (let ((p1, s1), (p2, s2)) = available_space v;
          n1 = min s1 (length buff)
      in bind_res (if n1 \<noteq> 0 then write_mem p1 (take n1 buff) (view_mem v) else Inr (view_mem v))
        (\<lambda>m1.
         let rest = drop n1 buff in
         if rest = [] \<or> s2 = 0 then Inr (n1, m1)
         else
           let n2 = min s2 (length rest) in
           bind_res (write_mem p2 (take n2 rest) m1) (\<lambda>m2. Inr (n1 + n2, m2))))"

definition read_from :: "byte list \<Rightarrow> ring_view \<Rightarrow> (nat \<times> ring_view) res" where
  "read_from buff v =
     (if buff = [] \<or> view_full v then Inr (0, v)
      else bind_res (read_from_copy buff v) (\<lambda>(n, m).
        bind_res (commit n (v\<lparr>view_mem := m\<rparr>)) (\<lambda>v1. Inr (n, v1))))"

definition put_data :: "byte list \<Rightarrow> ring_view \<Rightarrow> (nat \<times> ring_view) res" where
  "put_data buff v = read_from buff v"

definition move_overlap :: "nat \<Rightarrow> nat \<Rightarrow> nat \<Rightarrow> byte list \<Rightarrow> byte list res" where
  "move_overlap first lst d_first m =
     (if first \<ge> lst \<or> d_first = first then Inr m
      else move_mem d_first first (lst - first) m)"

text \<open>
  The loop of \<open>linearize_ring_buffer_view\<close> with \<open>reserve_size = Suc r\<close>, \<open>array1 = [p1, q1)\<close> and
  the moving array 2 at \<open>[p2, p2 + n2)\<close>.
\<close>

function linearize_view_loop ::
    "nat \<Rightarrow> nat \<Rightarrow> nat \<Rightarrow> nat \<Rightarrow> nat \<Rightarrow> nat \<Rightarrow> byte list \<Rightarrow> byte list res" where
  "linearize_view_loop r p1 q1 p2 n2 new_array1 m =
     (if q1 \<le> p1 then Inr m
      else
        let shift_distance = min (Suc r) (q1 - p1) in
        bind_res (move_overlap p2 (p2 + n2) (p2 + shift_distance) m) (\<lambda>m1.
        bind_res (move_mem new_array1 p1 shift_distance m1) (\<lambda>m2.
        linearize_view_loop r (p1 + shift_distance) q1 (p2 + shift_distance) n2
          (new_array1 + shift_distance) m2)))"
  by pat_completeness auto
termination
  by (relation "measure (\<lambda>(r, p1, q1, p2, n2, na, m). q1 - p1)") auto

declare linearize_view_loop.simps [simp del]

definition linearize_ring_buffer_view :: "nat \<Rightarrow> nat \<Rightarrow> byte list \<Rightarrow> byte list res" where
  "linearize_ring_buffer_view start back m =
     bind_res (ensure (0 < length m \<and> start \<noteq> length m \<and> back \<noteq> length m \<and> start \<ge> back \<and> back > 0)
       Assertion) (\<lambda>_.
       let reserve_size = start - back in
       if reserve_size = 0 then Inr (drop start m @ take start m)
       else linearize_view_loop (reserve_size - 1) start (length m) 0 back start m)"

definition view_linearize :: "ring_view \<Rightarrow> ((nat \<times> nat) \<times> ring_view) res" where
  "view_linearize v =
     (if view_is_linearized v then Inr ((start_off v, used_size v), v)
      else bind_res (ensure (\<not> view_empty v) Assertion) (\<lambda>_.
        bind_res (linearize_ring_buffer_view (start_off v) (back_off v) (view_mem v)) (\<lambda>m1.
        Inr ((0, used_size v),
          v\<lparr>view_mem := m1, start_off := 0, back_off := increment_pointer v 0 (used_size v)\<rparr>))))"

definition move_ring_buffer_view_to_start :: "nat \<Rightarrow> nat \<Rightarrow> byte list \<Rightarrow> byte list res" where
  "move_ring_buffer_view_to_start start sz m =
     bind_res (ensure (start > 0 \<and> sz > 0) Assertion) (\<lambda>_.
       move_overlap start (start + sz) 0 m)"

definition move_to_start :: "ring_view \<Rightarrow> ((nat \<times> nat) \<times> ring_view) res" where
  "move_to_start v =
     bind_res (ensure (view_is_linearized v) Assertion) (\<lambda>_.
       if view_empty v \<or> start_off v = 0 then Inr ((start_off v, used_size v), v)
       else
         bind_res (move_ring_buffer_view_to_start (start_off v) (used_size v) (view_mem v)) (\<lambda>m1.
         Inr ((0, used_size v),
           v\<lparr>view_mem := m1, start_off := 0, back_off := increment_pointer v 0 (used_size v)\<rparr>)))"

section \<open>Invariant and abstraction\<close>

definition view_bytes :: "ring_view \<Rightarrow> byte list" where
  "view_bytes v =
     take (used_size v) (drop (start_off v) (view_mem v) @ take (start_off v) (view_mem v))"

text \<open>
  The constructor may leave \<open>back_ptr\<close> at the end of the buffer, which the comment in the
  header forbids; every operation treats that position like the beginning.
\<close>

definition wf_view :: "ring_view \<Rightarrow> bool" where
  "wf_view v \<longleftrightarrow>
     used_size v \<le> view_capacity v \<and>
     (if used_size v = 0 then start_off v = 0 else start_off v < view_capacity v) \<and>
     (if start_off v + used_size v < view_capacity v then back_off v = start_off v + used_size v
      else if start_off v + used_size v = view_capacity v
      then back_off v = 0 \<or> back_off v = view_capacity v
      else back_off v = start_off v + used_size v - view_capacity v)"

text \<open>A view that is full and does not start at the beginning is mistaken for a linear one.\<close>

definition view_sound :: "ring_view \<Rightarrow> bool" where
  "view_sound v \<longleftrightarrow> \<not> (view_full v \<and> start_off v \<noteq> 0)"

end
