(* ===== verification/Ring_View_Laws.thy ===== *)
theory Ring_View_Laws
  imports Ring_View
begin

text \<open>
  The byte-queue contract of the ring views. The readers are right exactly while the view is
  \<open>view_sound\<close>; the writers always are. The contract for arbitrary call sequences therefore
  obliges the client to leave at least one byte free.
\<close>

text \<open>Copying and committing in one equation.\<close>

lemma read_from_eq:
  "read_from buff v =
     (if buff = [] \<or> view_full v then Inr (0, v)
      else
        let ((p1, s1), (p2, s2)) = available_space v;
            n1 = min s1 (length buff)
        in bind_res (if n1 \<noteq> 0 then write_mem p1 (take n1 buff) (view_mem v) else Inr (view_mem v))
          (\<lambda>m1.
           let rest = drop n1 buff in
           if rest = [] \<or> s2 = 0 then
             bind_res (commit n1 (v\<lparr>view_mem := m1\<rparr>)) (\<lambda>v1. Inr (n1, v1))
           else
             let n2 = min s2 (length rest) in
             bind_res (write_mem p2 (take n2 rest) m1) (\<lambda>m2.
             bind_res (commit (n1 + n2) (v\<lparr>view_mem := m2\<rparr>)) (\<lambda>v1. Inr (n1 + n2, v1)))))"
  by (auto simp: read_from_def read_from_copy_def Let_def bind_res_assoc split: prod.splits
      intro!: arg_cong2 [where f = bind_res])

section \<open>Observers\<close>

lemmas view_defs =
  view_capacity_def view_space_def view_empty_def view_full_def view_sound_def

lemma length_view_bytes: "wf_view v \<Longrightarrow> length (view_bytes v) = used_size v"
  by (auto simp: wf_view_def view_bytes_def view_capacity_def)

lemma start_le_capacity: "wf_view v \<Longrightarrow> start_off v \<le> view_capacity v"
  by (auto simp: wf_view_def split: if_splits)

lemma used_le_capacity: "wf_view v \<Longrightarrow> used_size v \<le> view_capacity v"
  by (simp add: wf_view_def)

lemma view_is_linearized_iff:
  "wf_view v \<Longrightarrow> view_is_linearized v \<longleftrightarrow>
     start_off v + used_size v \<le> view_capacity v \<or> view_full v"
  by (auto simp: wf_view_def view_is_linearized_def view_full_def split: if_splits)

lemma view_linear_cases:
  assumes "wf_view v" and "view_sound v"
  shows "view_is_linearized v \<longleftrightarrow> start_off v + used_size v \<le> view_capacity v"
  using assms by (auto simp: view_is_linearized_iff view_sound_def view_full_def)

lemma view_bytes_linear:
  assumes "start_off v + used_size v \<le> view_capacity v"
  shows "view_bytes v = take (used_size v) (drop (start_off v) (view_mem v))"
  using assms by (simp add: view_bytes_def view_capacity_def)

lemma view_bytes_wrapped:
  assumes "wf_view v" and "view_capacity v < start_off v + used_size v"
  shows "view_bytes v = drop (start_off v) (view_mem v) @ take (back_off v) (view_mem v)"
    and "back_off v \<le> start_off v" and "0 < back_off v"
    and "used_size v = (view_capacity v - start_off v) + back_off v"
proof -
  have b: "back_off v = start_off v + used_size v - view_capacity v"
    "used_size v \<le> view_capacity v" "start_off v < view_capacity v"
    using assms by (auto simp: wf_view_def split: if_splits)
  then show le: "back_off v \<le> start_off v" and "0 < back_off v"
    and "used_size v = (view_capacity v - start_off v) + back_off v"
    using assms(2) by simp_all
  show "view_bytes v = drop (start_off v) (view_mem v) @ take (back_off v) (view_mem v)"
    using b le assms(2) by (simp add: view_bytes_def view_capacity_def min_def add.commute)
qed

section \<open>Construction, consuming and committing\<close>

lemma ring_consumer_wf:
  "wf_view (ring_consumer m n)" "view_bytes (ring_consumer m n) = take n m"
  "view_capacity (ring_consumer m n) = length m" "view_sound (ring_consumer m n)"
  by (auto simp: ring_consumer_def wf_view_def view_defs view_bytes_def Let_def min_def)

lemma consume_bytes:
  assumes wf: "wf_view v" and n: "n \<le> length (view_bytes v)"
  shows "\<exists>v'. consume n v = Inr v' \<and> wf_view v' \<and> view_bytes v' = drop n (view_bytes v) \<and>
    view_capacity v' = view_capacity v \<and> (view_sound v \<or> 0 < n \<longrightarrow> view_sound v')"
proof (cases "n = used_size v")
  case True
  let ?v = "v\<lparr>used_size := 0, start_off := 0, back_off := 0\<rparr>"
  have "consume n v = Inr ?v" using True by (simp add: consume_def)
  moreover have "wf_view ?v" "view_bytes ?v = []" "view_capacity ?v = view_capacity v"
    "view_sound ?v"
    by (simp_all add: wf_view_def view_bytes_def view_defs)
  moreover have "drop n (view_bytes v) = []" using True length_view_bytes [OF wf] by simp
  ultimately show ?thesis by simp
next
  case False
  let ?s = "increment_pointer v (start_off v) n"
  let ?v = "v\<lparr>used_size := used_size v - n, start_off := ?s\<rparr>"
  have lt: "n < used_size v" using False n length_view_bytes [OF wf] by simp
  have wf': "wf_view ?v"
    using lt wf by (auto simp: wf_view_def increment_pointer_def view_capacity_def Let_def split: if_splits)
  have "view_bytes ?v = drop n (view_bytes v)"
  proof (cases "start_off v + used_size v \<le> view_capacity v")
    case True
    then have "?s = start_off v + n" using lt by (simp add: increment_pointer_def)
    then show ?thesis
      using True lt
      by (simp add: view_bytes_linear view_capacity_def drop_take add.commute)
  next
    case wrap: False
    note w = view_bytes_wrapped [OF wf]
    show ?thesis
    proof (cases "start_off v + n < view_capacity v")
      case True
      then have s: "?s = start_off v + n" by (simp add: increment_pointer_def)
      have "view_bytes ?v = drop (start_off ?v) (view_mem ?v) @ take (back_off ?v) (view_mem ?v)"
        using wf' wrap lt s by (intro view_bytes_wrapped) (simp_all add: view_capacity_def)
      then show ?thesis
        using w wrap s True by (simp add: view_capacity_def add.commute)
    next
      case past: False
      then have s: "?s = start_off v + n - view_capacity v" by (simp add: increment_pointer_def)
      have "view_bytes ?v = take (used_size v - n) (drop ?s (view_mem v))"
        using wf wrap lt past s
        by (subst view_bytes_linear) (auto simp: wf_view_def view_capacity_def split: if_splits)
      moreover have "drop n (view_bytes v) = drop ?s (take (back_off v) (view_mem v))"
      proof -
        have "n - (length (view_mem v) - start_off v) = ?s"
          using s wf lt by (auto simp: wf_view_def view_capacity_def split: if_splits)
        then show ?thesis using w(1) wrap past s by (simp add: view_capacity_def)
      qed
      moreover have "back_off v - ?s = used_size v - n"
        using w(4) wrap past lt s start_le_capacity [OF wf] by simp
      ultimately show ?thesis by (simp add: drop_take)
    qed
  qed
  moreover have "view_sound ?v" if "view_sound v \<or> 0 < n"
  proof (cases "n = 0")
    case True
    then show ?thesis
      using that wf lt
      by (auto simp: view_defs increment_pointer_def wf_view_def Let_def split: if_splits)
  next
    case False
    then have "used_size v - n < view_capacity v"
      using lt used_le_capacity [OF wf] by linarith
    then show ?thesis by (simp add: view_defs)
  qed
  ultimately show ?thesis
    using lt wf' by (simp add: consume_def view_capacity_def)
qed

lemma commit_bytes:
  assumes wf: "wf_view v" and room: "n + used_size v \<le> view_capacity v"
  shows "\<exists>v'. commit n v = Inr v' \<and> wf_view v' \<and> used_size v' = used_size v + n \<and>
    start_off v' = start_off v \<and> view_mem v' = view_mem v"
proof (cases "n = 0")
  case True
  then show ?thesis using wf room
    by (auto simp: commit_def wf_view_def increment_pointer_def view_capacity_def Let_def
        split: if_splits)
next
  case False
  then show ?thesis using wf room
    by (auto simp: commit_def wf_view_def increment_pointer_def view_capacity_def Let_def
        split: if_splits)
qed

section \<open>Reading\<close>

lemma available_buffers_n_all:
  assumes "wf_view v"
  shows "available_buffers_n (used_size v) v = available_buffers v"
proof (cases "view_is_linearized v")
  case False
  then have "view_capacity v < start_off v + used_size v"
    using assms by (simp add: view_is_linearized_iff)
  from view_bytes_wrapped(4) [OF assms this] False show ?thesis
    by (simp add: available_buffers_n_def available_buffers_def Let_def)
qed (simp add: available_buffers_n_def available_buffers_def)

lemma take_min_length: "take (min (length xs) n) xs = take n xs"
  by (simp add: min_def)

lemma min_two_buffers:
  fixes k n b :: nat
  shows "min k (min n (k + b)) = min k n"
    and "min b (min n (k + b) - min k (min n (k + b))) = min b (n - k)"
    and "min b (min n (k + b) - min k n) = min b (n - k)"
  by (simp_all add: min_def) linarith+

lemma available_buffers_n_bytes:
  assumes wf: "wf_view v" and so: "view_sound v"
    and "available_buffers_n n v = ((p1, s1), (p2, s2))"
  shows "p1 + s1 \<le> length (view_mem v)" and "p2 + s2 \<le> length (view_mem v)"
    and "take s1 (drop p1 (view_mem v)) @ take s2 (drop p2 (view_mem v)) = take n (view_bytes v)"
proof -
  consider (lin) "view_is_linearized v" "start_off v + used_size v \<le> view_capacity v"
    | (wrap) "\<not> view_is_linearized v" "view_capacity v < start_off v + used_size v"
    using view_linear_cases [OF wf so] by linarith
  then have "p1 + s1 \<le> length (view_mem v) \<and> p2 + s2 \<le> length (view_mem v) \<and>
    take s1 (drop p1 (view_mem v)) @ take s2 (drop p2 (view_mem v)) = take n (view_bytes v)"
  proof cases
    case lin
    then show ?thesis
      using assms(3)
      by (auto simp: available_buffers_n_def view_bytes_linear view_capacity_def Let_def)
  next
    case wrap
    note w = view_bytes_wrapped [OF wf wrap(2)]
    have s: "start_off v \<le> length (view_mem v)"
      using wf by (auto simp: wf_view_def view_capacity_def split: if_splits)
    define k where "k = length (view_mem v) - start_off v"
    have used: "used_size v = k + back_off v" using w(4) by (simp add: k_def view_capacity_def)
    have "available_buffers_n n v = ((start_off v, min k n), (0, min (back_off v) (n - k)))"
      using wrap(1) unfolding available_buffers_n_def Let_def used view_capacity_def k_def [symmetric]
      by (simp only: min_two_buffers if_False)
    then have eq: "p1 = start_off v" "s1 = min k n" "p2 = 0" "s2 = min (back_off v) (n - k)"
      using assms(3) by simp_all
    have "take n (view_bytes v)
        = take (min k n) (drop (start_off v) (view_mem v)) @
          take (min (back_off v) (n - k)) (view_mem v)"
      unfolding w(1) using take_min_length [of "drop (start_off v) (view_mem v)" n]
      by (simp add: k_def min.commute)
    moreover have "start_off v + min k n \<le> length (view_mem v)"
      and "min (back_off v) (n - k) \<le> length (view_mem v)"
      using s w(2) by (auto simp: k_def min_def)
    ultimately show ?thesis by (simp add: eq)
  qed
  then show "p1 + s1 \<le> length (view_mem v)" and "p2 + s2 \<le> length (view_mem v)"
    and "take s1 (drop p1 (view_mem v)) @ take s2 (drop p2 (view_mem v)) = take n (view_bytes v)"
    by simp_all
qed

lemma peek_bytes:
  assumes wf: "wf_view v" and so: "view_sound v"
  shows "peek n v = Inr (take n (view_bytes v))"
proof (cases "n = 0 \<or> view_empty v")
  case True
  then show ?thesis
    using length_view_bytes [OF wf] by (auto simp: peek_def view_empty_def)
next
  case False
  obtain p1 s1 p2 s2 where av: "available_buffers v = ((p1, s1), (p2, s2))"
    by (metis prod.exhaust)
  note b = available_buffers_n_bytes [OF wf so, of "used_size v" p1 s1 p2 s2,
      unfolded available_buffers_n_all [OF wf], OF av]
  have all: "view_bytes v = take s1 (drop p1 (view_mem v)) @ take s2 (drop p2 (view_mem v))"
    using b(3) length_view_bytes [OF wf] by simp
  define X Y where "X = take s1 (drop p1 (view_mem v))" and "Y = take s2 (drop p2 (view_mem v))"
  have len: "length X = s1" "length Y = s2" using b(1,2) by (simp_all add: X_def Y_def)
  have rd: "read_mem p1 k (view_mem v) = Inr (take k X)" if "k \<le> s1" for k
    using that b(1) by (simp add: X_def min_def)
  have rd2: "read_mem p2 k (view_mem v) = Inr (take k Y)" if "k \<le> s2" for k
    using that b(2) by (simp add: Y_def min_def)
  have eq: "view_bytes v = X @ Y" using all by (simp add: X_def Y_def)
  have r1: "(if 0 < min s1 n then read_mem p1 (min s1 n) (view_mem v) else Inr []) = Inr (take n X)"
    using rd [of "min s1 n"] take_min_length [of X n] len by auto
  show ?thesis
  proof (cases "n - min s1 n = 0 \<or> s2 = 0")
    case True
    then have "take (n - s1) Y = []" using len by (auto simp: min_def split: if_splits)
    with True False av r1 show ?thesis unfolding peek_def eq by (simp add: len)
  next
    case rest: False
    then have s1: "min s1 n = s1" by (simp add: min_def split: if_splits)
    have "read_mem p2 (min s2 (n - s1)) (view_mem v) = Inr (take (n - s1) Y)"
      using rd2 [of "min s2 (n - s1)"] take_min_length [of Y "n - s1"] len by simp
    with rest False av r1 [unfolded s1] show ?thesis unfolding peek_def eq by (simp add: s1 len)
  qed
qed

lemma write_to_bytes:
  assumes wf: "wf_view v" and so: "view_sound v"
  shows "\<exists>v'. write_to n v = Inr (take n (view_bytes v), v') \<and> wf_view v' \<and> view_sound v' \<and>
    view_bytes v' = drop n (view_bytes v) \<and> view_capacity v' = view_capacity v"
proof -
  let ?k = "length (take n (view_bytes v))"
  obtain v' where "consume ?k v = Inr v'" "wf_view v'" "view_bytes v' = drop ?k (view_bytes v)"
    "view_capacity v' = view_capacity v" "view_sound v'"
    using consume_bytes [OF wf, of ?k] so by auto
  moreover have "drop ?k (view_bytes v) = drop n (view_bytes v)" by (simp add: min_def)
  ultimately show ?thesis
    by (simp add: write_to_def peek_bytes [OF wf so])
qed

lemma write_to_dynamic_bytes:
  assumes wf: "wf_view v" and so: "view_sound v"
  shows "write_to_dynamic n v = write_to n v"
proof (cases "view_empty v \<or> n = 0")
  case True
  then have "take n (view_bytes v) = []"
    using length_view_bytes [OF wf] by (auto simp: view_empty_def)
  then show ?thesis
    using True wf
    by (auto simp: write_to_dynamic_def write_to_def peek_bytes [OF wf so] consume_def
        view_empty_def wf_view_def increment_pointer_def Let_def split: if_splits)
next
  case False
  obtain p1 s1 p2 s2 where av: "available_buffers_n n v = ((p1, s1), (p2, s2))"
    by (metis prod.exhaust)
  note b = available_buffers_n_bytes [OF wf so av]
  show ?thesis
    using False av b(1,2)
    by (auto simp: write_to_dynamic_def write_to_def peek_bytes [OF wf so] b(3) [symmetric])
qed

section \<open>Writing\<close>

text \<open>What a write of \<open>n\<close> bytes and the following \<open>commit\<close> have to establish.\<close>

definition appended :: "ring_view \<Rightarrow> byte list \<Rightarrow> ring_view \<Rightarrow> bool" where
  "appended v bs v' \<longleftrightarrow> wf_view v' \<and> view_bytes v' = view_bytes v @ bs \<and>
     view_capacity v' = view_capacity v \<and> start_off v' = start_off v"

lemma wf_view_mem: "length m = length (view_mem v) \<Longrightarrow> wf_view (v\<lparr>view_mem := m\<rparr>) = wf_view v"
  by (cases v) (simp only: wf_view_def view_capacity_def ring_view.simps)

lemma commit_appended:
  assumes wf: "wf_view v" and room: "length bs + used_size v \<le> view_capacity v"
    and m: "length m = length (view_mem v)"
    and bytes: "take (used_size v + length bs) (drop (start_off v) m @ take (start_off v) m)
      = view_bytes v @ bs"
  shows "\<exists>v'. commit (length bs) (v\<lparr>view_mem := m\<rparr>) = Inr v' \<and> appended v bs v'"
proof -
  have "wf_view (v\<lparr>view_mem := m\<rparr>)" using wf wf_view_mem [OF m] by simp
  from commit_bytes [OF this, of "length bs"] show ?thesis
    using room m bytes by (auto simp: appended_def view_capacity_def view_bytes_def)
qed

lemma drop_new_prefix: "length ys \<le> n \<Longrightarrow> drop n (ys @ drop (length ys) xs) = drop n xs"
  by simp

lemma read_from_before_back:
  assumes wf: "wf_view v" and ne: "bs \<noteq> []"
    and room: "length bs \<le> view_space v"
    and p: "available_space v = ((p1, s1), (p2, s2))" and fit: "length bs \<le> s1"
    and inside: "p1 + length bs \<le> length (view_mem v)"
    and bytes: "take (used_size v + length bs)
        (drop (start_off v) (take p1 (view_mem v) @ bs @ drop (p1 + length bs) (view_mem v)) @
         take (start_off v) (take p1 (view_mem v) @ bs @ drop (p1 + length bs) (view_mem v)))
      = view_bytes v @ bs"
  shows "\<exists>v'. read_from bs v = Inr (length bs, v') \<and> appended v bs v'"
proof -
  let ?m = "take p1 (view_mem v) @ bs @ drop (p1 + length bs) (view_mem v)"
  have "length bs + used_size v \<le> view_capacity v"
    using room ne used_le_capacity [OF wf] by (simp add: view_space_def)
  then obtain v' where "commit (length bs) (v\<lparr>view_mem := ?m\<rparr>) = Inr v'" "appended v bs v'"
    using commit_appended [OF wf _ _ bytes] inside by auto
  moreover have "\<not> view_full v"
    using room ne by (auto simp: view_defs)
  ultimately show ?thesis
    using ne p fit inside by (auto simp: read_from_eq min_absorb2 Let_def)
qed

lemma read_from_linear:
  assumes wf: "wf_view v" and ne: "bs \<noteq> []" and room: "length bs \<le> view_space v"
    and lin: "start_off v + used_size v < view_capacity v"
  shows "\<exists>v'. read_from bs v = Inr (length bs, v') \<and> appended v bs v'"
proof -
  let ?b = "back_off v" and ?m = "view_mem v" and ?s = "start_off v"
  have room_le: "length bs + used_size v \<le> view_capacity v"
    using room ne used_le_capacity [OF wf] by (simp add: view_space_def)
  have b: "?b = ?s + used_size v" using wf lin by (simp add: wf_view_def)
  have bl: "?b < length ?m" using b lin by (simp add: view_capacity_def)
  have l: "view_is_linearized v" using wf lin by (simp add: view_is_linearized_iff)
  have av: "available_space v = ((?b, length ?m - ?b), (0, ?s))"
    using l by (simp add: available_space_def view_capacity_def)
  have vb: "view_bytes v = take (used_size v) (drop ?s ?m)"
    using lin by (simp add: view_bytes_linear)
  show ?thesis
  proof (cases "length bs \<le> length ?m - ?b")
    case True
    have "drop ?s (take ?b ?m @ bs @ drop (?b + length bs) ?m)
        = view_bytes v @ bs @ drop (?b + length bs) ?m"
      using b bl vb by (simp add: drop_take)
    moreover have "length (view_bytes v) = used_size v" by (rule length_view_bytes [OF wf])
    ultimately show ?thesis
      using True bl by (intro read_from_before_back [OF wf ne room av]) simp_all
  next
    case False
    define k where "k = length ?m - ?b"
    define X Y where "X = take k bs" and "Y = drop k bs"
    have XY: "bs = X @ Y" "length X = k" "Y \<noteq> []" using False by (auto simp: X_def Y_def k_def)
    have Y: "length Y \<le> ?s"
      using room XY b bl by (simp add: view_space_def view_capacity_def k_def)
    let ?m1 = "take ?b ?m @ X"
    let ?m2 = "Y @ drop (length Y) ?m1"
    have len: "length ?m1 = length ?m" "length ?m2 = length ?m"
      using bl XY Y b by (simp_all add: k_def)
    have "drop ?s ?m2 = drop ?s ?m1" using Y by (rule drop_new_prefix)
    also have "\<dots> = view_bytes v @ X" using b bl vb by (simp add: drop_take)
    finally have dr: "drop ?s ?m2 = view_bytes v @ X" .
    have "used_size v + length bs = length (view_bytes v @ X) + length Y"
      using XY length_view_bytes [OF wf] by simp
    then have "take (used_size v + length bs) (drop ?s ?m2 @ take ?s ?m2)
        = (view_bytes v @ X) @ take (length Y) (take ?s ?m2)"
      unfolding dr by (simp only: take_append) simp
    moreover have "take (length Y) (take ?s ?m2) = Y" using Y by simp
    ultimately have "take (used_size v + length bs) (drop ?s ?m2 @ take ?s ?m2) = view_bytes v @ bs"
      unfolding XY(1) by (simp only: append.assoc)
    from commit_appended [OF wf room_le len(2) this] obtain v'
      where v': "commit (length bs) (v\<lparr>view_mem := ?m2\<rparr>) = Inr v'" "appended v bs v'" by blast
    have "\<not> view_full v" using room ne by (auto simp: view_defs)
    moreover have "write_mem ?b X ?m = Inr ?m1" and "write_mem 0 Y ?m1 = Inr ?m2"
      using XY bl Y len b by (simp_all add: k_def)
    moreover have "min k (length bs) = k" "k \<noteq> 0" "?s \<noteq> 0" "min ?s (length Y) = length Y"
      using False bl XY Y by (auto simp: k_def)
    moreover have "length bs = k + length Y" using XY by simp
    ultimately show ?thesis
      using ne av v' XY by (simp add: read_from_eq Let_def flip: k_def X_def Y_def)
  qed
qed

end
