(* ===== verification/Ring_View_Client.thy ===== *)
theory Ring_View_Client
  imports Ring_View_Laws
begin

text \<open>
  Writing in every layout, rearranging the bytes, and the contract of the ring views for
  arbitrary sequences of calls. The sections on overruns show where the code departs from it:
  a full view that does not start at the beginning, a write that exceeds the free space of a
  view whose data ends at the end of the buffer, and \<open>linearize\<close>.
\<close>

section \<open>Writing in the remaining layouts\<close>

lemma read_from_to_end:
  assumes wf: "wf_view v" and ne: "bs \<noteq> []" and room: "length bs \<le> view_space v"
    and lin: "start_off v + used_size v = view_capacity v"
  shows "\<exists>v'. read_from bs v = Inr (length bs, v') \<and> appended v bs v'"
proof -
  let ?m = "view_mem v" and ?s = "start_off v"
  have le: "length bs \<le> ?s" "?s \<le> length ?m"
    using room lin by (simp_all add: view_space_def view_capacity_def)
  have vb: "view_bytes v = drop ?s ?m" using lin by (simp add: view_bytes_def view_capacity_def)
  have l: "view_is_linearized v" using wf lin by (simp add: view_is_linearized_iff)
  let ?m' = "bs @ drop (length bs) ?m"
  have len: "length (view_bytes v) = used_size v" by (rule length_view_bytes [OF wf])
  have dr: "drop ?s ?m' = view_bytes v" using le(1) vb drop_new_prefix [of bs ?s ?m] by simp
  have bytes: "take (used_size v + length bs) (drop ?s ?m' @ take ?s ?m') = view_bytes v @ bs"
    unfolding dr len [symmetric] using le by simp
  show ?thesis
  proof (cases "back_off v = 0")
    case True
    then have av: "available_space v = ((0, length ?m), (0, ?s))"
      using l by (simp add: available_space_def view_capacity_def)
    show ?thesis
      using le bytes by (intro read_from_before_back [OF wf ne room av]) simp_all
  next
    case False
    then have "back_off v = view_capacity v" using wf lin by (auto simp: wf_view_def)
    then have av: "available_space v = ((length ?m, 0), (0, ?s))"
      using l by (simp add: available_space_def view_capacity_def)
    have "length bs + used_size v \<le> view_capacity v" and "length ?m' = length ?m"
      using le lin by simp_all
    from commit_appended [OF wf this bytes] obtain v'
      where "commit (length bs) (v\<lparr>view_mem := ?m'\<rparr>) = Inr v'" "appended v bs v'" by blast
    moreover have "\<not> view_full v" using room ne by (auto simp: view_defs)
    moreover have "write_mem 0 bs ?m = Inr ?m'" and "?s \<noteq> 0" using le ne by (simp, cases bs, auto)
    ultimately show ?thesis
      using ne av le by (simp add: read_from_eq Let_def min_absorb2)
  qed
qed

lemma read_from_wrapped:
  assumes wf: "wf_view v" and ne: "bs \<noteq> []" and room: "length bs \<le> view_space v"
    and wrap: "view_capacity v < start_off v + used_size v"
  shows "\<exists>v'. read_from bs v = Inr (length bs, v') \<and> appended v bs v'"
proof -
  let ?m = "view_mem v" and ?s = "start_off v" and ?b = "back_off v"
  note w = view_bytes_wrapped [OF wf wrap]
  have nf: "\<not> view_full v" using room ne by (auto simp: view_defs)
  have nl: "\<not> view_is_linearized v" using wf wrap nf by (simp add: view_is_linearized_iff)
  have le: "?b + length bs \<le> ?s" "?s \<le> length ?m"
    using room w(2,4) start_le_capacity [OF wf] by (simp_all add: view_space_def view_capacity_def)
  have av: "available_space v = ((?b, view_space v), (0, 0))"
    using nl by (simp add: available_space_def)
  let ?m' = "take ?b ?m @ bs @ drop (?b + length bs) ?m"
  have tb: "length (take ?b ?m) = ?b" using le by simp
  have "drop ?s ?m' = drop ?s ?m"
    using drop_new_prefix [of "take ?b ?m @ bs" ?s ?m] le by (simp add: min_absorb2)
  moreover have "take (?b + length bs) (take ?s ?m') = take ?b ?m @ bs"
  proof -
    have "take (?b + length bs) (take ?s ?m') = take (?b + length bs) ?m'"
      using le(1) by (simp only: take_take min_absorb1)
    also have "\<dots> = take ?b ?m @ bs" using tb by simp
    finally show ?thesis .
  qed
  moreover have "used_size v + length bs = length (drop ?s ?m) + (?b + length bs)"
    using w(4) by (simp add: view_capacity_def)
  ultimately have "take (used_size v + length bs) (drop ?s ?m' @ take ?s ?m') = view_bytes v @ bs"
    unfolding w(1) by (simp only: take_append) simp
  then show ?thesis
    using le room by (intro read_from_before_back [OF wf ne room av]) simp_all
qed

lemma read_from_bytes:
  assumes wf: "wf_view v" and room: "length bs \<le> view_space v"
  shows "\<exists>v'. read_from bs v = Inr (length bs, v') \<and> appended v bs v'"
proof (cases "bs = []")
  case True
  with wf show ?thesis by (simp add: read_from_eq appended_def)
next
  case False
  with assms show ?thesis
    using read_from_linear read_from_to_end read_from_wrapped by (metis linorder_less_linear)
qed

text \<open>
  A view whose data ends at the end of the buffer offers the whole buffer as free space, so a
  longer write runs over unread bytes before the assertion of \<open>commit\<close> stops it.
\<close>

lemma unread_at_end:
  assumes wf: "wf_view v" and b: "back_off v = 0" "0 < start_off v"
  shows "start_off v + used_size v = view_capacity v" "start_off v < view_capacity v"
    "view_space v = start_off v" "view_bytes v = drop (start_off v) (view_mem v)"
proof -
  have u: "used_size v \<noteq> 0" "start_off v < view_capacity v" "used_size v \<le> view_capacity v"
    using wf b by (auto simp: wf_view_def split: if_splits)
  show eq: "start_off v + used_size v = view_capacity v"
    using wf b u by (auto simp: wf_view_def split: if_splits)
  then show "view_space v = start_off v" by (simp add: view_space_def)
  show "start_off v < view_capacity v" by (rule u)
  show "view_bytes v = drop (start_off v) (view_mem v)"
    using eq by (simp add: view_bytes_def view_capacity_def)
qed

text \<open>The bytes copied past the free space land on the unread ones.\<close>

lemma nth_behind: "length xs \<le> i \<Longrightarrow> i < length m \<Longrightarrow> (xs @ drop (length xs) m) ! i = m ! i"
  by (simp add: nth_append)

lemma read_from_copy_overwrites:
  assumes wf: "wf_view v" and b: "back_off v = 0" "0 < start_off v"
  shows "\<exists>n m. read_from_copy bs v = Inr (n, m) \<and>
    (\<forall>i. start_off v \<le> i \<and> i < min (view_capacity v) (length bs) \<longrightarrow> m ! i = bs ! i)"
proof -
  let ?m = "view_mem v" and ?s = "start_off v"
  have s: "?s < length ?m" using unread_at_end(2) [OF assms] by (simp add: view_capacity_def)
  have av: "available_space v = ((0, length ?m), (0, ?s))"
    using b by (simp add: available_space_def view_is_linearized_def view_capacity_def)
  define n1 where "n1 = min (length ?m) (length bs)"
  have n1: "n1 \<le> length ?m" "n1 \<le> length bs" by (simp_all add: n1_def)
  have cap: "min (view_capacity v) (length bs) = n1" by (simp add: n1_def view_capacity_def)
  let ?m1 = "take n1 bs @ drop n1 ?m" and ?xs = "take (min ?s (length (drop n1 bs))) (drop n1 bs)"
  have wr: "(if n1 \<noteq> 0 then write_mem 0 (take n1 bs) ?m else Inr ?m) = Inr ?m1" using n1 by simp
  have m1: "length ?m1 = length ?m" "\<forall>i<n1. ?m1 ! i = bs ! i" using n1 by (simp_all add: nth_append)
  have xs: "length ?xs \<le> ?s" by simp
  then have wr2: "write_mem 0 ?xs ?m1 = Inr (?xs @ drop (length ?xs) ?m1)"
    using s m1(1) by (subst write_mem_inside) simp_all
  have "read_from_copy bs v = Inr (if drop n1 bs = [] \<or> ?s = 0 then (n1, ?m1)
      else (n1 + min ?s (length (drop n1 bs)), ?xs @ drop (length ?xs) ?m1))"
    unfolding read_from_copy_def av Let_def prod.case n1_def [symmetric] wr bind_res_simps wr2 by (rule if_distrib [symmetric])
  moreover have "(?xs @ drop (length ?xs) ?m1) ! i = bs ! i" if "?s \<le> i" "i < n1" for i
  proof -
    have "i < length ?m1" unfolding m1(1) using that(2) n1(1) by simp
    from nth_behind [OF le_trans [OF xs that(1)] this] m1(2) that(2) show ?thesis by simp
  qed
  ultimately show ?thesis unfolding cap using m1(2) by auto
qed

lemma read_from_overwrites:
  assumes wf: "wf_view v" and b: "back_off v = 0" "0 < start_off v"
    and over: "view_space v < length bs"
  shows "read_from bs v = Inl Assertion"
proof -
  let ?m = "view_mem v" and ?s = "start_off v"
  have u: "used_size v \<noteq> 0" "?s < view_capacity v" "used_size v \<le> view_capacity v"
    using wf b by (auto simp: wf_view_def split: if_splits)
  have eq: "?s + used_size v = view_capacity v"
    using wf b u by (auto simp: wf_view_def split: if_splits)
  have nf: "\<not> view_full v" "bs \<noteq> []" using eq b over by (auto simp: view_full_def)
  have av: "available_space v = ((0, length ?m), (0, ?s))"
    using b by (simp add: available_space_def view_is_linearized_def view_capacity_def)
  define n1 where "n1 = min (length ?m) (length bs)"
  have n1: "n1 \<noteq> 0" "n1 \<le> length ?m" "n1 \<le> length bs"
    "view_capacity v < n1 + used_size v"
    using over eq u nf(2) b by (auto simp: n1_def view_space_def view_capacity_def)
  then have c: "commit n (v\<lparr>view_mem := m\<rparr>) = Inl Assertion"
    if "length m = length ?m" "n1 \<le> n" for m n
    using that by (simp add: commit_def view_capacity_def)
  have wr: "write_mem 0 (take n1 bs) ?m = Inr (take n1 bs @ drop n1 ?m)"
    using n1 by (simp add: min_def)
  have l1: "length (take n1 bs @ drop n1 ?m) = length ?m" using n1 by simp
  show ?thesis
  proof (cases "drop n1 bs = []")
    case True
    then show ?thesis
      unfolding read_from_eq av Let_def prod.case n1_def [symmetric]
      using nf wr n1(1) c [OF l1, of n1] by simp
  next
    case False
    define n2 where "n2 = min ?s (length (drop n1 bs))"
    obtain m2 where m2: "write_mem 0 (take n2 (drop n1 bs)) (take n1 bs @ drop n1 ?m) = Inr m2"
    proof -
      have "length (take n2 (drop n1 bs)) \<le> ?s" by (simp add: n2_def)
      with u(2) l1 have "0 + length (take n2 (drop n1 bs)) \<le> length (take n1 bs @ drop n1 ?m)"
        by (simp only: view_capacity_def)
      then show ?thesis using that write_mem_inside by blast
    qed
    then have "length m2 = length ?m" using l1 length_write_mem by metis
    then have "commit (n1 + n2) (v\<lparr>view_mem := m2\<rparr>) = Inl Assertion" by (intro c) simp_all
    then show ?thesis
      unfolding read_from_eq av Let_def prod.case n1_def [symmetric] wr
      using False nf n1(1) b m2 by (simp add: n2_def [symmetric] del: length_drop drop_eq_Nil)
  qed
qed

section \<open>A full view that does not start at the beginning\<close>

lemma peek_overrun:
  assumes wf: "wf_view v" and full: "view_full v" and s: "0 < start_off v"
    and n: "view_capacity v - start_off v < n"
  shows "peek n v = Inl Out_of_bounds"
proof -
  have u: "used_size v = view_capacity v" using full by (simp add: view_full_def)
  have "start_off v < view_capacity v" "used_size v \<noteq> 0"
    using wf s by (auto simp: wf_view_def split: if_splits)
  moreover from this have "min (view_capacity v) n > 0"
    and "length (view_mem v) < start_off v + min (view_capacity v) n"
    using s n by (auto simp: view_capacity_def)
  ultimately show ?thesis
    using u wf full n
    by (simp add: peek_def available_buffers_def view_is_linearized_iff view_empty_def)
qed

section \<open>Rearranging\<close>

lemma move_to_start_bytes:
  assumes wf: "wf_view v" and so: "view_sound v" and lin: "view_is_linearized v"
  shows "\<exists>v'. move_to_start v = Inr ((0, used_size v), v') \<and> wf_view v' \<and> view_sound v' \<and>
    start_off v' = 0 \<and> view_bytes v' = view_bytes v \<and> view_capacity v' = view_capacity v"
proof (cases "view_empty v \<or> start_off v = 0")
  case True
  then have "start_off v = 0" using wf by (auto simp: view_empty_def wf_view_def)
  then show ?thesis
    using True wf so lin by (simp add: move_to_start_def)
next
  case False
  let ?m = "view_mem v" and ?s = "start_off v" and ?u = "used_size v"
  have fit: "?s + ?u \<le> length ?m"
    using lin view_linear_cases [OF wf so] by (simp add: view_capacity_def)
  have s: "0 < ?s" "0 < ?u" using False by (simp_all add: view_empty_def)
  define ws where "ws = view_bytes v"
  have vb: "ws = take ?u (drop ?s ?m)"
    using fit by (simp add: ws_def view_bytes_linear view_capacity_def)
  have len: "length ws = ?u" unfolding ws_def by (rule length_view_bytes [OF wf])
  let ?m' = "ws @ drop ?u ?m"
  have mv: "move_ring_buffer_view_to_start ?s ?u ?m = Inr ?m'"
    using s fit len
    by (simp add: move_ring_buffer_view_to_start_def move_overlap_def move_mem_def flip: vb)
  let ?v = "v\<lparr>view_mem := ?m', start_off := 0, back_off := ?u\<rparr>"
  have lt: "?u < view_capacity v" using s fit by (simp add: view_capacity_def)
  then have "move_to_start v = Inr ((0, ?u), ?v)"
    using False lin mv by (simp add: move_to_start_def increment_pointer_def)
  moreover have "wf_view ?v" "view_bytes ?v = ws" "view_capacity ?v = view_capacity v"
    using lt len s by (auto simp: wf_view_def view_capacity_def view_bytes_def)
  ultimately show ?thesis by (simp add: view_defs ws_def)
qed

lemma linearize_view_loop_head:
  assumes "linearize_view_loop r p1 q1 p2 n2 na m = Inr m'" and "0 < na"
  shows "length m' = length m \<and> m' ! 0 = m ! 0"
  using assms
proof (induction r p1 q1 p2 n2 na m rule: linearize_view_loop.induct)
  case (1 r p1 q1 p2 n2 na m)
  show ?case
  proof (cases "q1 \<le> p1")
    case True
    with 1 show ?thesis by (simp add: linearize_view_loop.simps [of r p1 q1])
  next
    case False
    define d where "d = min (Suc r) (q1 - p1)"
    have d: "0 < d" using False by (simp add: d_def)
    from "1.prems"(1) False obtain m1 m2 where
      m1: "move_overlap p2 (p2 + n2) (p2 + d) m = Inr m1" and
      m2: "move_mem na p1 d m1 = Inr m2" and
      m3: "linearize_view_loop r (p1 + d) q1 (p2 + d) n2 (na + d) m2 = Inr m'"
      by (auto simp: linearize_view_loop.simps [of r p1 q1] bind_res_eq_Inr Let_def d_def)
    have "length m' = length m2 \<and> m' ! 0 = m2 ! 0"
      using "1.IH" [OF False d_def m1 m2 m3] "1.prems"(2) by simp
    moreover have "length m2 = length m1 \<and> m2 ! 0 = m1 ! 0"
      using m2 "1.prems"(2)
      by (auto simp: move_mem_def bind_res_eq_Inr dest: length_write_mem write_mem_before)
    moreover have "length m1 = length m \<and> m1 ! 0 = m ! 0"
      using m1 d
      by (auto simp: move_overlap_def move_mem_def bind_res_eq_Inr
          dest: length_write_mem write_mem_before split: if_splits)
    ultimately show ?thesis by simp
  qed
qed

text \<open>
  \<open>linearize\<close> copies the first part to its own place instead of the beginning, so the bytes
  afterwards start with the first byte of the second part.
\<close>

lemma linearize_wrong_head:
  assumes wf: "wf_view v" and nl: "\<not> view_is_linearized v"
    and res: "view_linearize v = Inr (buf, v')"
  shows "hd (view_bytes v') = view_mem v ! 0" and "hd (view_bytes v) = view_mem v ! start_off v"
proof -
  have wrap: "view_capacity v < start_off v + used_size v" and nf: "\<not> view_full v"
    using wf nl by (simp_all add: view_is_linearized_iff)
  note w = view_bytes_wrapped [OF wf wrap]
  have s: "start_off v < length (view_mem v)" "used_size v < view_capacity v"
    using wf wrap nf used_le_capacity [OF wf]
    by (auto simp: wf_view_def view_full_def view_capacity_def split: if_splits)
  show "hd (view_bytes v) = view_mem v ! start_off v"
    unfolding w(1) using s by (simp add: hd_append hd_drop_conv_nth)
  have r: "start_off v - back_off v \<noteq> 0" using w s by (simp add: view_capacity_def)
  obtain m' where m': "linearize_ring_buffer_view (start_off v) (back_off v) (view_mem v) = Inr m'"
    and v': "v' = v\<lparr>view_mem := m', start_off := 0, back_off := increment_pointer v 0 (used_size v)\<rparr>"
    using res nl by (auto simp: view_linearize_def bind_res_eq_Inr)
  then have "length m' = length (view_mem v) \<and> m' ! 0 = view_mem v ! 0"
    using r w(2,3)
    by (auto simp: linearize_ring_buffer_view_def bind_res_eq_Inr Let_def
        intro!: linearize_view_loop_head split: if_splits)
  moreover have "0 < used_size v" "m' \<noteq> []" using wrap s calculation by (auto simp: view_capacity_def)
  ultimately show "hd (view_bytes v') = view_mem v ! 0"
    unfolding v' by (simp add: view_bytes_def hd_conv_nth)
qed

section \<open>The contract of a byte queue\<close>

datatype view_cmd = Read_from "byte list" | Write_to nat | Write_to_dynamic nat | Peek nat
  | Consume nat | View_clear

datatype view_out = Count nat | Bytes "byte list" | Nothing

fun view_step :: "view_cmd \<Rightarrow> ring_view \<Rightarrow> (view_out \<times> ring_view) res" where
  "view_step (Read_from bs) v = bind_res (read_from bs v) (\<lambda>(n, v1). Inr (Count n, v1))"
| "view_step (Write_to n) v = bind_res (write_to n v) (\<lambda>(bs, v1). Inr (Bytes bs, v1))"
| "view_step (Write_to_dynamic n) v =
     bind_res (write_to_dynamic n v) (\<lambda>(bs, v1). Inr (Bytes bs, v1))"
| "view_step (Peek n) v = bind_res (peek n v) (\<lambda>bs. Inr (Bytes bs, v))"
| "view_step (Consume n) v = bind_res (consume n v) (\<lambda>v1. Inr (Nothing, v1))"
| "view_step View_clear v = Inr (Nothing, view_clear v)"

fun bytes_spec :: "view_cmd \<Rightarrow> nat \<times> byte list \<Rightarrow> view_out \<times> (nat \<times> byte list)" where
  "bytes_spec (Read_from bs) (n, xs) = (Count (length bs), n, xs @ bs)"
| "bytes_spec (Write_to k) (n, xs) = (Bytes (take k xs), n, drop k xs)"
| "bytes_spec (Write_to_dynamic k) (n, xs) = (Bytes (take k xs), n, drop k xs)"
| "bytes_spec (Peek k) (n, xs) = (Bytes (take k xs), n, xs)"
| "bytes_spec (Consume k) (n, xs) = (Nothing, n, drop k xs)"
| "bytes_spec View_clear (n, xs) = (Nothing, n, [])"

text \<open>The client leaves at least one byte free, and consumes no more than there is.\<close>

fun view_pre :: "view_cmd \<Rightarrow> nat \<times> byte list \<Rightarrow> bool" where
  "view_pre (Read_from bs) (n, xs) \<longleftrightarrow> length xs + length bs < n"
| "view_pre (Consume k) (n, xs) \<longleftrightarrow> k \<le> length xs"
| "view_pre c q \<longleftrightarrow> True"

definition view_inv :: "ring_view \<Rightarrow> bool" where
  "view_inv v \<longleftrightarrow> wf_view v \<and> view_sound v"

definition view_abs :: "ring_view \<Rightarrow> nat \<times> byte list" where
  "view_abs v = (view_capacity v, view_bytes v)"

lemma read_from_step:
  assumes "view_inv v" and "length (view_bytes v) + length bs < view_capacity v"
  shows "\<exists>v'. read_from bs v = Inr (length bs, v') \<and> view_inv v' \<and>
    view_abs v' = (view_capacity v, view_bytes v @ bs)"
proof -
  have wf: "wf_view v" using assms(1) by (simp add: view_inv_def)
  have "length bs \<le> view_space v"
    using assms(2) length_view_bytes [OF wf] by (simp add: view_space_def)
  from read_from_bytes [OF wf this] obtain v'
    where v': "read_from bs v = Inr (length bs, v')" "appended v bs v'" by blast
  then have "used_size v' < view_capacity v'"
    using assms(2) length_view_bytes [of v'] by (auto simp: appended_def)
  with v' show ?thesis
    by (auto simp: appended_def view_inv_def view_abs_def view_defs)
qed

lemma view_step_refines:
  assumes inv: "view_inv v" and pre: "view_pre c (view_abs v)"
  shows "\<exists>v'. view_step c v = Inr (fst (bytes_spec c (view_abs v)), v') \<and> view_inv v' \<and>
    view_abs v' = snd (bytes_spec c (view_abs v))"
proof -
  have wf: "wf_view v" and so: "view_sound v" using inv by (simp_all add: view_inv_def)
  note rw = peek_bytes [OF wf so] write_to_dynamic_bytes [OF wf so]
  show ?thesis
  proof (cases c)
    case (Read_from bs)
    then show ?thesis
      using read_from_step [OF inv, of bs] pre by (auto simp: view_abs_def)
  next
    case (Consume n)
    then show ?thesis
      using consume_bytes [OF wf, of n] pre so by (auto simp: view_abs_def view_inv_def)
  next
    case (Write_to n)
    then show ?thesis
      using write_to_bytes [OF wf so, of n] by (auto simp: view_abs_def view_inv_def)
  next
    case (Write_to_dynamic n)
    then show ?thesis
      using write_to_bytes [OF wf so, of n] by (auto simp: view_abs_def view_inv_def rw)
  next
    case View_clear
    then show ?thesis
      by (simp add: view_clear_def view_inv_def view_abs_def wf_view_def view_bytes_def view_defs)
  qed (use inv in \<open>simp_all add: rw view_abs_def\<close>)
qed

interpretation vq: data_refinement view_inv view_abs view_pre "\<lambda>c s. Some (view_step c s)" bytes_spec
  by unfold_locales (simp add: view_step_refines)

lemma ring_consumer_inv: "view_inv (ring_consumer m n)" "view_abs (ring_consumer m n) = (length m, take n m)"
  by (simp_all add: view_inv_def view_abs_def ring_consumer_wf)

end
