(* ===== verification/View_Properties.thy ===== *)
theory View_Properties
  imports Ring_View_Client
begin

text \<open>
  The properties of the ring views, with witnesses on a view of four bytes whose data wraps
  around the end of the buffer.
\<close>

definition sample_view :: ring_view where
  "sample_view = \<lparr>view_mem = [3, 0, 1, 2], used_size = 3, start_off = 2, back_off = 1\<rparr>"

definition full_view :: ring_view where
  "full_view = \<lparr>view_mem = [3, 4, 1, 2], used_size = 4, start_off = 2, back_off = 2\<rparr>"

definition end_view :: ring_view where
  "end_view = \<lparr>view_mem = [0, 0, 1, 2], used_size = 2, start_off = 2, back_off = 0\<rparr>"

lemmas view_eval = wf_view_def view_sound_def view_full_def view_capacity_def view_bytes_def
  view_inv_def view_abs_def view_space_def view_is_linearized_def

lemma sample_view_facts [simp]:
  "view_inv sample_view" "wf_view sample_view" "view_abs sample_view = (4, [1, 2, 3])"
  "\<not> view_is_linearized sample_view"
  by (simp_all add: sample_view_def view_eval)

text \<open>
  C9: As long as the client leaves one byte free and consumes no more than there is, every
  sequence of writes, reads, peeks, consumes and clears on a ring view returns without a fault and
  gives the results of a byte queue.
\<close>

theorem view_runs_as_byte_queue:
  assumes "view_inv v" and "admissible view_pre bytes_spec cmds (view_abs v)"
  shows "\<exists>v'. run_steps (\<lambda>c s. Some (view_step c s)) cmds v
      = Some (Inr (fst (run_spec bytes_spec cmds (view_abs v)), v')) \<and> view_inv v' \<and>
    view_abs v' = snd (run_spec bytes_spec cmds (view_abs v))"
  using vq.run_refines [OF assms] .

theorem view_runs_as_byte_queue_witness:
  "\<exists>v'. run_steps (\<lambda>c s. Some (view_step c s)) [Write_to 2, Read_from [7, 8], Peek 5] sample_view
     = Some (Inr ([Bytes [1, 2], Count 2, Bytes [3, 7, 8]], v'))"
  using view_runs_as_byte_queue [of sample_view "[Write_to 2, Read_from [7, 8], Peek 5]"] by auto

text \<open>
  On a full view whose data does not start at the beginning of the buffer, a \<open>peek\<close> of more
  than the bytes up to the end reads outside the buffer: \<open>is_linearized\<close> takes the view for a
  linear one.
\<close>

theorem full_view_peek_overrun:
  assumes "wf_view v" and "view_full v" and "0 < start_off v"
    and "view_capacity v - start_off v < n"
  shows "peek n v = Inl Out_of_bounds"
  using peek_overrun [OF assms] .

theorem full_view_peek_overrun_witness: "peek 3 full_view = Inl Out_of_bounds"
  using full_view_peek_overrun [of full_view 3] by (simp add: full_view_def view_eval)



text \<open>
  \<open>linearize\<close> of a wrapped view yields bytes that start with the first byte of the buffer
  instead of the first byte of the data.
\<close>

theorem view_linearize_loses_order:
  assumes "wf_view v" and "\<not> view_is_linearized v" and "view_linearize v = Inr (buf, v')"
    and "view_mem v ! 0 \<noteq> view_mem v ! start_off v"
  shows "hd (view_bytes v') = view_mem v ! 0 \<and> view_bytes v' \<noteq> view_bytes v"
  using linearize_wrong_head [OF assms(1-3)] assms(4) by auto

theorem view_linearize_loses_order_witness:
  "\<exists>buf v'. view_linearize sample_view = Inr (buf, v') \<and> view_bytes v' \<noteq> [1, 2, 3]"
proof -
  have "\<exists>buf v'. view_linearize sample_view = Inr (buf, v')"
    by (simp add: sample_view_def view_linearize_def view_is_linearized_def view_empty_def
        linearize_ring_buffer_view_def linearize_view_loop.simps move_overlap_def move_mem_def
        read_mem_def write_mem_def Let_def)
  then obtain buf v' where r: "view_linearize sample_view = Inr (buf, v')" by blast
  moreover have "view_bytes sample_view = [1, 2, 3]" "view_mem sample_view ! 0 = 3"
    "view_mem sample_view ! start_off sample_view = 1"
    by (simp_all add: sample_view_def view_bytes_def)
  ultimately show ?thesis
    using view_linearize_loses_order [of sample_view buf v'] by auto
qed

end
