(* ===== verification/Node_Heap.thy ===== *)
theory Node_Heap
  imports Rad_Prelude Refinement
begin

text \<open>
  Intrusive list nodes. The nodes of \<open>stack_forward_list\<close> and \<open>stack_list\<close> live outside the list
  and are linked through pointers they carry, so a list is modelled over an explicit store: for
  every node address its \<open>next_node\<close>, its \<open>prev_node\<close> (the doubly linked nodes only) and its
  \<open>container\<close>, the list it is linked to. The store also gives a list its own address. \<open>None\<close> is
  the null pointer. The model is the debug build, in which \<open>container\<close> exists and every \<open>assert\<close>
  is checked.
\<close>

section \<open>The store\<close>

type_synonym addr = nat
type_synonym ptr = "addr option"

record node_heap =
  next_node :: "addr \<Rightarrow> ptr"
  prev_node :: "addr \<Rightarrow> ptr"
  container :: "addr \<Rightarrow> ptr"

definition set_next :: "addr \<Rightarrow> ptr \<Rightarrow> node_heap \<Rightarrow> node_heap" where
  "set_next a p h = h\<lparr>next_node := (next_node h)(a := p)\<rparr>"

definition set_previous :: "addr \<Rightarrow> ptr \<Rightarrow> node_heap \<Rightarrow> node_heap" where
  "set_previous a p h = h\<lparr>prev_node := (prev_node h)(a := p)\<rparr>"

definition unlink_container :: "addr \<Rightarrow> node_heap \<Rightarrow> node_heap" where
  "unlink_container a h = h\<lparr>container := (container h)(a := None)\<rparr>"

definition deref :: "ptr \<Rightarrow> addr res" where
  "deref p = (case p of None \<Rightarrow> Inl Null_pointer | Some a \<Rightarrow> Inr a)"

lemma deref_simps [simp]: "deref None = Inl Null_pointer" "deref (Some a) = Inr a"
  by (simp_all add: deref_def)

lemma set_next_simps [simp]:
  "next_node (set_next a p h) = (next_node h)(a := p)"
  "prev_node (set_next a p h) = prev_node h" "container (set_next a p h) = container h"
  by (simp_all add: set_next_def)

lemma set_previous_simps [simp]:
  "prev_node (set_previous a p h) = (prev_node h)(a := p)"
  "next_node (set_previous a p h) = next_node h" "container (set_previous a p h) = container h"
  by (simp_all add: set_previous_def)

lemma unlink_container_simps [simp]:
  "container (unlink_container a h) = (container h)(a := None)"
  "next_node (unlink_container a h) = next_node h" "prev_node (unlink_container a h) = prev_node h"
  by (simp_all add: unlink_container_def)

section \<open>Linked segments\<close>

fun lseg :: "(addr \<Rightarrow> ptr) \<Rightarrow> ptr \<Rightarrow> addr list \<Rightarrow> ptr \<Rightarrow> bool" where
  "lseg f p [] q \<longleftrightarrow> p = q"
| "lseg f p (a # as) q \<longleftrightarrow> p = Some a \<and> lseg f (f a) as q"

abbreviation chain :: "(addr \<Rightarrow> ptr) \<Rightarrow> ptr \<Rightarrow> addr list \<Rightarrow> bool" where
  "chain f p as \<equiv> lseg f p as None"

lemma lseg_append [simp]:
  "lseg f p (as @ bs) q \<longleftrightarrow> (\<exists>r. lseg f p as r \<and> lseg f r bs q)"
  by (induction as arbitrary: p) auto

lemma lseg_upd [simp]: "a \<notin> set as \<Longrightarrow> lseg (f(a := v)) p as q \<longleftrightarrow> lseg f p as q"
  by (induction as arbitrary: p) auto

lemma lseg_cong:
  "(\<And>a. a \<in> set as \<Longrightarrow> f a = g a) \<Longrightarrow> lseg f p as q \<longleftrightarrow> lseg g p as q"
  by (induction as arbitrary: p) auto

lemma chain_unique: "chain f p as \<Longrightarrow> chain f p bs \<Longrightarrow> as = bs"
  by (induction as arbitrary: p bs) (case_tac bs; auto)+

lemma chain_distinct: "chain f p as \<Longrightarrow> distinct as"
proof (induction as arbitrary: p)
  case (Cons a as)
  have "a \<notin> set as"
  proof
    assume "a \<in> set as"
    then obtain us vs where "as = us @ a # vs" by (meson split_list)
    with Cons.prems have "chain f (Some a) (a # us @ a # vs)" and "chain f (Some a) (a # vs)"
      by auto
    from chain_unique [OF this] show False by simp
  qed
  with Cons show ?case by auto
qed simp

lemma chain_head: "chain f p as \<Longrightarrow> p = (case as of [] \<Rightarrow> None | a # _ \<Rightarrow> Some a)"
  by (cases as) auto

lemma chain_last_next:
  assumes "chain f p as" and "as \<noteq> []"
  shows "f (last as) = None"
  using assms by (induction as arbitrary: p) (auto split: if_splits)

text \<open>Linking one chain after another.\<close>

lemma chain_join:
  assumes "chain f p as" and "as \<noteq> []" and "last as \<notin> set bs" and "chain f q bs"
  shows "chain (f(last as := q)) p (as @ bs)"
proof -
  have "distinct as" using assms(1) by (rule chain_distinct)
  with assms(1,2) have "lseg (f(last as := q)) p as q"
  proof (induction as arbitrary: p)
    case (Cons a as)
    then show ?case by (cases as) auto
  qed simp
  moreover have "chain (f(last as := q)) q bs" using assms(3,4) by simp
  ultimately show ?thesis by auto
qed

lemma chain_cut:
  assumes "chain f p (as @ bs)" and "as \<noteq> []"
  shows "chain (f(last as := None)) p as"
proof -
  from assms have "distinct as" using chain_distinct by fastforce
  with assms show ?thesis
  proof (induction as arbitrary: p)
    case (Cons a as)
    then show ?case by (cases as) auto
  qed simp
qed

text \<open>Both directions at once: \<open>head\<close> leads forwards through \<open>as\<close>, \<open>tail\<close> backwards.\<close>

definition dchain :: "(addr \<Rightarrow> ptr) \<Rightarrow> (addr \<Rightarrow> ptr) \<Rightarrow> ptr \<Rightarrow> ptr \<Rightarrow> addr list \<Rightarrow> bool" where
  "dchain f g h t as \<longleftrightarrow> chain f h as \<and> chain g t (rev as)"

definition hdp :: "addr list \<Rightarrow> ptr" where
  "hdp as = (case as of [] \<Rightarrow> None | a # _ \<Rightarrow> Some a)"

lemma hdp_simps [simp]: "hdp [] = None" "hdp (a # as) = Some a" "hdp as = None \<longleftrightarrow> as = []"
  by (simp_all add: hdp_def split: list.splits)

lemma hdp_append [simp]: "hdp (as @ bs) = (if as = [] then hdp bs else hdp as)"
  by (cases as) auto

lemma hdp_notin: "a \<notin> set as \<Longrightarrow> hdp as \<noteq> Some a"
  by (cases as) auto

lemma hdp_rev: "hdp (rev as) = (if as = [] then None else Some (last as))"
  by (cases as rule: rev_cases) auto

text \<open>The link out of the segment \<open>us\<close>, which is the entry of the chain when \<open>us\<close> is empty.\<close>

definition splice :: "addr list \<Rightarrow> ptr \<Rightarrow> (addr \<Rightarrow> ptr) \<Rightarrow> (addr \<Rightarrow> ptr)" where
  "splice us p f = (if us = [] then f else f(last us := p))"

lemma chain_mid: "chain f p (us @ vs) \<Longrightarrow> (if us = [] then p else f (last us)) = hdp vs"
proof (induction us arbitrary: p)
  case Nil
  then show ?case by (cases vs) auto
next
  case (Cons u us)
  then show ?case by (cases us) auto
qed

lemma lseg_redirect:
  assumes "chain f p (us @ vs)"
  shows "lseg (splice us q f) (if us = [] then q else p) us q"
proof (cases us rule: rev_cases)
  case (snoc ws u)
  have "distinct (us @ vs)" using assms by (rule chain_distinct)
  with assms snoc show ?thesis by (auto simp: splice_def)
qed simp

lemma last_disjoint: "us \<noteq> [] \<Longrightarrow> set us \<inter> set vs = {} \<Longrightarrow> last us \<notin> set vs"
  using last_in_set [of us] by blast

lemma chain_insert:
  assumes "chain f p (us @ vs)" and a: "a \<notin> set (us @ vs)"
  shows "chain (splice us (Some a) (f(a := hdp vs))) (if us = [] then Some a else p) (us @ a # vs)"
proof -
  have d: "distinct (us @ vs)" using assms(1) by (rule chain_distinct)
  have "chain (f(a := hdp vs)) p (us @ vs)" using assms by auto
  then have l: "lseg (splice us (Some a) (f(a := hdp vs))) (if us = [] then Some a else p) us (Some a)"
    by (rule lseg_redirect)
  have "chain f (hdp vs) vs" using assms(1) by (cases vs) auto
  moreover have "last us \<notin> set vs" and "last us \<noteq> a" if "us \<noteq> []"
    using last_disjoint [OF that, of vs] last_in_set [OF that] d a by auto
  ultimately have "chain (splice us (Some a) (f(a := hdp vs))) (Some a) (a # vs)"
    using a by (auto simp: splice_def)
  with l show ?thesis by auto
qed

lemma chain_remove:
  assumes "chain f p (us @ a # vs)"
  shows "chain (splice us (hdp vs) f) (if us = [] then hdp vs else p) (us @ vs)"
    and "f a = hdp vs"
proof -
  have d: "distinct (us @ a # vs)" using assms by (rule chain_distinct)
  have vs: "chain f (hdp vs) vs" and fa: "f a = hdp vs" using assms by (cases vs; auto)+
  show "f a = hdp vs" by (rule fa)
  have "last us \<notin> set vs" if "us \<noteq> []" using last_disjoint [OF that, of vs] d by auto
  with vs have "chain (splice us (hdp vs) f) (hdp vs) vs" by (simp add: splice_def)
  with lseg_redirect [OF assms, of "hdp vs"]
  show "chain (splice us (hdp vs) f) (if us = [] then hdp vs else p) (us @ vs)" by auto
qed

lemma dchain_distinct: "dchain f g h t as \<Longrightarrow> distinct as"
  by (auto simp: dchain_def dest: chain_distinct)

lemma dchain_ends:
  assumes "dchain f g h t as"
  shows "h = hdp as" and "t = hdp (rev as)"
  using assms by (auto simp: dchain_def hdp_def dest: chain_head)

lemma dchain_insert:
  assumes "dchain f g h t (us @ vs)" and "a \<notin> set (us @ vs)"
  shows "dchain (splice us (Some a) (f(a := hdp vs))) (splice (rev vs) (Some a) (g(a := hdp (rev us))))
    (if us = [] then Some a else h) (if vs = [] then Some a else t) (us @ a # vs)"
proof -
  have "chain f h (us @ vs)" and "chain g t (rev vs @ rev us)"
    using assms(1) by (simp_all add: dchain_def)
  then show ?thesis
    using chain_insert [of f h us vs a] chain_insert [of g t "rev vs" "rev us" a] assms(2)
    by (simp add: dchain_def)
qed

lemma dchain_remove:
  assumes "dchain f g h t (us @ a # vs)"
  shows "dchain (splice us (hdp vs) f) (splice (rev vs) (hdp (rev us)) g)
      (if us = [] then hdp vs else h) (if vs = [] then hdp (rev us) else t) (us @ vs)"
    and "f a = hdp vs" and "g a = hdp (rev us)"
proof -
  have c: "chain f h (us @ a # vs)" "chain g t (rev vs @ a # rev us)"
    using assms by (simp_all add: dchain_def)
  show "f a = hdp vs" and "g a = hdp (rev us)"
    using chain_remove(2) [OF c(1)] chain_remove(2) [OF c(2)] by simp_all
  show "dchain (splice us (hdp vs) f) (splice (rev vs) (hdp (rev us)) g)
      (if us = [] then hdp vs else h) (if vs = [] then hdp (rev us) else t) (us @ vs)"
    using chain_remove(1) [OF c(1)] chain_remove(1) [OF c(2)]
    unfolding dchain_def rev_append rev_is_Nil_conv by (intro conjI)
qed

lemma dchain_cong:
  assumes "\<And>a. a \<in> set as \<Longrightarrow> f a = f' a \<and> g a = g' a"
  shows "dchain f g h t as \<longleftrightarrow> dchain f' g' h t as"
  using lseg_cong [of as f f'] lseg_cong [of "rev as" g g'] assms by (simp add: dchain_def)

lemma dchain_upd [simp]:
  "a \<notin> set as \<Longrightarrow> dchain (f(a := v)) g h t as \<longleftrightarrow> dchain f g h t as"
  "a \<notin> set as \<Longrightarrow> dchain f (g(a := v)) h t as \<longleftrightarrow> dchain f g h t as"
  by (simp_all add: dchain_def)

lemma dchain_join:
  assumes "dchain f g h t as" and "dchain f g h2 t2 bs" and "as \<noteq> []" and "bs \<noteq> []"
    and "set as \<inter> set bs = {}"
  shows "dchain (f(last as := h2)) (g(hd bs := t)) h t2 (as @ bs)"
proof -
  have "last as \<notin> set bs" using last_disjoint assms(3,5) by blast
  moreover have "hd bs \<notin> set as" using assms(4,5) hd_in_set [of bs] by blast
  moreover have "last (rev bs) = hd bs" using assms(4) by (simp add: last_rev)
  ultimately show ?thesis
    using chain_join [of f h as bs h2] chain_join [of g t2 "rev bs" "rev as" t] assms
    unfolding dchain_def rev_append by simp
qed

end
