(* ===== verification/Forward_List.thy ===== *)
theory Forward_List
  imports Node_Heap
begin

text \<open>
  The model of \<open>rad::stack_forward_list_base\<close> and \<open>rad::stack_forward_list<T>\<close>
  (\<open>src/include/rad/stack_forward_list.h\<close>). \<open>fl_self\<close> is the address of the list object, which the
  nodes store as their container; \<open>forward_list\<close> holds its three members.
\<close>

section \<open>State\<close>

record forward_list =
  fl_self :: addr
  nodes_count :: nat
  fl_head :: ptr
  fl_tail :: ptr

type_synonym fl_state = "node_heap \<times> forward_list"

section \<open>Debug checks\<close>

definition fl_link_container :: "addr \<Rightarrow> ptr \<Rightarrow> node_heap \<Rightarrow> node_heap res" where
  "fl_link_container a c h =
     bind_res (ensure (container h a = None) Assertion) (\<lambda>_.
       Inr (h\<lparr>container := (container h)(a := c)\<rparr>))"

definition fl_validate_node :: "addr \<Rightarrow> bool \<Rightarrow> forward_list \<Rightarrow> node_heap \<Rightarrow> unit res" where
  "fl_validate_node a should_exist l h =
     (let node_exists = (container h a = Some (fl_self l)) in
      ensure (node_exists = should_exist) Assertion)"

partial_function (option) fl_unlink_loop :: "ptr \<Rightarrow> ptr \<Rightarrow> node_heap \<Rightarrow> node_heap res option" where
  "fl_unlink_loop first new_list h =
     (case first of None \<Rightarrow> Some (Inr h)
      | Some a \<Rightarrow>
        (case fl_link_container a new_list (unlink_container a h) of Inl e \<Rightarrow> Some (Inl e)
         | Inr h1 \<Rightarrow> fl_unlink_loop (next_node h1 a) new_list h1))"

definition fl_unlink_all_nodes :: "ptr \<Rightarrow> forward_list \<Rightarrow> node_heap \<Rightarrow> node_heap run" where
  "fl_unlink_all_nodes new_list l h = fl_unlink_loop (fl_head l) new_list h"

definition fl_assert_list_is_valid :: "forward_list \<Rightarrow> node_heap \<Rightarrow> unit res" where
  "fl_assert_list_is_valid l h =
     (if nodes_count l = 0 then ensure (fl_head l = None \<and> fl_tail l = None) Assertion
      else bind_res (ensure (fl_head l \<noteq> None \<and> fl_tail l \<noteq> None) Assertion) (\<lambda>_.
        bind_res (deref (fl_tail l)) (\<lambda>t.
        bind_res (ensure (next_node h t = None) Assertion) (\<lambda>_.
        if nodes_count l = 1 then ensure (fl_head l = fl_tail l) Assertion
        else ensure (fl_head l \<noteq> fl_tail l) Assertion))))"

definition fl_checked :: "'r \<Rightarrow> node_heap \<Rightarrow> forward_list \<Rightarrow> ('r \<times> fl_state) res" where
  "fl_checked r h l = bind_res (fl_assert_list_is_valid l h) (\<lambda>_. Inr (r, h, l))"

section \<open>Operations\<close>

definition fl_new :: "addr \<Rightarrow> forward_list" where
  "fl_new self = \<lparr>fl_self = self, nodes_count = 0, fl_head = None, fl_tail = None\<rparr>"

definition fl_empty :: "forward_list \<Rightarrow> bool" where
  "fl_empty l \<longleftrightarrow> nodes_count l = 0"

definition fl_reset :: "forward_list \<Rightarrow> forward_list" where
  "fl_reset l = l\<lparr>nodes_count := 0, fl_head := None, fl_tail := None\<rparr>"

definition fl_clear :: "node_heap \<Rightarrow> forward_list \<Rightarrow> fl_state run" where
  "fl_clear h l =
     bind_run (fl_unlink_all_nodes None l h) (\<lambda>h1.
       Some (bind_res (fl_checked () h1 (fl_reset l)) (\<lambda>(_, s). Inr s)))"

definition fl_move_construct ::
    "addr \<Rightarrow> node_heap \<Rightarrow> forward_list \<Rightarrow> (node_heap \<times> forward_list \<times> forward_list) run" where
  "fl_move_construct self h other =
     (let l = other\<lparr>fl_self := self\<rparr>; other1 = fl_reset other in
      bind_run (fl_unlink_all_nodes (Some self) l h) (\<lambda>h1.
        Some (bind_res (fl_assert_list_is_valid other1 h1) (\<lambda>_.
              bind_res (fl_assert_list_is_valid l h1) (\<lambda>_. Inr (h1, l, other1))))))"

definition fl_move_assign ::
    "node_heap \<Rightarrow> forward_list \<Rightarrow> forward_list \<Rightarrow> (node_heap \<times> forward_list \<times> forward_list) run" where
  "fl_move_assign h l other =
     (if fl_self l = fl_self other then Some (Inr (h, l, other))
      else
        bind_run (fl_unlink_all_nodes None l h) (\<lambda>h1.
        bind_run (fl_unlink_all_nodes (Some (fl_self l)) other h1) (\<lambda>h2.
          let l1 = l\<lparr>nodes_count := nodes_count other, fl_head := fl_head other,
                     fl_tail := fl_tail other\<rparr>;
              other1 = fl_reset other
          in Some (bind_res (fl_assert_list_is_valid other1 h2) (\<lambda>_.
                   bind_res (fl_assert_list_is_valid l1 h2) (\<lambda>_. Inr (h2, l1, other1)))))))"

definition fl_front_node :: "node_heap \<Rightarrow> forward_list \<Rightarrow> addr res" where
  "fl_front_node h l =
     bind_res (ensure (\<not> fl_empty l) Assertion) (\<lambda>_.
     bind_res (fl_assert_list_is_valid l h) (\<lambda>_. deref (fl_head l)))"

definition fl_back_node :: "node_heap \<Rightarrow> forward_list \<Rightarrow> addr res" where
  "fl_back_node h l =
     bind_res (ensure (\<not> fl_empty l) Assertion) (\<lambda>_.
     bind_res (fl_assert_list_is_valid l h) (\<lambda>_. deref (fl_tail l)))"

definition fl_merge_back ::
    "node_heap \<Rightarrow> forward_list \<Rightarrow> forward_list \<Rightarrow> (node_heap \<times> forward_list \<times> forward_list) run" where
  "fl_merge_back h l other =
     (if fl_self l = fl_self other then Some (Inr (h, l, other))
      else if fl_empty other then Some (Inr (h, l, other))
      else if fl_empty l then
        bind_run (fl_move_assign h l other) (\<lambda>(h1, l1, other1).
          Some (bind_res (fl_assert_list_is_valid other1 h1) (\<lambda>_.
                bind_res (fl_assert_list_is_valid l1 h1) (\<lambda>_. Inr (h1, l1, other1)))))
      else
        bind_run (fl_unlink_all_nodes (Some (fl_self l)) other h) (\<lambda>h1.
          Some (bind_res (deref (fl_tail l)) (\<lambda>t.
            let h2 = set_next t (fl_head other) h1;
                l1 = l\<lparr>nodes_count := nodes_count l + nodes_count other, fl_tail := fl_tail other\<rparr>;
                other1 = fl_reset other
            in bind_res (fl_assert_list_is_valid other1 h2) (\<lambda>_.
               bind_res (fl_assert_list_is_valid l1 h2) (\<lambda>_. Inr (h2, l1, other1)))))))"

definition fl_merge_front ::
    "node_heap \<Rightarrow> forward_list \<Rightarrow> forward_list \<Rightarrow> (node_heap \<times> forward_list \<times> forward_list) run" where
  "fl_merge_front h l other =
     (if fl_self l = fl_self other then Some (Inr (h, l, other))
      else if fl_empty other then Some (Inr (h, l, other))
      else if fl_empty l then
        bind_run (fl_move_assign h l other) (\<lambda>(h1, l1, other1).
          Some (bind_res (fl_assert_list_is_valid other1 h1) (\<lambda>_.
                bind_res (fl_assert_list_is_valid l1 h1) (\<lambda>_. Inr (h1, l1, other1)))))
      else
        bind_run (fl_unlink_all_nodes (Some (fl_self l)) other h) (\<lambda>h1.
          Some (bind_res (deref (fl_tail other)) (\<lambda>t.
            let h2 = set_next t (fl_head l) h1;
                l1 = l\<lparr>nodes_count := nodes_count l + nodes_count other, fl_head := fl_head other\<rparr>;
                other1 = fl_reset other
            in bind_res (fl_assert_list_is_valid other1 h2) (\<lambda>_.
               bind_res (fl_assert_list_is_valid l1 h2) (\<lambda>_. Inr (h2, l1, other1)))))))"

definition fl_push_back :: "addr \<Rightarrow> node_heap \<Rightarrow> forward_list \<Rightarrow> (unit \<times> fl_state) res" where
  "fl_push_back node h l =
     bind_res (fl_validate_node node False l h) (\<lambda>_.
     bind_res (fl_link_container node (Some (fl_self l)) h) (\<lambda>h1.
       let l1 = l\<lparr>nodes_count := nodes_count l + 1\<rparr>;
           h2 = set_next node None h1
       in if nodes_count l1 = 1 then
            fl_checked () h2 (l1\<lparr>fl_head := Some node, fl_tail := Some node\<rparr>)
          else bind_res (deref (fl_tail l1)) (\<lambda>t.
            fl_checked () (set_next t (Some node) h2) (l1\<lparr>fl_tail := Some node\<rparr>))))"

definition fl_push_front :: "addr \<Rightarrow> node_heap \<Rightarrow> forward_list \<Rightarrow> (unit \<times> fl_state) res" where
  "fl_push_front node h l =
     bind_res (fl_validate_node node False l h) (\<lambda>_.
     bind_res (fl_link_container node (Some (fl_self l)) h) (\<lambda>h1.
       let l1 = l\<lparr>nodes_count := nodes_count l + 1\<rparr> in
       if nodes_count l1 = 1 then
         fl_checked () (set_next node None h1) (l1\<lparr>fl_head := Some node, fl_tail := Some node\<rparr>)
       else
         let old_head = fl_head l1 in
         fl_checked () (set_next node old_head h1) (l1\<lparr>fl_head := Some node\<rparr>)))"

definition fl_try_pop_front :: "node_heap \<Rightarrow> forward_list \<Rightarrow> (ptr \<times> fl_state) res" where
  "fl_try_pop_front h l =
     (if nodes_count l = 0 then Inr (None, h, l)
      else
        let l1 = l\<lparr>nodes_count := nodes_count l - 1\<rparr> in
        bind_res (deref (fl_head l1)) (\<lambda>node.
          let h1 = unlink_container node h;
              l2 = l1\<lparr>fl_head := next_node h1 node\<rparr>;
              l3 = (if fl_head l2 = None then l2\<lparr>fl_tail := None\<rparr> else l2)
          in fl_checked (Some node) h1 l3))"

text \<open>The loop that looks for the last node and its predecessor.\<close>

partial_function (option) fl_last_loop :: "node_heap \<Rightarrow> addr \<Rightarrow> ptr \<Rightarrow> (addr \<times> ptr) option" where
  "fl_last_loop h last_node prev_last =
     (case next_node h last_node of None \<Rightarrow> Some (last_node, prev_last)
      | Some n \<Rightarrow> fl_last_loop h n (Some last_node))"

definition fl_try_pop_back :: "node_heap \<Rightarrow> forward_list \<Rightarrow> (ptr \<times> fl_state) run" where
  "fl_try_pop_back h l =
     (if nodes_count l = 0 then Some (Inr (None, h, l))
      else
        let l1 = l\<lparr>nodes_count := nodes_count l - 1\<rparr> in
        case deref (fl_head l1) of Inl e \<Rightarrow> Some (Inl e)
        | Inr hd_node \<Rightarrow>
          map_option (\<lambda>(last_node, prev_last).
            let h1 = unlink_container last_node h;
                h2 = (case prev_last of None \<Rightarrow> h1 | Some p \<Rightarrow> set_next p None h1)
            in fl_checked (Some last_node) h2 (l1\<lparr>fl_tail := prev_last\<rparr>))
            (fl_last_loop h hd_node None))"

text \<open>
  The range constructor. The range is the list of the addresses of its nodes; \<open>past\<close> is the
  address that \<open>std::addressof(*last)\<close> yields for the end iterator.
\<close>

fun fl_link_range :: "ptr \<Rightarrow> addr list \<Rightarrow> addr \<Rightarrow> node_heap \<Rightarrow> node_heap res" where
  "fl_link_range self [] past h = Inr h"
| "fl_link_range self (a # as) past h =
     bind_res (fl_link_container a self h) (\<lambda>h1.
       fl_link_range self as past
         (set_next a (Some (case as of [] \<Rightarrow> past | b # _ \<Rightarrow> b)) h1))"

definition fl_from_range :: "addr \<Rightarrow> addr list \<Rightarrow> addr \<Rightarrow> node_heap \<Rightarrow> (unit \<times> fl_state) res" where
  "fl_from_range self as past h =
     (if as = [] then Inr ((), h, fl_new self)
      else
        bind_res (fl_link_range (Some self) as past h) (\<lambda>h1.
          fl_checked () h1 \<lparr>fl_self = self, nodes_count = length as, fl_head = Some (hd as),
            fl_tail = Some (last as)\<rparr>))"

text \<open>Iteration from \<open>begin()\<close> to \<open>end()\<close>, collecting the nodes that \<open>operator*\<close> yields.\<close>

partial_function (option) fl_iterate :: "node_heap \<Rightarrow> ptr \<Rightarrow> addr list option" where
  "fl_iterate h it =
     (case it of None \<Rightarrow> Some []
      | Some a \<Rightarrow> Option.bind (fl_iterate h (next_node h a)) (\<lambda>as. Some (a # as)))"

definition fl_traverse :: "node_heap \<Rightarrow> forward_list \<Rightarrow> addr list run" where
  "fl_traverse h l =
     (case fl_front_node h l of Inl e \<Rightarrow> Some (Inl e)
      | Inr a \<Rightarrow> map_option Inr (fl_iterate h (Some a)))"

end
