(* ===== verification/Forward_List_Laws.thy ===== *)
theory Forward_List_Laws
  imports Forward_List
begin

text \<open>
  The singly linked intrusive list represents a list of nodes (\<open>fl_ok\<close>), every operation keeps
  that representation, and no operation touches a node of another list (\<open>untouched\<close>).
\<close>

section \<open>Representation\<close>

definition fl_ok :: "node_heap \<Rightarrow> forward_list \<Rightarrow> addr list \<Rightarrow> bool" where
  "fl_ok h l xs \<longleftrightarrow>
     chain (next_node h) (fl_head l) xs \<and> nodes_count l = length xs \<and>
     fl_tail l = (if xs = [] then None else Some (last xs)) \<and>
     list_all (\<lambda>a. container h a = Some (fl_self l)) xs"

definition untouched :: "addr set \<Rightarrow> node_heap \<Rightarrow> node_heap \<Rightarrow> bool" where
  "untouched S h h' \<longleftrightarrow>
     (\<forall>a. a \<notin> S \<longrightarrow> next_node h' a = next_node h a \<and> prev_node h' a = prev_node h a \<and>
          container h' a = container h a)"

lemma untouched_refl [simp]: "untouched S h h"
  by (simp add: untouched_def)

lemma fl_ok_untouched:
  assumes "fl_ok h l xs" and "untouched S h h'" and "set xs \<inter> S = {}"
  shows "fl_ok h' l xs"
proof -
  have same: "next_node h' a = next_node h a \<and> container h' a = container h a" if "a \<in> set xs" for a
    using assms(2,3) that by (auto simp: untouched_def)
  have "chain (next_node h') (fl_head l) xs \<longleftrightarrow> chain (next_node h) (fl_head l) xs"
    using same by (intro lseg_cong) simp
  with assms(1) same show ?thesis by (auto simp: fl_ok_def list_all_iff)
qed

lemma fl_ok_disjoint:
  assumes "fl_ok h l xs" and "fl_ok h m ys" and "fl_self l \<noteq> fl_self m"
  shows "set xs \<inter> set ys = {}"
  using assms by (auto simp: fl_ok_def list_all_iff)

lemma last_neq_head: "distinct (a # b # xs) \<Longrightarrow> last (b # xs) \<noteq> a"
  using last_in_set [of "b # xs"] by auto

lemma fl_ok_valid:
  assumes "fl_ok h l xs"
  shows "fl_assert_list_is_valid l h = Inr ()"
proof (cases xs)
  case Nil
  with assms show ?thesis by (simp add: fl_ok_def fl_assert_list_is_valid_def)
next
  case (Cons a as)
  have ch: "chain (next_node h) (fl_head l) xs" using assms by (simp add: fl_ok_def)
  have d: "distinct xs" using ch by (rule chain_distinct)
  have "next_node h (last xs) = None" using chain_last_next [OF ch] Cons by simp
  moreover have "fl_head l = Some a" using ch Cons by simp
  moreover have "length xs = 1 \<longleftrightarrow> a = last xs"
    using Cons d last_neq_head by (cases as) auto
  ultimately show ?thesis
    using assms Cons by (auto simp: fl_ok_def fl_assert_list_is_valid_def)
qed

lemma fl_checked_ok: "fl_ok h l xs \<Longrightarrow> fl_checked r h l = Inr (r, h, l)"
  by (simp add: fl_checked_def fl_ok_valid)

section \<open>Loops\<close>

definition relink :: "addr list \<Rightarrow> ptr \<Rightarrow> node_heap \<Rightarrow> node_heap" where
  "relink xs c h = h\<lparr>container := (\<lambda>a. if a \<in> set xs then c else container h a)\<rparr>"

lemma relink_simps [simp]:
  "next_node (relink xs c h) = next_node h" "prev_node (relink xs c h) = prev_node h"
  "container (relink xs c h) a = (if a \<in> set xs then c else container h a)"
  by (simp_all add: relink_def)

lemma fl_unlink_loop_chain:
  assumes "chain (next_node h) p xs"
  shows "fl_unlink_loop p c h = Some (Inr (relink xs c h))"
  using assms
proof (induction xs arbitrary: p h)
  case Nil
  then show ?case by (simp add: fl_unlink_loop.simps [of None] relink_def)
next
  case (Cons a xs)
  let ?h1 = "h\<lparr>container := (container h)(a := c)\<rparr>"
  have link: "fl_link_container a c (unlink_container a h) = Inr ?h1"
    by (simp add: fl_link_container_def unlink_container_def)
  have "fl_unlink_loop (next_node ?h1 a) c ?h1 = Some (Inr (relink xs c ?h1))"
    using Cons.prems by (intro Cons.IH) simp
  moreover have "relink xs c ?h1 = relink (a # xs) c h"
    by (auto simp: relink_def fun_eq_iff intro!: node_heap.equality)
  ultimately show ?case
    using Cons.prems link by (simp add: fl_unlink_loop.simps [of "Some a"])
qed

lemma fl_last_loop_chain:
  assumes "chain (next_node h) (Some a) (a # xs)"
  shows "fl_last_loop h a prev = Some (last (a # xs), if xs = [] then prev else Some (last (butlast (a # xs))))"
  using assms
proof (induction xs arbitrary: a prev)
  case Nil
  then show ?case by (simp add: fl_last_loop.simps [of h a])
next
  case (Cons b xs)
  then have "fl_last_loop h b (Some a)
      = Some (last (b # xs), if xs = [] then Some a else Some (last (butlast (b # xs))))"
    by simp
  with Cons.prems show ?case by (simp add: fl_last_loop.simps [of h a])
qed

lemma fl_iterate_chain: "chain (next_node h) p xs \<Longrightarrow> fl_iterate h p = Some xs"
proof (induction xs arbitrary: p)
  case Nil
  then show ?case by (simp add: fl_iterate.simps [of h None])
next
  case (Cons a xs)
  then show ?case by (simp add: fl_iterate.simps [of h "Some a"])
qed

section \<open>Pushing and popping\<close>

lemma fl_push_back_ok:
  assumes ok: "fl_ok h l xs" and free: "container h a = None"
  shows "\<exists>h' l'. fl_push_back a h l = Inr ((), h', l') \<and> fl_ok h' l' (xs @ [a]) \<and>
    fl_self l' = fl_self l \<and> untouched (insert a (set xs)) h h'"
proof -
  have a: "a \<notin> set xs" using ok free by (auto simp: fl_ok_def list_all_iff)
  let ?h1 = "set_next a None (h\<lparr>container := (container h)(a := Some (fl_self l))\<rparr>)"
  have pre: "fl_validate_node a False l h = Inr ()"
    "fl_link_container a (Some (fl_self l)) h = Inr (h\<lparr>container := (container h)(a := Some (fl_self l))\<rparr>)"
    using free by (simp_all add: fl_validate_node_def fl_link_container_def)
  show ?thesis
  proof (cases "xs = []")
    case True
    let ?l = "l\<lparr>nodes_count := 1, fl_head := Some a, fl_tail := Some a\<rparr>"
    have fo: "fl_ok ?h1 ?l [a]" by (simp add: fl_ok_def)
    moreover have "fl_push_back a h l = Inr ((), ?h1, ?l)"
      using True ok pre fl_checked_ok [OF fo] by (simp add: fl_push_back_def fl_ok_def)
    ultimately show ?thesis using True by (auto simp: untouched_def)
  next
    case False
    let ?t = "last xs"
    let ?h2 = "set_next ?t (Some a) ?h1"
    let ?l = "l\<lparr>nodes_count := nodes_count l + 1, fl_tail := Some a\<rparr>"
    have t: "?t \<noteq> a" "?t \<in> set xs" using False a by auto
    have "chain ((next_node ?h1)(?t := Some a)) (fl_head l) (xs @ [a])"
      using ok False t a by (intro chain_join) (auto simp: fl_ok_def)
    then have fo: "fl_ok ?h2 ?l (xs @ [a])"
      using ok False a t by (auto simp: fl_ok_def list_all_iff)
    moreover have "fl_push_back a h l = Inr ((), ?h2, ?l)"
      using False ok pre fl_checked_ok [OF fo] by (simp add: fl_push_back_def fl_ok_def)
    ultimately show ?thesis using t by (auto simp: untouched_def)
  qed
qed

lemma fl_push_front_ok:
  assumes ok: "fl_ok h l xs" and free: "container h a = None"
  shows "\<exists>h' l'. fl_push_front a h l = Inr ((), h', l') \<and> fl_ok h' l' (a # xs) \<and>
    fl_self l' = fl_self l \<and> untouched (insert a (set xs)) h h'"
proof -
  have a: "a \<notin> set xs" using ok free by (auto simp: fl_ok_def list_all_iff)
  let ?h1 = "set_next a (fl_head l) (h\<lparr>container := (container h)(a := Some (fl_self l))\<rparr>)"
  have pre: "fl_validate_node a False l h = Inr ()"
    "fl_link_container a (Some (fl_self l)) h = Inr (h\<lparr>container := (container h)(a := Some (fl_self l))\<rparr>)"
    using free by (simp_all add: fl_validate_node_def fl_link_container_def)
  let ?l1 = "l\<lparr>nodes_count := nodes_count l + 1, fl_head := Some a\<rparr>"
  let ?l = "if xs = [] then ?l1\<lparr>fl_tail := Some a\<rparr> else ?l1"
  have fo: "fl_ok ?h1 ?l (a # xs)"
    using ok a by (auto simp: fl_ok_def list_all_iff)
  moreover have "fl_push_front a h l = Inr ((), ?h1, ?l)"
    using ok pre fl_checked_ok [OF fo]
    by (cases xs) (auto simp: fl_push_front_def fl_ok_def)
  ultimately show ?thesis by (auto simp: untouched_def)
qed

lemma fl_try_pop_front_ok:
  assumes ok: "fl_ok h l (a # xs)"
  shows "\<exists>h' l'. fl_try_pop_front h l = Inr (Some a, h', l') \<and> fl_ok h' l' xs \<and>
    fl_self l' = fl_self l \<and> container h' a = None \<and> untouched {a} h h'"
proof -
  let ?h = "unlink_container a h"
  let ?l1 = "l\<lparr>nodes_count := length xs, fl_head := next_node h a\<rparr>"
  let ?l = "if xs = [] then ?l1\<lparr>fl_tail := None\<rparr> else ?l1"
  have "distinct (a # xs)"
    using ok chain_distinct [of "next_node h" "fl_head l" "a # xs"] by (simp add: fl_ok_def)
  then have fo: "fl_ok ?h ?l xs" using ok by (auto simp: fl_ok_def list_all_iff)
  have "fl_try_pop_front h l = Inr (Some a, ?h, ?l)"
    using ok fl_checked_ok [OF fo]
    by (cases xs) (auto simp: fl_try_pop_front_def fl_ok_def Let_def)
  with fo show ?thesis by (auto simp: untouched_def)
qed

lemma fl_try_pop_empty:
  "fl_ok h l [] \<Longrightarrow> fl_try_pop_front h l = Inr (None, h, l) \<and> fl_try_pop_back h l = Some (Inr (None, h, l))"
  by (simp add: fl_ok_def fl_try_pop_front_def fl_try_pop_back_def)

lemma fl_try_pop_back_ok:
  assumes ok: "fl_ok h l (xs @ [a])" and ne: "xs \<noteq> []"
  shows "\<exists>h' l'. fl_try_pop_back h l = Some (Inr (Some a, h', l')) \<and> fl_ok h' l' xs \<and>
    fl_self l' = fl_self l \<and> container h' a = None \<and> untouched (insert a (set xs)) h h'"
proof -
  obtain b bs where xs: "xs = b # bs" using ne by (cases xs) auto
  let ?h = "set_next (last xs) None (unlink_container a h)"
  let ?l = "l\<lparr>nodes_count := length xs, fl_tail := Some (last xs)\<rparr>"
  have ch: "chain (next_node h) (fl_head l) (xs @ [a])" using ok by (simp add: fl_ok_def)
  have d: "distinct (xs @ [a])" using ch by (rule chain_distinct)
  have hd: "fl_head l = Some b" using ch xs by auto
  have "fl_last_loop h b None = Some (a, Some (last xs))"
    using fl_last_loop_chain [of h b "bs @ [a]" None] ch xs hd by (simp add: butlast_append)
  moreover have "chain ((next_node h)(last xs := None)) (fl_head l) xs"
    using ch ne by (rule chain_cut)
  then have fo: "fl_ok ?h ?l xs" using ok ne d by (auto simp: fl_ok_def list_all_iff)
  moreover have "nodes_count l = Suc (length xs)" using ok by (simp add: fl_ok_def)
  ultimately have "fl_try_pop_back h l = Some (Inr (Some a, ?h, ?l))"
    using hd fl_checked_ok [OF fo] by (simp add: fl_try_pop_back_def)
  with fo d show ?thesis by (auto simp: untouched_def last_in_set ne)
qed

text \<open>Popping the only node from the back leaves \<open>head\<close> behind.\<close>

lemma fl_try_pop_back_single:
  assumes "fl_ok h l [a]"
  shows "fl_try_pop_back h l = Some (Inl Assertion)"
    and "fl_head (l\<lparr>nodes_count := 0, fl_tail := None\<rparr>) = Some a"
proof -
  have "fl_last_loop h a None = Some (a, None)"
    using assms fl_last_loop_chain [of h a "[]" None] by (simp add: fl_ok_def)
  then show "fl_try_pop_back h l = Some (Inl Assertion)"
    using assms
    by (simp add: fl_try_pop_back_def fl_ok_def fl_checked_def fl_assert_list_is_valid_def)
  show "fl_head (l\<lparr>nodes_count := 0, fl_tail := None\<rparr>) = Some a"
    using assms by (simp add: fl_ok_def)
qed

section \<open>Whole lists\<close>

lemma fl_reset_ok [simp]: "fl_ok h (fl_reset l) []"
  by (simp add: fl_ok_def fl_reset_def)

lemma fl_reset_self [simp]: "fl_self (fl_reset l) = fl_self l"
  by (simp add: fl_reset_def)

lemma fl_unlink_all_ok:
  "fl_ok h l xs \<Longrightarrow> fl_unlink_all_nodes c l h = Some (Inr (relink xs c h))"
  by (simp add: fl_unlink_all_nodes_def fl_ok_def fl_unlink_loop_chain)

lemma relink_untouched: "untouched (set xs) h (relink xs c h)"
  by (simp add: untouched_def)

lemma fl_clear_ok:
  assumes "fl_ok h l xs"
  shows "\<exists>h' l'. fl_clear h l = Some (Inr (h', l')) \<and> fl_ok h' l' [] \<and> fl_self l' = fl_self l \<and>
    (\<forall>a\<in>set xs. container h' a = None) \<and> untouched (set xs) h h'"
proof -
  have "fl_clear h l = Some (Inr (relink xs None h, fl_reset l))"
    by (simp add: fl_clear_def fl_unlink_all_ok [OF assms] fl_checked_ok [OF fl_reset_ok])
  then show ?thesis by (simp add: relink_untouched)
qed

lemma fl_move_construct_ok:
  assumes "fl_ok h other xs"
  shows "\<exists>h' l other'. fl_move_construct self h other = Some (Inr (h', l, other')) \<and> fl_ok h' l xs \<and>
    fl_self l = self \<and> fl_ok h' other' [] \<and> untouched (set xs) h h'"
proof -
  let ?l = "other\<lparr>fl_self := self\<rparr>"
  have u: "fl_unlink_all_nodes (Some self) ?l h = Some (Inr (relink xs (Some self) h))"
    using assms by (simp add: fl_unlink_all_nodes_def fl_ok_def fl_unlink_loop_chain)
  have fo: "fl_ok (relink xs (Some self) h) ?l xs"
    using assms by (auto simp: fl_ok_def list_all_iff)
  have "fl_move_construct self h other = Some (Inr (relink xs (Some self) h, ?l, fl_reset other))"
    using u by (simp add: fl_move_construct_def fl_ok_valid [OF fo] fl_ok_valid [OF fl_reset_ok])
  with fo show ?thesis by (simp add: relink_untouched)
qed

lemma fl_move_assign_ok:
  assumes l: "fl_ok h l ys" and other: "fl_ok h other xs" and ne: "fl_self l \<noteq> fl_self other"
  shows "\<exists>h' l' other'. fl_move_assign h l other = Some (Inr (h', l', other')) \<and> fl_ok h' l' xs \<and>
    fl_self l' = fl_self l \<and> fl_ok h' other' [] \<and> (\<forall>a\<in>set ys. container h' a = None) \<and>
    untouched (set xs \<union> set ys) h h'"
proof -
  let ?h1 = "relink ys None h" and ?c = "Some (fl_self l)"
  let ?h2 = "relink xs ?c ?h1"
  let ?l = "l\<lparr>nodes_count := nodes_count other, fl_head := fl_head other, fl_tail := fl_tail other\<rparr>"
  have dis: "set ys \<inter> set xs = {}" using l other ne by (rule fl_ok_disjoint)
  have "fl_ok ?h1 other xs"
    using other dis by (intro fl_ok_untouched [OF other relink_untouched]) auto
  then have u: "fl_unlink_all_nodes ?c other ?h1 = Some (Inr ?h2)" by (rule fl_unlink_all_ok)
  have fo: "fl_ok ?h2 ?l xs" using other by (auto simp: fl_ok_def list_all_iff)
  have "fl_move_assign h l other = Some (Inr (?h2, ?l, fl_reset other))"
    using u ne by (simp add: fl_move_assign_def Let_def fl_unlink_all_ok [OF l] fl_ok_valid [OF fo]
        fl_ok_valid [OF fl_reset_ok])
  with fo dis show ?thesis by (auto simp: untouched_def)
qed

lemma fl_empty_ok: "fl_ok h l xs \<Longrightarrow> fl_empty l \<longleftrightarrow> xs = []"
  by (auto simp: fl_ok_def fl_empty_def)

lemma fl_merge_ok:
  assumes l: "fl_ok h l ys" and other: "fl_ok h other xs" and ne: "fl_self l \<noteq> fl_self other"
  shows "\<exists>h' l' other'. fl_merge_back h l other = Some (Inr (h', l', other')) \<and>
      fl_ok h' l' (ys @ xs) \<and> fl_self l' = fl_self l \<and> fl_ok h' other' [] \<and>
      untouched (set xs \<union> set ys) h h'" (is ?at_back)
    and "\<exists>h' l' other'. fl_merge_front h l other = Some (Inr (h', l', other')) \<and>
      fl_ok h' l' (xs @ ys) \<and> fl_self l' = fl_self l \<and> fl_ok h' other' [] \<and>
      untouched (set xs \<union> set ys) h h'" (is ?at_front)
proof -
  have dis: "set ys \<inter> set xs = {}" using l other ne by (rule fl_ok_disjoint)
  note e = fl_empty_ok [OF l] fl_empty_ok [OF other]
  have "?at_back \<and> ?at_front"
  proof (cases "xs = [] \<or> ys = []")
    case True
    then consider "xs = []" | "xs \<noteq> []" "ys = []" by blast
    then show ?thesis
    proof cases
      case 1
      then show ?thesis using l other e ne by (auto simp: fl_merge_back_def fl_merge_front_def)
    next
      case 2
      obtain h' l' other' where m: "fl_move_assign h l other = Some (Inr (h', l', other'))"
        "fl_ok h' l' xs" "fl_self l' = fl_self l" "fl_ok h' other' []"
        "untouched (set xs \<union> set ys) h h'"
        using fl_move_assign_ok [OF assms] by blast
      then show ?thesis
        using 2 e ne fl_ok_valid [OF m(2)] fl_ok_valid [OF m(4)]
        by (simp add: fl_merge_back_def fl_merge_front_def)
    qed
  next
    case False
    let ?h1 = "relink xs (Some (fl_self l)) h"
    have u: "fl_unlink_all_nodes (Some (fl_self l)) other h = Some (Inr ?h1)"
      using other by (rule fl_unlink_all_ok)
    have in_sets: "last ys \<in> set ys" "last xs \<in> set xs" using False by simp_all
    with dis have out: "last ys \<notin> set xs" "last xs \<notin> set ys" by blast+
    let ?hb = "set_next (last ys) (fl_head other) ?h1"
    let ?lb = "l\<lparr>nodes_count := nodes_count l + nodes_count other, fl_tail := fl_tail other\<rparr>"
    let ?hf = "set_next (last xs) (fl_head l) ?h1"
    let ?lf = "l\<lparr>nodes_count := nodes_count l + nodes_count other, fl_head := fl_head other\<rparr>"
    have "chain ((next_node h)(last ys := fl_head other)) (fl_head l) (ys @ xs)"
      using l other False out by (intro chain_join) (auto simp: fl_ok_def)
    then have fb: "fl_ok ?hb ?lb (ys @ xs)"
      using l other False by (auto simp: fl_ok_def list_all_iff)
    have "chain ((next_node h)(last xs := fl_head l)) (fl_head other) (xs @ ys)"
      using l other False out by (intro chain_join) (auto simp: fl_ok_def)
    then have ff: "fl_ok ?hf ?lf (xs @ ys)"
      using l other False by (auto simp: fl_ok_def list_all_iff)
    have tails: "fl_tail l = Some (last ys)" "fl_tail other = Some (last xs)"
      using l other False by (simp_all add: fl_ok_def)
    have "fl_merge_back h l other = Some (Inr (?hb, ?lb, fl_reset other))"
      using u tails(1) ne False e
      by (simp add: fl_merge_back_def Let_def fl_ok_valid [OF fb] fl_ok_valid [OF fl_reset_ok])
    moreover have "fl_merge_front h l other = Some (Inr (?hf, ?lf, fl_reset other))"
      using u tails(2) ne False e
      by (simp add: fl_merge_front_def Let_def fl_ok_valid [OF ff] fl_ok_valid [OF fl_reset_ok])
    moreover have "untouched (set xs \<union> set ys) h ?hb" "untouched (set xs \<union> set ys) h ?hf"
      using in_sets by (auto simp: untouched_def)
    ultimately show ?thesis using fb ff by simp
  qed
  then show ?at_back and ?at_front by simp_all
qed

lemma fl_traverse_ok:
  assumes "fl_ok h l xs"
  shows "fl_traverse h l = Some (if xs = [] then Inl Assertion else Inr xs)"
proof (cases xs)
  case Nil
  then show ?thesis
    using assms fl_empty_ok [OF assms] by (simp add: fl_traverse_def fl_front_node_def)
next
  case (Cons a as)
  then have "fl_front_node h l = Inr a"
    using assms fl_ok_valid [OF assms] fl_empty_ok [OF assms]
    by (simp add: fl_front_node_def fl_ok_def)
  moreover have "fl_iterate h (Some a) = Some xs"
    using assms Cons by (intro fl_iterate_chain) (simp add: fl_ok_def)
  ultimately show ?thesis using Cons by (simp add: fl_traverse_def)
qed

section \<open>The range constructor\<close>

lemma fl_link_range_last:
  assumes "fl_link_range c as past h = Inr h'" and "as \<noteq> []" and "distinct as"
  shows "next_node h' (last as) = Some past"
  using assms
proof (induction as arbitrary: h)
  case (Cons a as)
  show ?case
  proof (cases as)
    case Nil
    with Cons.prems show ?thesis by (auto simp: bind_res_eq_Inr fl_link_container_def)
  next
    case (Cons b bs)
    with Cons.prems obtain h1 where "fl_link_range c as past h1 = Inr h'"
      by (auto simp: bind_res_eq_Inr)
    with Cons Cons.prems Cons.IH show ?thesis by auto
  qed
qed simp

lemma fl_from_range_invalid:
  assumes "as \<noteq> []" and "distinct as" and "list_all (\<lambda>a. container h a = None) as"
  shows "fl_from_range self as past h = Inl Assertion"
proof -
  have "\<exists>h'. fl_link_range c bs past h1 = Inr h'"
    if "distinct bs" "list_all (\<lambda>a. container h1 a = None) bs" for c bs h1
    using that
  proof (induction bs arbitrary: h1)
    case (Cons b bs)
    then show ?case
      by (auto simp: fl_link_container_def list_all_iff intro!: Cons.IH)
  qed simp
  then obtain h' where h': "fl_link_range (Some self) as past h = Inr h'"
    using assms(2,3) by blast
  have "next_node h' (last as) = Some past"
    using h' assms(1,2) by (rule fl_link_range_last)
  with h' assms(1) show ?thesis
    by (simp add: fl_from_range_def fl_checked_def fl_assert_list_is_valid_def)
qed

end
