(* ===== verification/Node_Ownership.thy ===== *)
theory Node_Ownership
  imports Node_Heap
begin

text \<open>
  Which nodes a list owns. Both intrusive lists record the list a node is linked to in its
  \<open>container\<close> field; a list owns exactly the nodes it links, and the nodes linked to other lists are
  foreign to it. The one lemma here accounts for the owned and the foreign nodes across every
  operation that only touches the nodes it was given.
\<close>

definition foreign_nodes :: "node_heap \<Rightarrow> addr \<Rightarrow> addr set" where
  "foreign_nodes h self = {a. container h a \<noteq> None \<and> container h a \<noteq> Some self}"

definition owned :: "node_heap \<Rightarrow> addr \<Rightarrow> addr list \<Rightarrow> bool" where
  "owned h self xs \<longleftrightarrow> (\<forall>a. container h a = Some self \<longleftrightarrow> a \<in> set xs)"

lemma owned_free:
  "owned h self xs \<Longrightarrow> a \<notin> set xs \<Longrightarrow> a \<notin> foreign_nodes h self \<Longrightarrow> container h a = None"
  by (auto simp: owned_def foreign_nodes_def)

lemma owned_not_foreign: "owned h self xs \<Longrightarrow> set xs \<inter> foreign_nodes h self = {}"
  by (auto simp: owned_def foreign_nodes_def)

lemma owned_step:
  assumes own: "owned h self xs"
    and link: "\<And>a. a \<in> set ys \<Longrightarrow> container h' a = Some self"
    and free: "\<And>a. a \<in> S \<Longrightarrow> a \<notin> set ys \<Longrightarrow> container h' a = None"
    and S: "S \<inter> foreign_nodes h self = {}" "set xs \<subseteq> S" "set ys \<subseteq> S"
    and out: "\<And>a. a \<notin> S \<Longrightarrow> container h' a = container h a"
  shows "owned h' self ys" and "foreign_nodes h' self = foreign_nodes h self"
proof -
  have cn: "container h' a = (if a \<in> set ys then Some self else if a \<in> S then None else container h a)" for a
    using link free out S(3) by auto
  show "owned h' self ys"
    using own S(2) by (auto simp: owned_def cn)
  show "foreign_nodes h' self = foreign_nodes h self"
    using S(1) S(3) by (auto simp: foreign_nodes_def cn split: if_splits)
qed

end
