(* ===== verification/Forward_List_Client.thy ===== *)
theory Forward_List_Client
  imports Forward_List_Laws Node_Ownership Refinement
begin

text \<open>
  The contract of the singly linked list for arbitrary sequences of calls. The abstract state is
  the sequence of linked nodes and the set of nodes that are linked to some other list; a caller
  may push a node that is in neither.
\<close>

datatype fl_cmd = Fl_push_back addr | Fl_push_front addr | Fl_pop_front | Fl_pop_back | Fl_clear

fun fl_step :: "fl_cmd \<Rightarrow> fl_state \<Rightarrow> (ptr \<times> fl_state) run" where
  "fl_step (Fl_push_back a) (h, l) = Some (bind_res (fl_push_back a h l) (\<lambda>(_, s). Inr (None, s)))"
| "fl_step (Fl_push_front a) (h, l) = Some (bind_res (fl_push_front a h l) (\<lambda>(_, s). Inr (None, s)))"
| "fl_step Fl_pop_front (h, l) = Some (fl_try_pop_front h l)"
| "fl_step Fl_pop_back (h, l) = fl_try_pop_back h l"
| "fl_step Fl_clear (h, l) = bind_run (fl_clear h l) (\<lambda>s. Some (Inr (None, s)))"

fun nodes_spec :: "fl_cmd \<Rightarrow> addr list \<times> addr set \<Rightarrow> ptr \<times> (addr list \<times> addr set)" where
  "nodes_spec (Fl_push_back a) (xs, foreign) = (None, xs @ [a], foreign)"
| "nodes_spec (Fl_push_front a) (xs, foreign) = (None, a # xs, foreign)"
| "nodes_spec Fl_pop_front (xs, foreign) =
     (case xs of [] \<Rightarrow> (None, [], foreign) | x # xs' \<Rightarrow> (Some x, xs', foreign))"
| "nodes_spec Fl_pop_back (xs, foreign) =
     (if xs = [] then (None, [], foreign) else (Some (last xs), butlast xs, foreign))"
| "nodes_spec Fl_clear (xs, foreign) = (None, [], foreign)"

text \<open>\<open>try_pop_back\<close> is excluded on a list of one node, which it corrupts.\<close>

fun fl_pre :: "fl_cmd \<Rightarrow> addr list \<times> addr set \<Rightarrow> bool" where
  "fl_pre (Fl_push_back a) (xs, foreign) \<longleftrightarrow> a \<notin> set xs \<and> a \<notin> foreign"
| "fl_pre (Fl_push_front a) (xs, foreign) \<longleftrightarrow> a \<notin> set xs \<and> a \<notin> foreign"
| "fl_pre Fl_pop_back (xs, foreign) \<longleftrightarrow> length xs \<noteq> 1"
| "fl_pre c q \<longleftrightarrow> True"

definition fl_inv :: "fl_state \<Rightarrow> bool" where
  "fl_inv s \<longleftrightarrow> (\<exists>xs. fl_ok (fst s) (snd s) xs \<and> owned (fst s) (fl_self (snd s)) xs)"

definition fl_abs :: "fl_state \<Rightarrow> addr list \<times> addr set" where
  "fl_abs s = (the (fl_iterate (fst s) (fl_head (snd s))), foreign_nodes (fst s) (fl_self (snd s)))"

lemma fl_abs_ok: "fl_ok h l xs \<Longrightarrow> fl_abs (h, l) = (xs, foreign_nodes h (fl_self l))"
  using fl_iterate_chain [of h "fl_head l" xs] by (simp add: fl_abs_def fl_ok_def)

text \<open>
  One call meets the contract when it returns the specified node and leaves the specified sequence
  linked, the nodes it dropped free and all others as they were.
\<close>

definition fl_meets :: "fl_cmd \<Rightarrow> fl_state \<Rightarrow> bool" where
  "fl_meets c s \<longleftrightarrow> (\<exists>s'. fl_step c s = Some (Inr (fst (nodes_spec c (fl_abs s)), s')) \<and> fl_inv s' \<and>
     fl_abs s' = snd (nodes_spec c (fl_abs s)))"

lemma fl_meetsI:
  assumes ok: "fl_ok h l xs" and own: "owned h (fl_self l) xs"
    and step: "fl_step c (h, l) = Some (Inr (out, h', l'))"
    and ok': "fl_ok h' l' ys" and self: "fl_self l' = fl_self l"
    and free: "\<And>a. a \<in> S \<Longrightarrow> a \<notin> set ys \<Longrightarrow> container h' a = None"
    and S: "S \<inter> foreign_nodes h (fl_self l) = {}" "set xs \<subseteq> S" "set ys \<subseteq> S" "untouched S h h'"
    and spec: "nodes_spec c (xs, foreign_nodes h (fl_self l)) = (out, ys, foreign_nodes h (fl_self l))"
  shows "fl_meets c (h, l)"
proof -
  have "container h' a = Some (fl_self l)" if "a \<in> set ys" for a
    using that ok' self by (auto simp: fl_ok_def list_all_iff)
  moreover have "container h' a = container h a" if "a \<notin> S" for a
    using that S(4) by (simp add: untouched_def)
  ultimately have "owned h' (fl_self l) ys" "foreign_nodes h' (fl_self l) = foreign_nodes h (fl_self l)"
    using owned_step [OF own _ free S(1-3)] by auto
  then show ?thesis
    using step ok' self spec fl_abs_ok [OF ok] fl_abs_ok [OF ok']
    by (auto simp: fl_meets_def fl_inv_def)
qed

lemma fl_push_meets:
  assumes ok: "fl_ok h l xs" and own: "owned h (fl_self l) xs"
    and a: "a \<notin> set xs" "a \<notin> foreign_nodes h (fl_self l)"
  shows "fl_meets (Fl_push_back a) (h, l)" and "fl_meets (Fl_push_front a) (h, l)"
proof -
  note free = owned_free [OF own a] and nf = owned_not_foreign [OF own]
  obtain h' l' where r: "fl_push_back a h l = Inr ((), h', l')" "fl_ok h' l' (xs @ [a])"
      "fl_self l' = fl_self l" "untouched (insert a (set xs)) h h'"
    using fl_push_back_ok [OF ok free] by blast
  show "fl_meets (Fl_push_back a) (h, l)"
    using nf a r(1) by (intro fl_meetsI [OF ok own _ r(2,3) _ _ _ _ r(4)]) auto
  obtain h' l' where r: "fl_push_front a h l = Inr ((), h', l')" "fl_ok h' l' (a # xs)"
      "fl_self l' = fl_self l" "untouched (insert a (set xs)) h h'"
    using fl_push_front_ok [OF ok free] by blast
  show "fl_meets (Fl_push_front a) (h, l)"
    using nf a r(1) by (intro fl_meetsI [OF ok own _ r(2,3) _ _ _ _ r(4)]) auto
qed

lemma fl_pop_front_meets:
  assumes ok: "fl_ok h l xs" and own: "owned h (fl_self l) xs"
  shows "fl_meets Fl_pop_front (h, l)"
proof (cases xs)
  case Nil
  then show ?thesis
    using fl_try_pop_empty [of h l] ok by (intro fl_meetsI [OF ok own, of _ _ _ _ "[]" "{}"]) auto
next
  case (Cons a as)
  obtain h' l' where r: "fl_try_pop_front h l = Inr (Some a, h', l')" "fl_ok h' l' as"
    "fl_self l' = fl_self l" "container h' a = None" "untouched {a} h h'"
    using fl_try_pop_front_ok ok Cons by blast
  have "untouched (set xs) h h'" using r(5) Cons by (simp add: untouched_def)
  with owned_not_foreign [OF own] r(1,4) Cons show ?thesis
    by (intro fl_meetsI [OF ok own _ r(2,3), of _ _ "set xs"]) auto
qed

lemma fl_pop_back_meets:
  assumes ok: "fl_ok h l xs" and own: "owned h (fl_self l) xs" and ne: "length xs \<noteq> 1"
  shows "fl_meets Fl_pop_back (h, l)"
proof (cases xs rule: rev_cases)
  case Nil
  then show ?thesis
    using fl_try_pop_empty [of h l] ok by (intro fl_meetsI [OF ok own, of _ _ _ _ "[]" "{}"]) auto
next
  case (snoc as a)
  then have "as \<noteq> []" using ne by auto
  then obtain h' l' where r: "fl_try_pop_back h l = Some (Inr (Some a, h', l'))"
    "fl_ok h' l' as" "fl_self l' = fl_self l" "container h' a = None"
    "untouched (insert a (set as)) h h'"
    using fl_try_pop_back_ok ok snoc by blast
  with owned_not_foreign [OF own] snoc show ?thesis
    by (intro fl_meetsI [OF ok own _ r(2,3) _ _ _ _ r(5)]) auto
qed

lemma fl_clear_meets:
  assumes ok: "fl_ok h l xs" and own: "owned h (fl_self l) xs"
  shows "fl_meets Fl_clear (h, l)"
proof -
  obtain h' l' where r: "fl_clear h l = Some (Inr (h', l'))" "fl_ok h' l' []"
    "fl_self l' = fl_self l" "\<forall>a\<in>set xs. container h' a = None" "untouched (set xs) h h'"
    using fl_clear_ok [OF ok] by blast
  with owned_not_foreign [OF own] show ?thesis
    by (intro fl_meetsI [OF ok own _ r(2,3) _ _ _ _ r(5)]) auto
qed

lemma fl_step_refines:
  assumes "fl_inv s" and "fl_pre c (fl_abs s)"
  shows "fl_meets c s"
proof -
  obtain h l xs where s: "s = (h, l)" and ok: "fl_ok h l xs" "owned h (fl_self l) xs"
    using assms(1) by (cases s) (auto simp: fl_inv_def)
  then show ?thesis
    using assms(2) fl_push_meets [OF ok] fl_pop_front_meets [OF ok] fl_pop_back_meets [OF ok]
      fl_clear_meets [OF ok]
    by (cases c) (auto simp: fl_abs_ok)
qed

interpretation flq: data_refinement fl_inv fl_abs fl_pre fl_step nodes_spec
  by unfold_locales (rule fl_step_refines [unfolded fl_meets_def])

lemma fl_new_inv:
  assumes "\<And>a. container h a \<noteq> Some self"
  shows "fl_inv (h, fl_new self)" and "fl_abs (h, fl_new self) = ([], foreign_nodes h self)"
proof -
  have ok: "fl_ok h (fl_new self) []" by (simp add: fl_ok_def fl_new_def)
  then show "fl_inv (h, fl_new self)" using assms by (auto simp: fl_inv_def owned_def fl_new_def)
  show "fl_abs (h, fl_new self) = ([], foreign_nodes h self)"
    using fl_abs_ok [OF ok] by (simp add: fl_new_def)
qed

end
