(* ===== verification/Double_List.thy ===== *)
theory Double_List
  imports Forward_List_Laws
begin

text \<open>
  The model of \<open>rad::stack_list_base\<close> and \<open>rad::stack_list<T>\<close> (\<open>src/include/rad/stack_list.h\<close>), the
  doubly linked intrusive list, over the same store of nodes and in the debug build. Predicates on
  elements are predicates on node addresses.
\<close>

section \<open>State and debug checks\<close>

record double_list =
  dl_self :: addr
  dl_count :: nat
  dl_head :: ptr
  dl_tail :: ptr

type_synonym dl_state = "node_heap \<times> double_list"

definition dl_link_container :: "addr \<Rightarrow> ptr \<Rightarrow> node_heap \<Rightarrow> node_heap res" where
  "dl_link_container a c h =
     bind_res (ensure (c = None \<or> container h a \<noteq> c) Assertion) (\<lambda>_.
     bind_res (ensure (container h a = None) Assertion) (\<lambda>_.
       Inr (h\<lparr>container := (container h)(a := c)\<rparr>)))"

definition dl_validate_node :: "ptr \<Rightarrow> bool \<Rightarrow> double_list \<Rightarrow> node_heap \<Rightarrow> addr res" where
  "dl_validate_node node should_exist l h =
     (case node of None \<Rightarrow> Inl Assertion
      | Some a \<Rightarrow>
        (let node_exists = (container h a = Some (dl_self l)) in
         bind_res (ensure (node_exists = should_exist) Assertion) (\<lambda>_. Inr a)))"

partial_function (option) dl_unlink_loop :: "ptr \<Rightarrow> ptr \<Rightarrow> node_heap \<Rightarrow> node_heap res option" where
  "dl_unlink_loop first new_list h =
     (case first of None \<Rightarrow> Some (Inr h)
      | Some a \<Rightarrow>
        (case dl_link_container a new_list (unlink_container a h) of Inl e \<Rightarrow> Some (Inl e)
         | Inr h1 \<Rightarrow> dl_unlink_loop (next_node h1 a) new_list h1))"

definition dl_unlink_all_nodes :: "ptr \<Rightarrow> double_list \<Rightarrow> node_heap \<Rightarrow> node_heap run" where
  "dl_unlink_all_nodes new_list l h = dl_unlink_loop (dl_head l) new_list h"

definition dl_assert_list_is_valid :: "double_list \<Rightarrow> node_heap \<Rightarrow> unit res" where
  "dl_assert_list_is_valid l h =
     (if dl_count l = 0 then ensure (dl_head l = None \<and> dl_tail l = None) Assertion
      else bind_res (ensure (dl_head l \<noteq> None \<and> dl_tail l \<noteq> None) Assertion) (\<lambda>_.
        bind_res (deref (dl_tail l)) (\<lambda>t.
        bind_res (ensure (next_node h t = None) Assertion) (\<lambda>_.
        bind_res (deref (dl_head l)) (\<lambda>hd_node.
        bind_res (ensure (prev_node h hd_node = None) Assertion) (\<lambda>_.
        if dl_count l = 1 then ensure (dl_head l = dl_tail l) Assertion
        else ensure (dl_head l \<noteq> dl_tail l) Assertion))))))"

definition dl_checked :: "'r \<Rightarrow> node_heap \<Rightarrow> double_list \<Rightarrow> ('r \<times> dl_state) res" where
  "dl_checked r h l = bind_res (dl_assert_list_is_valid l h) (\<lambda>_. Inr (r, h, l))"

section \<open>Whole lists\<close>

definition dl_new :: "addr \<Rightarrow> double_list" where
  "dl_new self = \<lparr>dl_self = self, dl_count = 0, dl_head = None, dl_tail = None\<rparr>"

definition dl_empty :: "double_list \<Rightarrow> bool" where
  "dl_empty l \<longleftrightarrow> dl_count l = 0"

definition dl_reset :: "double_list \<Rightarrow> double_list" where
  "dl_reset l = l\<lparr>dl_count := 0, dl_head := None, dl_tail := None\<rparr>"

definition dl_clear :: "node_heap \<Rightarrow> double_list \<Rightarrow> dl_state run" where
  "dl_clear h l =
     bind_run (dl_unlink_all_nodes None l h) (\<lambda>h1.
       Some (bind_res (dl_checked () h1 (dl_reset l)) (\<lambda>(_, s). Inr s)))"

definition dl_both_valid ::
    "node_heap \<Rightarrow> double_list \<Rightarrow> double_list \<Rightarrow> (node_heap \<times> double_list \<times> double_list) res" where
  "dl_both_valid h l other =
     bind_res (dl_assert_list_is_valid other h) (\<lambda>_.
     bind_res (dl_assert_list_is_valid l h) (\<lambda>_. Inr (h, l, other)))"

definition dl_move_construct ::
    "addr \<Rightarrow> node_heap \<Rightarrow> double_list \<Rightarrow> (node_heap \<times> double_list \<times> double_list) run" where
  "dl_move_construct self h other =
     (let l = other\<lparr>dl_self := self\<rparr> in
      bind_run (dl_unlink_all_nodes (Some self) l h) (\<lambda>h1.
        Some (dl_both_valid h1 l (dl_reset other))))"

definition dl_move_assign ::
    "node_heap \<Rightarrow> double_list \<Rightarrow> double_list \<Rightarrow> (node_heap \<times> double_list \<times> double_list) run" where
  "dl_move_assign h l other =
     (if dl_self l = dl_self other then Some (Inr (h, l, other))
      else
        bind_run (dl_unlink_all_nodes None l h) (\<lambda>h1.
        bind_run (dl_unlink_all_nodes (Some (dl_self l)) other h1) (\<lambda>h2.
          Some (dl_both_valid h2
            (l\<lparr>dl_count := dl_count other, dl_head := dl_head other, dl_tail := dl_tail other\<rparr>)
            (dl_reset other)))))"

definition dl_merge_back ::
    "node_heap \<Rightarrow> double_list \<Rightarrow> double_list \<Rightarrow> (node_heap \<times> double_list \<times> double_list) run" where
  "dl_merge_back h l other =
     (if dl_self l = dl_self other then Some (Inr (h, l, other))
      else if dl_empty other then Some (Inr (h, l, other))
      else if dl_empty l then
        bind_run (dl_move_assign h l other) (\<lambda>(h1, l1, other1). Some (dl_both_valid h1 l1 other1))
      else
        bind_run (dl_unlink_all_nodes (Some (dl_self l)) other h) (\<lambda>h1.
          Some (bind_res (deref (dl_tail l)) (\<lambda>t.
            bind_res (deref (dl_head other)) (\<lambda>oh.
              dl_both_valid (set_previous oh (dl_tail l) (set_next t (dl_head other) h1))
                (l\<lparr>dl_count := dl_count l + dl_count other, dl_tail := dl_tail other\<rparr>)
                (dl_reset other))))))"

definition dl_merge_front ::
    "node_heap \<Rightarrow> double_list \<Rightarrow> double_list \<Rightarrow> (node_heap \<times> double_list \<times> double_list) run" where
  "dl_merge_front h l other =
     (if dl_self l = dl_self other then Some (Inr (h, l, other))
      else if dl_empty other then Some (Inr (h, l, other))
      else if dl_empty l then
        bind_run (dl_move_assign h l other) (\<lambda>(h1, l1, other1). Some (dl_both_valid h1 l1 other1))
      else
        bind_run (dl_unlink_all_nodes (Some (dl_self l)) other h) (\<lambda>h1.
          Some (bind_res (deref (dl_tail other)) (\<lambda>ot.
            bind_res (deref (dl_head l)) (\<lambda>hd_node.
              dl_both_valid (set_previous hd_node (dl_tail other) (set_next ot (dl_head l) h1))
                (l\<lparr>dl_count := dl_count l + dl_count other, dl_head := dl_head other\<rparr>)
                (dl_reset other))))))"

section \<open>Single nodes\<close>

definition dl_push_front :: "addr \<Rightarrow> node_heap \<Rightarrow> double_list \<Rightarrow> (unit \<times> dl_state) res" where
  "dl_push_front node h l =
     bind_res (dl_validate_node (Some node) False l h) (\<lambda>_.
     bind_res (dl_link_container node (Some (dl_self l)) h) (\<lambda>h1.
       let l1 = l\<lparr>dl_count := dl_count l + 1\<rparr>;
           h2 = set_previous node None h1
       in if dl_count l1 = 1 then
            dl_checked () (set_next node None h2) (l1\<lparr>dl_head := Some node, dl_tail := Some node\<rparr>)
          else bind_res (deref (dl_head l1)) (\<lambda>hd_node.
            dl_checked () (set_previous hd_node (Some node) (set_next node (dl_head l1) h2))
              (l1\<lparr>dl_head := Some node\<rparr>))))"

definition dl_push_back :: "addr \<Rightarrow> node_heap \<Rightarrow> double_list \<Rightarrow> (unit \<times> dl_state) res" where
  "dl_push_back node h l =
     bind_res (dl_validate_node (Some node) False l h) (\<lambda>_.
     bind_res (dl_link_container node (Some (dl_self l)) h) (\<lambda>h1.
       let l1 = l\<lparr>dl_count := dl_count l + 1\<rparr>
       in if dl_count l1 = 1 then
            dl_checked () (set_next node None (set_previous node None h1))
              (l1\<lparr>dl_head := Some node, dl_tail := Some node\<rparr>)
          else bind_res (deref (dl_tail l1)) (\<lambda>t.
            dl_checked ()
              (set_next node None (set_previous node (dl_tail l1) (set_next t (Some node) h1)))
              (l1\<lparr>dl_tail := Some node\<rparr>))))"

definition dl_push_after :: "ptr \<Rightarrow> addr \<Rightarrow> node_heap \<Rightarrow> double_list \<Rightarrow> (unit \<times> dl_state) res" where
  "dl_push_after prev node h l =
     (if prev = None then dl_push_back node h l
      else
        bind_res (dl_validate_node prev True l h) (\<lambda>p.
        bind_res (dl_validate_node (Some node) False l h) (\<lambda>_.
        bind_res (dl_link_container node (Some (dl_self l)) h) (\<lambda>h1.
          let l1 = l\<lparr>dl_count := dl_count l + 1\<rparr>;
              nxt = next_node h1 p;
              h2 = set_next node nxt (set_previous node (Some p) (set_next p (Some node) h1))
          in case nxt of
               Some n \<Rightarrow> dl_checked () (set_previous n (Some node) h2) l1
             | None \<Rightarrow> dl_checked () h2 (l1\<lparr>dl_tail := Some node\<rparr>)))))"

definition dl_push_before :: "ptr \<Rightarrow> addr \<Rightarrow> node_heap \<Rightarrow> double_list \<Rightarrow> (unit \<times> dl_state) res" where
  "dl_push_before nxt node h l =
     bind_res (dl_validate_node nxt True l h) (\<lambda>n.
     bind_res (dl_validate_node (Some node) False l h) (\<lambda>_.
     bind_res (dl_link_container node (Some (dl_self l)) h) (\<lambda>h1.
       let l1 = l\<lparr>dl_count := dl_count l + 1\<rparr>;
           prev = prev_node h1 n;
           (h2, l2) = (case prev of Some p \<Rightarrow> (set_next p (Some node) h1, l1)
                       | None \<Rightarrow> (h1, l1\<lparr>dl_head := Some node\<rparr>));
           h3 = set_previous n (Some node) (set_next node nxt (set_previous node prev h2))
       in dl_checked () h3 l2)))"

definition dl_try_pop_front :: "node_heap \<Rightarrow> double_list \<Rightarrow> (ptr \<times> dl_state) res" where
  "dl_try_pop_front h l =
     (if dl_count l = 0 then Inr (None, h, l)
      else
        let l1 = l\<lparr>dl_count := dl_count l - 1\<rparr> in
        bind_res (deref (dl_head l1)) (\<lambda>node.
          let h1 = unlink_container node h;
              l2 = l1\<lparr>dl_head := next_node h1 node\<rparr>;
              (h2, l3) = (case dl_head l2 of None \<Rightarrow> (h1, l2\<lparr>dl_tail := None\<rparr>)
                          | Some hd_node \<Rightarrow> (set_previous hd_node None h1, l2))
          in dl_checked (Some node) (set_next node None h2) l3))"

definition dl_try_pop_back :: "node_heap \<Rightarrow> double_list \<Rightarrow> (ptr \<times> dl_state) res" where
  "dl_try_pop_back h l =
     (if dl_count l = 0 then Inr (None, h, l)
      else
        let l1 = l\<lparr>dl_count := dl_count l - 1\<rparr> in
        bind_res (deref (dl_tail l1)) (\<lambda>node.
          let h1 = unlink_container node h;
              l2 = l1\<lparr>dl_tail := prev_node h1 node\<rparr>;
              (h2, l3) = (case dl_tail l2 of None \<Rightarrow> (h1, l2\<lparr>dl_head := None\<rparr>)
                          | Some t \<Rightarrow> (set_next t None h1, l2))
          in dl_checked (Some node) (set_previous node None h2) l3))"

definition dl_erase :: "ptr \<Rightarrow> node_heap \<Rightarrow> double_list \<Rightarrow> (ptr \<times> dl_state) res" where
  "dl_erase node h l =
     bind_res (dl_validate_node node True l h) (\<lambda>a.
       if node = dl_head l then
         bind_res (dl_try_pop_front h l) (\<lambda>(_, h1, l1). Inr (dl_head l1, h1, l1))
       else if node = dl_tail l then
         bind_res (dl_try_pop_back h l) (\<lambda>(_, s). Inr (None, s))
       else
         let h1 = unlink_container a h in
         bind_res (deref (prev_node h1 a)) (\<lambda>p.
         bind_res (deref (next_node h1 a)) (\<lambda>n.
           dl_checked (Some n) (set_previous n (Some p) (set_next p (Some n) h1))
             (l\<lparr>dl_count := dl_count l - 1\<rparr>))))"

section \<open>Ranges and loops\<close>

text \<open>
  \<open>insert_back_nodes\<close>: the range is the list of its node addresses; the loop stops before the last
  node, so that one is never linked to the container.
\<close>

fun dl_link_range :: "ptr \<Rightarrow> addr list \<Rightarrow> node_heap \<Rightarrow> node_heap res" where
  "dl_link_range self (a # b # as) h =
     bind_res (dl_link_container a self h) (\<lambda>h1.
       dl_link_range self (b # as) (set_previous b (Some a) (set_next a (Some b) h1)))"
| "dl_link_range self as h = Inr h"

definition dl_insert_back_nodes :: "addr list \<Rightarrow> node_heap \<Rightarrow> double_list \<Rightarrow> (unit \<times> dl_state) res" where
  "dl_insert_back_nodes as h l =
     (if as = [] then Inr ((), h, l)
      else
        let first = hd as; lst = last as;
            (h1, l1) = (case dl_tail l of
                Some t \<Rightarrow> (set_next t (Some first) h, l)
              | None \<Rightarrow> (h, l\<lparr>dl_head := Some first\<rparr>));
            h2 = set_next lst None (set_previous first (dl_tail l) h1);
            l2 = l1\<lparr>dl_tail := Some lst, dl_count := dl_count l + length as\<rparr>
        in bind_res (dl_link_range (Some (dl_self l)) as h2) (\<lambda>h3. dl_checked () h3 l2))"

partial_function (option) dl_find_loop :: "(addr \<Rightarrow> bool) \<Rightarrow> node_heap \<Rightarrow> ptr \<Rightarrow> ptr option" where
  "dl_find_loop pred h node =
     (case node of None \<Rightarrow> Some None
      | Some a \<Rightarrow> if pred a then Some (Some a) else dl_find_loop pred h (next_node h a))"

definition dl_find :: "(addr \<Rightarrow> bool) \<Rightarrow> node_heap \<Rightarrow> double_list \<Rightarrow> ptr option" where
  "dl_find pred h l = dl_find_loop pred h (dl_head l)"

definition dl_contains :: "(addr \<Rightarrow> bool) \<Rightarrow> node_heap \<Rightarrow> double_list \<Rightarrow> bool option" where
  "dl_contains pred h l = map_option (\<lambda>it. it \<noteq> None) (dl_find pred h l)"

partial_function (option) dl_remove_loop ::
    "(addr \<Rightarrow> bool) \<Rightarrow> ptr \<Rightarrow> nat \<Rightarrow> node_heap \<Rightarrow> double_list \<Rightarrow> (nat \<times> dl_state) res option" where
  "dl_remove_loop pred node removed_count h l =
     (case node of None \<Rightarrow> Some (Inr (removed_count, h, l))
      | Some a \<Rightarrow>
        if pred a then
          (case dl_erase node h l of Inl e \<Rightarrow> Some (Inl e)
           | Inr r \<Rightarrow> dl_remove_loop pred (fst r) (removed_count + 1) (fst (snd r)) (snd (snd r)))
        else dl_remove_loop pred (next_node h a) removed_count h l)"

definition dl_remove_if :: "(addr \<Rightarrow> bool) \<Rightarrow> node_heap \<Rightarrow> double_list \<Rightarrow> (nat \<times> dl_state) run" where
  "dl_remove_if pred h l = dl_remove_loop pred (dl_head l) 0 h l"

section \<open>Iterators\<close>

text \<open>An iterator is its \<open>node_ptr\<close>; \<open>tail_ptr\<close> is the tail the list had when it was made.\<close>

definition dl_it_incr :: "node_heap \<Rightarrow> ptr \<Rightarrow> ptr res" where
  "dl_it_incr h it = (case it of None \<Rightarrow> Inl Assertion | Some a \<Rightarrow> Inr (next_node h a))"

definition dl_it_decr :: "node_heap \<Rightarrow> double_list \<Rightarrow> ptr \<Rightarrow> ptr \<Rightarrow> ptr res" where
  "dl_it_decr h l tail_ptr it =
     bind_res (ensure (\<not> dl_empty l \<and> it \<noteq> dl_head l) Assertion) (\<lambda>_.
       case it of None \<Rightarrow> Inr tail_ptr | Some a \<Rightarrow> Inr (prev_node h a))"

end
