(* ===== verification/Double_List_Laws.thy ===== *)
theory Double_List_Laws
  imports Double_List
begin

text \<open>
  The doubly linked list represents a list of nodes in both directions (\<open>dl_ok\<close>). Insertion and
  removal anywhere in the list are instances of two facts about doubly linked chains,
  \<open>dchain_insert\<close> and \<open>dchain_remove\<close>.
\<close>

section \<open>Representation\<close>

definition dl_ok :: "node_heap \<Rightarrow> double_list \<Rightarrow> addr list \<Rightarrow> bool" where
  "dl_ok h l xs \<longleftrightarrow>
     dchain (next_node h) (prev_node h) (dl_head l) (dl_tail l) xs \<and> dl_count l = length xs \<and>
     list_all (\<lambda>a. container h a = Some (dl_self l)) xs"

lemma dl_okD:
  assumes "dl_ok h l xs"
  shows "distinct xs" "dl_head l = hdp xs" "dl_tail l = hdp (rev xs)" "dl_count l = length xs"
    "\<And>a. a \<in> set xs \<Longrightarrow> container h a = Some (dl_self l)"
  using assms dchain_distinct dchain_ends by (auto simp: dl_ok_def list_all_iff)

lemma dl_ok_untouched:
  assumes "dl_ok h l xs" and "untouched S h h'" and "set xs \<inter> S = {}"
  shows "dl_ok h' l xs"
proof -
  have same: "next_node h' a = next_node h a \<and> prev_node h' a = prev_node h a \<and>
      container h' a = container h a" if "a \<in> set xs" for a
    using assms(2,3) that by (auto simp: untouched_def)
  have "dchain (next_node h') (prev_node h') (dl_head l) (dl_tail l) xs
      \<longleftrightarrow> dchain (next_node h) (prev_node h) (dl_head l) (dl_tail l) xs"
    using same by (intro dchain_cong) simp
  with assms(1) same show ?thesis by (auto simp: dl_ok_def list_all_iff)
qed

lemma dl_ok_disjoint:
  assumes "dl_ok h l xs" and "dl_ok h m ys" and "dl_self l \<noteq> dl_self m"
  shows "set xs \<inter> set ys = {}"
  using assms by (auto simp: dl_ok_def list_all_iff)

lemma dl_ok_valid:
  assumes "dl_ok h l xs"
  shows "dl_assert_list_is_valid l h = Inr ()"
proof (cases xs)
  case Nil
  with dl_okD [OF assms] show ?thesis by (simp add: dl_assert_list_is_valid_def)
next
  case (Cons a as)
  have c: "chain (next_node h) (dl_head l) xs" "chain (prev_node h) (dl_tail l) (rev xs)"
    using assms by (simp_all add: dl_ok_def dchain_def)
  have "next_node h (last xs) = None" using chain_last_next [OF c(1)] Cons by simp
  moreover have "prev_node h a = None" using chain_last_next [OF c(2)] Cons by simp
  moreover have "length xs = 1 \<longleftrightarrow> a = last xs"
    using Cons dl_okD(1) [OF assms] last_neq_head by (cases as) auto
  moreover have "dl_tail l = Some (last xs)" "dl_head l = Some a"
    unfolding dl_okD(2,3) [OF assms] hdp_rev using Cons by simp_all
  moreover have "dl_count l \<noteq> 0" "dl_count l = length xs" using dl_okD(4) [OF assms] Cons by simp_all
  ultimately show ?thesis
    by (auto simp: dl_assert_list_is_valid_def)
qed

lemma dl_checked_ok: "dl_ok h l xs \<Longrightarrow> dl_checked r h l = Inr (r, h, l)"
  by (simp add: dl_checked_def dl_ok_valid)

lemma dl_both_valid_ok: "dl_ok h l xs \<Longrightarrow> dl_ok h m ys \<Longrightarrow> dl_both_valid h l m = Inr (h, l, m)"
  by (simp add: dl_both_valid_def dl_ok_valid)

lemma dl_link_free:
  "container h a = None \<Longrightarrow> c \<noteq> None \<Longrightarrow>
     dl_link_container a c h = Inr (h\<lparr>container := (container h)(a := c)\<rparr>)"
  by (auto simp: dl_link_container_def)

lemma dl_validate_simps [simp]:
  "container h a \<noteq> Some (dl_self l) \<Longrightarrow> dl_validate_node (Some a) False l h = Inr a"
  "container h a = Some (dl_self l) \<Longrightarrow> dl_validate_node (Some a) True l h = Inr a"
  "container h a \<noteq> Some (dl_self l) \<Longrightarrow> dl_validate_node (Some a) True l h = Inl Assertion"
  by (simp_all add: dl_validate_node_def)

section \<open>Inserting one node\<close>

text \<open>What inserting the free node \<open>a\<close> between \<open>us\<close> and \<open>vs\<close> has to leave behind.\<close>

definition inserted :: "addr \<Rightarrow> addr list \<Rightarrow> addr list \<Rightarrow> node_heap \<Rightarrow> double_list \<Rightarrow>
    (unit \<times> dl_state) res \<Rightarrow> bool" where
  "inserted a us vs h l r \<longleftrightarrow>
     (\<exists>h' l'. r = Inr ((), h', l') \<and> dl_ok h' l' (us @ a # vs) \<and> dl_self l' = dl_self l \<and>
        untouched (insert a (set (us @ vs))) h h')"

lemma insertedI:
  assumes ok: "dl_ok h l (us @ vs)" and free: "container h a = None"
    and r: "r = dl_checked () h' l'"
    and nx: "next_node h' = splice us (Some a) ((next_node h)(a := hdp vs))"
    and pv: "prev_node h' = splice (rev vs) (Some a) ((prev_node h)(a := hdp (rev us)))"
    and cn: "container h' = (container h)(a := Some (dl_self l))"
    and l': "dl_self l' = dl_self l" "dl_count l' = dl_count l + 1"
      "dl_head l' = (if us = [] then Some a else dl_head l)"
      "dl_tail l' = (if vs = [] then Some a else dl_tail l)"
  shows "inserted a us vs h l r"
proof -
  have a: "a \<notin> set (us @ vs)" using dl_okD(5) [OF ok] free by fastforce
  have "dchain (next_node h') (prev_node h') (dl_head l') (dl_tail l') (us @ a # vs)"
    unfolding nx pv l' using ok a by (intro dchain_insert) (auto simp: dl_ok_def)
  then have fo: "dl_ok h' l' (us @ a # vs)"
    using dl_okD [OF ok] a l' cn by (auto simp: dl_ok_def list_all_iff)
  have "untouched (insert a (set (us @ vs))) h h'"
    using nx pv cn by (auto simp: untouched_def splice_def last_rev)
  then show ?thesis
    using fo r l' by (auto simp: inserted_def dl_checked_ok)
qed

lemma splice_simps:
  "splice [] p f = f" "us \<noteq> [] \<Longrightarrow> splice us p f = f(last us := p)"
  by (simp_all add: splice_def)

lemma dl_push_front_ok:
  assumes ok: "dl_ok h l xs" and free: "container h a = None"
  shows "inserted a [] xs h l (dl_push_front a h l)"
proof -
  have a: "a \<notin> set xs" using dl_okD(5) [OF ok] free by fastforce
  let ?h1 = "h\<lparr>container := (container h)(a := Some (dl_self l))\<rparr>"
  note D = dl_okD [OF ok]
  show ?thesis
  proof (cases xs)
    case Nil
    show ?thesis
      by (rule insertedI [where h' = "set_next a None (set_previous a None ?h1)" and
            l' = "l\<lparr>dl_count := dl_count l + 1, dl_head := Some a, dl_tail := Some a\<rparr>"])
        (use ok free Nil D in \<open>auto simp: dl_push_front_def dl_link_free splice_simps\<close>)
  next
    case (Cons b bs)
    show ?thesis
      by (rule insertedI [where h' = "set_previous b (Some a) (set_next a (Some b) (set_previous a None ?h1))"
            and l' = "l\<lparr>dl_count := dl_count l + 1, dl_head := Some a\<rparr>"])
        (use ok free Cons D a in \<open>auto simp: dl_push_front_def dl_link_free splice_simps last_rev\<close>)
  qed
qed

lemma dl_push_back_ok:
  assumes ok: "dl_ok h l xs" and free: "container h a = None"
  shows "inserted a xs [] h l (dl_push_back a h l)"
proof -
  have a: "a \<notin> set xs" using dl_okD(5) [OF ok] free by fastforce
  let ?h1 = "h\<lparr>container := (container h)(a := Some (dl_self l))\<rparr>"
  note D = dl_okD [OF ok]
  show ?thesis
  proof (cases xs rule: rev_cases)
    case Nil
    show ?thesis
      by (rule insertedI [where h' = "set_next a None (set_previous a None ?h1)" and
            l' = "l\<lparr>dl_count := dl_count l + 1, dl_head := Some a, dl_tail := Some a\<rparr>"])
        (use ok free Nil D in \<open>auto simp: dl_push_back_def dl_link_free splice_simps\<close>)
  next
    case (snoc bs b)
    show ?thesis
      by (rule insertedI [where h' = "set_next a None (set_previous a (Some b) (set_next b (Some a) ?h1))"
            and l' = "l\<lparr>dl_count := dl_count l + 1, dl_tail := Some a\<rparr>"])
        (use ok free snoc D a in \<open>auto simp: dl_push_back_def dl_link_free splice_simps\<close>)
  qed
qed

lemma dl_ok_next:
  assumes "dl_ok h l (us @ p # vs)"
  shows "next_node h p = hdp vs" "prev_node h p = hdp (rev us)"
    "container h p = Some (dl_self l)"
  using dchain_remove(2,3) [of "next_node h" "prev_node h" "dl_head l" "dl_tail l" us p vs] assms
    dl_okD(5) [OF assms] by (auto simp: dl_ok_def)

lemma dl_push_after_ok:
  assumes ok: "dl_ok h l (us @ p # vs)" and free: "container h a = None"
  shows "inserted a (us @ [p]) vs h l (dl_push_after (Some p) a h l)"
proof -
  have a: "a \<notin> set (us @ p # vs)" using dl_okD(5) [OF ok] free by fastforce
  have ok': "dl_ok h l ((us @ [p]) @ vs)" using ok by simp
  let ?h1 = "h\<lparr>container := (container h)(a := Some (dl_self l))\<rparr>"
  let ?h2 = "set_next a (hdp vs) (set_previous a (Some p) (set_next p (Some a) ?h1))"
  note D = dl_okD [OF ok] and N = dl_ok_next [OF ok]
  show ?thesis
  proof (cases vs)
    case Nil
    show ?thesis
      by (rule insertedI [OF ok' free, where h' = ?h2 and
            l' = "l\<lparr>dl_count := dl_count l + 1, dl_tail := Some a\<rparr>"])
        (use free Nil D N a in \<open>auto simp: dl_push_after_def dl_link_free splice_simps\<close>)
  next
    case (Cons b bs)
    show ?thesis
      by (rule insertedI [OF ok' free, where h' = "set_previous b (Some a) ?h2" and
            l' = "l\<lparr>dl_count := dl_count l + 1\<rparr>"])
        (use free Cons D N a in \<open>auto simp: dl_push_after_def dl_link_free splice_simps last_rev\<close>)
  qed
qed

lemma dl_push_before_ok:
  assumes ok: "dl_ok h l (us @ n # vs)" and free: "container h a = None"
  shows "inserted a us (n # vs) h l (dl_push_before (Some n) a h l)"
proof -
  have a: "a \<notin> set (us @ n # vs)" using dl_okD(5) [OF ok] free by fastforce
  let ?h1 = "h\<lparr>container := (container h)(a := Some (dl_self l))\<rparr>"
  let ?fin = "\<lambda>q h. set_previous n (Some a) (set_next a (Some n) (set_previous a q h))"
  note D = dl_okD [OF ok] and N = dl_ok_next [OF ok]
  show ?thesis
  proof (cases us rule: rev_cases)
    case Nil
    show ?thesis
      by (rule insertedI [OF ok free, where h' = "?fin None ?h1" and
            l' = "l\<lparr>dl_count := dl_count l + 1, dl_head := Some a\<rparr>"])
        (use free Nil D N a in \<open>auto simp: dl_push_before_def dl_link_free splice_simps last_rev\<close>)
  next
    case (snoc bs b)
    show ?thesis
      by (rule insertedI [OF ok free, where h' = "?fin (Some b) (set_next b (Some a) ?h1)" and
            l' = "l\<lparr>dl_count := dl_count l + 1\<rparr>"])
        (use free snoc D N a in \<open>auto simp: dl_push_before_def dl_link_free splice_simps last_rev\<close>)
  qed
qed

section \<open>Removing one node\<close>

definition removed :: "addr \<Rightarrow> addr list \<Rightarrow> addr list \<Rightarrow> node_heap \<Rightarrow> double_list \<Rightarrow> ptr \<Rightarrow>
    (ptr \<times> dl_state) res \<Rightarrow> bool" where
  "removed a us vs h l out r \<longleftrightarrow>
     (\<exists>h' l'. r = Inr (out, h', l') \<and> dl_ok h' l' (us @ vs) \<and> dl_self l' = dl_self l \<and>
        container h' a = None \<and> untouched (insert a (set (us @ vs))) h h')"

lemma removedI:
  assumes ok: "dl_ok h l (us @ a # vs)"
    and r: "r = dl_checked out h' l'"
    and nx: "\<And>b. b \<noteq> a \<Longrightarrow> next_node h' b = splice us (hdp vs) (next_node h) b"
    and pv: "\<And>b. b \<noteq> a \<Longrightarrow> prev_node h' b = splice (rev vs) (hdp (rev us)) (prev_node h) b"
    and cn: "container h' = (container h)(a := None)"
    and l': "dl_self l' = dl_self l" "dl_count l' = dl_count l - 1"
      "dl_head l' = (if us = [] then hdp vs else dl_head l)"
      "dl_tail l' = (if vs = [] then hdp (rev us) else dl_tail l)"
  shows "removed a us vs h l out r"
proof -
  have d: "distinct (us @ a # vs)" by (rule dl_okD(1) [OF ok])
  have "dchain (splice us (hdp vs) (next_node h)) (splice (rev vs) (hdp (rev us)) (prev_node h))
      (dl_head l') (dl_tail l') (us @ vs)"
    unfolding l' using ok by (intro dchain_remove(1) [where a = a]) (simp add: dl_ok_def)
  moreover have "dchain (next_node h') (prev_node h') (dl_head l') (dl_tail l') (us @ vs)
      = dchain (splice us (hdp vs) (next_node h)) (splice (rev vs) (hdp (rev us)) (prev_node h))
          (dl_head l') (dl_tail l') (us @ vs)"
  proof (rule dchain_cong)
    fix b assume "b \<in> set (us @ vs)"
    then have "b \<noteq> a" using d by auto
    then show "next_node h' b = splice us (hdp vs) (next_node h) b \<and>
        prev_node h' b = splice (rev vs) (hdp (rev us)) (prev_node h) b"
      using nx pv by simp
  qed
  ultimately have fo: "dl_ok h' l' (us @ vs)"
    using dl_okD [OF ok] d l' cn by (auto simp: dl_ok_def list_all_iff)
  have "untouched (insert a (set (us @ vs))) h h'"
    using nx pv cn by (auto simp: untouched_def splice_def last_rev)
  then show ?thesis
    using fo r l' cn by (auto simp: removed_def dl_checked_ok)
qed

lemma dl_try_pop_front_ok:
  assumes ok: "dl_ok h l (a # xs)"
  shows "removed a [] xs h l (Some a) (dl_try_pop_front h l)"
proof -
  have ok': "dl_ok h l ([] @ a # xs)" using ok by simp
  note D = dl_okD [OF ok] and N = dl_ok_next [OF ok']
  let ?h1 = "unlink_container a h"
  show ?thesis
  proof (cases xs)
    case Nil
    show ?thesis
      by (rule removedI [OF ok', where h' = "set_next a None ?h1" and
            l' = "l\<lparr>dl_count := dl_count l - 1, dl_head := None, dl_tail := None\<rparr>"])
        (use Nil D N in \<open>auto simp: dl_try_pop_front_def splice_simps\<close>)
  next
    case (Cons b bs)
    show ?thesis
      by (rule removedI [OF ok', where h' = "set_next a None (set_previous b None ?h1)" and
            l' = "l\<lparr>dl_count := dl_count l - 1, dl_head := Some b\<rparr>"])
        (use Cons D N in \<open>auto simp: dl_try_pop_front_def splice_simps last_rev\<close>)
  qed
qed

lemma dl_try_pop_back_ok:
  assumes ok: "dl_ok h l (xs @ [a])"
  shows "removed a xs [] h l (Some a) (dl_try_pop_back h l)"
proof -
  note D = dl_okD [OF ok] and N = dl_ok_next [OF ok]
  let ?h1 = "unlink_container a h"
  show ?thesis
  proof (cases xs rule: rev_cases)
    case Nil
    show ?thesis
      by (rule removedI [OF ok, where h' = "set_previous a None ?h1" and
            l' = "l\<lparr>dl_count := dl_count l - 1, dl_tail := None, dl_head := None\<rparr>"])
        (use Nil D N in \<open>auto simp: dl_try_pop_back_def splice_simps\<close>)
  next
    case (snoc bs b)
    show ?thesis
      by (rule removedI [OF ok, where h' = "set_previous a None (set_next b None ?h1)" and
            l' = "l\<lparr>dl_count := dl_count l - 1, dl_tail := Some b\<rparr>"])
        (use snoc D N in \<open>auto simp: dl_try_pop_back_def splice_simps\<close>)
  qed
qed

lemma dl_erase_middle:
  assumes ok: "dl_ok h l (us @ a # vs)" and ne: "us \<noteq> []" "vs \<noteq> []"
  shows "removed a us vs h l (hdp vs) (dl_erase (Some a) h l)"
proof -
  note D = dl_okD [OF ok] and N = dl_ok_next [OF ok]
  obtain u us' where us: "us = us' @ [u]" using ne(1) by (cases us rule: rev_cases) auto
  obtain v vs' where vs: "vs = v # vs'" using ne(2) by (cases vs) auto
  have ends: "dl_head l \<noteq> Some a" "dl_tail l \<noteq> Some a"
    using D(1-3) us vs hdp_notin [of a us] hdp_notin [of a "rev vs"] by auto
  show ?thesis
    by (rule removedI [OF ok, where h' = "set_previous v (Some u) (set_next u (Some v) (unlink_container a h))"
          and l' = "l\<lparr>dl_count := dl_count l - 1\<rparr>"])
      (use us vs D(1,4) N ends in \<open>auto simp: dl_erase_def splice_simps last_rev\<close>)
qed

lemma removed_bind:
  assumes "removed a us vs h l out r"
    and "\<And>h' l'. dl_ok h' l' (us @ vs) \<Longrightarrow> f (out, h', l') = Inr (out', h', l')"
  shows "removed a us vs h l out' (bind_res r f)"
  using assms by (auto simp: removed_def)

lemma dl_erase_ok:
  assumes ok: "dl_ok h l (us @ a # vs)"
  shows "removed a us vs h l (hdp vs) (dl_erase (Some a) h l)"
proof -
  note D = dl_okD [OF ok] and N = dl_ok_next [OF ok]
  consider "us = []" | "us \<noteq> []" "vs = []" | "us \<noteq> []" "vs \<noteq> []" by blast
  then show ?thesis
  proof cases
    case 1
    then have "removed a us vs h l (hdp vs)
        (bind_res (dl_try_pop_front h l) (\<lambda>(_, h1, l1). Inr (dl_head l1, h1, l1)))"
      using dl_try_pop_front_ok [of h l a vs] ok dl_okD(2) by (intro removed_bind) auto
    then show ?thesis using 1 D N by (simp add: dl_erase_def)
  next
    case 2
    then have "dl_head l \<noteq> Some a" "dl_tail l = Some a"
      using D(1-3) hdp_notin [of a us] by auto
    moreover have "removed a us vs h l (hdp vs) (bind_res (dl_try_pop_back h l) (\<lambda>(_, s). Inr (None, s)))"
      using 2 dl_try_pop_back_ok [of h l us a] ok by (intro removed_bind) auto
    ultimately show ?thesis using N by (simp add: dl_erase_def)
  next
    case 3
    then show ?thesis by (rule dl_erase_middle [OF ok])
  qed
qed

lemma dl_pop_empty:
  "dl_ok h l [] \<Longrightarrow> dl_try_pop_front h l = Inr (None, h, l) \<and> dl_try_pop_back h l = Inr (None, h, l)"
  by (simp add: dl_ok_def dl_try_pop_front_def dl_try_pop_back_def)

section \<open>Whole lists\<close>

lemma dl_unlink_loop_chain:
  assumes "chain (next_node h) p xs"
  shows "dl_unlink_loop p c h = Some (Inr (relink xs c h))"
  using assms
proof (induction xs arbitrary: p h)
  case Nil
  then show ?case by (simp add: dl_unlink_loop.simps [of None] relink_def)
next
  case (Cons a xs)
  let ?h1 = "h\<lparr>container := (container h)(a := c)\<rparr>"
  have link: "dl_link_container a c (unlink_container a h) = Inr ?h1"
    by (cases c) (simp_all add: dl_link_container_def unlink_container_def)
  have "dl_unlink_loop (next_node ?h1 a) c ?h1 = Some (Inr (relink xs c ?h1))"
    using Cons.prems by (intro Cons.IH) simp
  moreover have "relink xs c ?h1 = relink (a # xs) c h"
    by (auto simp: relink_def fun_eq_iff intro!: node_heap.equality)
  ultimately show ?case
    using Cons.prems link by (simp add: dl_unlink_loop.simps [of "Some a"])
qed

lemma dl_unlink_all_ok:
  "dl_ok h l xs \<Longrightarrow> dl_unlink_all_nodes c l h = Some (Inr (relink xs c h))"
  by (simp add: dl_unlink_all_nodes_def dl_ok_def dchain_def dl_unlink_loop_chain)

lemma dl_reset_ok [simp]: "dl_ok h (dl_reset l) []" "dl_self (dl_reset l) = dl_self l"
  by (simp_all add: dl_ok_def dl_reset_def dchain_def)

lemma dl_ok_relink:
  assumes "dl_ok h l xs" and "dl_head m = dl_head l" "dl_tail m = dl_tail l" "dl_count m = dl_count l"
  shows "dl_ok (relink xs (Some (dl_self m)) h) m xs"
  using assms by (auto simp: dl_ok_def list_all_iff)

lemma dl_clear_ok:
  assumes "dl_ok h l xs"
  shows "dl_clear h l = Some (Inr (relink xs None h, dl_reset l))"
  by (simp add: dl_clear_def dl_unlink_all_ok [OF assms] dl_checked_ok [OF dl_reset_ok(1)])

lemma dl_move_construct_ok:
  assumes "dl_ok h other xs"
  shows "dl_move_construct self h other
      = Some (Inr (relink xs (Some self) h, other\<lparr>dl_self := self\<rparr>, dl_reset other))"
    and "dl_ok (relink xs (Some self) h) (other\<lparr>dl_self := self\<rparr>) xs"
proof -
  have u: "dl_unlink_all_nodes (Some self) (other\<lparr>dl_self := self\<rparr>) h
      = Some (Inr (relink xs (Some self) h))"
    using assms by (simp add: dl_unlink_all_nodes_def dl_ok_def dchain_def dl_unlink_loop_chain)
  show ok: "dl_ok (relink xs (Some self) h) (other\<lparr>dl_self := self\<rparr>) xs"
    using dl_ok_relink [OF assms, of "other\<lparr>dl_self := self\<rparr>"] by simp
  show "dl_move_construct self h other
      = Some (Inr (relink xs (Some self) h, other\<lparr>dl_self := self\<rparr>, dl_reset other))"
    by (simp add: dl_move_construct_def u dl_both_valid_ok [OF ok dl_reset_ok(1)])
qed

lemma dl_move_assign_ok:
  assumes l: "dl_ok h l ys" and other: "dl_ok h other xs" and ne: "dl_self l \<noteq> dl_self other"
  shows "\<exists>h' l' other'. dl_move_assign h l other = Some (Inr (h', l', other')) \<and> dl_ok h' l' xs \<and>
    dl_self l' = dl_self l \<and> dl_ok h' other' [] \<and> (\<forall>a\<in>set ys. container h' a = None) \<and>
    untouched (set xs \<union> set ys) h h'"
proof -
  let ?h1 = "relink ys None h" and ?c = "Some (dl_self l)"
  let ?l = "l\<lparr>dl_count := dl_count other, dl_head := dl_head other, dl_tail := dl_tail other\<rparr>"
  have dis: "set ys \<inter> set xs = {}" using l other ne by (rule dl_ok_disjoint)
  have o1: "dl_ok ?h1 other xs"
    using dis by (intro dl_ok_untouched [OF other relink_untouched]) auto
  have ok: "dl_ok (relink xs ?c ?h1) ?l xs"
    using dl_ok_relink [OF o1, of ?l] by simp
  have "dl_move_assign h l other = Some (Inr (relink xs ?c ?h1, ?l, dl_reset other))"
    using ne by (simp add: dl_move_assign_def dl_unlink_all_ok [OF l] dl_unlink_all_ok [OF o1]
        dl_both_valid_ok [OF ok dl_reset_ok(1)])
  moreover have "untouched (set xs \<union> set ys) h (relink xs ?c ?h1)" by (simp add: untouched_def)
  moreover have "\<forall>a\<in>set ys. container (relink xs ?c ?h1) a = None" using dis by auto
  ultimately show ?thesis using ok by auto
qed

lemma dl_empty_ok: "dl_ok h l xs \<Longrightarrow> dl_empty l \<longleftrightarrow> xs = []"
  by (auto simp: dl_ok_def dl_empty_def)

lemma dl_merge_join:
  assumes l: "dl_ok h l ys" and other: "dl_ok h other xs" and dis: "set ys \<inter> set xs = {}"
    and ne: "xs \<noteq> []" "ys \<noteq> []"
  defines "h1 \<equiv> relink xs (Some (dl_self l)) h"
  shows "dl_ok (set_previous (hd xs) (dl_tail l) (set_next (last ys) (dl_head other) h1))
      (l\<lparr>dl_count := dl_count l + dl_count other, dl_tail := dl_tail other\<rparr>) (ys @ xs)"
    and "dl_ok (set_previous (hd ys) (dl_tail other) (set_next (last xs) (dl_head l) h1))
      (l\<lparr>dl_count := dl_count l + dl_count other, dl_head := dl_head other\<rparr>) (xs @ ys)"
proof -
  have c: "dchain (next_node h) (prev_node h) (dl_head l) (dl_tail l) ys"
    "dchain (next_node h) (prev_node h) (dl_head other) (dl_tail other) xs"
    using l other by (simp_all add: dl_ok_def)
  have cont: "list_all (\<lambda>a. container h1 a = Some (dl_self l)) (ys @ xs)"
    using l other by (auto simp: h1_def dl_ok_def list_all_iff)
  have dis': "set xs \<inter> set ys = {}" using dis by blast
  show "dl_ok (set_previous (hd xs) (dl_tail l) (set_next (last ys) (dl_head other) h1))
      (l\<lparr>dl_count := dl_count l + dl_count other, dl_tail := dl_tail other\<rparr>) (ys @ xs)"
    using dchain_join [OF c ne(2,1) dis] cont dl_okD(4) [OF l] dl_okD(4) [OF other]
    by (simp add: dl_ok_def h1_def)
  show "dl_ok (set_previous (hd ys) (dl_tail other) (set_next (last xs) (dl_head l) h1))
      (l\<lparr>dl_count := dl_count l + dl_count other, dl_head := dl_head other\<rparr>) (xs @ ys)"
    using dchain_join [OF c(2,1) ne dis'] cont dl_okD(4) [OF l] dl_okD(4) [OF other]
    by (simp add: dl_ok_def h1_def)
qed

lemma dl_merge_ok:
  assumes l: "dl_ok h l ys" and other: "dl_ok h other xs" and ne: "dl_self l \<noteq> dl_self other"
  shows "\<exists>h' l' other'. dl_merge_back h l other = Some (Inr (h', l', other')) \<and>
      dl_ok h' l' (ys @ xs) \<and> dl_self l' = dl_self l \<and> dl_ok h' other' []"
    and "\<exists>h' l' other'. dl_merge_front h l other = Some (Inr (h', l', other')) \<and>
      dl_ok h' l' (xs @ ys) \<and> dl_self l' = dl_self l \<and> dl_ok h' other' []"
proof -
  note e = dl_empty_ok [OF l] dl_empty_ok [OF other]
  consider "xs = []" | "xs \<noteq> []" "ys = []" | "xs \<noteq> []" "ys \<noteq> []" by blast
  then have "(\<exists>h' l' other'. dl_merge_back h l other = Some (Inr (h', l', other')) \<and>
      dl_ok h' l' (ys @ xs) \<and> dl_self l' = dl_self l \<and> dl_ok h' other' []) \<and>
    (\<exists>h' l' other'. dl_merge_front h l other = Some (Inr (h', l', other')) \<and>
      dl_ok h' l' (xs @ ys) \<and> dl_self l' = dl_self l \<and> dl_ok h' other' [])"
  proof cases
    case 1
    then show ?thesis using l other e ne by (simp add: dl_merge_back_def dl_merge_front_def)
  next
    case 2
    obtain h' l' other' where m: "dl_move_assign h l other = Some (Inr (h', l', other'))"
      "dl_ok h' l' xs" "dl_self l' = dl_self l" "dl_ok h' other' []"
      using dl_move_assign_ok [OF assms] by blast
    then show ?thesis
      using 2 e ne
      by (simp add: dl_merge_back_def dl_merge_front_def dl_both_valid_ok [OF m(2,4)])
  next
    case 3
    have dis: "set ys \<inter> set xs = {}" using l other ne by (rule dl_ok_disjoint)
    note j = dl_merge_join [OF l other dis 3]
    have ends: "dl_tail l = Some (last ys)" "dl_tail other = Some (last xs)"
      "dl_head l = Some (hd ys)" "dl_head other = Some (hd xs)"
      using 3 dl_okD(2,3) [OF l] dl_okD(2,3) [OF other]
      by (simp_all add: hdp_rev) (simp_all add: hdp_def split: list.splits)
    show ?thesis
      using 3 e ne ends dl_both_valid_ok [OF j(1) dl_reset_ok(1)] dl_both_valid_ok [OF j(2) dl_reset_ok(1)] j
      by (auto simp: dl_merge_back_def dl_merge_front_def dl_unlink_all_ok [OF other])
  qed
  then show "\<exists>h' l' other'. dl_merge_back h l other = Some (Inr (h', l', other')) \<and>
      dl_ok h' l' (ys @ xs) \<and> dl_self l' = dl_self l \<and> dl_ok h' other' []"
    and "\<exists>h' l' other'. dl_merge_front h l other = Some (Inr (h', l', other')) \<and>
      dl_ok h' l' (xs @ ys) \<and> dl_self l' = dl_self l \<and> dl_ok h' other' []"
    by simp_all
qed

section \<open>Searching and filtering\<close>

lemma dl_find_loop_chain:
  "chain (next_node h) p xs \<Longrightarrow> dl_find_loop pred h p = Some (hdp (dropWhile (\<lambda>a. \<not> pred a) xs))"
proof (induction xs arbitrary: p)
  case Nil
  then show ?case by (simp add: dl_find_loop.simps [of pred h None])
next
  case (Cons a xs)
  then show ?case by (simp add: dl_find_loop.simps [of pred h "Some a"])
qed

lemma dl_find_ok:
  assumes "dl_ok h l xs"
  shows "dl_find pred h l = Some (find pred xs)"
    and "dl_contains pred h l = Some (\<exists>a\<in>set xs. pred a)"
proof -
  have "hdp (dropWhile (\<lambda>a. \<not> pred a) ys) = find pred ys" for ys
    by (induction ys) auto
  then show f: "dl_find pred h l = Some (find pred xs)"
    using assms dl_find_loop_chain [of h "dl_head l" xs pred]
    by (simp add: dl_find_def dl_ok_def dchain_def)
  show "dl_contains pred h l = Some (\<exists>a\<in>set xs. pred a)"
    using f find_None_iff [of pred xs] by (auto simp: dl_contains_def)
qed

lemma dl_remove_loop_ok:
  assumes "dl_ok h l (us @ vs)"
  shows "\<exists>h' l'. dl_remove_loop pred (hdp vs) k h l
      = Some (Inr (k + length (filter pred vs), h', l')) \<and>
    dl_ok h' l' (us @ filter (\<lambda>a. \<not> pred a) vs) \<and> dl_self l' = dl_self l"
  using assms
proof (induction vs arbitrary: us k h l)
  case Nil
  then show ?case by (simp add: dl_remove_loop.simps [of pred None])
next
  case (Cons a vs)
  show ?case
  proof (cases "pred a")
    case True
    from dl_erase_ok [OF Cons.prems] obtain h1 l1 where e: "dl_erase (Some a) h l = Inr (hdp vs, h1, l1)"
      "dl_ok h1 l1 (us @ vs)" "dl_self l1 = dl_self l"
      by (auto simp: removed_def)
    from Cons.IH [OF e(2), of "k + 1"] show ?thesis
      using True e by (auto simp: dl_remove_loop.simps [of pred "Some a"])
  next
    case False
    have n: "next_node h a = hdp vs" by (rule dl_ok_next(1) [OF Cons.prems])
    have "dl_ok h l ((us @ [a]) @ vs)" using Cons.prems by simp
    from Cons.IH [OF this, of k] show ?thesis
      using False n by (auto simp: dl_remove_loop.simps [of pred "Some a"])
  qed
qed

lemma dl_remove_if_ok:
  assumes "dl_ok h l xs"
  shows "\<exists>h' l'. dl_remove_if pred h l = Some (Inr (length (filter pred xs), h', l')) \<and>
    dl_ok h' l' (filter (\<lambda>a. \<not> pred a) xs) \<and> dl_self l' = dl_self l"
  using dl_remove_loop_ok [of h l "[]" xs pred 0] assms dl_okD(2) [OF assms]
  by (simp add: dl_remove_if_def)

section \<open>Inserting a range of nodes\<close>

text \<open>The nodes of the range end up linked in order, but the last one is in no container.\<close>

lemma dl_link_range_chain:
  assumes "distinct as" and "as \<noteq> []" and "list_all (\<lambda>a. container h a = None) as"
    and "next_node h (last as) = None"
  shows "\<exists>h'. dl_link_range (Some c) as h = Inr h' \<and>
     chain (next_node h') (Some (hd as)) as \<and>
     lseg (prev_node h') (Some (last as)) (rev as) (prev_node h (hd as)) \<and>
     (\<forall>a. container h' a = (if a \<in> set (butlast as) then Some c else container h a)) \<and>
     (\<forall>a. a \<notin> set as \<longrightarrow> next_node h' a = next_node h a \<and> prev_node h' a = prev_node h a) \<and>
     prev_node h' (hd as) = prev_node h (hd as)"
  using assms
proof (induction as arbitrary: h)
  case (Cons a as)
  show ?case
  proof (cases as)
    case Nil
    with Cons.prems show ?thesis by simp
  next
    case as: (Cons b bs)
    let ?h1 = "set_previous b (Some a) (set_next a (Some b) (h\<lparr>container := (container h)(a := Some c)\<rparr>))"
    have pre: "distinct as" "as \<noteq> []" "list_all (\<lambda>x. container ?h1 x = None) as"
      "next_node ?h1 (last as) = None"
      using Cons.prems as by (auto simp: list_all_iff)
    obtain h' where h': "dl_link_range (Some c) as ?h1 = Inr h'"
      "chain (next_node h') (Some b) as"
      "lseg (prev_node h') (Some (last as)) (rev as) (Some a)"
      "\<forall>x. container h' x = (if x \<in> set (butlast as) then Some c else container ?h1 x)"
      "\<forall>x. x \<notin> set as \<longrightarrow> next_node h' x = next_node ?h1 x \<and> prev_node h' x = prev_node ?h1 x"
      using Cons.IH [OF pre] as by auto
    have a: "a \<notin> set as" "a \<noteq> b" using Cons.prems as by auto
    have link: "dl_link_range (Some c) (a # as) h = Inr h'"
      using h'(1) Cons.prems as by (simp add: dl_link_free)
    have hp: "next_node h' a = Some b" "prev_node h' a = prev_node h a"
      using h'(5) a by auto
    show ?thesis
      using link h' hp a as by (intro exI [of _ h']) auto
  qed
qed simp

lemma single_iff_hd_last:
  "distinct zs \<Longrightarrow> zs \<noteq> [] \<Longrightarrow> length zs = 1 \<longleftrightarrow> hd zs = last zs"
proof (cases zs rule: remdups_adj.cases)
  case (3 a b zs')
  moreover assume "distinct zs"
  ultimately show ?thesis using last_neq_head [of a b zs'] by force
qed simp_all

lemma dl_insert_back_last_unlinked:
  assumes ok: "dl_ok h l xs" and as: "as \<noteq> []" "distinct as" "list_all (\<lambda>a. container h a = None) as"
  shows "\<exists>h' l'. dl_insert_back_nodes as h l = Inr ((), h', l') \<and>
    chain (next_node h') (dl_head l') (xs @ as) \<and> dl_count l' = length (xs @ as) \<and>
    container h' (last as) = None \<and> dl_erase (Some (last as)) h' l' = Inl Assertion"
proof -
  note D = dl_okD [OF ok]
  have dis: "set xs \<inter> set as = {}" using D(5) as(3) by (fastforce simp: list_all_iff)
  define h1 where "h1 = (if xs = [] then h else set_next (last xs) (Some (hd as)) h)"
  define h2 where "h2 = set_next (last as) None (set_previous (hd as) (dl_tail l) h1)"
  define l2 where "l2 = l\<lparr>dl_head := (if xs = [] then Some (hd as) else dl_head l),
    dl_tail := Some (last as), dl_count := dl_count l + length as\<rparr>"
  have pre: "list_all (\<lambda>a. container h2 a = None) as" "next_node h2 (last as) = None"
    using as(3) by (simp_all add: h2_def h1_def)
  obtain h' where h': "dl_link_range (Some (dl_self l)) as h2 = Inr h'"
    "chain (next_node h') (Some (hd as)) as"
    "\<forall>a. container h' a = (if a \<in> set (butlast as) then Some (dl_self l) else container h2 a)"
    "\<forall>a. a \<notin> set as \<longrightarrow> next_node h' a = next_node h2 a \<and> prev_node h' a = prev_node h2 a"
    "prev_node h' (hd as) = prev_node h2 (hd as)"
    using dl_link_range_chain [OF as(2,1) pre, of "dl_self l"] by blast
  have tail: "dl_tail l = (if xs = [] then None else Some (last xs))"
    using D(3) by (simp add: hdp_rev)
  have l_in: "last xs \<in> set xs" if "xs \<noteq> []" using that by simp
  have out: "a \<noteq> last as" if "a \<in> set xs" for a using that dis as(1) last_in_set by blast
  have nx: "next_node h' a = (if a = last xs then Some (hd as) else next_node h a)" if "a \<in> set xs" for a
  proof -
    have "a \<notin> set as" "xs \<noteq> []" using that dis by auto
    then show ?thesis using h'(4) out [OF that] by (auto simp: h2_def h1_def)
  qed
  have ch: "chain (next_node h') (dl_head l2) (xs @ as)"
  proof (cases "xs = []")
    case True
    then show ?thesis using h'(2) by (simp add: l2_def)
  next
    case False
    have "chain (next_node h) (dl_head l) (xs @ [])" using ok by (simp add: dl_ok_def dchain_def)
    from lseg_redirect [OF this, of "Some (hd as)"] False
    have "lseg ((next_node h)(last xs := Some (hd as))) (dl_head l) xs (Some (hd as))"
      by (simp add: splice_def)
    moreover have "lseg (next_node h') (dl_head l) xs (Some (hd as))
        = lseg ((next_node h)(last xs := Some (hd as))) (dl_head l) xs (Some (hd as))"
      using nx by (intro lseg_cong) simp
    ultimately show ?thesis using h'(2) False by (auto simp: l2_def)
  qed
  have d: "distinct (xs @ as)" using D(1) as(2) dis by simp
  have valid: "dl_assert_list_is_valid l2 h' = Inr ()"
  proof -
    have t: "next_node h' (last as) = None" using chain_last_next [OF ch] as(1) by simp
    have hd0: "dl_head l2 = Some (hd (xs @ as))"
      using D(2) by (cases xs) (auto simp: l2_def)
    have p: "prev_node h' (hd (xs @ as)) = None"
    proof (cases xs)
      case Nil
      then show ?thesis using h'(5) tail by (simp add: h2_def)
    next
      case (Cons x xs')
      then have "x \<notin> set as" using dis by auto
      moreover have "prev_node h x = None"
        using dl_ok_next(2) [of h l "[]" x xs'] ok Cons by simp
      moreover have "x \<noteq> hd as" using calculation(1) as(1) by auto
      ultimately show ?thesis using h'(4) Cons by (simp add: h2_def h1_def)
    qed
    have "length (xs @ as) = 1 \<longleftrightarrow> hd (xs @ as) = last as"
      using single_iff_hd_last [OF d] as(1) by simp
    with t hd0 p as(1) D(4) show ?thesis
      by (auto simp: dl_assert_list_is_valid_def l2_def)
  qed
  have "dl_insert_back_nodes as h l = bind_res (dl_link_range (Some (dl_self l)) as h2)
      (\<lambda>h3. dl_checked () h3 l2)"
    using as(1) tail by (cases l) (auto simp: dl_insert_back_nodes_def h2_def h1_def l2_def Let_def)
  then have "dl_insert_back_nodes as h l = Inr ((), h', l2)"
    using h'(1) valid by (simp add: dl_checked_def)
  moreover have c: "container h' (last as) = None"
  proof -
    have "last as \<notin> set (butlast as)"
      using as(1,2) by (metis append_butlast_last_id distinct.simps(2) distinct_append disjoint_insert(1) list.set(2))
    then show ?thesis using h'(3) as(1,3) by (simp add: h2_def h1_def list_all_iff)
  qed
  moreover have "dl_erase (Some (last as)) h' l2 = Inl Assertion"
    using c by (simp add: dl_erase_def)
  ultimately show ?thesis using ch D(4) by (auto simp: l2_def)
qed

section \<open>Iterators\<close>

text \<open>Stepping forward and backward are inverse between neighbours; \<open>--end()\<close> is the last node.\<close>

lemma dl_iterator_steps:
  assumes "dl_ok h l (us @ p # q # vs)"
  shows "dl_it_incr h (Some p) = Inr (Some q)" "dl_it_decr h l (dl_tail l) (Some q) = Inr (Some p)"
    "dl_it_decr h l (dl_tail l) None = Inr (Some (last (q # vs)))"
proof -
  note D = dl_okD [OF assms] and N = dl_ok_next [OF assms]
    dl_ok_next [of h l "us @ [p]" q vs]
  have "dl_head l \<noteq> Some q" using D(1,2) by (cases us) auto
  then show "dl_it_decr h l (dl_tail l) (Some q) = Inr (Some p)"
    using N assms dl_empty_ok [OF assms] by (auto simp: dl_it_decr_def)
  show "dl_it_incr h (Some p) = Inr (Some q)" using N by (simp add: dl_it_incr_def)
  show "dl_it_decr h l (dl_tail l) None = Inr (Some (last (q # vs)))"
    using D(2,3) dl_empty_ok [OF assms] by (cases us) (auto simp: dl_it_decr_def hdp_rev)
qed

end
