(* ===== verification/Double_List_Client.thy ===== *)
theory Double_List_Client
  imports Double_List_Laws Node_Ownership Refinement
begin

text \<open>
  The contract of the doubly linked list for arbitrary sequences of calls, insertion and removal at
  any position included. The abstract state is the sequence of linked nodes and the set of
  nodes linked to other lists.
\<close>

datatype dl_cmd =
    Dl_push_front addr | Dl_push_back addr | Dl_push_after addr addr | Dl_push_before addr addr
  | Dl_pop_front | Dl_pop_back | Dl_erase addr | Dl_clear

fun dl_step :: "dl_cmd \<Rightarrow> dl_state \<Rightarrow> (ptr \<times> dl_state) run" where
  "dl_step (Dl_push_front a) (h, l) = Some (bind_res (dl_push_front a h l) (\<lambda>(_, s). Inr (None, s)))"
| "dl_step (Dl_push_back a) (h, l) = Some (bind_res (dl_push_back a h l) (\<lambda>(_, s). Inr (None, s)))"
| "dl_step (Dl_push_after p a) (h, l) =
     Some (bind_res (dl_push_after (Some p) a h l) (\<lambda>(_, s). Inr (None, s)))"
| "dl_step (Dl_push_before n a) (h, l) =
     Some (bind_res (dl_push_before (Some n) a h l) (\<lambda>(_, s). Inr (None, s)))"
| "dl_step Dl_pop_front (h, l) = Some (dl_try_pop_front h l)"
| "dl_step Dl_pop_back (h, l) = Some (dl_try_pop_back h l)"
| "dl_step (Dl_erase a) (h, l) = Some (dl_erase (Some a) h l)"
| "dl_step Dl_clear (h, l) = bind_run (dl_clear h l) (\<lambda>s. Some (Inr (None, s)))"

definition before_node :: "addr \<Rightarrow> addr list \<Rightarrow> addr list" where
  "before_node p xs = takeWhile (\<lambda>a. a \<noteq> p) xs"

definition after_node :: "addr \<Rightarrow> addr list \<Rightarrow> addr list" where
  "after_node p xs = tl (dropWhile (\<lambda>a. a \<noteq> p) xs)"

fun dnodes_spec :: "dl_cmd \<Rightarrow> addr list \<times> addr set \<Rightarrow> ptr \<times> (addr list \<times> addr set)" where
  "dnodes_spec (Dl_push_front a) (xs, foreign) = (None, a # xs, foreign)"
| "dnodes_spec (Dl_push_back a) (xs, foreign) = (None, xs @ [a], foreign)"
| "dnodes_spec (Dl_push_after p a) (xs, foreign) =
     (None, before_node p xs @ p # a # after_node p xs, foreign)"
| "dnodes_spec (Dl_push_before n a) (xs, foreign) =
     (None, before_node n xs @ a # n # after_node n xs, foreign)"
| "dnodes_spec Dl_pop_front (xs, foreign) = (hdp xs, tl xs, foreign)"
| "dnodes_spec Dl_pop_back (xs, foreign) = (hdp (rev xs), butlast xs, foreign)"
| "dnodes_spec (Dl_erase a) (xs, foreign) =
     (hdp (after_node a xs), before_node a xs @ after_node a xs, foreign)"
| "dnodes_spec Dl_clear (xs, foreign) = (None, [], foreign)"

fun dl_pre :: "dl_cmd \<Rightarrow> addr list \<times> addr set \<Rightarrow> bool" where
  "dl_pre (Dl_push_front a) (xs, foreign) \<longleftrightarrow> a \<notin> set xs \<and> a \<notin> foreign"
| "dl_pre (Dl_push_back a) (xs, foreign) \<longleftrightarrow> a \<notin> set xs \<and> a \<notin> foreign"
| "dl_pre (Dl_push_after p a) (xs, foreign) \<longleftrightarrow> p \<in> set xs \<and> a \<notin> set xs \<and> a \<notin> foreign"
| "dl_pre (Dl_push_before n a) (xs, foreign) \<longleftrightarrow> n \<in> set xs \<and> a \<notin> set xs \<and> a \<notin> foreign"
| "dl_pre (Dl_erase a) (xs, foreign) \<longleftrightarrow> a \<in> set xs"
| "dl_pre c q \<longleftrightarrow> True"

definition dl_inv :: "dl_state \<Rightarrow> bool" where
  "dl_inv s \<longleftrightarrow> (\<exists>xs. dl_ok (fst s) (snd s) xs \<and> owned (fst s) (dl_self (snd s)) xs)"

text \<open>The linked nodes, read from the store along the \<open>next\<close> pointers.\<close>

definition dl_abs :: "dl_state \<Rightarrow> addr list \<times> addr set" where
  "dl_abs s = (the (fl_iterate (fst s) (dl_head (snd s))), foreign_nodes (fst s) (dl_self (snd s)))"

lemma dl_abs_ok: "dl_ok h l xs \<Longrightarrow> dl_abs (h, l) = (xs, foreign_nodes h (dl_self l))"
  using fl_iterate_chain [of h "dl_head l" xs] by (simp add: dl_abs_def dl_ok_def dchain_def)

lemma around_node:
  assumes "dl_ok h l xs" and "p \<in> set xs"
  obtains us vs where "xs = us @ p # vs" "before_node p xs = us" "after_node p xs = vs"
proof -
  obtain us vs where xs: "xs = us @ p # vs" using assms(2) by (meson split_list)
  moreover have "p \<notin> set us" using dl_okD(1) [OF assms(1)] xs by simp
  then have "\<forall>a\<in>set us. a \<noteq> p" by auto
  then have "takeWhile (\<lambda>a. a \<noteq> p) xs = us" "dropWhile (\<lambda>a. a \<noteq> p) xs = p # vs"
    using xs by (simp_all add: takeWhile_append2 dropWhile_append2)
  ultimately show thesis using that by (simp add: before_node_def after_node_def)
qed

section \<open>One call\<close>

definition dl_meets :: "dl_cmd \<Rightarrow> dl_state \<Rightarrow> bool" where
  "dl_meets c s \<longleftrightarrow> (\<exists>s'. dl_step c s = Some (Inr (fst (dnodes_spec c (dl_abs s)), s')) \<and> dl_inv s' \<and>
     dl_abs s' = snd (dnodes_spec c (dl_abs s)))"

lemma dl_meetsI:
  assumes ok: "dl_ok h l xs" and own: "owned h (dl_self l) xs"
    and step: "dl_step c (h, l) = Some (Inr (out, h', l'))"
    and ok': "dl_ok h' l' ys" and self: "dl_self l' = dl_self l"
    and free: "\<And>a. a \<in> S \<Longrightarrow> a \<notin> set ys \<Longrightarrow> container h' a = None"
    and S: "S \<inter> foreign_nodes h (dl_self l) = {}" "set xs \<subseteq> S" "set ys \<subseteq> S" "untouched S h h'"
    and spec: "dnodes_spec c (xs, foreign_nodes h (dl_self l)) = (out, ys, foreign_nodes h (dl_self l))"
  shows "dl_meets c (h, l)"
proof -
  have "container h' a = container h a" if "a \<notin> S" for a
    using that S(4) by (simp add: untouched_def)
  then have "owned h' (dl_self l) ys" "foreign_nodes h' (dl_self l) = foreign_nodes h (dl_self l)"
    using owned_step [OF own _ free S(1-3)] dl_okD(5) [OF ok'] self by auto
  then show ?thesis
    using step ok' self spec dl_abs_ok [OF ok] dl_abs_ok [OF ok']
    by (auto simp: dl_meets_def dl_inv_def)
qed

lemma inserted_meets:
  assumes ok: "dl_ok h l (us @ vs)" and own: "owned h (dl_self l) (us @ vs)"
    and a: "a \<notin> foreign_nodes h (dl_self l)"
    and r: "inserted a us vs h l r"
    and step: "dl_step c (h, l) = Some (bind_res r (\<lambda>(_, s). Inr (None, s)))"
    and spec: "dnodes_spec c (us @ vs, foreign_nodes h (dl_self l))
      = (None, us @ a # vs, foreign_nodes h (dl_self l))"
  shows "dl_meets c (h, l)"
proof -
  obtain h' l' where r': "r = Inr ((), h', l')" "dl_ok h' l' (us @ a # vs)"
      "dl_self l' = dl_self l" "untouched (insert a (set (us @ vs))) h h'"
    using r by (auto simp: inserted_def)
  with owned_not_foreign [OF own] a step spec show ?thesis
    by (intro dl_meetsI [OF ok own _ r'(2,3) _ _ _ _ r'(4)]) auto
qed

lemma removed_meets:
  assumes ok: "dl_ok h l (us @ a # vs)" and own: "owned h (dl_self l) (us @ a # vs)"
    and r: "removed a us vs h l out r"
    and step: "dl_step c (h, l) = Some r"
    and spec: "dnodes_spec c (us @ a # vs, foreign_nodes h (dl_self l))
      = (out, us @ vs, foreign_nodes h (dl_self l))"
  shows "dl_meets c (h, l)"
proof -
  obtain h' l' where r': "r = Inr (out, h', l')" "dl_ok h' l' (us @ vs)"
      "dl_self l' = dl_self l" "container h' a = None" "untouched (insert a (set (us @ vs))) h h'"
    using r by (auto simp: removed_def)
  with owned_not_foreign [OF own] step spec show ?thesis
    by (intro dl_meetsI [OF ok own _ r'(2,3) _ _ _ _ r'(5)]) auto
qed

lemma dl_push_meets:
  assumes ok: "dl_ok h l xs" and own: "owned h (dl_self l) xs"
    and a: "a \<notin> set xs" "a \<notin> foreign_nodes h (dl_self l)"
  shows "dl_meets (Dl_push_front a) (h, l)" and "dl_meets (Dl_push_back a) (h, l)"
    and "p \<in> set xs \<Longrightarrow> dl_meets (Dl_push_after p a) (h, l)"
    and "p \<in> set xs \<Longrightarrow> dl_meets (Dl_push_before p a) (h, l)"
proof -
  note free = owned_free [OF own a]
  show "dl_meets (Dl_push_front a) (h, l)"
    using ok own a by (intro inserted_meets [OF _ _ _ dl_push_front_ok [OF ok free]]) auto
  show "dl_meets (Dl_push_back a) (h, l)"
    using ok own a by (intro inserted_meets [OF _ _ _ dl_push_back_ok [OF ok free]]) auto
  assume "p \<in> set xs"
  then obtain us vs where x: "xs = us @ p # vs" "before_node p xs = us" "after_node p xs = vs"
    using around_node [OF ok] by metis
  note ok' = ok [unfolded x(1)]
  show "dl_meets (Dl_push_after p a) (h, l)"
    using ok own a x by (intro inserted_meets [OF _ _ _ dl_push_after_ok [OF ok' free]]) auto
  show "dl_meets (Dl_push_before p a) (h, l)"
    using ok own a x by (intro inserted_meets [OF _ _ _ dl_push_before_ok [OF ok' free]]) auto
qed

lemma dl_pop_meets:
  assumes ok: "dl_ok h l xs" and own: "owned h (dl_self l) xs"
  shows "dl_meets Dl_pop_front (h, l)" and "dl_meets Dl_pop_back (h, l)"
proof -
  have e: "dl_meets Dl_pop_front (h, l) \<and> dl_meets Dl_pop_back (h, l)" if "xs = []"
    using dl_pop_empty [of h l] ok that
    by (auto intro!: dl_meetsI [OF ok own, of _ _ _ _ "[]" "{}"])
  show "dl_meets Dl_pop_front (h, l)"
  proof (cases xs)
    case (Cons a as)
    then show ?thesis
      using ok own by (intro removed_meets [OF _ _ dl_try_pop_front_ok [of h l a as]]) auto
  qed (use e in simp)
  show "dl_meets Dl_pop_back (h, l)"
  proof (cases xs rule: rev_cases)
    case (snoc as a)
    then show ?thesis
      using ok own by (intro removed_meets [OF _ _ dl_try_pop_back_ok [of h l as a]]) auto
  qed (use e in simp)
qed

lemma dl_erase_meets:
  assumes ok: "dl_ok h l xs" and own: "owned h (dl_self l) xs" and a: "a \<in> set xs"
  shows "dl_meets (Dl_erase a) (h, l)"
proof -
  obtain us vs where x: "xs = us @ a # vs" "before_node a xs = us" "after_node a xs = vs"
    using around_node [OF ok a] by metis
  show ?thesis
    using ok own x by (intro removed_meets [OF _ _ dl_erase_ok [of h l us a vs]]) auto
qed

lemma dl_clear_meets:
  assumes ok: "dl_ok h l xs" and own: "owned h (dl_self l) xs"
  shows "dl_meets Dl_clear (h, l)"
  using dl_clear_ok [OF ok] owned_not_foreign [OF own]
  by (intro dl_meetsI [OF ok own _ dl_reset_ok, where S = "set xs"]) (auto simp: relink_untouched)

lemma dl_step_refines:
  assumes "dl_inv s" and "dl_pre c (dl_abs s)"
  shows "dl_meets c s"
proof -
  obtain h l xs where s: "s = (h, l)" and ok: "dl_ok h l xs" "owned h (dl_self l) xs"
    using assms(1) by (cases s) (auto simp: dl_inv_def)
  then show ?thesis
    using assms(2) dl_push_meets [OF ok] dl_pop_meets [OF ok] dl_erase_meets [OF ok]
      dl_clear_meets [OF ok]
    by (cases c) (auto simp: dl_abs_ok)
qed

interpretation dlq: data_refinement dl_inv dl_abs dl_pre dl_step dnodes_spec
  by unfold_locales (rule dl_step_refines [unfolded dl_meets_def])

lemma dl_new_inv:
  assumes "\<And>a. container h a \<noteq> Some self"
  shows "dl_inv (h, dl_new self)" and "dl_abs (h, dl_new self) = ([], foreign_nodes h self)"
proof -
  have ok: "dl_ok h (dl_new self) []" by (simp add: dl_ok_def dl_new_def dchain_def)
  then show "dl_inv (h, dl_new self)" using assms by (auto simp: dl_inv_def owned_def dl_new_def)
  show "dl_abs (h, dl_new self) = ([], foreign_nodes h self)"
    using dl_abs_ok [OF ok] by (simp add: dl_new_def)
qed

end
