(* ===== verification/List_Properties.thy ===== *)
theory List_Properties
  imports Forward_List_Client Double_List_Client
begin

text \<open>The properties of the intrusive lists.\<close>

definition blank_heap :: node_heap where
  "blank_heap = \<lparr>next_node = (\<lambda>_. None), prev_node = (\<lambda>_. None), container = (\<lambda>_. None)\<rparr>"

lemma blank_heap_simps [simp]:
  "next_node blank_heap a = None" "prev_node blank_heap a = None" "container blank_heap a = None"
  by (simp_all add: blank_heap_def)

lemma blank_forward_list [simp]:
  "fl_inv (blank_heap, fl_new 100)" "fl_abs (blank_heap, fl_new 100) = ([], {})"
  using fl_new_inv [of blank_heap 100] by (simp_all add: foreign_nodes_def)

text \<open>
  C11: Every sequence of calls on a forward list in which the client pushes only unlinked nodes,
  and does not pop from the back of a list of one node, returns without a failed assertion, hands
  out the nodes of the abstract sequence and never touches the nodes of other lists.
\<close>

theorem forward_list_runs_as_sequence:
  assumes "fl_inv s" and "admissible fl_pre nodes_spec cmds (fl_abs s)"
  shows "\<exists>s'. run_steps fl_step cmds s
      = Some (Inr (fst (run_spec nodes_spec cmds (fl_abs s)), s')) \<and> fl_inv s' \<and>
    fl_abs s' = snd (run_spec nodes_spec cmds (fl_abs s))"
  using flq.run_refines [OF assms] .

theorem forward_list_runs_as_sequence_witness:
  "\<exists>s'. run_steps fl_step [Fl_push_back 1, Fl_push_back 2, Fl_push_front 3, Fl_pop_back, Fl_pop_front]
       (blank_heap, fl_new 100)
     = Some (Inr ([None, None, None, Some 2, Some 3], s')) \<and> fl_abs s' = ([1], {})"
  using forward_list_runs_as_sequence [of "(blank_heap, fl_new 100)"
      "[Fl_push_back 1, Fl_push_back 2, Fl_push_front 3, Fl_pop_back, Fl_pop_front]"] by auto

text \<open>
  Merging another forward list to the back or to the front moves all its nodes over in order,
  leaves the other list empty and touches no node outside the two lists.
\<close>

theorem forward_list_merge:
  assumes "fl_ok h l ys" and "fl_ok h other xs" and "fl_self l \<noteq> fl_self other"
  shows "(\<exists>h' l' other'. fl_merge_back h l other = Some (Inr (h', l', other')) \<and>
      fl_ok h' l' (ys @ xs) \<and> fl_ok h' other' [] \<and> untouched (set xs \<union> set ys) h h') \<and>
    (\<exists>h' l' other'. fl_merge_front h l other = Some (Inr (h', l', other')) \<and>
      fl_ok h' l' (xs @ ys) \<and> fl_ok h' other' [] \<and> untouched (set xs \<union> set ys) h h')"
  using fl_merge_ok [OF assms] by blast

definition two_lists :: node_heap where
  "two_lists = blank_heap\<lparr>container := (\<lambda>a. if a = 1 then Some 100 else if a = 2 then Some 200 else None)\<rparr>"

theorem forward_list_merge_witness:
  "\<exists>h' l' other'. fl_merge_back two_lists
       \<lparr>fl_self = 100, nodes_count = 1, fl_head = Some 1, fl_tail = Some 1\<rparr>
       \<lparr>fl_self = 200, nodes_count = 1, fl_head = Some 2, fl_tail = Some 2\<rparr>
     = Some (Inr (h', l', other')) \<and> fl_ok h' l' [1, 2]"
  using forward_list_merge [of two_lists
      "\<lparr>fl_self = 100, nodes_count = 1, fl_head = Some 1, fl_tail = Some 1\<rparr>" "[1]"
      "\<lparr>fl_self = 200, nodes_count = 1, fl_head = Some 2, fl_tail = Some 2\<rparr>" "[2]"]
  by (auto simp: fl_ok_def two_lists_def)

text \<open>
  \<open>try_pop_back\<close> on a forward list of one node keeps the head pointer of the removed node, and
  constructing a forward list from a nonempty range links the last node to the past-the-end
  position: both end in a failed validity assertion.
\<close>

theorem forward_list_failures:
  assumes "fl_ok h l [a]" and "as \<noteq> []" and "distinct as"
    and "list_all (\<lambda>b. container h2 b = None) as"
  shows "fl_try_pop_back h l = Some (Inl Assertion) \<and>
    fl_from_range self as past h2 = Inl Assertion"
  using fl_try_pop_back_single [OF assms(1)] fl_from_range_invalid [OF assms(2-4)] by simp

theorem forward_list_failures_witness:
  "fl_try_pop_back two_lists \<lparr>fl_self = 100, nodes_count = 1, fl_head = Some 1, fl_tail = Some 1\<rparr>
     = Some (Inl Assertion) \<and> fl_from_range 100 [1, 2] 3 blank_heap = Inl Assertion"
  using forward_list_failures [of two_lists
      "\<lparr>fl_self = 100, nodes_count = 1, fl_head = Some 1, fl_tail = Some 1\<rparr>" 1 "[1, 2]"
      blank_heap 100 3]
  by (simp add: fl_ok_def two_lists_def)

section \<open>The doubly linked list\<close>

lemma blank_double_list [simp]:
  "dl_inv (blank_heap, dl_new 100)" "dl_abs (blank_heap, dl_new 100) = ([], {})"
  using dl_new_inv [of blank_heap 100] by (simp_all add: foreign_nodes_def)

text \<open>
  C12: Every sequence of insertions at either end or next to a linked node, removals at either end
  or of a linked node, and clears, in which only unlinked nodes are inserted, returns without a
  failed assertion, hands out the nodes of the abstract sequence and leaves a doubly linked
  list of exactly that sequence; the nodes of other lists are not touched.
\<close>

theorem double_list_runs_as_sequence:
  assumes "dl_inv s" and "admissible dl_pre dnodes_spec cmds (dl_abs s)"
  shows "\<exists>s'. run_steps dl_step cmds s
      = Some (Inr (fst (run_spec dnodes_spec cmds (dl_abs s)), s')) \<and> dl_inv s' \<and>
    dl_abs s' = snd (run_spec dnodes_spec cmds (dl_abs s))"
  using dlq.run_refines [OF assms] .

theorem double_list_runs_as_sequence_witness:
  "\<exists>s'. run_steps dl_step [Dl_push_back 1, Dl_push_after 1 2, Dl_push_before 2 3, Dl_erase 1, Dl_pop_back]
       (blank_heap, dl_new 100)
     = Some (Inr ([None, None, None, Some 3, Some 2], s')) \<and> dl_abs s' = ([3], {})"
  using double_list_runs_as_sequence [of "(blank_heap, dl_new 100)"
      "[Dl_push_back 1, Dl_push_after 1 2, Dl_push_before 2 3, Dl_erase 1, Dl_pop_back]"]
  by (auto simp: before_node_def after_node_def)

text \<open>
  Merging another doubly linked list to the back or to the front and move assignment move all
  its nodes over in order and leave the other list empty; move assignment unlinks the nodes
  the target had.
\<close>

theorem double_list_merge:
  assumes "dl_ok h l ys" and "dl_ok h other xs" and "dl_self l \<noteq> dl_self other"
  shows "(\<exists>h' l' other'. dl_merge_back h l other = Some (Inr (h', l', other')) \<and>
      dl_ok h' l' (ys @ xs) \<and> dl_ok h' other' []) \<and>
    (\<exists>h' l' other'. dl_merge_front h l other = Some (Inr (h', l', other')) \<and>
      dl_ok h' l' (xs @ ys) \<and> dl_ok h' other' []) \<and>
    (\<exists>h' l' other'. dl_move_assign h l other = Some (Inr (h', l', other')) \<and>
      dl_ok h' l' xs \<and> dl_ok h' other' [] \<and> (\<forall>a\<in>set ys. container h' a = None))"
  using dl_merge_ok [OF assms] dl_move_assign_ok [OF assms] by blast

definition single_list :: "addr \<Rightarrow> addr \<Rightarrow> double_list" where
  "single_list self a = \<lparr>dl_self = self, dl_count = 1, dl_head = Some a, dl_tail = Some a\<rparr>"

lemma single_list_ok [simp]:
  "dl_self (single_list self a) = self"
  "dl_ok two_lists (single_list 100 1) [1]" "dl_ok two_lists (single_list 200 2) [2]"
  by (simp_all add: dl_ok_def dchain_def single_list_def two_lists_def)

theorem double_list_merge_witness:
  "\<exists>h' l' other'. dl_merge_back two_lists (single_list 100 1) (single_list 200 2)
     = Some (Inr (h', l', other')) \<and> dl_ok h' l' [1, 2]"
  using double_list_merge [of two_lists "single_list 100 1" "[1]" "single_list 200 2" "[2]"]
  by (simp del: One_nat_def) blast

text \<open>
  C13: \<open>remove_if\<close> terminates, returns the number of matching elements and leaves the others linked
  in order, although it erases nodes while it walks over them; \<open>find\<close> returns the first matching
  node and \<open>contains\<close> decides whether there is one.
\<close>

theorem double_list_remove_if:
  assumes "dl_ok h l xs"
  shows "(\<exists>h' l'. dl_remove_if pred h l = Some (Inr (length (filter pred xs), h', l')) \<and>
      dl_ok h' l' (filter (\<lambda>a. \<not> pred a) xs)) \<and>
    dl_find pred h l = Some (find pred xs) \<and> dl_contains pred h l = Some (\<exists>a\<in>set xs. pred a)"
  using dl_remove_if_ok [OF assms, of pred] dl_find_ok [OF assms, of pred] by blast

theorem double_list_remove_if_witness:
  "\<exists>h' l'. dl_remove_if (\<lambda>a. a < 5) two_lists (single_list 100 1) = Some (Inr (Suc 0, h', l')) \<and>
     dl_ok h' l' []"
  using double_list_remove_if [of two_lists "single_list 100 1" "[1]" "\<lambda>a. a < 5"]
  by (simp del: One_nat_def)

text \<open>
  \<open>insert_back\<close> of a nonempty range of unlinked nodes chains all of them behind the list and
  counts them, but never links the last one to the container: erasing that node through the
  list fails the ownership assertion.
\<close>

theorem double_list_insert_range:
  assumes "dl_ok h l xs" and "as \<noteq> []" and "distinct as"
    and "list_all (\<lambda>a. container h a = None) as"
  shows "\<exists>h' l'. dl_insert_back_nodes as h l = Inr ((), h', l') \<and>
    chain (next_node h') (dl_head l') (xs @ as) \<and> dl_count l' = length (xs @ as) \<and>
    container h' (last as) = None \<and> dl_erase (Some (last as)) h' l' = Inl Assertion"
  using dl_insert_back_last_unlinked [OF assms] .

lemma two_lists_free: "a \<noteq> 1 \<Longrightarrow> a \<noteq> 2 \<Longrightarrow> container two_lists a = None"
  by (simp add: two_lists_def)

theorem double_list_insert_range_witness:
  "\<exists>h' l'. dl_insert_back_nodes [7, 8] two_lists (single_list 100 1) = Inr ((), h', l') \<and>
     dl_count l' = Suc (Suc (Suc 0)) \<and> dl_erase (Some 8) h' l' = Inl Assertion"
  using double_list_insert_range [of two_lists "single_list 100 1" "[1]" "[7, 8]"]
  by (simp add: two_lists_free del: One_nat_def) blast

end
