(* ===== verification/Utf_Codec.thy ===== *)
theory Utf_Codec
  imports Rad_Prelude "HOL-Library.Word"
begin

text \<open>
  The code converters of \<open>src/include/rad/utf.h\<close> and the Windows-1256 tables of \<open>src/src/utf.cpp\<close>.
  A pair \<open>(p, n)\<close> of a pointer and a count is the list of the \<open>n\<close> code units from \<open>p\<close> on, so a
  converter that advances both returns the rest of the list. The in-out parameter \<open>ec\<close> is an
  \<open>errc option\<close>, \<open>None\<close> for the cleared value; a converter that does not assign it returns the
  value it was called with. Reading a unit past the \<open>n\<close> given is the fault \<open>Out_of_bounds\<close>,
  a failed \<open>assert\<close> the fault \<open>Assertion\<close>.
\<close>

unbundle bit_operations_syntax

type_synonym u8 = "8 word"
type_synonym u16 = "16 word"
type_synonym codepoint = "32 word"

datatype errc = No_buffer_space | Illegal_byte_sequence | Invalid_argument | Size_too_large | Result_out_of_range

type_synonym 'u decoded = "errc option \<times> codepoint \<times> 'u list"

section \<open>Code points\<close>

definition max_utf_codepoint :: codepoint where "max_utf_codepoint = 0x10ffff"
definition utf_surrogate_start :: codepoint where "utf_surrogate_start = 0xd800"
definition utf_surrogate_end :: codepoint where "utf_surrogate_end = 0xdfff"
definition replacement_codepoint :: codepoint where "replacement_codepoint = 0xfffd"

definition is_surrogate_codepoint :: "codepoint \<Rightarrow> bool" where
  "is_surrogate_codepoint cp \<longleftrightarrow> cp \<ge> utf_surrogate_start \<and> cp \<le> utf_surrogate_end"

definition validate_codepoint :: "codepoint \<Rightarrow> bool \<times> errc option" where
  "validate_codepoint cp =
     (if cp > max_utf_codepoint then (False, Some Illegal_byte_sequence)
      else if is_surrogate_codepoint cp then (False, Some Illegal_byte_sequence)
      else (True, None))"

definition is_valid_codepoint :: "codepoint \<Rightarrow> bool" where
  "is_valid_codepoint cp =
     (if cp > max_utf_codepoint then False else if is_surrogate_codepoint cp then False else True)"

section \<open>UTF-8\<close>

text \<open>The masks and expected values of leading bytes; the sequence length is the index plus one.\<close>

definition utf8_masks_values :: "(u8 \<times> u8) list" where
  "utf8_masks_values = [(0x80, 0), (0xe0, 0xc0), (0xf0, 0xe0), (0xf8, 0xf0)]"

definition utf8_cont_byte_mask :: u8 where "utf8_cont_byte_mask = 0xc0"
definition utf8_cont_byte_value :: u8 where "utf8_cont_byte_value = 0x80"

definition mask_matches :: "u8 \<times> u8 \<Rightarrow> u8 \<Rightarrow> bool" where
  "mask_matches mv b \<longleftrightarrow> (b AND fst mv) = snd mv"

definition is_utf8_continuation_byte :: "u8 \<Rightarrow> bool" where
  "is_utf8_continuation_byte b \<longleftrightarrow> (b AND utf8_cont_byte_mask) = utf8_cont_byte_value"

fun utf8_size_loop :: "(u8 \<times> u8) list \<Rightarrow> nat \<Rightarrow> u8 \<Rightarrow> nat" where
  "utf8_size_loop [] i b = 0"
| "utf8_size_loop (mv # mvs) i b = (if mask_matches mv b then i + 1 else utf8_size_loop mvs (i + 1) b)"

definition utf8_sequence_size :: "u8 \<Rightarrow> nat" where
  "utf8_sequence_size b = utf8_size_loop utf8_masks_values 0 b"

definition utf8_codepoint_size :: "codepoint \<Rightarrow> nat res" where
  "utf8_codepoint_size cp =
     bind_res (ensure (is_valid_codepoint cp) Assertion) (\<lambda>_.
       if cp \<le> 0x7f then Inr 1
       else if cp \<le> 0x7ff then Inr 2
       else if cp \<le> 0xffff then Inr 3
       else bind_res (ensure (cp \<le> max_utf_codepoint) Assertion) (\<lambda>_. Inr 4))"

text \<open>
  The payload bits of a leading and of a continuation byte. The masks are promoted to \<open>int\<close> before
  \<open>~\<close>, so the complement is taken at the wider type.
\<close>

definition lead_bits :: "nat \<Rightarrow> u8 \<Rightarrow> codepoint" where
  "lead_bits seq_len b = ucast b AND NOT (ucast (fst (utf8_masks_values ! (seq_len - 1))))"

definition cont_bits :: "codepoint \<Rightarrow> u8 \<Rightarrow> codepoint" where
  "cont_bits cp b = push_bit 6 cp OR (ucast b AND NOT (ucast utf8_cont_byte_mask))"

text \<open>The loop over the continuation bytes: the code point so far, or \<open>None\<close> at a wrong byte.\<close>

fun utf8_cont_loop :: "nat \<Rightarrow> u8 list \<Rightarrow> codepoint \<Rightarrow> codepoint option res" where
  "utf8_cont_loop 0 bs cp = Inr (Some cp)"
| "utf8_cont_loop (Suc k) [] cp = Inl Out_of_bounds"
| "utf8_cont_loop (Suc k) (b # bs) cp =
     (if \<not> is_utf8_continuation_byte b then Inr None else utf8_cont_loop k bs (cont_bits cp b))"

fun utf8_truncated_loop :: "nat \<Rightarrow> u8 list \<Rightarrow> errc res" where
  "utf8_truncated_loop 0 bs = Inr No_buffer_space"
| "utf8_truncated_loop (Suc k) [] = Inl Out_of_bounds"
| "utf8_truncated_loop (Suc k) (b # bs) =
     (if \<not> is_utf8_continuation_byte b then Inr Illegal_byte_sequence else utf8_truncated_loop k bs)"

text \<open>
  A sequence that is longer than necessary is refused after \<open>n\<close> has been set to the count behind
  it while \<open>p\<close> still points to its start.
\<close>

definition utf8_decode :: "errc option \<Rightarrow> u8 list \<Rightarrow> u8 decoded res" where
  "utf8_decode ec bs =
     (case bs of [] \<Rightarrow> Inr (Some No_buffer_space, 0, bs)
      | b # rest \<Rightarrow>
        let n = length bs; seq_len = utf8_sequence_size b in
        bind_res (ensure (seq_len \<le> length utf8_masks_values) Assertion) (\<lambda>_.
        if seq_len = 0 then Inr (Some Illegal_byte_sequence, 0, bs)
        else if n < seq_len then
          bind_res (utf8_truncated_loop (n - 1) rest) (\<lambda>e. Inr (Some e, 0, bs))
        else
          bind_res (utf8_cont_loop (seq_len - 1) rest (lead_bits seq_len b)) (\<lambda>r.
          case r of None \<Rightarrow> Inr (Some Illegal_byte_sequence, 0, bs)
          | Some cp \<Rightarrow>
            (case validate_codepoint cp of
               (False, e) \<Rightarrow> Inr (e, 0, bs)
             | (True, e) \<Rightarrow>
               bind_res (utf8_codepoint_size cp) (\<lambda>k.
                 if k \<noteq> seq_len then Inr (Some Illegal_byte_sequence, 0, take (n - seq_len) bs)
                 else Inr (e, cp, drop seq_len bs))))))"

fun utf8_unchecked_loop :: "nat \<Rightarrow> u8 list \<Rightarrow> codepoint \<Rightarrow> (codepoint \<times> u8 list) res" where
  "utf8_unchecked_loop 0 bs cp = Inr (cp, bs)"
| "utf8_unchecked_loop (Suc k) [] cp = Inl Out_of_bounds"
| "utf8_unchecked_loop (Suc k) (b # bs) cp = utf8_unchecked_loop k bs (cont_bits cp b)"

definition utf8_decode_unchecked :: "u8 list \<Rightarrow> (codepoint \<times> u8 list) res" where
  "utf8_decode_unchecked bs =
     (case bs of [] \<Rightarrow> Inl Out_of_bounds
      | b # rest \<Rightarrow>
        let seq_len = utf8_sequence_size b in
        bind_res (ensure (seq_len \<noteq> 0) Out_of_bounds) (\<lambda>_.
          utf8_unchecked_loop (seq_len - 1) rest (lead_bits seq_len b)))"

definition cont_byte :: "codepoint \<Rightarrow> u8" where
  "cont_byte cp = ucast (cp AND NOT (ucast utf8_cont_byte_mask)) OR utf8_cont_byte_value"

definition lead_byte :: "nat \<Rightarrow> codepoint \<Rightarrow> u8" where
  "lead_byte i cp =
     ucast (cp AND NOT (ucast (fst (utf8_masks_values ! i)))) OR snd (utf8_masks_values ! i)"

definition utf8_encode_unchecked :: "codepoint \<Rightarrow> u8 list res" where
  "utf8_encode_unchecked cp =
     bind_res (ensure (is_valid_codepoint cp) Assertion) (\<lambda>_.
       if cp \<le> 0x7f then Inr [ucast cp]
       else if cp \<le> 0x7ff then Inr [lead_byte 1 (drop_bit 6 cp), cont_byte cp]
       else if cp \<le> 0xffff then
         Inr [lead_byte 2 (drop_bit 6 (drop_bit 6 cp)), cont_byte (drop_bit 6 cp), cont_byte cp]
       else if cp \<le> max_utf_codepoint then
         Inr [lead_byte 3 (drop_bit 6 (drop_bit 6 (drop_bit 6 cp))),
              cont_byte (drop_bit 6 (drop_bit 6 cp)), cont_byte (drop_bit 6 cp), cont_byte cp]
       else Inl Assertion)"

text \<open>\<open>encode\<close>: the units written, none when the \<open>n\<close> units given do not suffice.\<close>

definition utf8_encode :: "codepoint \<Rightarrow> nat \<Rightarrow> u8 list res" where
  "utf8_encode cp n =
     bind_res (ensure (is_valid_codepoint cp) Assertion) (\<lambda>_.
     bind_res (utf8_codepoint_size cp) (\<lambda>k. if k > n then Inr [] else utf8_encode_unchecked cp))"

section \<open>Byte order\<close>

datatype endian = Little | Big

definition bswap16 :: "u16 \<Rightarrow> u16" where
  "bswap16 v = push_bit 8 v OR drop_bit 8 v"

definition bswap32 :: "32 word \<Rightarrow> 32 word" where
  "bswap32 v = push_bit 24 v OR (push_bit 8 v AND 0xff0000) OR (drop_bit 8 v AND 0xff00) OR drop_bit 24 v"

text \<open>Reading and writing are the same exchange of bytes; \<open>host\<close> is \<open>std::endian::native\<close>.\<close>

definition read_le_value :: "endian \<Rightarrow> ('w \<Rightarrow> 'w) \<Rightarrow> 'w \<Rightarrow> 'w" where
  "read_le_value host bswap val = (if host = Little then val else bswap val)"

definition write_le_value :: "endian \<Rightarrow> ('w \<Rightarrow> 'w) \<Rightarrow> 'w \<Rightarrow> 'w" where
  "write_le_value host bswap val = (if host = Little then val else bswap val)"

definition read_be_value :: "endian \<Rightarrow> ('w \<Rightarrow> 'w) \<Rightarrow> 'w \<Rightarrow> 'w" where
  "read_be_value host bswap val = (if host = Big then val else bswap val)"

definition write_be_value :: "endian \<Rightarrow> ('w \<Rightarrow> 'w) \<Rightarrow> 'w \<Rightarrow> 'w" where
  "write_be_value host bswap val = (if host = Big then val else bswap val)"

definition read_native_value :: "endian \<Rightarrow> ('w \<Rightarrow> 'w) \<Rightarrow> 'w \<Rightarrow> 'w" where
  "read_native_value host bswap val =
     (if host = Little then read_le_value host bswap val else read_be_value host bswap val)"

definition write_native_value :: "endian \<Rightarrow> ('w \<Rightarrow> 'w) \<Rightarrow> 'w \<Rightarrow> 'w" where
  "write_native_value host bswap val =
     (if host = Little then write_le_value host bswap val else write_be_value host bswap val)"

text \<open>
  \<open>le_reader_writer_t\<close>, \<open>be_reader_writer_t\<close> and \<open>native_reader_writer_t\<close>. Their parameter is \<open>detail::bswap\<close>, which is
  \<open>bswap16\<close> for units of type \<open>std::uint16_t\<close> and \<open>bswap32\<close> for \<open>std::uint32_t\<close>. It has no branch for \<open>char16_t\<close>, \<open>char32_t\<close> and
  \<open>wchar_t\<close>: with these units only the native order, which never exchanges bytes, is defined.
\<close>

record 'w reader_writer =
  rw_endian :: endian
  rw_read :: "'w \<Rightarrow> 'w"
  rw_write :: "'w \<Rightarrow> 'w"

definition le_reader_writer :: "endian \<Rightarrow> ('w \<Rightarrow> 'w) \<Rightarrow> 'w reader_writer" where
  "le_reader_writer host bswap =
     \<lparr>rw_endian = Little, rw_read = read_le_value host bswap, rw_write = write_le_value host bswap\<rparr>"

definition be_reader_writer :: "endian \<Rightarrow> ('w \<Rightarrow> 'w) \<Rightarrow> 'w reader_writer" where
  "be_reader_writer host bswap =
     \<lparr>rw_endian = Big, rw_read = read_be_value host bswap, rw_write = write_be_value host bswap\<rparr>"

definition native_reader_writer :: "endian \<Rightarrow> ('w \<Rightarrow> 'w) \<Rightarrow> 'w reader_writer" where
  "native_reader_writer host bswap =
     \<lparr>rw_endian = host, rw_read = read_native_value host bswap,
      rw_write = write_native_value host bswap\<rparr>"

section \<open>UTF-16\<close>

definition utf16_surrogate_mask :: u16 where "utf16_surrogate_mask = drop_bit 6 (- 1)"
definition utf16_surrogate_value_mask :: u16 where
  "utf16_surrogate_value_mask = NOT utf16_surrogate_mask"
definition utf16_high_surrogate_value :: u16 where "utf16_high_surrogate_value = 0xd800"
definition utf16_low_surrogate_value :: u16 where "utf16_low_surrogate_value = 0xdc00"

definition utf16_codepoint_size :: "codepoint \<Rightarrow> nat res" where
  "utf16_codepoint_size cp =
     bind_res (ensure (is_valid_codepoint cp) Assertion) (\<lambda>_.
       if cp \<le> 0xffff then Inr 1
       else bind_res (ensure (cp \<le> max_utf_codepoint) Assertion) (\<lambda>_. Inr 2))"

definition surrogate_pair :: "u16 \<Rightarrow> u16 \<Rightarrow> codepoint" where
  "surrogate_pair w1_16 w2_16 =
     (let w1 = ucast (w1_16 AND utf16_surrogate_mask) :: 32 word;
          w2 = ucast (w2_16 AND utf16_surrogate_mask) :: 32 word
      in (push_bit 10 w1 OR w2) + 0x10000)"

text \<open>A unit of the basic plane is returned without assigning \<open>ec\<close>.\<close>

definition utf16_decode :: "u16 reader_writer \<Rightarrow> errc option \<Rightarrow> u16 list \<Rightarrow> u16 decoded res" where
  "utf16_decode rw ec us =
     (case us of [] \<Rightarrow> Inr (Some No_buffer_space, 0, us)
      | u # rest \<Rightarrow>
        let w1_16 = rw_read rw u in
        if (w1_16 AND utf16_surrogate_value_mask) = utf16_low_surrogate_value
        then Inr (Some Illegal_byte_sequence, 0, us)
        else if (w1_16 AND utf16_surrogate_value_mask) \<noteq> utf16_high_surrogate_value
        then Inr (ec, ucast w1_16, rest)
        else (case rest of [] \<Rightarrow> Inr (Some No_buffer_space, 0, us)
          | v # rest2 \<Rightarrow>
            let w2_16 = rw_read rw v in
            if (w2_16 AND utf16_surrogate_value_mask) \<noteq> utf16_low_surrogate_value
            then Inr (Some Illegal_byte_sequence, 0, us)
            else let cp = surrogate_pair w1_16 w2_16 in
              (case validate_codepoint cp of
                 (False, e) \<Rightarrow> Inr (e, 0, us)
               | (True, e) \<Rightarrow> Inr (e, cp, rest2))))"

definition utf16_decode_unchecked :: "u16 reader_writer \<Rightarrow> u16 list \<Rightarrow> (codepoint \<times> u16 list) res" where
  "utf16_decode_unchecked rw us =
     (case us of [] \<Rightarrow> Inl Out_of_bounds
      | u # rest \<Rightarrow>
        let w1_16 = rw_read rw u in
        if (w1_16 AND utf16_surrogate_value_mask) \<noteq> utf16_high_surrogate_value
        then Inr (ucast w1_16, rest)
        else (case rest of [] \<Rightarrow> Inl Out_of_bounds
          | v # rest2 \<Rightarrow> Inr (surrogate_pair w1_16 (rw_read rw v), rest2)))"

definition utf16_encode_unchecked :: "u16 reader_writer \<Rightarrow> codepoint \<Rightarrow> u16 list res" where
  "utf16_encode_unchecked rw cp =
     bind_res (ensure (is_valid_codepoint cp) Assertion) (\<lambda>_.
       if cp \<le> 0xffff then Inr [rw_write rw (ucast cp)]
       else let cp1 = cp - 0x10000 in
         bind_res (ensure (cp1 \<le> drop_bit 12 (- 1)) Assertion) (\<lambda>_.
           let w1 = ucast (ucast utf16_high_surrogate_value + drop_bit 10 cp1);
               w2 = ucast (ucast utf16_low_surrogate_value + (cp1 AND ucast utf16_surrogate_mask))
           in Inr [rw_write rw w1, rw_write rw w2]))"

definition utf16_encode :: "u16 reader_writer \<Rightarrow> codepoint \<Rightarrow> nat \<Rightarrow> u16 list res" where
  "utf16_encode rw cp n =
     bind_res (ensure (is_valid_codepoint cp) Assertion) (\<lambda>_.
     bind_res (utf16_codepoint_size cp) (\<lambda>seq_len.
     bind_res (ensure (seq_len = 1 \<or> seq_len = 2) Assertion) (\<lambda>_.
       if seq_len > n then Inr [] else utf16_encode_unchecked rw cp)))"

section \<open>UTF-32\<close>

definition utf32_codepoint_size :: "codepoint \<Rightarrow> nat res" where
  "utf32_codepoint_size cp = bind_res (ensure (is_valid_codepoint cp) Assertion) (\<lambda>_. Inr 1)"

definition utf32_decode ::
    "32 word reader_writer \<Rightarrow> errc option \<Rightarrow> 32 word list \<Rightarrow> 32 word decoded res" where
  "utf32_decode rw ec us =
     (case us of [] \<Rightarrow> Inr (Some No_buffer_space, 0, us)
      | u # rest \<Rightarrow>
        let cp = rw_read rw u in
        (case validate_codepoint cp of
           (False, e) \<Rightarrow> Inr (e, 0, us)
         | (True, e) \<Rightarrow> Inr (e, cp, rest)))"

definition utf32_decode_unchecked ::
    "32 word reader_writer \<Rightarrow> 32 word list \<Rightarrow> (codepoint \<times> 32 word list) res" where
  "utf32_decode_unchecked rw us =
     (case us of [] \<Rightarrow> Inl Out_of_bounds | u # rest \<Rightarrow> Inr (rw_read rw u, rest))"

definition utf32_encode_unchecked :: "32 word reader_writer \<Rightarrow> codepoint \<Rightarrow> 32 word list res" where
  "utf32_encode_unchecked rw cp =
     bind_res (ensure (is_valid_codepoint cp) Assertion) (\<lambda>_. Inr [rw_write rw cp])"

definition utf32_encode :: "32 word reader_writer \<Rightarrow> codepoint \<Rightarrow> nat \<Rightarrow> 32 word list res" where
  "utf32_encode rw cp n =
     bind_res (ensure (is_valid_codepoint cp) Assertion) (\<lambda>_.
       if n < 1 then Inr [] else utf32_encode_unchecked rw cp)"

section \<open>Windows-1256\<close>

definition cp1256_to_unicode_table :: "u16 list" where
  "cp1256_to_unicode_table =
    [0x20AC, 0x067E, 0x201A, 0x0192, 0x201E, 0x2026, 0x2020, 0x2021,
     0x02C6, 0x2030, 0x0679, 0x2039, 0x0152, 0x0686, 0x0698, 0x0688,
     0x06AF, 0x2018, 0x2019, 0x201C, 0x201D, 0x2022, 0x2013, 0x2014,
     0x06A9, 0x2122, 0x0691, 0x203A, 0x0153, 0x200C, 0x200D, 0x06BA,
     0x00A0, 0x060C, 0x00A2, 0x00A3, 0x00A4, 0x00A5, 0x00A6, 0x00A7,
     0x00A8, 0x00A9, 0x06BE, 0x00AB, 0x00AC, 0x00AD, 0x00AE, 0x00AF,
     0x00B0, 0x00B1, 0x00B2, 0x00B3, 0x00B4, 0x00B5, 0x00B6, 0x00B7,
     0x00B8, 0x00B9, 0x061B, 0x00BB, 0x00BC, 0x00BD, 0x00BE, 0x061F,
     0x06C1, 0x0621, 0x0622, 0x0623, 0x0624, 0x0625, 0x0626, 0x0627,
     0x0628, 0x0629, 0x062A, 0x062B, 0x062C, 0x062D, 0x062E, 0x062F,
     0x0630, 0x0631, 0x0632, 0x0633, 0x0634, 0x0635, 0x0636, 0x00D7,
     0x0637, 0x0638, 0x0639, 0x063A, 0x0640, 0x0641, 0x0642, 0x0643,
     0x00E0, 0x0644, 0x00E2, 0x0645, 0x0646, 0x0647, 0x0648, 0x00E7,
     0x00E8, 0x00E9, 0x00EA, 0x00EB, 0x0649, 0x064A, 0x00EE, 0x00EF,
     0x064B, 0x064C, 0x064D, 0x064E, 0x00F4, 0x064F, 0x0650, 0x00F7,
     0x0651, 0x00F9, 0x0652, 0x00FB, 0x00FC, 0x200E, 0x200F, 0x06D2]"

definition map_cp1256_to_unicode :: "u8 \<Rightarrow> codepoint" where
  "map_cp1256_to_unicode c =
     (if c \<le> 127 then ucast c else ucast (cp1256_to_unicode_table ! (unat c - 128)))"

text \<open>\<open>std::find\<close>: the index of the first element equal to the value, or the length.\<close>

fun find_index_from :: "nat \<Rightarrow> u16 list \<Rightarrow> codepoint \<Rightarrow> nat" where
  "find_index_from i [] cp = i"
| "find_index_from i (u # us) cp = (if ucast u = cp then i else find_index_from (i + 1) us cp)"

definition map_unicode_to_cp1256 :: "codepoint \<Rightarrow> bool \<times> u8" where
  "map_unicode_to_cp1256 cp =
     (if cp \<le> 127 then (True, ucast cp)
      else let it = find_index_from 0 cp1256_to_unicode_table cp in
        if it \<noteq> length cp1256_to_unicode_table then (True, of_nat (it + 128)) else (False, 0))"

definition is_valid_cp1256_codepoint :: "codepoint \<Rightarrow> bool" where
  "is_valid_cp1256_codepoint cp = fst (map_unicode_to_cp1256 cp)"

definition cp1256_codepoint_size :: "codepoint \<Rightarrow> nat res" where
  "cp1256_codepoint_size cp = (if is_valid_cp1256_codepoint cp then Inr 1 else Inr 0)"

definition cp1256_decode :: "errc option \<Rightarrow> u8 list \<Rightarrow> u8 decoded res" where
  "cp1256_decode ec us =
     (case us of [] \<Rightarrow> Inr (Some No_buffer_space, 0, us)
      | u # rest \<Rightarrow> Inr (None, map_cp1256_to_unicode u, rest))"

definition cp1256_decode_unchecked :: "u8 list \<Rightarrow> (codepoint \<times> u8 list) res" where
  "cp1256_decode_unchecked us =
     (case us of [] \<Rightarrow> Inl Assertion | u # rest \<Rightarrow> Inr (map_cp1256_to_unicode u, rest))"

definition cp1256_encode_unchecked :: "codepoint \<Rightarrow> u8 list res" where
  "cp1256_encode_unchecked cp =
     (let (valid, ch) = map_unicode_to_cp1256 cp in
      bind_res (ensure valid Assertion) (\<lambda>_. Inr [ch]))"

definition cp1256_encode :: "codepoint \<Rightarrow> nat \<Rightarrow> u8 list res" where
  "cp1256_encode cp n =
     bind_res (ensure (is_valid_codepoint cp) Assertion) (\<lambda>_.
       if \<not> is_valid_cp1256_codepoint cp then Inr []
       else bind_res (cp1256_codepoint_size cp) (\<lambda>k.
         if k > n then Inr [] else cp1256_encode_unchecked cp))"

end
