(* ===== verification/Word_Facts.thy ===== *)
theory Word_Facts
  imports "HOL-Library.Word"
begin

text \<open>
  Bit manipulation as arithmetic: masks, shifts and disjoint unions of bit fields, read as division,
  remainder and addition of the numbers the words stand for. The proofs about encodings go through
  these equations and are finished by linear arithmetic.
\<close>

unbundle bit_operations_syntax

named_theorems word_arith \<open>bit operations as arithmetic on the represented numbers\<close>

lemma bit_block: "bit (push_bit k (mask j) :: int) n \<longleftrightarrow> k \<le> n \<and> n < k + j"
  by (auto simp: bit_simps)

lemma bit_block_consts:
  "bit (0x3f :: int) n \<longleftrightarrow> n < 6" "bit (0x80 :: int) n \<longleftrightarrow> n = 7"
  "bit (0xc0 :: int) n \<longleftrightarrow> 6 \<le> n \<and> n < 8" "bit (0xe0 :: int) n \<longleftrightarrow> 5 \<le> n \<and> n < 8"
  "bit (0xf0 :: int) n \<longleftrightarrow> 4 \<le> n \<and> n < 8" "bit (0xf8 :: int) n \<longleftrightarrow> 3 \<le> n \<and> n < 8"
  "bit (0x3ff :: int) n \<longleftrightarrow> n < 10" "bit (0xff00 :: int) n \<longleftrightarrow> 8 \<le> n \<and> n < 16"
  "bit (0xff0000 :: int) n \<longleftrightarrow> 16 \<le> n \<and> n < 24"
proof -
  have "(0x3f :: int) = push_bit 0 (mask 6)" "(0x80 :: int) = push_bit 7 (mask 1)"
    "(0xc0 :: int) = push_bit 6 (mask 2)" "(0xe0 :: int) = push_bit 5 (mask 3)"
    "(0xf0 :: int) = push_bit 4 (mask 4)" "(0xf8 :: int) = push_bit 3 (mask 5)"
    "(0x3ff :: int) = push_bit 0 (mask 10)" "(0xff00 :: int) = push_bit 8 (mask 8)"
    "(0xff0000 :: int) = push_bit 16 (mask 8)"
    by (simp_all add: mask_eq_exp_minus_1 push_bit_eq_mult)
  note c = this
  show "bit (0x3f :: int) n \<longleftrightarrow> n < 6" "bit (0x80 :: int) n \<longleftrightarrow> n = 7"
    "bit (0xc0 :: int) n \<longleftrightarrow> 6 \<le> n \<and> n < 8" "bit (0xe0 :: int) n \<longleftrightarrow> 5 \<le> n \<and> n < 8"
    "bit (0xf0 :: int) n \<longleftrightarrow> 4 \<le> n \<and> n < 8" "bit (0xf8 :: int) n \<longleftrightarrow> 3 \<le> n \<and> n < 8"
    "bit (0x3ff :: int) n \<longleftrightarrow> n < 10" "bit (0xff00 :: int) n \<longleftrightarrow> 8 \<le> n \<and> n < 16"
    "bit (0xff0000 :: int) n \<longleftrightarrow> 16 \<le> n \<and> n < 24"
    unfolding c bit_block by auto
qed

lemma unat_drop_bit [word_arith]: "unat (drop_bit k w) = unat w div 2 ^ k"
  unfolding unat_drop_bit_eq by (rule drop_bit_eq_div)

lemma unat_take_bit [word_arith]: "unat (take_bit k w) = unat w mod 2 ^ k"
  unfolding unsigned_take_bit_eq by (rule take_bit_eq_mod)

lemma unat_push_bit [word_arith]:
  "unat (push_bit k (w :: 'a::len word)) = unat w * 2 ^ k mod 2 ^ LENGTH('a)"
  unfolding unsigned_push_bit_eq take_bit_eq_mod push_bit_eq_mult [where 'a = nat] by (rule refl)

lemma unat_ucast_mod [word_arith]:
  "unat (ucast (w :: 'a::len word) :: 'b::len word) = unat w mod 2 ^ LENGTH('b)"
  by (simp add: unsigned_ucast_eq take_bit_eq_mod)

text \<open>Clearing the low bits.\<close>

lemma unat_and_not_mask: "unat (w AND NOT (mask k)) = unat w - unat w mod 2 ^ k"
proof -
  have "w = (w AND NOT (mask k)) + take_bit k w"
  proof -
    have "(w AND NOT (mask k)) + take_bit k w = (w AND NOT (mask k)) OR take_bit k w"
      by (rule disjunctive_add) (auto simp: bit_simps)
    also have "\<dots> = w" by (rule bit_word_eqI) (auto simp: bit_simps)
    finally show ?thesis ..
  qed
  moreover have "(w AND NOT (mask k)) \<le> w" by (rule word_and_le2)
  ultimately have "take_bit k w = w - (w AND NOT (mask k))" by (metis add_diff_cancel_left')
  then have "unat (take_bit k w) = unat w - unat (w AND NOT (mask k))"
    using \<open>(w AND NOT (mask k)) \<le> w\<close> by (simp add: unat_sub)
  moreover have "unat (w AND NOT (mask k)) \<le> unat w"
    using \<open>(w AND NOT (mask k)) \<le> w\<close> by (simp add: word_le_nat_alt)
  ultimately show ?thesis by (simp add: unat_take_bit)
qed

text \<open>A field below bit \<open>k\<close> joined to a value whose low \<open>k\<close> bits are clear.\<close>

lemma unat_lt_bit: "unat (a :: 'a::len word) < 2 ^ k \<Longrightarrow> bit a n \<Longrightarrow> n < k"
proof -
  assume "unat a < 2 ^ k" and b: "bit a n"
  then have "take_bit k a = a" by (simp add: word_unat_eq_iff unat_take_bit)
  then have "bit (take_bit k a) n" using b by simp
  then show "n < k" by (simp add: bit_take_bit_iff)
qed

lemma unat_or_disjoint:
  fixes a b :: "'a::len word"
  assumes low: "unat a < 2 ^ k" and high: "unat b mod 2 ^ k = 0"
    and fit: "unat a + unat b < 2 ^ LENGTH('a)"
  shows "unat (a OR b) = unat a + unat b"
proof -
  have "take_bit k b = 0" using high by (simp add: word_unat_eq_iff unat_take_bit)
  then have "\<not> (bit b n \<and> n < k)" for n
    by (metis bit_0_eq bit_take_bit_iff bot_apply bot_bool_def)
  then have "\<not> bit a n \<or> \<not> bit b n" for n using unat_lt_bit [OF low] by blast
  then have "a + b = a OR b" by (rule disjunctive_add)
  moreover have "unat (a + b) = unat a + unat b"
    using fit by (simp add: unat_word_ariths)
  ultimately show ?thesis by simp
qed

section \<open>Numbers with a fixed high part\<close>

lemma low_part_clear:
  fixes x m q :: nat
  assumes "0 < m"
  shows "x - x mod m = m * q \<longleftrightarrow> m * q \<le> x \<and> x < m * q + m"
proof -
  have "x - x mod m = m * (x div m)" by (rule minus_mod_eq_mult_div)
  then have "x - x mod m = m * q \<longleftrightarrow> x div m = q" using assms by simp
  also have "\<dots> \<longleftrightarrow> q * m \<le> x \<and> x < Suc q * m"
    using assms by (metis div_nat_eqI dividend_less_div_times div_times_less_eq_dividend mult_Suc mult.commute)
  finally show ?thesis by (simp add: mult.commute add.commute)
qed

lemma mod_in_block:
  fixes x m q :: nat
  assumes "m * q \<le> x" and "x < m * q + m"
  shows "x mod m = x - m * q"
proof -
  obtain d where "x = m * q + d" using assms(1) le_Suc_ex by blast
  with assms(2) show ?thesis by simp
qed

end
