(* ===== verification/Utf8_Laws.thy ===== *)
theory Utf8_Laws
  imports Utf_Codec Word_Facts
begin

text \<open>
  UTF-8: the masks and shifts of the code as arithmetic, the encoder against the table of the
  standard, and the decoder as its exact inverse.
\<close>

section \<open>Code points as numbers\<close>

lemma valid_codepoint_unat:
  "is_valid_codepoint cp \<longleftrightarrow> unat cp \<le> 0x10ffff \<and> \<not> (0xd800 \<le> unat cp \<and> unat cp \<le> 0xdfff)"
  by (auto simp: is_valid_codepoint_def is_surrogate_codepoint_def max_utf_codepoint_def
      utf_surrogate_start_def utf_surrogate_end_def word_le_nat_alt word_less_nat_alt)

lemma validate_codepoint_eq:
  "validate_codepoint cp =
     (if is_valid_codepoint cp then (True, None) else (False, Some Illegal_byte_sequence))"
  by (simp add: validate_codepoint_def is_valid_codepoint_def)

lemma replacement_valid [simp]: "is_valid_codepoint replacement_codepoint"
  by (simp add: valid_codepoint_unat replacement_codepoint_def)

section \<open>Bytes as numbers\<close>

lemma unat_u8 [simp]: "unat (b :: u8) < 256"
proof -
  have "unat b < 2 ^ LENGTH(8)" by (rule unsigned_less)
  then show ?thesis by simp
qed

lemma unat_widen [simp]: "unat (ucast (b :: u8) :: codepoint) = unat b"
proof -
  have "unat b < 4294967296" using unat_u8 [of b] by linarith
  then show ?thesis by (simp add: word_arith)
qed

lemma and_high_bits:
  fixes b :: u8
  assumes "m = NOT (mask k)"
  shows "unat (b AND m) = unat b - unat b mod 2 ^ k"
  using assms unat_and_not_mask by simp

lemma unat_and_masks:
  fixes b :: u8
  shows "unat (b AND 0x80) = unat b - unat b mod 128" "unat (b AND 0xc0) = unat b - unat b mod 64"
    "unat (b AND 0xe0) = unat b - unat b mod 32" "unat (b AND 0xf0) = unat b - unat b mod 16"
    "unat (b AND 0xf8) = unat b - unat b mod 8"
  using and_high_bits [of "0x80" 7 b] and_high_bits [of "0xc0" 6 b] and_high_bits [of "0xe0" 5 b]
    and_high_bits [of "0xf0" 4 b] and_high_bits [of "0xf8" 3 b]
  by (simp_all add: mask_eq_exp_minus_1)

lemma continuation_byte_iff: "is_utf8_continuation_byte b \<longleftrightarrow> 128 \<le> unat b \<and> unat b < 192"
proof -
  have "is_utf8_continuation_byte b \<longleftrightarrow> unat b - unat b mod 64 = 128"
    by (simp add: is_utf8_continuation_byte_def utf8_cont_byte_mask_def utf8_cont_byte_value_def
        word_unat_eq_iff unat_and_masks)
  then show ?thesis using low_part_clear [of 64 "unat b" 2] by simp
qed

lemma sequence_size_eq:
  "utf8_sequence_size b =
     (if unat b < 128 then 1 else if unat b < 192 then 0 else if unat b < 224 then 2
      else if unat b < 240 then 3 else if unat b < 248 then 4 else 0)"
proof -
  have "unat b - unat b mod 128 = 0 \<longleftrightarrow> unat b < 128"
    "unat b - unat b mod 32 = 192 \<longleftrightarrow> 192 \<le> unat b \<and> unat b < 224"
    "unat b - unat b mod 16 = 224 \<longleftrightarrow> 224 \<le> unat b \<and> unat b < 240"
    "unat b - unat b mod 8 = 240 \<longleftrightarrow> 240 \<le> unat b \<and> unat b < 248"
    using low_part_clear [of 128 "unat b" 0] low_part_clear [of 32 "unat b" 6]
      low_part_clear [of 16 "unat b" 14] low_part_clear [of 8 "unat b" 30] by simp_all
  then show ?thesis
    by (simp add: utf8_sequence_size_def utf8_masks_values_def mask_matches_def word_unat_eq_iff
        unat_and_masks)
qed

lemma cast_low_bits:
  fixes cp :: codepoint
  shows "ucast (cp AND NOT 0xc0) = (ucast (take_bit 6 cp) :: u8)"
    "ucast (cp AND NOT 0xe0) = (ucast (take_bit 5 cp) :: u8)"
    "ucast (cp AND NOT 0xf0) = (ucast (take_bit 4 cp) :: u8)"
    "ucast (cp AND NOT 0xf8) = (ucast (take_bit 3 cp) :: u8)"
  by (rule bit_word_eqI, auto simp: bit_simps bit_block_consts)+

lemma byte_payload:
  fixes b :: u8
  shows "(ucast b :: codepoint) AND NOT 0x80 = take_bit 7 (ucast b)"
    "(ucast b :: codepoint) AND NOT 0xc0 = take_bit 6 (ucast b)"
    "(ucast b :: codepoint) AND NOT 0xe0 = take_bit 5 (ucast b)"
    "(ucast b :: codepoint) AND NOT 0xf0 = take_bit 4 (ucast b)"
    "(ucast b :: codepoint) AND NOT 0xf8 = take_bit 3 (ucast b)"
  by (rule bit_word_eqI, auto simp: bit_simps bit_block_consts dest: bit_imp_le_length)+

lemmas low_bits = cast_low_bits [simplified] byte_payload [simplified]

lemma tagged_byte:
  fixes x :: codepoint and tag :: u8
  assumes "k \<le> 7" and "unat tag mod 2 ^ k = 0" and "unat tag + 2 ^ k \<le> 256"
  shows "unat (ucast (take_bit k x) OR tag) = unat tag + unat x mod 2 ^ k"
proof -
  have lt: "unat x mod 2 ^ k < 2 ^ k" by simp
  then have "unat x mod 2 ^ k < 256" using assms(3) by linarith
  then have v: "unat (ucast (take_bit k x) :: u8) = unat x mod 2 ^ k"
    by (simp add: word_arith)
  show ?thesis
    using unat_or_disjoint [of "ucast (take_bit k x)" k tag] v lt assms(2,3) by simp
qed

lemma unat_cont_byte: "unat (cont_byte cp) = 128 + unat cp mod 64"
  using tagged_byte [of 6 "0x80" cp]
  by (simp add: cont_byte_def utf8_cont_byte_mask_def utf8_cont_byte_value_def low_bits)

lemma unat_lead_byte:
  "unat (lead_byte 1 cp) = 192 + unat cp mod 32" "unat (lead_byte 2 cp) = 224 + unat cp mod 16"
  "unat (lead_byte 3 cp) = 240 + unat cp mod 8"
  using tagged_byte [of 5 "0xc0" cp] tagged_byte [of 4 "0xe0" cp] tagged_byte [of 3 "0xf0" cp]
  by (simp_all add: lead_byte_def utf8_masks_values_def low_bits)

lemma unat_lead_bits:
  "unat (lead_bits 1 b) = unat b mod 128" "unat (lead_bits 2 b) = unat b mod 32"
  "unat (lead_bits 3 b) = unat b mod 16" "unat (lead_bits 4 b) = unat b mod 8"
  by (simp_all add: lead_bits_def utf8_masks_values_def low_bits unat_take_bit)

lemma unat_cont_bits:
  assumes "unat cp < 2 ^ 26"
  shows "unat (cont_bits cp b) = unat cp * 64 + unat b mod 64"
proof -
  have hi: "unat (push_bit 6 cp) = unat cp * 64"
    using assms by (simp add: word_arith)
  have lo: "unat (take_bit 6 (ucast b :: codepoint)) = unat b mod 64"
    by (simp add: unat_take_bit)
  have "unat b mod 64 < 64" by simp
  then have "unat (take_bit 6 (ucast b) OR push_bit 6 cp) = unat b mod 64 + unat cp * 64"
    using unat_or_disjoint [of "take_bit 6 (ucast b)" 6 "push_bit 6 cp"] hi lo assms by simp
  then show ?thesis
    by (simp add: cont_bits_def utf8_cont_byte_mask_def low_bits or.commute)
qed

section \<open>The table of the standard\<close>

text \<open>The code units of a code point, as RFC 3629 lays them out.\<close>

definition utf8_nat :: "nat \<Rightarrow> nat list" where
  "utf8_nat v =
     (if v < 0x80 then [v]
      else if v < 0x800 then [192 + v div 64, 128 + v mod 64]
      else if v < 0x10000 then [224 + v div 64 div 64, 128 + v div 64 mod 64, 128 + v mod 64]
      else [240 + v div 64 div 64 div 64, 128 + v div 64 div 64 mod 64, 128 + v div 64 mod 64,
            128 + v mod 64])"

definition utf8_units :: "codepoint \<Rightarrow> u8 list" where
  "utf8_units cp = map of_nat (utf8_nat (unat cp))"

lemma units_eqI: "map unat bs = utf8_nat (unat cp) \<Longrightarrow> utf8_units cp = bs"
  unfolding utf8_units_def by (auto dest!: sym [of _ "utf8_nat (unat cp)"] simp: comp_def)

lemma codepoint_bounds:
  fixes cp :: codepoint
  shows "cp \<le> 0x7f \<longleftrightarrow> unat cp < 0x80" "cp \<le> 0x7ff \<longleftrightarrow> unat cp < 0x800"
    "cp \<le> 0xffff \<longleftrightarrow> unat cp < 0x10000" "cp \<le> 0x10ffff \<longleftrightarrow> unat cp < 0x110000"
  by (auto simp: word_le_nat_alt)

theorem utf8_encode_unchecked_units:
  assumes "is_valid_codepoint cp"
  shows "utf8_encode_unchecked cp = Inr (utf8_units cp)"
proof -
  let ?v = "unat cp"
  have v: "?v \<le> 0x10ffff" using assms by (simp add: valid_codepoint_unat)
  have shifts: "unat (drop_bit 6 cp) = ?v div 64" "unat (drop_bit 12 cp) = ?v div 64 div 64"
    "unat (drop_bit 18 cp) = ?v div 64 div 64 div 64"
    by (simp_all add: unat_drop_bit div_mult2_eq [symmetric])
  consider "?v < 0x80" | "0x80 \<le> ?v" "?v < 0x800" | "0x800 \<le> ?v" "?v < 0x10000"
    | "0x10000 \<le> ?v" by linarith
  then show ?thesis
  proof cases
    case 1
    then have "utf8_units cp = [ucast cp]"
      by (intro units_eqI) (simp add: utf8_nat_def word_arith)
    with 1 assms show ?thesis by (simp add: utf8_encode_unchecked_def codepoint_bounds)
  next
    case 2
    then have "?v div 64 < 32" by simp
    with 2 have "utf8_units cp = [lead_byte 1 (drop_bit 6 cp), cont_byte cp]"
      by (intro units_eqI)
        (simp add: utf8_nat_def unat_lead_byte unat_cont_byte shifts del: One_nat_def)
    with 2 assms show ?thesis by (simp add: utf8_encode_unchecked_def codepoint_bounds)
  next
    case 3
    then have "?v div 64 div 64 < 16" by simp
    with 3 have "utf8_units cp =
        [lead_byte 2 (drop_bit 6 (drop_bit 6 cp)), cont_byte (drop_bit 6 cp), cont_byte cp]"
      by (intro units_eqI) (simp add: utf8_nat_def unat_lead_byte unat_cont_byte shifts)
    with 3 assms show ?thesis by (simp add: utf8_encode_unchecked_def codepoint_bounds)
  next
    case 4
    have "?v div 64 div 64 div 64 < 8" using v by simp
    with 4 have "utf8_units cp = [lead_byte 3 (drop_bit 6 (drop_bit 6 (drop_bit 6 cp))),
        cont_byte (drop_bit 6 (drop_bit 6 cp)), cont_byte (drop_bit 6 cp), cont_byte cp]"
      by (intro units_eqI) (simp add: utf8_nat_def unat_lead_byte unat_cont_byte shifts)
    with 4 v assms show ?thesis
      by (simp add: utf8_encode_unchecked_def codepoint_bounds max_utf_codepoint_def)
  qed
qed

lemma utf8_codepoint_size_units:
  assumes "is_valid_codepoint cp"
  shows "utf8_codepoint_size cp = Inr (length (utf8_units cp))"
  using assms
  by (auto simp: utf8_codepoint_size_def utf8_units_def utf8_nat_def codepoint_bounds
      max_utf_codepoint_def valid_codepoint_unat)

lemma utf8_encode_units:
  assumes "is_valid_codepoint cp"
  shows "utf8_encode cp n = Inr (if length (utf8_units cp) > n then [] else utf8_units cp)"
  using assms
  by (simp add: utf8_encode_def utf8_codepoint_size_units utf8_encode_unchecked_units)

section \<open>Decoding\<close>

definition utf8_value :: "u8 \<Rightarrow> u8 list \<Rightarrow> codepoint" where
  "utf8_value b cs = foldl cont_bits (lead_bits (length cs + 1) b) cs"

abbreviation all_cont :: "u8 list \<Rightarrow> bool" where
  "all_cont cs \<equiv> list_all is_utf8_continuation_byte cs"

lemma cont_loop_eq:
  "k = length cs \<Longrightarrow> utf8_cont_loop k (cs @ bs) cp =
     Inr (if all_cont cs then Some (foldl cont_bits cp cs) else None)"
  by (induction cs arbitrary: k cp) auto

lemma truncated_loop_eq:
  "k = length bs \<Longrightarrow> utf8_truncated_loop k bs =
     Inr (if all_cont bs then No_buffer_space else Illegal_byte_sequence)"
  by (induction bs arbitrary: k) auto

lemma unchecked_loop_eq:
  "k = length cs \<Longrightarrow> utf8_unchecked_loop k (cs @ bs) cp = Inr (foldl cont_bits cp cs, bs)"
  by (induction cs arbitrary: k cp) auto

lemma sequence_size_le: "utf8_sequence_size b \<le> 4"
  by (simp add: sequence_size_eq)

text \<open>All outcomes of the decoder on the leading byte \<open>b\<close> of a sequence that is there in full.\<close>

lemma utf8_decode_full:
  assumes "utf8_sequence_size b = length cs + 1"
  shows "utf8_decode ec (b # cs @ bs) =
    (if all_cont cs \<and> is_valid_codepoint (utf8_value b cs)
     then if length (utf8_units (utf8_value b cs)) = length cs + 1
          then Inr (None, utf8_value b cs, bs)
          else Inr (Some Illegal_byte_sequence, 0, take (length bs) (b # cs @ bs))
     else Inr (Some Illegal_byte_sequence, 0, b # cs @ bs))"
  using assms sequence_size_le [of b]
  by (simp add: utf8_decode_def utf8_masks_values_def cont_loop_eq validate_codepoint_eq
      utf8_codepoint_size_units Let_def utf8_value_def)

lemma utf8_decode_short:
  assumes "length (b # bs) < utf8_sequence_size b"
  shows "utf8_decode ec (b # bs) =
    Inr (Some (if all_cont bs then No_buffer_space else Illegal_byte_sequence), 0, b # bs)"
  using assms sequence_size_le [of b]
  by (simp add: utf8_decode_def utf8_masks_values_def truncated_loop_eq Let_def)

lemma utf8_decode_no_lead:
  "utf8_sequence_size b = 0 \<Longrightarrow> utf8_decode ec (b # bs) = Inr (Some Illegal_byte_sequence, 0, b # bs)"
  by (simp add: utf8_decode_def)

text \<open>A case analysis of the input by what its leading byte announces.\<close>

lemma utf8_input_cases:
  obtains (empty) "bs = []"
  | (no_lead) b rest where "bs = b # rest" "utf8_sequence_size b = 0"
  | (short) b rest where "bs = b # rest" "length bs < utf8_sequence_size b"
  | (full) b cs rest where "bs = b # cs @ rest" "utf8_sequence_size b = length cs + 1"
proof (cases bs)
  case (Cons b rest)
  let ?k = "utf8_sequence_size b"
  consider "?k = 0" | "length bs < ?k" | "?k \<noteq> 0" "?k \<le> length bs" by linarith
  then show thesis
  proof cases
    case 3
    then have "rest = take (?k - 1) rest @ drop (?k - 1) rest" "length (take (?k - 1) rest) + 1 = ?k"
      using Cons by auto
    then show thesis using full [of b "take (?k - 1) rest" "drop (?k - 1) rest"] Cons by simp
  qed (use no_lead short Cons in auto)
qed (use empty in simp)

text \<open>The decoder always returns, and never with more input than it was given.\<close>

lemma utf8_decode_total:
  "\<exists>ec' cp bs'. utf8_decode ec bs = Inr (ec', cp, bs') \<and> length bs' \<le> length bs"
proof (cases bs rule: utf8_input_cases)
  case empty
  then show ?thesis by (simp add: utf8_decode_def)
next
  case (no_lead b rest)
  then show ?thesis by (simp add: utf8_decode_no_lead)
next
  case (short b rest)
  then show ?thesis using utf8_decode_short [of b rest ec] by simp
next
  case (full b cs rest)
  then show ?thesis using utf8_decode_full [of b cs ec rest] by (auto split: if_splits)
qed

section \<open>The decoder inverts the encoder\<close>

lemma payloads:
  "192 \<le> unat b \<Longrightarrow> unat b < 224 \<Longrightarrow> unat (lead_bits 2 b) = unat b - 192"
  "224 \<le> unat b \<Longrightarrow> unat b < 240 \<Longrightarrow> unat (lead_bits 3 b) = unat b - 224"
  "240 \<le> unat b \<Longrightarrow> unat b < 248 \<Longrightarrow> unat (lead_bits 4 b) = unat b - 240"
  using mod_in_block [of 32 6 "unat b"] mod_in_block [of 16 14 "unat b"] mod_in_block [of 8 30 "unat b"]
  by (simp_all add: unat_lead_bits)

lemma unat_cont_step:
  assumes "unat cp < 2 ^ 20" and "is_utf8_continuation_byte c"
  shows "unat (cont_bits cp c) = unat cp * 64 + (unat c - 128)"
proof -
  have "unat c mod 64 = unat c - 128"
    using assms(2) mod_in_block [of 64 2 "unat c"] by (simp add: continuation_byte_iff)
  then show ?thesis using assms(1) by (simp add: unat_cont_bits)
qed

lemma utf8_value_simps:
  "utf8_value b [] = lead_bits 1 b" "utf8_value b [c1] = cont_bits (lead_bits 2 b) c1"
  "utf8_value b [c1, c2] = cont_bits (cont_bits (lead_bits 3 b) c1) c2"
  "utf8_value b [c1, c2, c3] = cont_bits (cont_bits (cont_bits (lead_bits 4 b) c1) c2) c3"
  by (simp_all add: utf8_value_def eval_nat_numeral)

lemma unat_utf8_value:
  "192 \<le> unat b \<Longrightarrow> unat b < 224 \<Longrightarrow> all_cont [c1] \<Longrightarrow>
     unat (utf8_value b [c1]) = (unat b - 192) * 64 + (unat c1 - 128)"
  "224 \<le> unat b \<Longrightarrow> unat b < 240 \<Longrightarrow> all_cont [c1, c2] \<Longrightarrow>
     unat (utf8_value b [c1, c2]) = ((unat b - 224) * 64 + (unat c1 - 128)) * 64 + (unat c2 - 128)"
  "240 \<le> unat b \<Longrightarrow> unat b < 248 \<Longrightarrow> all_cont [c1, c2, c3] \<Longrightarrow>
     unat (utf8_value b [c1, c2, c3]) =
       (((unat b - 240) * 64 + (unat c1 - 128)) * 64 + (unat c2 - 128)) * 64 + (unat c3 - 128)"
proof -
  assume b: "192 \<le> unat b" "unat b < 224" and c: "all_cont [c1]"
  show "unat (utf8_value b [c1]) = (unat b - 192) * 64 + (unat c1 - 128)"
    using payloads(1) [OF b] b c by (simp add: utf8_value_simps unat_cont_step)
next
  assume b: "224 \<le> unat b" "unat b < 240" and c: "all_cont [c1, c2]"
  then have "unat (cont_bits (lead_bits 3 b) c1) = (unat b - 224) * 64 + (unat c1 - 128)"
    using payloads(2) [OF b] by (simp add: unat_cont_step)
  moreover have "unat c1 < 192" using c by (simp add: continuation_byte_iff)
  ultimately show "unat (utf8_value b [c1, c2])
      = ((unat b - 224) * 64 + (unat c1 - 128)) * 64 + (unat c2 - 128)"
    using b c by (simp add: utf8_value_simps unat_cont_step)
next
  assume b: "240 \<le> unat b" "unat b < 248" and c: "all_cont [c1, c2, c3]"
  then have "unat (cont_bits (lead_bits 4 b) c1) = (unat b - 240) * 64 + (unat c1 - 128)"
    using payloads(3) [OF b] by (simp add: unat_cont_step)
  moreover have "unat c1 < 192" "unat c2 < 192" using c by (simp_all add: continuation_byte_iff)
  ultimately have "unat (cont_bits (cont_bits (lead_bits 4 b) c1) c2) =
      ((unat b - 240) * 64 + (unat c1 - 128)) * 64 + (unat c2 - 128)"
    using b c by (simp add: unat_cont_step)
  then show "unat (utf8_value b [c1, c2, c3]) =
       (((unat b - 240) * 64 + (unat c1 - 128)) * 64 + (unat c2 - 128)) * 64 + (unat c3 - 128)"
    using b c \<open>unat c1 < 192\<close> \<open>unat c2 < 192\<close> by (simp add: utf8_value_simps unat_cont_step)
qed

lemma digit64:
  fixes a y :: nat
  shows "y < 64 \<Longrightarrow> (a * 64 + y) div 64 = a" "y < 64 \<Longrightarrow> (a * 64 + y) mod 64 = y"
  by simp_all

lemma utf8_nat_of_length:
  "length (utf8_nat v) = 1 \<Longrightarrow> utf8_nat v = [v]"
  "length (utf8_nat v) = 2 \<Longrightarrow> utf8_nat v = [192 + v div 64, 128 + v mod 64]"
  "length (utf8_nat v) = 3 \<Longrightarrow>
     utf8_nat v = [224 + v div 64 div 64, 128 + v div 64 mod 64, 128 + v mod 64]"
  "length (utf8_nat v) = 4 \<Longrightarrow>
     utf8_nat v = [240 + v div 64 div 64 div 64, 128 + v div 64 div 64 mod 64,
       128 + v div 64 mod 64, 128 + v mod 64]"
  by (simp_all add: utf8_nat_def split: if_splits)

lemma lists_of_length:
  "length cs = Suc 0 \<longleftrightarrow> (\<exists>a. cs = [a])" "length cs = 2 \<longleftrightarrow> (\<exists>a b. cs = [a, b])"
  "length cs = 3 \<longleftrightarrow> (\<exists>a b c. cs = [a, b, c])"
  by (auto simp: length_Suc_conv numeral_2_eq_2 numeral_3_eq_3)

text \<open>A sequence of the length its value needs is the one of the table.\<close>

lemma utf8_units_of_value:
  assumes size: "utf8_sequence_size b = length cs + 1" and cont: "all_cont cs"
    and len: "length (utf8_units (utf8_value b cs)) = length cs + 1"
  shows "utf8_units (utf8_value b cs) = b # cs"
proof (rule units_eqI)
  let ?v = "unat (utf8_value b cs)"
  have n: "length (utf8_nat ?v) = length cs + 1" using len by (simp add: utf8_units_def)
  consider "cs = []" "unat b < 128" | c1 where "cs = [c1]" "192 \<le> unat b" "unat b < 224"
    | c1 c2 where "cs = [c1, c2]" "224 \<le> unat b" "unat b < 240"
    | c1 c2 c3 where "cs = [c1, c2, c3]" "240 \<le> unat b" "unat b < 248"
    using size lists_of_length [of cs] by (auto simp: sequence_size_eq split: if_splits)
  then show "map unat (b # cs) = utf8_nat ?v"
  proof cases
    case 1
    then show ?thesis by (simp add: utf8_value_simps unat_lead_bits utf8_nat_def del: One_nat_def)
  next
    case (2 c1)
    obtain x y where x: "unat b = 192 + x" "unat c1 = 128 + y" "x < 32" "y < 64"
      using 2 cont by (auto simp: continuation_byte_iff dest!: le_Suc_ex)
    have "?v = x * 64 + y" using unat_utf8_value(1) [of b c1] 2 cont x by simp
    then have "?v div 64 = x" "?v mod 64 = y" using x(4) by (simp_all only: digit64)
    with x(1,2) 2 show ?thesis using utf8_nat_of_length(2) [of ?v] n by simp
  next
    case (3 c1 c2)
    obtain x y z where x: "unat b = 224 + x" "unat c1 = 128 + y" "unat c2 = 128 + z"
        "x < 16" "y < 64" "z < 64"
      using 3 cont by (auto simp: continuation_byte_iff dest!: le_Suc_ex)
    have "?v = (x * 64 + y) * 64 + z" using unat_utf8_value(2) [of b c1 c2] 3 cont x by simp
    then have d: "?v div 64 = x * 64 + y" "?v mod 64 = z" using x(6) by (simp_all only: digit64)
    from d(1) x(5) have "?v div 64 div 64 = x" "?v div 64 mod 64 = y" by (simp_all only: digit64)
    with d(2) x(1-3) 3 show ?thesis using utf8_nat_of_length(3) [of ?v] n by simp
  next
    case (4 c1 c2 c3)
    obtain x y z w where x: "unat b = 240 + x" "unat c1 = 128 + y" "unat c2 = 128 + z"
        "unat c3 = 128 + w" "x < 8" "y < 64" "z < 64" "w < 64"
      using 4 cont by (auto simp: continuation_byte_iff dest!: le_Suc_ex)
    have "?v = ((x * 64 + y) * 64 + z) * 64 + w"
      using unat_utf8_value(3) [of b c1 c2 c3] 4 cont x by simp
    then have d: "?v div 64 = (x * 64 + y) * 64 + z" "?v mod 64 = w"
      using x(8) by (simp_all only: digit64)
    from d(1) x(7) have e: "?v div 64 div 64 = x * 64 + y" "?v div 64 mod 64 = z"
      by (simp_all only: digit64)
    from e(1) x(6) have "?v div 64 div 64 div 64 = x" "?v div 64 div 64 mod 64 = y"
      by (simp_all only: digit64)
    with d(2) e(2) x(1-4) 4 show ?thesis using utf8_nat_of_length(4) [of ?v] n by simp
  qed
qed

lemma utf8_units_shape:
  assumes "is_valid_codepoint cp"
  obtains b cs where "utf8_units cp = b # cs" "utf8_sequence_size b = length cs + 1" "all_cont cs"
    "utf8_value b cs = cp"
proof -
  let ?v = "unat cp"
  define w where "w = (of_nat :: nat \<Rightarrow> u8)"
  have u8: "x < 256 \<Longrightarrow> unat (w x) = x" for x by (simp add: w_def unat_of_nat)
  have units: "utf8_units cp = map w (utf8_nat ?v)" by (simp add: utf8_units_def w_def)
  have c: "all_cont [w (128 + x mod 64)]" "unat (w (128 + x mod 64)) = 128 + x mod 64" for x
  proof -
    have "x mod 64 < 64" by simp
    then show u: "unat (w (128 + x mod 64)) = 128 + x mod 64" by (intro u8) linarith
    then show "all_cont [w (128 + x mod 64)]" by (simp add: continuation_byte_iff)
  qed
  have v: "?v \<le> 0x10ffff" using assms by (simp add: valid_codepoint_unat)
  consider "?v < 0x80" | "0x80 \<le> ?v" "?v < 0x800" | "0x800 \<le> ?v" "?v < 0x10000"
    | "0x10000 \<le> ?v" by linarith
  then show thesis
  proof cases
    case 1
    have u: "unat (w ?v) = ?v" using 1 by (intro u8) simp
    have "utf8_value (w ?v) [] = cp"
      using 1 u by (simp add: utf8_value_simps word_unat_eq_iff unat_lead_bits del: One_nat_def)
    moreover have "utf8_sequence_size (w ?v) = 1" using 1 u by (simp add: sequence_size_eq)
    moreover have "utf8_units cp = [w ?v]" using 1 by (simp add: units utf8_nat_def)
    ultimately show thesis using that [of "w ?v" "[]"] by simp
  next
    case 2
    let ?b = "w (192 + ?v div 64)" and ?c = "w (128 + ?v mod 64)"
    have b: "?v div 64 < 32" "unat ?b = 192 + ?v div 64" using 2 by (simp_all add: u8)
    have cs: "all_cont [?c]" using c(1) by simp
    have "192 \<le> unat ?b" "unat ?b < 224" using b by simp_all
    from unat_utf8_value(1) [OF this cs] have "utf8_value ?b [?c] = cp"
      unfolding word_unat_eq_iff b(2) c(2) add_diff_cancel_left' div_mult_mod_eq .
    then show thesis
      using that [of ?b "[?c]"] 2 b cs by (simp add: units utf8_nat_def sequence_size_eq)
  next
    case 3
    let ?b = "w (224 + ?v div 64 div 64)" and ?c1 = "w (128 + ?v div 64 mod 64)"
      and ?c2 = "w (128 + ?v mod 64)"
    have b: "?v div 64 div 64 < 16" "unat ?b = 224 + ?v div 64 div 64"
      using 3 by (simp_all add: u8)
    have cs: "all_cont [?c1, ?c2]" using c(1) by simp
    have "224 \<le> unat ?b" "unat ?b < 240" using b by simp_all
    from unat_utf8_value(2) [OF this cs] have "utf8_value ?b [?c1, ?c2] = cp"
      unfolding word_unat_eq_iff b(2) c(2) add_diff_cancel_left' div_mult_mod_eq .
    then show thesis
      using that [of ?b "[?c1, ?c2]"] 3 b cs
      by (simp add: units utf8_nat_def sequence_size_eq)
  next
    case 4
    let ?b = "w (240 + ?v div 64 div 64 div 64)" and ?c1 = "w (128 + ?v div 64 div 64 mod 64)"
      and ?c2 = "w (128 + ?v div 64 mod 64)" and ?c3 = "w (128 + ?v mod 64)"
    have b: "?v div 64 div 64 div 64 < 8" "unat ?b = 240 + ?v div 64 div 64 div 64"
      using v by (simp_all add: u8)
    have cs: "all_cont [?c1, ?c2, ?c3]" using c(1) by simp
    have "240 \<le> unat ?b" "unat ?b < 248" using b by simp_all
    from unat_utf8_value(3) [OF this cs] have "utf8_value ?b [?c1, ?c2, ?c3] = cp"
      unfolding word_unat_eq_iff b(2) c(2) add_diff_cancel_left' div_mult_mod_eq .
    then show thesis
      using that [of ?b "[?c1, ?c2, ?c3]"] 4 b cs
      by (simp add: units utf8_nat_def sequence_size_eq)
  qed
qed

lemma utf8_decode_units:
  assumes "is_valid_codepoint cp"
  shows "utf8_decode ec (utf8_units cp @ bs) = Inr (None, cp, bs)"
    and "utf8_decode_unchecked (utf8_units cp @ bs) = Inr (cp, bs)" and "utf8_units cp \<noteq> []"
proof -
  obtain b cs where u: "utf8_units cp = b # cs" "utf8_sequence_size b = length cs + 1" "all_cont cs"
      "utf8_value b cs = cp"
    using utf8_units_shape [OF assms] .
  show "utf8_decode ec (utf8_units cp @ bs) = Inr (None, cp, bs)"
    using utf8_decode_full [OF u(2), of ec bs] u assms by simp
  show "utf8_decode_unchecked (utf8_units cp @ bs) = Inr (cp, bs)"
    using u by (simp add: utf8_decode_unchecked_def unchecked_loop_eq utf8_value_def Let_def)
  show "utf8_units cp \<noteq> []" using u(1) by simp
qed

lemma utf8_decode_sound:
  assumes "utf8_decode ec bs = Inr (None, cp, bs')"
  shows "is_valid_codepoint cp \<and> bs = utf8_units cp @ bs'"
proof (cases bs rule: utf8_input_cases)
  case empty
  then show ?thesis using assms by (simp add: utf8_decode_def)
next
  case (no_lead b rest)
  then show ?thesis using assms by (simp add: utf8_decode_no_lead)
next
  case (short b rest)
  then show ?thesis using assms utf8_decode_short [of b rest ec] by simp
next
  case (full b cs rest)
  then show ?thesis
    using assms utf8_decode_full [OF full(2), of ec rest] utf8_units_of_value [OF full(2)]
    by (auto split: if_splits)
qed

end
