(* ===== verification/Utf16_Laws.thy ===== *)
theory Utf16_Laws
  imports Utf8_Laws
begin

text \<open>
  Byte order, UTF-16, UTF-32 and Windows-1256: the encoders against their tables and the
  decoders as inverses, for every reader and writer whose two directions undo each other.
\<close>

section \<open>Byte order\<close>

lemma bswap16_involution [simp]: "bswap16 (bswap16 v) = v"
  by (rule bit_word_eqI) (auto simp: bswap16_def bit_simps dest: bit_imp_le_length)

lemma bit_bswap32:
  assumes "n < 32"
  shows "bit (bswap32 v) n \<longleftrightarrow>
    bit v (if n < 8 then n + 24 else if n < 16 then n + 8 else if n < 24 then n - 8 else n - 24)"
proof -
  have "\<not> bit v (n + 24)" if "8 \<le> n" using bit_imp_le_length [of v "n + 24"] that by auto
  then show ?thesis
    using assms by (auto simp: bswap32_def bit_simps bit_block_consts add.commute)
qed

lemma bswap32_involution [simp]: "bswap32 (bswap32 v) = v"
proof (rule bit_word_eqI)
  fix n assume "n < LENGTH(32)"
  then consider "n < 8" | "8 \<le> n" "n < 16" | "16 \<le> n" "n < 24" | "24 \<le> n" "n < 32"
    by fastforce
  then show "bit (bswap32 (bswap32 v)) n = bit v n" by cases (auto simp: bit_bswap32 dest!: le_Suc_ex)
qed

text \<open>What the converters rely on: reading back what was written, and writing what was read.\<close>

locale byte_order =
  fixes rw :: "'w reader_writer"
  assumes read_write [simp]: "rw_read rw (rw_write rw v) = v"
    and write_read [simp]: "rw_write rw (rw_read rw v) = v"

lemmas reader_writer_defs = le_reader_writer_def be_reader_writer_def native_reader_writer_def
  read_native_value_def write_native_value_def read_le_value_def write_le_value_def
  read_be_value_def write_be_value_def

text \<open>The same contract at the two unit widths, where the converters prove their laws.\<close>

locale utf16_order = byte_order rw for rw :: "u16 reader_writer"

locale utf32_order = byte_order rw for rw :: "32 word reader_writer"

section \<open>Surrogates as numbers\<close>

lemma unat_u16 [simp]: "unat (w :: u16) < 65536"
proof -
  have "unat w < 2 ^ LENGTH(16)" by (rule unsigned_less)
  then show ?thesis by simp
qed

lemma unat_widen16 [simp]: "unat (ucast (w :: u16) :: codepoint) = unat w"
proof -
  have "unat w < 4294967296" using unat_u16 [of w] by linarith
  then show ?thesis by (simp add: word_arith)
qed

lemma surrogate_masks:
  "utf16_surrogate_mask = mask 10" "utf16_surrogate_value_mask = NOT (mask 10)"
  by (simp_all add: utf16_surrogate_mask_def utf16_surrogate_value_mask_def mask_eq_exp_minus_1)

lemma surrogate_iff:
  "w AND utf16_surrogate_value_mask = utf16_high_surrogate_value \<longleftrightarrow> 0xd800 \<le> unat w \<and> unat w < 0xdc00"
  "w AND utf16_surrogate_value_mask = utf16_low_surrogate_value \<longleftrightarrow> 0xdc00 \<le> unat w \<and> unat w < 0xe000"
  using low_part_clear [of 1024 "unat w" 54] low_part_clear [of 1024 "unat w" 55]
    unat_and_not_mask [of w 10]
  by (simp_all add: surrogate_masks word_unat_eq_iff utf16_high_surrogate_value_def
      utf16_low_surrogate_value_def)

lemma unat_surrogate_pair:
  "unat (surrogate_pair w1 w2) = (unat w1 mod 1024) * 1024 + unat w2 mod 1024 + 0x10000"
proof -
  have f: "unat (w AND utf16_surrogate_mask) = unat w mod 1024" for w :: u16
    using unat_take_bit [of 10 w] by (simp add: surrogate_masks take_bit_eq_mask)
  let ?a = "push_bit 10 (ucast (w1 AND utf16_surrogate_mask) :: codepoint)"
    and ?b = "ucast (w2 AND utf16_surrogate_mask) :: codepoint"
  have lt: "unat w1 mod 1024 < 1024" "unat w2 mod 1024 < 1024" by simp_all
  have a: "unat ?a = (unat w1 mod 1024) * 1024" using lt by (simp add: unat_push_bit f)
  have b: "unat ?b = unat w2 mod 1024" by (simp add: f)
  have "unat (?b OR ?a) = unat w2 mod 1024 + (unat w1 mod 1024) * 1024"
    using unat_or_disjoint [of ?b 10 ?a] a b lt by simp
  then have "unat (?a OR ?b) = (unat w1 mod 1024) * 1024 + unat w2 mod 1024" by (simp add: or.commute)
  then show ?thesis using lt by (simp add: surrogate_pair_def unat_word_ariths Let_def)
qed

section \<open>UTF-16\<close>

definition utf16_nat :: "nat \<Rightarrow> nat list" where
  "utf16_nat v =
     (if v < 0x10000 then [v]
      else [0xd800 + (v - 0x10000) div 1024, 0xdc00 + (v - 0x10000) mod 1024])"

definition utf16_units :: "u16 reader_writer \<Rightarrow> codepoint \<Rightarrow> u16 list" where
  "utf16_units rw cp = map (\<lambda>x. rw_write rw (of_nat x)) (utf16_nat (unat cp))"

lemma utf16_unitsI:
  assumes "map unat us = utf16_nat (unat cp)"
  shows "utf16_units rw cp = map (rw_write rw) us"
  using arg_cong [OF assms, of "map (\<lambda>x. rw_write rw (of_nat x))"]
  by (simp add: utf16_units_def comp_def)

lemma utf16_encode_unchecked_units:
  assumes "is_valid_codepoint cp"
  shows "utf16_encode_unchecked rw cp = Inr (utf16_units rw cp)"
proof (cases "unat cp < 0x10000")
  case True
  then have "utf16_units rw cp = map (rw_write rw) [ucast cp]"
    by (intro utf16_unitsI) (simp add: utf16_nat_def word_arith)
  with True assms show ?thesis by (simp add: utf16_encode_unchecked_def codepoint_bounds)
next
  case False
  let ?v = "unat cp - 0x10000" and ?cp1 = "cp - 0x10000"
  have "unat cp \<le> 0x10ffff" using assms by (simp add: valid_codepoint_unat)
  then have v: "?v < 1024 * 1024" by simp
  have u: "unat ?cp1 = ?v" using False by (simp add: unat_sub word_le_nat_alt)
  then have le: "?cp1 \<le> drop_bit 12 (- 1)"
    using v by (simp add: word_le_nat_alt mask_eq_exp_minus_1)
  have "unat (ucast (ucast utf16_high_surrogate_value + drop_bit 10 ?cp1) :: u16)
      = 0xd800 + ?v div 1024"
  proof -
    have "?v div 1024 < 1024" using v by simp
    then show ?thesis
      using u by (simp add: word_arith unat_word_ariths utf16_high_surrogate_value_def)
  qed
  moreover have "unat (ucast (ucast utf16_low_surrogate_value + (?cp1 AND ucast utf16_surrogate_mask)) :: u16)
      = 0xdc00 + ?v mod 1024"
  proof -
    have "?v mod 1024 < 1024" by simp
    moreover have "?cp1 AND ucast utf16_surrogate_mask = take_bit 10 ?cp1"
      by (simp add: surrogate_masks take_bit_eq_mask mask_eq_exp_minus_1)
    ultimately show ?thesis
      using u by (simp add: word_arith unat_word_ariths utf16_low_surrogate_value_def)
  qed
  ultimately have "utf16_units rw cp = map (rw_write rw)
      [ucast (ucast utf16_high_surrogate_value + drop_bit 10 ?cp1),
       ucast (ucast utf16_low_surrogate_value + (?cp1 AND ucast utf16_surrogate_mask))]"
    using False by (intro utf16_unitsI) (simp add: utf16_nat_def)
  then show ?thesis
    using False assms le by (simp add: utf16_encode_unchecked_def codepoint_bounds Let_def)
qed

lemma utf16_codepoint_size_units:
  assumes "is_valid_codepoint cp"
  shows "utf16_codepoint_size cp = Inr (length (utf16_units rw cp))"
proof -
  have "unat cp \<le> 0x10ffff" using assms by (simp add: valid_codepoint_unat)
  then show ?thesis
    using assms
    by (simp add: utf16_codepoint_size_def utf16_units_def utf16_nat_def codepoint_bounds
        max_utf_codepoint_def)
qed

lemma utf16_units_length: "length (utf16_units rw cp) = 1 \<or> length (utf16_units rw cp) = 2"
  by (simp add: utf16_units_def utf16_nat_def)

lemma utf16_encode_units:
  assumes "is_valid_codepoint cp"
  shows "utf16_encode rw cp n = Inr (if length (utf16_units rw cp) > n then [] else utf16_units rw cp)"
  using assms utf16_units_length [of rw cp]
  by (simp add: utf16_encode_def utf16_codepoint_size_units [of cp rw] utf16_encode_unchecked_units)

text \<open>The outcomes of the decoder by the class of the first unit.\<close>

lemma utf16_decode_total:
  "\<exists>ec' cp us'. utf16_decode rw ec us = Inr (ec', cp, us') \<and> length us' \<le> length us"
  by (auto simp: utf16_decode_def Let_def validate_codepoint_eq split: list.splits)

lemma surrogate_pair_valid:
  assumes "0xd800 \<le> unat w1" "unat w1 < 0xdc00" "0xdc00 \<le> unat w2" "unat w2 < 0xe000"
  shows "unat (surrogate_pair w1 w2) = (unat w1 - 0xd800) * 1024 + (unat w2 - 0xdc00) + 0x10000"
    and "is_valid_codepoint (surrogate_pair w1 w2)"
    and "utf16_nat (unat (surrogate_pair w1 w2)) = [unat w1, unat w2]"
proof -
  obtain x y where x: "unat w1 = 0xd800 + x" "unat w2 = 0xdc00 + y" "x < 1024" "y < 1024"
    using assms by (auto dest!: le_Suc_ex)
  have "unat w1 mod 1024 = x" "unat w2 mod 1024 = y"
    using mod_in_block [of 1024 54 "unat w1"] mod_in_block [of 1024 55 "unat w2"] x by simp_all
  then have u: "unat (surrogate_pair w1 w2) = x * 1024 + y + 0x10000"
    using unat_surrogate_pair [of w1 w2] by simp
  then show "unat (surrogate_pair w1 w2) = (unat w1 - 0xd800) * 1024 + (unat w2 - 0xdc00) + 0x10000"
    using x by simp
  show "is_valid_codepoint (surrogate_pair w1 w2)"
    using u x by (simp add: valid_codepoint_unat)
  show "utf16_nat (unat (surrogate_pair w1 w2)) = [unat w1, unat w2]"
    using u x by (simp add: utf16_nat_def)
qed

lemma bmp_valid: "\<not> (0xd800 \<le> unat w \<and> unat w < 0xe000) \<Longrightarrow> is_valid_codepoint (ucast (w :: u16))"
proof -
  assume a: "\<not> (0xd800 \<le> unat w \<and> unat w < 0xe000)"
  have "unat w \<le> 0x10ffff" using unat_u16 [of w] by linarith
  with a show ?thesis by (auto simp: valid_codepoint_unat)
qed

context utf16_order
begin

lemma units_of_reads:
  assumes "map (\<lambda>u. unat (rw_read rw u)) us = utf16_nat (unat cp)"
  shows "utf16_units rw cp = us"
  using utf16_unitsI [of "map (rw_read rw) us" cp rw] assms by (simp add: comp_def)

lemma utf16_sound:
  assumes "utf16_decode rw None us = Inr (None, cp, us')"
  shows "is_valid_codepoint cp \<and> us = utf16_units rw cp @ us'"
proof -
  obtain u rest where us: "us = u # rest" using assms by (cases us) (auto simp: utf16_decode_def)
  let ?w = "rw_read rw u"
  have nl: "\<not> (0xdc00 \<le> unat ?w \<and> unat ?w < 0xe000)"
    using assms us by (auto simp: utf16_decode_def surrogate_iff)
  show ?thesis
  proof (cases "0xd800 \<le> unat ?w \<and> unat ?w < 0xdc00")
    case False
    then have "cp = ucast ?w" "us' = rest"
      using assms us nl by (auto simp: utf16_decode_def surrogate_iff)
    moreover have "utf16_units rw (ucast ?w) = [u]"
      using unat_u16 [of ?w] by (intro units_of_reads) (simp add: utf16_nat_def)
    ultimately show ?thesis using us bmp_valid [of ?w] nl False by auto
  next
    case True
    then obtain v rest2 where r: "rest = v # rest2"
      using assms us nl by (cases rest) (auto simp: utf16_decode_def surrogate_iff)
    let ?x = "rw_read rw v"
    have lo: "0xdc00 \<le> unat ?x \<and> unat ?x < 0xe000"
      using assms us r True by (auto simp: utf16_decode_def surrogate_iff Let_def split: if_splits)
    then have cp: "cp = surrogate_pair ?w ?x" "us' = rest2" "is_valid_codepoint cp"
      using assms us r True nl
      by (auto simp: utf16_decode_def surrogate_iff Let_def validate_codepoint_eq split: if_splits)
    then have "utf16_units rw cp = [u, v]"
      using True lo surrogate_pair_valid(3) [of ?w ?x] by (intro units_of_reads) simp
    with cp us r show ?thesis by simp
  qed
qed

lemma utf16_inverse:
  assumes "is_valid_codepoint cp"
  shows "utf16_decode rw None (utf16_units rw cp @ us) = Inr (None, cp, us)"
    and "utf16_decode_unchecked rw (utf16_units rw cp @ us) = Inr (cp, us)"
proof -
  have "utf16_decode rw None (utf16_units rw cp @ us) = Inr (None, cp, us) \<and>
    utf16_decode_unchecked rw (utf16_units rw cp @ us) = Inr (cp, us)"
  proof (cases "unat cp < 0x10000")
    case True
    then have u: "unat (of_nat (unat cp) :: u16) = unat cp" by (simp only: unat_of_nat) simp
    have "utf16_units rw cp = [rw_write rw (of_nat (unat cp))]"
      using True by (simp add: utf16_units_def utf16_nat_def)
    moreover have "ucast (of_nat (unat cp) :: u16) = cp"
      unfolding word_unat_eq_iff unat_widen16 by (rule u)
    moreover have "\<not> (0xd800 \<le> unat cp \<and> unat cp < 0xe000)"
      using assms by (auto simp: valid_codepoint_unat)
    ultimately show ?thesis
      using u by (auto simp: utf16_decode_def utf16_decode_unchecked_def surrogate_iff Let_def
          simp del: of_nat_unat)
  next
    case False
    let ?v = "unat cp - 0x10000"
    define w1 w2 :: u16 where "w1 = of_nat (0xd800 + ?v div 1024)" and "w2 = of_nat (0xdc00 + ?v mod 1024)"
    have "unat cp \<le> 0x10ffff" using assms by (simp add: valid_codepoint_unat)
    then have d: "?v div 1024 < 1024" "?v mod 1024 < 1024" by simp_all
    then have w: "unat w1 = 0xd800 + ?v div 1024" "unat w2 = 0xdc00 + ?v mod 1024"
      unfolding w1_def w2_def unat_of_nat by (simp_all del: of_nat_add)
    have "unat (surrogate_pair w1 w2) = unat cp"
      using surrogate_pair_valid(1) [of w1 w2] w d False by simp
    then have "surrogate_pair w1 w2 = cp" by (simp add: word_unat_eq_iff)
    moreover have "utf16_units rw cp = [rw_write rw w1, rw_write rw w2]"
      using False by (simp add: utf16_units_def utf16_nat_def w1_def w2_def)
    ultimately show ?thesis
      using w d assms by (simp add: utf16_decode_def utf16_decode_unchecked_def surrogate_iff
          validate_codepoint_eq Let_def)
  qed
  then show "utf16_decode rw None (utf16_units rw cp @ us) = Inr (None, cp, us)"
    and "utf16_decode_unchecked rw (utf16_units rw cp @ us) = Inr (cp, us)" by simp_all
qed

end

section \<open>UTF-32\<close>

context utf32_order
begin

lemma utf32_laws:
  assumes "is_valid_codepoint cp"
  shows "utf32_encode_unchecked rw cp = Inr [rw_write rw cp]"
    and "utf32_codepoint_size cp = Inr 1"
    and "utf32_encode rw cp n = Inr (if 1 > n then [] else [rw_write rw cp])"
    and "utf32_decode rw ec (rw_write rw cp # us) = Inr (None, cp, us)"
    and "utf32_decode_unchecked rw (rw_write rw cp # us) = Inr (cp, us)"
  using assms
  by (simp_all add: utf32_encode_unchecked_def utf32_codepoint_size_def utf32_encode_def
      utf32_decode_def utf32_decode_unchecked_def validate_codepoint_eq)

lemma utf32_decode_sound:
  assumes "utf32_decode rw ec us = Inr (None, cp, us')"
  shows "is_valid_codepoint cp \<and> us = rw_write rw cp # us'"
  using assms by (auto simp: utf32_decode_def validate_codepoint_eq Let_def split: list.splits if_splits)

lemma utf32_decode_total:
  "\<exists>ec' cp us'. utf32_decode rw ec us = Inr (ec', cp, us') \<and> length us' \<le> length us"
  by (auto simp: utf32_decode_def Let_def validate_codepoint_eq split: list.splits)

end

section \<open>Windows-1256\<close>

lemma cp1256_table_facts:
  "length cp1256_to_unicode_table = 128" "distinct cp1256_to_unicode_table"
  "\<forall>u\<in>set cp1256_to_unicode_table. 127 < u \<and> u < 0xd800"
  by (simp_all add: cp1256_to_unicode_table_def)

lemma find_index_from_nth:
  assumes "distinct us" and "k < length us"
  shows "find_index_from i us (ucast (us ! k)) = i + k"
  using assms
proof (induction us arbitrary: i k)
  case (Cons u us)
  show ?case
  proof (cases k)
    case (Suc j)
    then have "us ! j \<in> set us" using Cons.prems by simp
    then have "ucast u \<noteq> (ucast (us ! j) :: codepoint)"
      using Cons.prems(1) by (metis distinct.simps(2) unat_widen16 word_unat_eq_iff)
    with Suc Cons show ?thesis by simp
  qed simp
qed simp

lemma find_index_from_found:
  assumes "find_index_from i us cp \<noteq> i + length us"
  shows "i \<le> find_index_from i us cp \<and> find_index_from i us cp < i + length us \<and>
    ucast (us ! (find_index_from i us cp - i)) = cp"
  using assms
proof (induction us arbitrary: i)
  case (Cons u us)
  show ?case
  proof (cases "ucast u = cp")
    case False
    then have "find_index_from (i + 1) us cp \<noteq> (i + 1) + length us" using Cons.prems by simp
    from Cons.IH [OF this] False show ?thesis by (auto simp: nth_Cons' Suc_diff_Suc)
  qed simp
qed simp

lemma cp1256_valid: "is_valid_codepoint (map_cp1256_to_unicode c)"
proof (cases "c \<le> 127")
  case True
  then show ?thesis by (simp add: map_cp1256_to_unicode_def valid_codepoint_unat word_le_nat_alt)
next
  case False
  let ?u = "cp1256_to_unicode_table ! (unat c - 128)"
  have "unat c - 128 < 128" using unat_u8 [of c] by linarith
  then have "?u \<in> set cp1256_to_unicode_table" using cp1256_table_facts(1) by simp
  then have "unat ?u < 0xd800" using cp1256_table_facts(3) by (auto simp: word_less_nat_alt)
  then show ?thesis using False by (simp add: map_cp1256_to_unicode_def valid_codepoint_unat)
qed

text \<open>The two directions of the code page are inverse to each other.\<close>

lemma cp1256_encode_decode:
  assumes "map_unicode_to_cp1256 cp = (True, c)"
  shows "map_cp1256_to_unicode c = cp"
proof (cases "cp \<le> 127")
  case True
  then have "c = ucast cp" using assms by (simp add: map_unicode_to_cp1256_def)
  moreover have "unat (ucast cp :: u8) = unat cp"
    using True by (simp add: word_arith word_le_nat_alt)
  ultimately show ?thesis
    using True by (simp add: map_cp1256_to_unicode_def word_unat_eq_iff word_le_nat_alt)
next
  case False
  let ?it = "find_index_from 0 cp1256_to_unicode_table cp"
  have it: "?it < 128" "ucast (cp1256_to_unicode_table ! ?it) = cp" "c = of_nat (?it + 128)"
    using assms False find_index_from_found [of 0 cp1256_to_unicode_table cp] cp1256_table_facts(1)
    by (auto simp: map_unicode_to_cp1256_def Let_def split: if_splits)
  have "unat c = ?it + 128"
    unfolding it(3) unat_of_nat using it(1) by (simp del: of_nat_add)
  then show ?thesis using it(2) by (simp add: map_cp1256_to_unicode_def word_le_nat_alt)
qed

lemma cp1256_decode_encode: "map_unicode_to_cp1256 (map_cp1256_to_unicode c) = (True, c)"
proof (cases "c \<le> 127")
  case True
  have "(ucast (ucast c :: codepoint) :: u8) = c"
    using unat_u8 [of c] by (simp add: word_unat_eq_iff unat_ucast_mod [where 'b = 8])
  then show ?thesis
    using True by (simp add: map_cp1256_to_unicode_def map_unicode_to_cp1256_def word_le_nat_alt)
next
  case False
  let ?k = "unat c - 128" and ?t = cp1256_to_unicode_table
  have "\<not> unat c \<le> 127" using False by (simp add: word_le_nat_alt)
  then have k: "?k < 128" "?k + 128 = unat c" using unat_u8 [of c] by linarith+
  then have "?t ! ?k \<in> set ?t" using cp1256_table_facts(1) by simp
  then have "127 < ?t ! ?k" using cp1256_table_facts(3) by blast
  then have "\<not> (ucast (?t ! ?k) :: codepoint) \<le> 127" by (simp add: word_le_nat_alt word_less_nat_alt)
  moreover have "find_index_from 0 ?t (ucast (?t ! ?k)) = ?k"
    using find_index_from_nth [of ?t ?k 0] cp1256_table_facts(1,2) k(1) by simp
  ultimately show ?thesis
    using False k cp1256_table_facts(1)
    by (simp add: map_cp1256_to_unicode_def map_unicode_to_cp1256_def Let_def del: of_nat_add)
qed

end
