(* ===== verification/Utf_Converter.thy ===== *)
theory Utf_Converter
  imports Utf_Codec
begin

text \<open>
  The converter \<open>utf_converter<From, To>\<close> of \<open>src/include/rad/utf.h\<close> and the conversion functions of
  \<open>src/src/utf.cpp\<close>. The concept \<open>CodeCvt\<close> is a record of its static members; a template instance is the
  function applied to two such records. The destination of an unchecked conversion is a span of
  \<open>cap\<close> units: writing past it is the fault \<open>Out_of_bounds\<close>. The loops have no bound of their own:
  \<open>None\<close> stands for a call that never returns.
\<close>

record 'u codecvt =
  cv_supports_all :: bool
  cv_codepoint_size :: "codepoint \<Rightarrow> nat res"
  cv_is_accepted :: "codepoint \<Rightarrow> bool"
  cv_decode :: "errc option \<Rightarrow> 'u list \<Rightarrow> 'u decoded res"
  cv_decode_unchecked :: "'u list \<Rightarrow> (codepoint \<times> 'u list) res"
  cv_encode :: "codepoint \<Rightarrow> nat \<Rightarrow> 'u list res"
  cv_encode_unchecked :: "codepoint \<Rightarrow> 'u list res"

definition utf8_codecvt :: "u8 codecvt" where
  "utf8_codecvt = \<lparr>cv_supports_all = True, cv_codepoint_size = utf8_codepoint_size,
     cv_is_accepted = (\<lambda>_. True), cv_decode = utf8_decode,
     cv_decode_unchecked = utf8_decode_unchecked, cv_encode = utf8_encode,
     cv_encode_unchecked = utf8_encode_unchecked\<rparr>"

definition utf16_codecvt_base :: "u16 reader_writer \<Rightarrow> u16 codecvt" where
  "utf16_codecvt_base rw = \<lparr>cv_supports_all = True, cv_codepoint_size = utf16_codepoint_size,
     cv_is_accepted = (\<lambda>_. True), cv_decode = utf16_decode rw,
     cv_decode_unchecked = utf16_decode_unchecked rw, cv_encode = utf16_encode rw,
     cv_encode_unchecked = utf16_encode_unchecked rw\<rparr>"

definition utf32_codecvt_base :: "32 word reader_writer \<Rightarrow> 32 word codecvt" where
  "utf32_codecvt_base rw = \<lparr>cv_supports_all = True, cv_codepoint_size = utf32_codepoint_size,
     cv_is_accepted = (\<lambda>_. True), cv_decode = utf32_decode rw,
     cv_decode_unchecked = utf32_decode_unchecked rw, cv_encode = utf32_encode rw,
     cv_encode_unchecked = utf32_encode_unchecked rw\<rparr>"

definition cp1256_codecvt :: "u8 codecvt" where
  "cp1256_codecvt = \<lparr>cv_supports_all = False, cv_codepoint_size = cp1256_codepoint_size,
     cv_is_accepted = is_valid_cp1256_codepoint, cv_decode = cp1256_decode,
     cv_decode_unchecked = cp1256_decode_unchecked, cv_encode = cp1256_encode,
     cv_encode_unchecked = cp1256_encode_unchecked\<rparr>"

section \<open>Lengths\<close>

partial_function (option) calc_length_loop ::
    "'u codecvt \<Rightarrow> 'v codecvt \<Rightarrow> 'u list \<Rightarrow> nat \<Rightarrow> (errc option \<times> nat) res option" where
  "calc_length_loop from to us len =
     (if us = [] then Some (Inr (None, len))
      else case cv_decode from None us of Inl e \<Rightarrow> Some (Inl e)
      | Inr (ecode, cp, us') \<Rightarrow>
        if ecode \<noteq> None then Some (Inr (ecode, 0))
        else case cv_codepoint_size to cp of Inl e \<Rightarrow> Some (Inl e)
        | Inr k \<Rightarrow> calc_length_loop from to us' (len + k))"

definition calc_length ::
    "'u codecvt \<Rightarrow> 'v codecvt \<Rightarrow> 'u list \<Rightarrow> (errc option \<times> nat) run" where
  "calc_length from to from_str =
     (if from_str = [] then Some (Inr (None, 0)) else calc_length_loop from to from_str 0)"

text \<open>
  One round of the replacing loops: a failed decoding counts as the replacement character, and the
  source advances by the size of that character. \<open>ecode\<close> is the value the error variable has
  before the call.
\<close>

definition decode_replace ::
    "'u codecvt \<Rightarrow> errc option \<Rightarrow> 'u list \<Rightarrow> (codepoint \<times> 'u list) res" where
  "decode_replace from ecode us =
     bind_res (cv_decode from ecode us) (\<lambda>(ec, cp, us').
       if ec \<noteq> None then
         bind_res (cv_codepoint_size from replacement_codepoint) (\<lambda>replace_n.
           Inr (replacement_codepoint, drop replace_n us'))
       else Inr (cp, us'))"

partial_function (option) calc_length_replace_loop ::
    "'u codecvt \<Rightarrow> 'v codecvt \<Rightarrow> 'u list \<Rightarrow> nat \<Rightarrow> nat res option" where
  "calc_length_replace_loop from to us len =
     (if us = [] then Some (Inr len)
      else case decode_replace from None us of Inl e \<Rightarrow> Some (Inl e)
      | Inr (cp, us') \<Rightarrow>
        (case cv_codepoint_size to cp of Inl e \<Rightarrow> Some (Inl e)
         | Inr k \<Rightarrow> calc_length_replace_loop from to us' (len + k)))"

definition calc_length_replace :: "'u codecvt \<Rightarrow> 'v codecvt \<Rightarrow> 'u list \<Rightarrow> nat run" where
  "calc_length_replace from to from_str =
     (if from_str = [] then Some (Inr 0) else calc_length_replace_loop from to from_str 0)"

section \<open>Conversions into a span\<close>

text \<open>Appending the units of one code point to what has been written to a span of \<open>cap\<close> units.\<close>

definition put_units :: "'v codecvt \<Rightarrow> nat \<Rightarrow> codepoint \<Rightarrow> 'v list \<Rightarrow> 'v list res" where
  "put_units to cap cp out =
     bind_res (cv_encode_unchecked to cp) (\<lambda>ws.
     bind_res (ensure (ws \<noteq> []) Assertion) (\<lambda>_.
     bind_res (ensure (length out + length ws \<le> cap) Out_of_bounds) (\<lambda>_. Inr (out @ ws))))"

text \<open>\<open>convert_replace(from_str, to)\<close>; \<open>junk\<close> is the indeterminate initial value of \<open>ecode\<close>.\<close>

partial_function (option) convert_replace_loop ::
    "'u codecvt \<Rightarrow> 'v codecvt \<Rightarrow> errc option \<Rightarrow> nat \<Rightarrow> 'u list \<Rightarrow> 'v list \<Rightarrow> 'v list res option" where
  "convert_replace_loop from to junk cap us out =
     (if us = [] then Some (Inr out)
      else case decode_replace from junk us of Inl e \<Rightarrow> Some (Inl e)
      | Inr (cp, us') \<Rightarrow>
        (case put_units to cap cp out of Inl e \<Rightarrow> Some (Inl e)
         | Inr out' \<Rightarrow> convert_replace_loop from to junk cap us' out'))"

definition convert_replace_span ::
    "'u codecvt \<Rightarrow> 'v codecvt \<Rightarrow> errc option \<Rightarrow> nat \<Rightarrow> 'u list \<Rightarrow> 'v list run" where
  "convert_replace_span from to junk cap from_str =
     bind_run (Some (ensure (from_str \<noteq> []) Assertion)) (\<lambda>_.
       convert_replace_loop from to junk cap from_str [])"

text \<open>\<open>convert_replace(from_str, to, ec)\<close>, which refuses code points the target has no unit for.\<close>

partial_function (option) convert_replace_ec_loop ::
    "'u codecvt \<Rightarrow> 'v codecvt \<Rightarrow> errc option \<Rightarrow> nat \<Rightarrow> 'u list \<Rightarrow> 'v list \<Rightarrow>
       (errc option \<times> 'v list) res option" where
  "convert_replace_ec_loop from to junk cap us out =
     (if us = [] then Some (Inr (None, out))
      else case decode_replace from junk us of Inl e \<Rightarrow> Some (Inl e)
      | Inr (cp, us') \<Rightarrow>
        if \<not> cv_is_accepted to cp then Some (Inr (Some Illegal_byte_sequence, out))
        else (case put_units to cap cp out of Inl e \<Rightarrow> Some (Inl e)
          | Inr out' \<Rightarrow> convert_replace_ec_loop from to junk cap us' out'))"

text \<open>\<open>convert(from_str, to, ec)\<close>: bounded by the space left in the span.\<close>

partial_function (option) convert_ec_loop ::
    "'u codecvt \<Rightarrow> 'v codecvt \<Rightarrow> nat \<Rightarrow> 'u list \<Rightarrow> 'v list \<Rightarrow> (errc option \<times> 'v list) res option" where
  "convert_ec_loop from to to_n us out =
     (if us = [] then Some (Inr (None, out))
      else case cv_decode from None us of Inl e \<Rightarrow> Some (Inl e)
      | Inr (ecode, cp, us') \<Rightarrow>
        if ecode \<noteq> None then Some (Inr (ecode, out))
        else if \<not> cv_is_accepted to cp then Some (Inr (Some Illegal_byte_sequence, out))
        else (case cv_encode to cp to_n of Inl e \<Rightarrow> Some (Inl e)
          | Inr ws \<Rightarrow>
            if ws = [] then Some (Inr (Some No_buffer_space, out))
            else convert_ec_loop from to (to_n - length ws) us' (out @ ws)))"

definition convert_ec_span ::
    "'u codecvt \<Rightarrow> 'v codecvt \<Rightarrow> nat \<Rightarrow> 'u list \<Rightarrow> (errc option \<times> 'v list) run" where
  "convert_ec_span from to cap from_str =
     (if from_str = [] then Some (Inr (None, [])) else convert_ec_loop from to cap from_str [])"

text \<open>\<open>convert(from_str, to)\<close>: the input has been validated and the span is large enough.\<close>

partial_function (option) convert_unchecked_loop ::
    "'u codecvt \<Rightarrow> 'v codecvt \<Rightarrow> nat \<Rightarrow> 'u list \<Rightarrow> 'v list \<Rightarrow> 'v list res option" where
  "convert_unchecked_loop from to cap us out =
     (if us = [] then Some (Inr out)
      else case cv_decode_unchecked from us of Inl e \<Rightarrow> Some (Inl e)
      | Inr (cp, us') \<Rightarrow>
        (case put_units to cap cp out of Inl e \<Rightarrow> Some (Inl e)
         | Inr out' \<Rightarrow> convert_unchecked_loop from to cap us' out'))"

definition convert_unchecked_span ::
    "'u codecvt \<Rightarrow> 'v codecvt \<Rightarrow> nat \<Rightarrow> 'u list \<Rightarrow> 'v list run" where
  "convert_unchecked_span from to cap from_str =
     bind_run (Some (ensure (from_str \<noteq> []) Assertion)) (\<lambda>_.
       convert_unchecked_loop from to cap from_str [])"

section \<open>Conversions that append to a string\<close>

text \<open>
  \<open>convert(from_str, std::basic_string& to, ec)\<close> for a target that supports all code points; for
  another target the branch taken assigns the result of a \<open>void\<close> function and does not compile.
  \<open>resize\<close> fills the new units with zero and the conversion overwrites them.
\<close>

definition convert ::
    "'u codecvt \<Rightarrow> ('v::zero) codecvt \<Rightarrow> 'u list \<Rightarrow> 'v list \<Rightarrow> (errc option \<times> nat \<times> 'v list) run" where
  "convert from to from_str to_str =
     (if from_str = [] then Some (Inr (None, 0, to_str))
      else bind_run (calc_length from to from_str) (\<lambda>(ec, to_required_len).
        if ec \<noteq> None then Some (Inr (ec, 0, to_str))
        else bind_run (convert_unchecked_span from to to_required_len from_str) (\<lambda>out.
          let encoded_len = length out;
              to_str' = to_str @ out @ replicate (to_required_len - encoded_len) 0
          in bind_run (Some (ensure (encoded_len = to_required_len) Assertion)) (\<lambda>_.
               Some (Inr (None, encoded_len, to_str'))))))"

definition convert_replace ::
    "'u codecvt \<Rightarrow> ('v::zero) codecvt \<Rightarrow> errc option \<Rightarrow> 'u list \<Rightarrow> 'v list \<Rightarrow> (nat \<times> 'v list) run" where
  "convert_replace from to junk from_str to_str =
     (if from_str = [] then Some (Inr (0, to_str))
      else bind_run (calc_length_replace from to from_str) (\<lambda>to_required_len.
        bind_run (Some (ensure (to_required_len \<noteq> 0) Assertion)) (\<lambda>_.
        bind_run (if cv_supports_all to
            then bind_run (convert_replace_span from to junk to_required_len from_str)
              (\<lambda>out. Some (Inr (None, out)))
            else convert_replace_ec_loop from to junk to_required_len from_str []) (\<lambda>(ec, out).
          if ec \<noteq> None then Some (Inr (0, to_str))
          else let encoded_len = length out;
              to_str' = to_str @ out @ replicate (to_required_len - encoded_len) 0
            in bind_run (Some (ensure (encoded_len = to_required_len) Assertion)) (\<lambda>_.
                 Some (Inr (encoded_len, to_str')))))))"

section \<open>The functions of utf.cpp\<close>

text \<open>
  Each converts and throws \<open>std::system_error\<close> when an error was reported: the result is the thrown
  code, if any, and the value of \<open>to\<close> afterwards. Native byte order; \<open>wchar_t\<close> has the width of \<open>char32_t\<close>.
\<close>

definition or_throw :: "(errc option \<times> nat \<times> 'v list) run \<Rightarrow> (errc option \<times> 'v list) run" where
  "or_throw r = bind_run r (\<lambda>(ec, _, to_str). Some (Inr (ec, to_str)))"

definition utf16_codecvt :: "endian \<Rightarrow> u16 codecvt" where
  "utf16_codecvt host = utf16_codecvt_base (native_reader_writer host bswap16)"

definition utf32_codecvt :: "endian \<Rightarrow> 32 word codecvt" where
  "utf32_codecvt host = utf32_codecvt_base (native_reader_writer host bswap32)"

definition wchar_codecvt :: "endian \<Rightarrow> 32 word codecvt" where
  "wchar_codecvt host = utf32_codecvt host"

definition string_to_u16string :: "endian \<Rightarrow> u8 list \<Rightarrow> u16 list \<Rightarrow> (errc option \<times> u16 list) run" where
  "string_to_u16string host from to = or_throw (convert utf8_codecvt (utf16_codecvt host) from to)"

definition u16string_to_string :: "endian \<Rightarrow> u16 list \<Rightarrow> u8 list \<Rightarrow> (errc option \<times> u8 list) run" where
  "u16string_to_string host from to = or_throw (convert (utf16_codecvt host) utf8_codecvt from to)"

definition string_to_u32string :: "endian \<Rightarrow> u8 list \<Rightarrow> 32 word list \<Rightarrow> (errc option \<times> 32 word list) run" where
  "string_to_u32string host from to = or_throw (convert utf8_codecvt (utf32_codecvt host) from to)"

definition u32string_to_string :: "endian \<Rightarrow> 32 word list \<Rightarrow> u8 list \<Rightarrow> (errc option \<times> u8 list) run" where
  "u32string_to_string host from to = or_throw (convert (utf32_codecvt host) utf8_codecvt from to)"

definition u16string_to_u32string ::
    "endian \<Rightarrow> u16 list \<Rightarrow> 32 word list \<Rightarrow> (errc option \<times> 32 word list) run" where
  "u16string_to_u32string host from to =
     or_throw (convert (utf16_codecvt host) (utf32_codecvt host) from to)"

definition u32string_to_u16string ::
    "endian \<Rightarrow> 32 word list \<Rightarrow> u16 list \<Rightarrow> (errc option \<times> u16 list) run" where
  "u32string_to_u16string host from to =
     or_throw (convert (utf32_codecvt host) (utf16_codecvt host) from to)"

definition string_to_wstring :: "endian \<Rightarrow> u8 list \<Rightarrow> 32 word list \<Rightarrow> (errc option \<times> 32 word list) run" where
  "string_to_wstring host from to = or_throw (convert utf8_codecvt (wchar_codecvt host) from to)"

definition wstring_to_string :: "endian \<Rightarrow> 32 word list \<Rightarrow> u8 list \<Rightarrow> (errc option \<times> u8 list) run" where
  "wstring_to_string host from to = or_throw (convert (wchar_codecvt host) utf8_codecvt from to)"

definition wstring_to_u16string :: "endian \<Rightarrow> 32 word list \<Rightarrow> u16 list \<Rightarrow> (errc option \<times> u16 list) run" where
  "wstring_to_u16string host from to =
     or_throw (convert (wchar_codecvt host) (utf16_codecvt host) from to)"

definition u16string_to_wstring :: "endian \<Rightarrow> u16 list \<Rightarrow> 32 word list \<Rightarrow> (errc option \<times> 32 word list) run" where
  "u16string_to_wstring host from to =
     or_throw (convert (utf16_codecvt host) (wchar_codecvt host) from to)"

definition wstring_to_u32string ::
    "endian \<Rightarrow> 32 word list \<Rightarrow> 32 word list \<Rightarrow> (errc option \<times> 32 word list) run" where
  "wstring_to_u32string host from to =
     or_throw (convert (wchar_codecvt host) (utf32_codecvt host) from to)"

definition u32string_to_wstring ::
    "endian \<Rightarrow> 32 word list \<Rightarrow> 32 word list \<Rightarrow> (errc option \<times> 32 word list) run" where
  "u32string_to_wstring host from to =
     or_throw (convert (utf32_codecvt host) (wchar_codecvt host) from to)"

definition cp1256_to_utf8 :: "u8 list \<Rightarrow> u8 list \<Rightarrow> (errc option \<times> u8 list) run" where
  "cp1256_to_utf8 from to = or_throw (convert cp1256_codecvt utf8_codecvt from to)"

end
