(* ===== verification/Utf_Contract.thy ===== *)
theory Utf_Contract
  imports Utf16_Laws Utf_Converter
begin

text \<open>
  The concept \<open>CodeCvt\<close> as an interface: what a code converter promises, the lemmas of
  \<open>utf_converter\<close> proved once from these promises, and the converters of the library as instances.
\<close>

section \<open>The interface\<close>

definition valid_text :: "'u codecvt \<Rightarrow> codepoint list \<Rightarrow> bool" where
  "valid_text cv cps \<longleftrightarrow> list_all (\<lambda>cp. is_valid_codepoint cp \<and> cv_is_accepted cv cp) cps"

definition encoding :: "(codepoint \<Rightarrow> 'u list) \<Rightarrow> codepoint list \<Rightarrow> 'u list" where
  "encoding units cps = concat (map units cps)"

lemma valid_text_simps [simp]:
  "valid_text cv []"
  "valid_text cv (cp # cps) \<longleftrightarrow> is_valid_codepoint cp \<and> cv_is_accepted cv cp \<and> valid_text cv cps"
  by (simp_all add: valid_text_def)

lemma encoding_simps [simp]:
  "encoding units [] = []" "encoding units (cp # cps) = units cp @ encoding units cps"
  by (simp_all add: encoding_def)

locale code_converter =
  fixes cv :: "'u codecvt" and units :: "codepoint \<Rightarrow> 'u list"
  assumes encode_unchecked_units:
      "is_valid_codepoint cp \<Longrightarrow> cv_is_accepted cv cp \<Longrightarrow> cv_encode_unchecked cv cp = Inr (units cp)"
    and units_nonempty: "is_valid_codepoint cp \<Longrightarrow> cv_is_accepted cv cp \<Longrightarrow> units cp \<noteq> []"
    and size_units:
      "is_valid_codepoint cp \<Longrightarrow> cv_is_accepted cv cp \<Longrightarrow> cv_codepoint_size cv cp = Inr (length (units cp))"
    and encode_units: "is_valid_codepoint cp \<Longrightarrow> cv_is_accepted cv cp \<Longrightarrow>
      cv_encode cv cp n = Inr (if length (units cp) > n then [] else units cp)"
    and decode_units: "is_valid_codepoint cp \<Longrightarrow> cv_is_accepted cv cp \<Longrightarrow>
      cv_decode cv None (units cp @ us) = Inr (None, cp, us)"
    and decode_unchecked_units: "is_valid_codepoint cp \<Longrightarrow> cv_is_accepted cv cp \<Longrightarrow>
      cv_decode_unchecked cv (units cp @ us) = Inr (cp, us)"
    and decode_sound: "cv_decode cv None us = Inr (None, cp, us') \<Longrightarrow>
      is_valid_codepoint cp \<and> cv_is_accepted cv cp \<and> us = units cp @ us'"
    and decode_total:
      "\<exists>ec cp us'. cv_decode cv None us = Inr (ec, cp, us') \<and> length us' \<le> length us"
    and decode_error: "cv_decode cv None (u # us) = Inr (Some e, cp, us') \<Longrightarrow>
      cv_is_accepted cv replacement_codepoint"
begin

lemma encoding_empty: "valid_text cv cps \<Longrightarrow> encoding units cps = [] \<longleftrightarrow> cps = []"
  using units_nonempty by (cases cps) auto

lemma encoding_inj: "valid_text cv cps \<Longrightarrow> valid_text cv cps' \<Longrightarrow> encoding units cps = encoding units cps' \<Longrightarrow> cps = cps'"
proof (induction cps arbitrary: cps')
  case Nil
  then show ?case using encoding_empty [of cps'] by simp
next
  case (Cons cp cps)
  then obtain cp' rest where c: "cps' = cp' # rest"
    using units_nonempty [of cp] by (cases cps') auto
  have "cv_decode cv None (encoding units (cp # cps)) = Inr (None, cp, encoding units cps)"
    using Cons.prems(1) by (simp add: decode_units)
  moreover have "cv_decode cv None (encoding units cps') = Inr (None, cp', encoding units rest)"
    using Cons.prems(2) c by (simp add: decode_units)
  ultimately have "cp = cp'" "encoding units cps = encoding units rest" using Cons.prems(3) by auto
  then show ?case using Cons.IH [of rest] Cons.prems c by simp
qed

text \<open>An input either is the encoding of a text, or one decoding step of it fails after a text.\<close>

lemma decode_or_fail:
  "(\<exists>cps. valid_text cv cps \<and> us = encoding units cps) \<or>
   (\<exists>cps rest e cp us'. valid_text cv cps \<and> us = encoding units cps @ rest \<and> rest \<noteq> [] \<and>
      cv_decode cv None rest = Inr (Some e, cp, us'))" (is "?ok us \<or> ?fail us")
proof (induction us rule: length_induct)
  case (1 us)
  show ?case
  proof (cases "us = []")
    case True
    then have "valid_text cv [] \<and> us = encoding units []" by simp
    then show ?thesis by blast
  next
    case False
    obtain ec cp us' where d: "cv_decode cv None us = Inr (ec, cp, us')" using decode_total by blast
    show ?thesis
    proof (cases ec)
      case (Some e)
      then have "valid_text cv [] \<and> us = encoding units [] @ us \<and> us \<noteq> [] \<and>
        cv_decode cv None us = Inr (Some e, cp, us')" using d False by simp
      then show ?thesis by blast
    next
      case None
      then have s: "is_valid_codepoint cp" "cv_is_accepted cv cp" "us = units cp @ us'"
        using decode_sound d by blast+
      then have "length us' < length us" using units_nonempty [of cp] by simp
      with 1 have "?ok us' \<or> ?fail us'" by blast
      moreover have "valid_text cv (cp # cps) \<longleftrightarrow> valid_text cv cps"
        "us = encoding units (cp # cps) @ rest \<longleftrightarrow> us' = encoding units cps @ rest" for cps rest
        using s by simp_all
      ultimately show ?thesis by (metis append_Nil2)
    qed
  qed
qed

text \<open>One replacing round yields a code point and makes progress.\<close>

lemma decode_replace_progress:
  assumes "us \<noteq> []"
  obtains cp us' where "decode_replace cv None us = Inr (cp, us')" "is_valid_codepoint cp"
    "length us' < length us"
proof -
  obtain ec cp us' where d: "cv_decode cv None us = Inr (ec, cp, us')" "length us' \<le> length us"
    using decode_total by blast
  show thesis
  proof (cases ec)
    case None
    then have "is_valid_codepoint cp" "us = units cp @ us'" "units cp \<noteq> []"
      using decode_sound [of us cp us'] d(1) units_nonempty by blast+
    then show thesis using that [of cp us'] d None by (simp add: decode_replace_def)
  next
    case (Some e)
    obtain u rest where "us = u # rest" using assms by (cases us) auto
    then have acc: "cv_is_accepted cv replacement_codepoint" using decode_error d(1) Some by blast
    let ?k = "length (units replacement_codepoint)"
    have "0 < ?k" "0 < length us" using units_nonempty acc assms by simp_all
    then have "length us - ?k < length us" by simp
    then have "length (drop ?k us') < length us" using d(2) by simp
    then show thesis
      using that [of replacement_codepoint "drop ?k us'"] d(1) Some acc
      by (simp add: decode_replace_def size_units)
  qed
qed

end

text \<open>A converter that assigns the error variable on every path.\<close>

locale assigning_converter = code_converter cv units for cv :: "'u codecvt" and units +
  assumes decode_assigns: "cv_decode cv ec (u # us) = cv_decode cv None (u # us)"
begin

lemma decode_replace_assigns: "us \<noteq> [] \<Longrightarrow> decode_replace cv junk us = decode_replace cv None us"
  by (cases us) (simp_all add: decode_replace_def decode_assigns [of junk])

end

section \<open>Converting between two encodings\<close>

text \<open>The target accepts every code point, as all the targets the library converts to do.\<close>

locale conversion =
  src: code_converter from_cv from_units + dst: code_converter to_cv to_units
  for from_cv :: "'u codecvt" and from_units and to_cv :: "('v::zero) codecvt" and to_units +
  assumes to_accepts: "cv_is_accepted to_cv cp"
begin

lemma to_text: "valid_text from_cv cps \<Longrightarrow> valid_text to_cv cps"
  by (simp add: valid_text_def to_accepts list_all_iff)

lemma put_units_ok:
  assumes "is_valid_codepoint cp"
  shows "put_units to_cv cap cp out =
    (if length out + length (to_units cp) \<le> cap then Inr (out @ to_units cp) else Inl Out_of_bounds)"
  using assms dst.encode_unchecked_units [of cp] dst.units_nonempty [of cp] to_accepts
  by (simp add: put_units_def)

lemma calc_length_loop_text:
  "valid_text from_cv cps \<Longrightarrow> calc_length_loop from_cv to_cv (encoding from_units cps @ us) len =
     calc_length_loop from_cv to_cv us (len + length (encoding to_units cps))"
proof (induction cps arbitrary: len)
  case (Cons cp cps)
  then show ?case
    using src.units_nonempty [of cp] src.decode_units [of cp] dst.size_units [of cp] to_accepts
    by (subst calc_length_loop.simps) (simp add: add.assoc)
qed simp

lemma calc_length_text:
  assumes "valid_text from_cv cps"
  shows "calc_length from_cv to_cv (encoding from_units cps)
    = Some (Inr (None, length (encoding to_units cps)))"
proof (cases "cps = []")
  case False
  then show ?thesis
    using assms calc_length_loop_text [OF assms, of "[]" 0] src.encoding_empty [OF assms]
    by (simp add: calc_length_def calc_length_loop.simps [of _ _ "[]"])
qed (simp add: calc_length_def)

lemma calc_length_fails:
  assumes "valid_text from_cv cps" and "rest \<noteq> []"
    and "cv_decode from_cv None rest = Inr (Some e, cp, us')"
  shows "calc_length from_cv to_cv (encoding from_units cps @ rest) = Some (Inr (Some e, 0))"
  using assms calc_length_loop_text [OF assms(1), of rest 0]
  by (simp add: calc_length_def calc_length_loop.simps [of _ _ rest])

lemma convert_unchecked_text:
  assumes "valid_text from_cv cps" and "length out + length (encoding to_units cps) \<le> cap"
  shows "convert_unchecked_loop from_cv to_cv cap (encoding from_units cps) out
    = Some (Inr (out @ encoding to_units cps))"
  using assms
proof (induction cps arbitrary: out)
  case Nil
  then show ?case by (simp add: convert_unchecked_loop.simps)
next
  case (Cons cp cps)
  then have "convert_unchecked_loop from_cv to_cv cap (encoding from_units cps) (out @ to_units cp)
      = Some (Inr (out @ encoding to_units (cp # cps)))" by simp
  then show ?case
    using Cons.prems src.units_nonempty [of cp] src.decode_unchecked_units [of cp] put_units_ok [of cp cap out]
    by (subst convert_unchecked_loop.simps) simp
qed

lemma convert_text:
  assumes "valid_text from_cv cps"
  shows "convert from_cv to_cv (encoding from_units cps) to_str
    = Some (Inr (None, length (encoding to_units cps), to_str @ encoding to_units cps))"
proof (cases "cps = []")
  case False
  then show ?thesis
    using assms src.encoding_empty [OF assms]
    by (simp add: convert_def calc_length_text convert_unchecked_span_def convert_unchecked_text Let_def)
qed (simp add: convert_def)

lemma convert_fails:
  assumes "valid_text from_cv cps" and "rest \<noteq> []"
    and "cv_decode from_cv None rest = Inr (Some e, cp, us')"
  shows "convert from_cv to_cv (encoding from_units cps @ rest) to_str = Some (Inr (Some e, 0, to_str))"
  using assms by (simp add: convert_def calc_length_fails)

text \<open>Every input is converted completely or refused without touching the target.\<close>

lemma convert_cases:
  "(\<exists>cps. valid_text from_cv cps \<and> us = encoding from_units cps \<and>
      convert from_cv to_cv us to_str
        = Some (Inr (None, length (encoding to_units cps), to_str @ encoding to_units cps))) \<or>
   (\<nexists>cps. valid_text from_cv cps \<and> us = encoding from_units cps) \<and>
     (\<exists>e. convert from_cv to_cv us to_str = Some (Inr (Some e, 0, to_str)))"
proof -
  consider cps where "valid_text from_cv cps" "us = encoding from_units cps"
    | cps rest e cp us' where "valid_text from_cv cps" "us = encoding from_units cps @ rest"
        "rest \<noteq> []" "cv_decode from_cv None rest = Inr (Some e, cp, us')"
    using src.decode_or_fail [of us] by blast
  then show ?thesis
  proof cases
    case 1
    then show ?thesis using convert_text by blast
  next
    case 2
    have f: "convert from_cv to_cv us to_str = Some (Inr (Some e, 0, to_str))"
      using convert_fails 2 by blast
    then have "\<nexists>cps. valid_text from_cv cps \<and> us = encoding from_units cps"
      using convert_text [of _ to_str] by auto
    with f show ?thesis by blast
  qed
qed

lemma calc_length_replace_loop_acc:
  "\<exists>cps. list_all is_valid_codepoint cps \<and>
     (\<forall>len. calc_length_replace_loop from_cv to_cv us len
        = Some (Inr (len + length (encoding to_units cps)))) \<and>
     (\<forall>cap out. length out + length (encoding to_units cps) \<le> cap \<longrightarrow>
        convert_replace_loop from_cv to_cv None cap us out = Some (Inr (out @ encoding to_units cps)))
     \<and> (us \<noteq> [] \<longrightarrow> cps \<noteq> [])"
proof (induction us rule: length_induct)
  case (1 us)
  show ?case
  proof (cases "us = []")
    case True
    then show ?thesis
      by (intro exI [of _ "[]"]) (simp add: calc_length_replace_loop.simps convert_replace_loop.simps)
  next
    case False
    then obtain cp us' where d: "decode_replace from_cv None us = Inr (cp, us')"
        "is_valid_codepoint cp" "length us' < length us"
      using src.decode_replace_progress by metis
    with 1 obtain cps where c: "list_all is_valid_codepoint cps"
      "\<And>len. calc_length_replace_loop from_cv to_cv us' len
        = Some (Inr (len + length (encoding to_units cps)))"
      "\<And>cap out. length out + length (encoding to_units cps) \<le> cap \<Longrightarrow>
        convert_replace_loop from_cv to_cv None cap us' out = Some (Inr (out @ encoding to_units cps))"
      by blast
    have "calc_length_replace_loop from_cv to_cv us len
        = Some (Inr (len + length (encoding to_units (cp # cps))))" for len
      using False d c(2) dst.size_units [of cp] to_accepts
      by (subst calc_length_replace_loop.simps) (simp add: add.assoc)
    moreover have "convert_replace_loop from_cv to_cv None cap us out
        = Some (Inr (out @ encoding to_units (cp # cps)))"
      if "length out + length (encoding to_units (cp # cps)) \<le> cap" for cap out
      using False d c(3) [of "out @ to_units cp" cap] put_units_ok [of cp cap out] that
      by (subst convert_replace_loop.simps) simp
    ultimately show ?thesis using c(1) d(2) by (intro exI [of _ "cp # cps"]) simp
  qed
qed

end

section \<open>Conversions that replace what they cannot decode\<close>

locale replacing_conversion =
  conversion from_cv from_units to_cv to_units + sassign: assigning_converter from_cv from_units
  for from_cv :: "'u codecvt" and from_units and to_cv :: "('v::zero) codecvt" and to_units +
  assumes to_supports_all: "cv_supports_all to_cv"
begin

lemma convert_replace_loop_assigns:
  "convert_replace_loop from_cv to_cv junk cap us out
     = convert_replace_loop from_cv to_cv None cap us out"
proof (induction us arbitrary: out rule: length_induct)
  case (1 us)
  show ?case
  proof (cases "us = []")
    case False
    then obtain cp us' where d: "decode_replace from_cv None us = Inr (cp, us')" "length us' < length us"
      using src.decode_replace_progress by metis
    then have "decode_replace from_cv junk us = Inr (cp, us')"
      using sassign.decode_replace_assigns [OF False] by simp
    with d 1 show ?thesis
      by (subst (1 2) convert_replace_loop.simps) (simp split: sum.split)
  qed (simp add: convert_replace_loop.simps)
qed

lemma convert_replace_ok:
  "\<exists>cps. list_all is_valid_codepoint cps \<and>
     convert_replace from_cv to_cv junk us to_str
       = Some (Inr (length (encoding to_units cps), to_str @ encoding to_units cps))"
proof (cases "us = []")
  case True
  then show ?thesis by (intro exI [of _ "[]"]) (simp add: convert_replace_def)
next
  case False
  then obtain cps where c: "list_all is_valid_codepoint cps" "cps \<noteq> []"
      "calc_length_replace_loop from_cv to_cv us 0 = Some (Inr (length (encoding to_units cps)))"
      "convert_replace_loop from_cv to_cv None (length (encoding to_units cps)) us []
         = Some (Inr (encoding to_units cps))"
    using calc_length_replace_loop_acc [of us] by (metis add_0 append_Nil list.size(3) order_refl)
  have "valid_text to_cv cps" using c(1) by (simp add: valid_text_def to_accepts list_all_iff)
  then have "encoding to_units cps \<noteq> []" using dst.encoding_empty c(2) by simp
  with c False show ?thesis
    by (intro exI [of _ cps])
      (simp add: convert_replace_def calc_length_replace_def convert_replace_span_def
        convert_replace_loop_assigns [of junk] to_supports_all Let_def)
qed

end

end
