(* ===== verification/Utf_Instances.thy ===== *)
theory Utf_Instances
  imports Utf_Contract
begin

text \<open>
  The code converters of the library meet the interface, and the conversions between them are
  instances of the generic results: UTF-8, UTF-16 and UTF-32 in every byte order, and Windows-1256
  as a source.
\<close>

section \<open>There and back\<close>

locale two_way_conversion =
  conversion from_cv from_units to_cv to_units + ret: conversion to_cv to_units from_cv from_units
  for from_cv :: "('u::zero) codecvt" and from_units and to_cv :: "('v::zero) codecvt" and to_units
begin

lemma convert_round_trip:
  assumes "convert from_cv to_cv us [] = Some (Inr (None, n, vs))"
  shows "convert to_cv from_cv vs [] = Some (Inr (None, length us, us))"
proof -
  obtain cps where "valid_text from_cv cps" "us = encoding from_units cps" "vs = encoding to_units cps"
    using convert_cases [of us "[]"] assms by auto
  then show ?thesis using ret.convert_text [of cps "[]"] to_text by simp
qed

end

section \<open>The converters\<close>

interpretation u8: assigning_converter utf8_codecvt utf8_units
proof unfold_locales
  fix cp us us' u e ec
  show "\<exists>ec cp us'. cv_decode utf8_codecvt None us = Inr (ec, cp, us') \<and> length us' \<le> length us"
    using utf8_decode_total by (simp add: utf8_codecvt_def)
  show "cv_decode utf8_codecvt ec (u # us) = cv_decode utf8_codecvt None (u # us)"
    by (simp add: utf8_codecvt_def utf8_decode_def)
qed (simp_all add: utf8_codecvt_def utf8_encode_unchecked_units utf8_codepoint_size_units
    utf8_encode_units utf8_decode_units utf8_decode_sound)

sublocale utf16_order \<subseteq> code_converter "utf16_codecvt_base rw" "utf16_units rw"
proof unfold_locales
  fix us
  show "\<exists>ec cp us'. cv_decode (utf16_codecvt_base rw) None us = Inr (ec, cp, us') \<and> length us' \<le> length us"
    using utf16_decode_total by (simp add: utf16_codecvt_base_def)
next
  fix cp
  show "utf16_units rw cp \<noteq> []" using utf16_units_length [of rw cp] by auto
qed (simp_all add: utf16_codecvt_base_def utf16_encode_unchecked_units
    utf16_codepoint_size_units [of _ rw] utf16_encode_units utf16_inverse utf16_sound)

definition utf32_units :: "32 word reader_writer \<Rightarrow> codepoint \<Rightarrow> 32 word list" where
  "utf32_units rw cp = [rw_write rw cp]"

sublocale utf32_order \<subseteq> assigning_converter "utf32_codecvt_base rw" "utf32_units rw"
proof unfold_locales
  fix us ec u
  show "\<exists>ec cp us'. cv_decode (utf32_codecvt_base rw) None us = Inr (ec, cp, us') \<and> length us' \<le> length us"
    using utf32_decode_total by (simp add: utf32_codecvt_base_def)
  show "cv_decode (utf32_codecvt_base rw) ec (u # us) = cv_decode (utf32_codecvt_base rw) None (u # us)"
    by (simp add: utf32_codecvt_base_def utf32_decode_def)
qed (simp_all add: utf32_codecvt_base_def utf32_units_def utf32_laws utf32_decode_sound)

definition cp1256_units :: "codepoint \<Rightarrow> u8 list" where
  "cp1256_units cp = [snd (map_unicode_to_cp1256 cp)]"

lemma cp1256_accepted_iff:
  "is_valid_cp1256_codepoint cp \<longleftrightarrow> map_unicode_to_cp1256 cp = (True, snd (map_unicode_to_cp1256 cp))"
  by (cases "map_unicode_to_cp1256 cp") (auto simp: is_valid_cp1256_codepoint_def)

interpretation cp1256: assigning_converter cp1256_codecvt cp1256_units
proof unfold_locales
  fix us :: "u8 list" and cp us'
  show "\<exists>ec cp us'. cv_decode cp1256_codecvt None us = Inr (ec, cp, us') \<and> length us' \<le> length us"
    by (cases us) (simp_all add: cp1256_codecvt_def cp1256_decode_def)
  assume "cv_decode cp1256_codecvt None us = Inr (None, cp, us')"
  then obtain c where "us = c # us'" "cp = map_cp1256_to_unicode c"
    by (cases us) (auto simp: cp1256_codecvt_def cp1256_decode_def)
  then show "is_valid_codepoint cp \<and> cv_is_accepted cp1256_codecvt cp \<and> us = cp1256_units cp @ us'"
    by (simp add: cp1256_valid cp1256_codecvt_def is_valid_cp1256_codepoint_def cp1256_decode_encode
        cp1256_units_def)
next
  fix cp and us :: "u8 list"
  assume "cv_is_accepted cp1256_codecvt cp"
  then have a: "map_unicode_to_cp1256 cp = (True, snd (map_unicode_to_cp1256 cp))"
    by (simp add: cp1256_codecvt_def cp1256_accepted_iff)
  then have "map_cp1256_to_unicode (snd (map_unicode_to_cp1256 cp)) = cp" by (rule cp1256_encode_decode)
  then show "cv_decode cp1256_codecvt None (cp1256_units cp @ us) = Inr (None, cp, us)"
    and "cv_decode_unchecked cp1256_codecvt (cp1256_units cp @ us) = Inr (cp, us)"
    by (simp_all add: cp1256_codecvt_def cp1256_units_def cp1256_decode_def cp1256_decode_unchecked_def)
  show "cv_encode_unchecked cp1256_codecvt cp = Inr (cp1256_units cp)"
    using a by (cases "map_unicode_to_cp1256 cp")
      (simp add: cp1256_codecvt_def cp1256_units_def cp1256_encode_unchecked_def)
qed (auto simp: cp1256_codecvt_def cp1256_units_def cp1256_codepoint_size_def cp1256_encode_def
    cp1256_encode_unchecked_def cp1256_decode_def is_valid_cp1256_codepoint_def split: prod.split)

interpretation u16le: utf16_order "le_reader_writer host bswap16"
  by unfold_locales (simp_all add: reader_writer_defs)

interpretation u16be: utf16_order "be_reader_writer host bswap16"
  by unfold_locales (simp_all add: reader_writer_defs)

interpretation u16: utf16_order "native_reader_writer host bswap16"
  by unfold_locales (simp_all add: reader_writer_defs)

interpretation u32le: utf32_order "le_reader_writer host bswap32"
  by unfold_locales (simp_all add: reader_writer_defs)

interpretation u32be: utf32_order "be_reader_writer host bswap32"
  by unfold_locales (simp_all add: reader_writer_defs)

interpretation u32: utf32_order "native_reader_writer host bswap32"
  by unfold_locales (simp_all add: reader_writer_defs)

section \<open>The conversions\<close>

text \<open>
  Native UTF-16 and UTF-32 write their units unchanged, so the native converters meet the
  interface with the plain tables.
\<close>

abbreviation utf16_text :: "endian \<Rightarrow> codepoint \<Rightarrow> u16 list" where
  "utf16_text host \<equiv> utf16_units (native_reader_writer host bswap16)"

abbreviation utf32_text :: "endian \<Rightarrow> codepoint \<Rightarrow> 32 word list" where
  "utf32_text host \<equiv> utf32_units (native_reader_writer host bswap32)"

lemma all_accepted [simp]:
  "cv_is_accepted utf8_codecvt cp" "cv_is_accepted (utf16_codecvt_base rw) cp"
  "cv_is_accepted (utf32_codecvt_base rw2) cp" "cv_supports_all utf8_codecvt"
  "cv_supports_all (utf16_codecvt_base rw)" "cv_supports_all (utf32_codecvt_base rw2)"
  by (simp_all add: utf8_codecvt_def utf16_codecvt_base_def utf32_codecvt_base_def)

interpretation u8_u16: two_way_conversion utf8_codecvt utf8_units "utf16_codecvt host" "utf16_text host"
  unfolding utf16_codecvt_def by unfold_locales simp_all

interpretation u8_u32: two_way_conversion utf8_codecvt utf8_units "utf32_codecvt host" "utf32_text host"
  unfolding utf32_codecvt_def by unfold_locales simp_all

interpretation u16_u32: two_way_conversion "utf16_codecvt host" "utf16_text host"
    "utf32_codecvt host" "utf32_text host"
  unfolding utf16_codecvt_def utf32_codecvt_def by unfold_locales simp_all

interpretation cp1256_u8: conversion cp1256_codecvt cp1256_units utf8_codecvt utf8_units
  by unfold_locales simp_all

interpretation u8_u16r: replacing_conversion utf8_codecvt utf8_units "utf16_codecvt host" "utf16_text host"
  unfolding utf16_codecvt_def by unfold_locales simp_all

interpretation u8_u32r: replacing_conversion utf8_codecvt utf8_units "utf32_codecvt host" "utf32_text host"
  unfolding utf32_codecvt_def by unfold_locales simp_all

interpretation u32_u8r: replacing_conversion "utf32_codecvt host" "utf32_text host" utf8_codecvt utf8_units
  unfolding utf32_codecvt_def by unfold_locales simp_all

end
