(* ===== verification/Utf_Bom.thy ===== *)
theory Utf_Bom
  imports Utf16_Laws
begin

text \<open>
  The byte order marks of \<open>src/include/rad/utf.h\<close>. The units of a buffer are the values the host reads
  from memory; \<open>bytes16\<close> and \<open>bytes32\<close> are the bytes a value occupies in memory.
\<close>

section \<open>UTF-8\<close>

definition make_bom_array :: "u8 list" where
  "make_bom_array = [0xef, 0xbb, 0xbf]"

text \<open>
  The span over the input has the fixed extent 3 and is built from all \<open>n\<close> units; a count that is not
  the extent violates the precondition of that constructor.
\<close>

definition utf8_consume_bom :: "u8 list \<Rightarrow> u8 list res" where
  "utf8_consume_bom bs =
     (if length bs \<ge> 3 then
        bind_res (ensure (length bs = 3) Contract_violation) (\<lambda>_.
          if bs = make_bom_array then Inr (drop 3 bs) else Inr bs)
      else Inr bs)"

definition utf8_write_bom :: "u8 list \<Rightarrow> nat \<times> u8 list" where
  "utf8_write_bom bs = (if length bs < 3 then (0, bs) else (3, make_bom_array @ drop 3 bs))"

section \<open>UTF-16 and UTF-32\<close>

definition bytes16 :: "endian \<Rightarrow> u16 \<Rightarrow> u8 list" where
  "bytes16 host u = (case host of Little \<Rightarrow> [ucast u, ucast (drop_bit 8 u)]
     | Big \<Rightarrow> [ucast (drop_bit 8 u), ucast u])"

definition of_bytes16 :: "endian \<Rightarrow> u8 \<Rightarrow> u8 \<Rightarrow> u16" where
  "of_bytes16 host a b = (case host of Little \<Rightarrow> ucast a OR push_bit 8 (ucast b)
     | Big \<Rightarrow> push_bit 8 (ucast a) OR ucast b)"

definition bytes32 :: "endian \<Rightarrow> 32 word \<Rightarrow> u8 list" where
  "bytes32 host u =
     (let le = [ucast u, ucast (drop_bit 8 u), ucast (drop_bit 16 u), ucast (drop_bit 24 u)]
      in case host of Little \<Rightarrow> le | Big \<Rightarrow> rev le)"

definition of_bytes32 :: "endian \<Rightarrow> u8 \<Rightarrow> u8 \<Rightarrow> u8 \<Rightarrow> u8 \<Rightarrow> 32 word" where
  "of_bytes32 host a b c d =
     (let le = (\<lambda>a b c d. ucast a OR push_bit 8 (ucast b) OR push_bit 16 (ucast c) OR push_bit 24 (ucast d))
      in case host of Little \<Rightarrow> le a b c d | Big \<Rightarrow> le d c b a)"

definition utf16_consume_bom :: "endian \<Rightarrow> u16 reader_writer \<Rightarrow> u16 list \<Rightarrow> endian \<times> u16 list" where
  "utf16_consume_bom host rw us =
     (case us of [] \<Rightarrow> (Big, us)
      | u # rest \<Rightarrow>
        let bom = rw_read rw u in
        if bytes16 host bom = [0xfe, 0xff] then (Big, rest)
        else if bytes16 host bom = [0xff, 0xfe] then (Little, rest)
        else (Big, us))"

definition utf16_write_bom :: "endian \<Rightarrow> u16 reader_writer \<Rightarrow> u16 list \<Rightarrow> nat \<times> u16 list" where
  "utf16_write_bom host rw us =
     (case us of [] \<Rightarrow> (0, us)
      | u # rest \<Rightarrow>
        (case rw_endian rw of Little \<Rightarrow> (1, of_bytes16 host 0xfe 0xff # rest)
         | Big \<Rightarrow> (1, of_bytes16 host 0xff 0xfe # rest)))"

definition utf32_consume_bom ::
    "endian \<Rightarrow> 32 word reader_writer \<Rightarrow> 32 word list \<Rightarrow> endian \<times> 32 word list" where
  "utf32_consume_bom host rw us =
     (case us of [] \<Rightarrow> (Big, us)
      | u # rest \<Rightarrow>
        let bom = rw_read rw u in
        if bytes32 host bom = [0, 0, 0xfe, 0xff] then (Big, rest)
        else if bytes32 host bom = [0xff, 0xfe, 0, 0] then (Little, rest)
        else (Big, us))"

definition utf32_write_bom ::
    "endian \<Rightarrow> 32 word reader_writer \<Rightarrow> 32 word list \<Rightarrow> nat \<times> 32 word list" where
  "utf32_write_bom host rw us =
     (case us of [] \<Rightarrow> (0, us)
      | u # rest \<Rightarrow>
        (case rw_endian rw of Little \<Rightarrow> (1, of_bytes32 host 0 0 0xfe 0xff # rest)
         | Big \<Rightarrow> (1, of_bytes32 host 0xff 0xfe 0 0 # rest)))"

section \<open>Reading back a written mark\<close>

lemma written_marks:
  "of_bytes16 Little 0xfe 0xff = 0xfffe" "of_bytes16 Little 0xff 0xfe = 0xfeff"
  "of_bytes16 Big 0xfe 0xff = 0xfeff" "of_bytes16 Big 0xff 0xfe = 0xfffe"
  "of_bytes32 Little 0 0 0xfe 0xff = 0xfffe0000" "of_bytes32 Little 0xff 0xfe 0 0 = 0xfeff"
  "of_bytes32 Big 0 0 0xfe 0xff = 0xfeff" "of_bytes32 Big 0xff 0xfe 0 0 = 0xfffe0000"
  by (simp_all add: of_bytes16_def of_bytes32_def)

lemma swapped_marks:
  "bswap16 0xfeff = 0xfffe" "bswap16 0xfffe = 0xfeff"
  "bswap32 0xfeff = 0xfffe0000" "bswap32 0xfffe0000 = 0xfeff"
  by (simp_all add: bswap16_def bswap32_def)

text \<open>
  Whichever converter wrote the mark, reading it back reports the byte order the host does not
  have.
\<close>

definition other_endian :: "endian \<Rightarrow> endian" where
  "other_endian e = (case e of Little \<Rightarrow> Big | Big \<Rightarrow> Little)"

lemma utf16_bom_read_back:
  assumes "rw = le_reader_writer host bswap16 \<or> rw = be_reader_writer host bswap16"
  shows "utf16_consume_bom host rw (snd (utf16_write_bom host rw (u # us))) = (other_endian host, us)"
  using assms
  by (cases host) (auto simp: utf16_consume_bom_def utf16_write_bom_def reader_writer_defs
      written_marks swapped_marks bytes16_def other_endian_def)

lemma utf32_bom_read_back:
  assumes "rw = le_reader_writer host bswap32 \<or> rw = be_reader_writer host bswap32"
  shows "utf32_consume_bom host rw (snd (utf32_write_bom host rw (u # us))) = (other_endian host, us)"
  using assms
  by (cases host) (auto simp: utf32_consume_bom_def utf32_write_bom_def reader_writer_defs
      written_marks swapped_marks bytes32_def other_endian_def)

end
