(* ===== verification/Utf_Properties.thy ===== *)
theory Utf_Properties
  imports Utf_Instances Utf_Bom
begin

text \<open>The properties of the text encodings.\<close>

text \<open>
  C14: The UTF-8 decoder is the exact inverse of the encoder: it returns a code point and the rest
  of the input precisely when the code point is valid and the input starts with its encoding.
  Overlong forms, surrogates, values above 0x10ffff and truncated sequences are therefore refused,
  and no input makes it read out of bounds or fail an assertion.
\<close>

theorem utf8_decode_exact:
  "(utf8_decode ec bs = Inr (None, cp, bs') \<longleftrightarrow>
     is_valid_codepoint cp \<and> (\<exists>us. utf8_encode_unchecked cp = Inr us \<and> bs = us @ bs')) \<and>
   (\<exists>ec' cp' rest. utf8_decode ec bs = Inr (ec', cp', rest) \<and> length rest \<le> length bs)"
  using utf8_decode_sound [of ec bs cp bs'] utf8_decode_units(1) [of cp ec bs']
    utf8_encode_unchecked_units [of cp] utf8_decode_total [of ec bs] by auto

text \<open>
  C15: The bit manipulations of the UTF-8 encoder produce the byte sequences of the standard's
  table, of the length that \<open>codepoint_size\<close> announces, and \<open>encode\<close> writes them exactly when
  they fit.
\<close>

theorem utf8_encode_table:
  assumes "is_valid_codepoint cp"
  shows "utf8_encode_unchecked cp = Inr (map of_nat (utf8_nat (unat cp))) \<and>
    utf8_codepoint_size cp = Inr (length (utf8_nat (unat cp))) \<and>
    utf8_encode cp n = (if length (utf8_nat (unat cp)) > n then Inr [] else utf8_encode_unchecked cp)"
  using assms utf8_encode_unchecked_units [of cp] utf8_codepoint_size_units [of cp]
    utf8_encode_units [of cp n] by (simp add: utf8_units_def)

theorem utf8_encode_table_witness:
  "utf8_encode_unchecked 0x20ac = Inr [0xe2, 0x82, 0xac]"
  using utf8_encode_table [of "0x20ac" 4] by (simp add: valid_codepoint_unat utf8_nat_def)

text \<open>
  C16: For every byte order, the UTF-16 decoder returns a code point exactly when it is valid and
  the input starts with its encoding, one unit or a surrogate pair; lone surrogates are refused.
\<close>

theorem utf16_decode_exact:
  assumes "rw \<in> {le_reader_writer host bswap16, be_reader_writer host bswap16,
    native_reader_writer host bswap16}"
  shows "utf16_decode rw None us = Inr (None, cp, us') \<longleftrightarrow>
    is_valid_codepoint cp \<and> (\<exists>vs. utf16_encode_unchecked rw cp = Inr vs \<and> us = vs @ us')"
proof -
  have "utf16_order rw"
    using assms u16le.utf16_order_axioms u16be.utf16_order_axioms u16.utf16_order_axioms by blast
  from utf16_order.utf16_sound [OF this] utf16_order.utf16_inverse(1) [OF this]
  show ?thesis using utf16_encode_unchecked_units [of cp rw] by auto
qed

theorem utf16_decode_exact_witness:
  "utf16_decode (native_reader_writer Little bswap16) None [0xd83d, 0xde00, 0x41]
     = Inr (None, 0x1f600, [0x41])"
  using utf16_decode_exact [of "native_reader_writer Little bswap16" Little
      "[0xd83d, 0xde00, 0x41]" "0x1f600" "[0x41]"]
  by (simp add: utf16_encode_unchecked_units valid_codepoint_unat utf16_units_def utf16_nat_def
      reader_writer_defs)

text \<open>
  C17: Converting UTF-8 to UTF-16 always returns. If the source is the encoding of a sequence of
  code points, their UTF-16 encoding is appended to the target; otherwise the function throws and
  the target is left alone. The unchecked writing loop never leaves the space computed for it.
\<close>

theorem string_to_u16string_total:
  "(\<exists>cps. list_all is_valid_codepoint cps \<and> str = encoding utf8_units cps \<and>
      string_to_u16string host str target = Some (Inr (None, target @ encoding (utf16_text host) cps))) \<or>
   (\<nexists>cps. list_all is_valid_codepoint cps \<and> str = encoding utf8_units cps) \<and>
      (\<exists>e. string_to_u16string host str target = Some (Inr (Some e, target)))"
  using u8_u16.convert_cases [of str host target]
  by (auto simp: string_to_u16string_def or_throw_def valid_text_def)

lemma or_throw_iff: "or_throw r = Some (Inr (None, vs)) \<longleftrightarrow> (\<exists>n. r = Some (Inr (None, n, vs)))"
  by (auto simp: or_throw_def bind_run_eq_Inr split: option.splits)

text \<open>
  C18: Converting from UTF-8 to UTF-16 or UTF-32 and back restores the string, and so does
  converting from UTF-16 to UTF-32 and back.
\<close>

theorem conversions_round_trip:
  "(string_to_u16string host s8 [] = Some (Inr (None, s16)) \<longrightarrow>
      u16string_to_string host s16 [] = Some (Inr (None, s8))) \<and>
   (string_to_u32string host s8 [] = Some (Inr (None, s32)) \<longrightarrow>
      u32string_to_string host s32 [] = Some (Inr (None, s8))) \<and>
   (u16string_to_u32string host s16 [] = Some (Inr (None, s32)) \<longrightarrow>
      u32string_to_u16string host s32 [] = Some (Inr (None, s16)))"
  using u8_u16.convert_round_trip [where host = host and us = s8 and vs = s16]
    u8_u32.convert_round_trip [where host = host and us = s8 and vs = s32]
    u16_u32.convert_round_trip [where host = host and us = s16 and vs = s32]
  by (auto simp: string_to_u16string_def u16string_to_string_def string_to_u32string_def
      u32string_to_string_def u16string_to_u32string_def u32string_to_u16string_def or_throw_iff)

lemma sample_conversion: "string_to_u16string Little [0x41, 0xc3, 0xa9] [] = Some (Inr (None, [0x41, 0xe9]))"
  using u8_u16.convert_text [of "[0x41, 0xe9]" Little "[]"]
  by (simp add: string_to_u16string_def or_throw_def valid_codepoint_unat utf8_units_def utf8_nat_def
      utf16_units_def utf16_nat_def reader_writer_defs)

theorem conversions_round_trip_witness:
  "u16string_to_string Little [0x41, 0xe9] [] = Some (Inr (None, [0x41, 0xc3, 0xa9]))"
  using conversions_round_trip [of Little "[0x41, 0xc3, 0xa9]" "[0x41, 0xe9]"] sample_conversion by simp

text \<open>
  C19: Converting UTF-8 with replacement returns for every byte sequence, writes exactly the
  number of units computed beforehand, so never past the resized target, and appends an encoding
  of valid code points; the uninitialised error variable has no influence.
\<close>

theorem convert_replace_utf8_safe:
  "(\<exists>cps. list_all is_valid_codepoint cps \<and>
     convert_replace utf8_codecvt (utf16_codecvt host) junk bs target
       = Some (Inr (length (encoding (utf16_text host) cps), target @ encoding (utf16_text host) cps))) \<and>
   (\<exists>cps. list_all is_valid_codepoint cps \<and>
     convert_replace utf8_codecvt (utf32_codecvt host) junk bs target2
       = Some (Inr (length (encoding (utf32_text host) cps), target2 @ encoding (utf32_text host) cps)))"
  using u8_u16r.convert_replace_ok u8_u32r.convert_replace_ok by blast

text \<open>
  C20: Converting UTF-16 with replacement reads an error variable that the decoder does not assign
  for units of the basic plane. With the value zero a string of one ASCII unit is converted; with
  any other value its replacement overruns the one unit reserved for it.
\<close>

theorem convert_replace_utf16_uninitialised:
  assumes "unat w < 128"
  shows "convert_replace (utf16_codecvt host) utf8_codecvt None [w] target
      = Some (Inr (1, target @ [ucast w])) \<and>
    convert_replace (utf16_codecvt host) utf8_codecvt (Some e) [w] target = Some (Inl Out_of_bounds)"
proof -
  have v: "is_valid_codepoint (ucast w)" using assms by (intro bmp_valid) simp
  have n: "rw_read (native_reader_writer host bswap16) w = w"
    by (cases host) (simp_all add: reader_writer_defs)
  have d: "utf16_decode (native_reader_writer host bswap16) ec [w] = Inr (ec, ucast w, [])" for ec
    using assms n by (simp add: utf16_decode_def surrogate_iff)
  have enc: "utf8_encode_unchecked (ucast w) = Inr [ucast w]" "utf8_codepoint_size (ucast w) = Inr 1"
    using v assms utf8_encode_unchecked_units [OF v] utf8_codepoint_size_units [OF v]
    by (simp_all add: utf8_units_def utf8_nat_def)
  have r: "utf8_encode_unchecked replacement_codepoint = Inr [0xef, 0xbf, 0xbd]"
    "utf16_codepoint_size replacement_codepoint = Inr 1"
    using utf8_encode_unchecked_units [OF replacement_valid]
      utf16_codepoint_size_units [OF replacement_valid, of "native_reader_writer host bswap16"]
    by (simp_all add: utf8_units_def utf8_nat_def utf16_units_def utf16_nat_def replacement_codepoint_def)
  note loops = calc_length_replace_loop.simps [of _ _ "[w]"] calc_length_replace_loop.simps [of _ _ "[]"]
    convert_replace_loop.simps [of _ _ _ _ "[w]"] convert_replace_loop.simps [of _ _ _ _ "[]"]
  show ?thesis
    using d enc r
    by (simp add: convert_replace_def calc_length_replace_def convert_replace_span_def loops
        decode_replace_def put_units_def utf16_codecvt_def utf16_codecvt_base_def utf8_codecvt_def)
qed

theorem convert_replace_utf16_uninitialised_witness:
  "convert_replace (utf16_codecvt Little) utf8_codecvt (Some Illegal_byte_sequence) [0x41] []
     = Some (Inl Out_of_bounds)"
  using convert_replace_utf16_uninitialised [of "0x41" Little "[]" Illegal_byte_sequence] by simp

text \<open>
  C21: Windows-1256: the two directions of the code page are inverse to each other, and converting
  any byte string to UTF-8 succeeds with the encodings of its characters.
\<close>

theorem cp1256_to_utf8_total:
  "cp1256_to_utf8 bs target = Some (Inr (None, target @ encoding utf8_units (map map_cp1256_to_unicode bs))) \<and>
   map_unicode_to_cp1256 (map_cp1256_to_unicode c) = (True, c) \<and>
   (map_unicode_to_cp1256 cp = (True, c) \<longleftrightarrow> map_cp1256_to_unicode c = cp)"
proof -
  let ?cps = "map map_cp1256_to_unicode bs"
  have "valid_text cp1256_codecvt ?cps"
    by (simp add: valid_text_def list_all_iff cp1256_valid cp1256_codecvt_def
        is_valid_cp1256_codepoint_def cp1256_decode_encode)
  moreover have "encoding cp1256_units ?cps = bs"
    by (induction bs) (simp_all add: cp1256_units_def cp1256_decode_encode)
  ultimately have "convert cp1256_codecvt utf8_codecvt bs target
      = Some (Inr (None, length (encoding utf8_units ?cps), target @ encoding utf8_units ?cps))"
    using cp1256_u8.convert_text [of ?cps target] by simp
  then show ?thesis
    using cp1256_decode_encode [of c] cp1256_encode_decode [of cp c]
    by (auto simp: cp1256_to_utf8_def or_throw_def)
qed

text \<open>
  Reading back a byte order mark that a UTF-16 or UTF-32 converter has written reports the
  order the host does not have, whichever order the converter is for; on a little-endian host the
  mark of the little-endian converters reads as big-endian.
\<close>

theorem bom_reports_other_order:
  assumes "rw = le_reader_writer host bswap16 \<or> rw = be_reader_writer host bswap16"
    and "rw32 = le_reader_writer host bswap32 \<or> rw32 = be_reader_writer host bswap32"
  shows "utf16_consume_bom host rw (snd (utf16_write_bom host rw (u # us))) = (other_endian host, us) \<and>
    utf32_consume_bom host rw32 (snd (utf32_write_bom host rw32 (v # vs))) = (other_endian host, vs)"
  using utf16_bom_read_back [OF assms(1)] utf32_bom_read_back [OF assms(2)] by simp

theorem bom_reports_other_order_witness:
  "fst (utf16_consume_bom Little (le_reader_writer Little bswap16)
     (snd (utf16_write_bom Little (le_reader_writer Little bswap16) [0, 0x41]))) = Big"
  using bom_reports_other_order [of "le_reader_writer Little bswap16" Little
      "le_reader_writer Little bswap32" 0 "[0x41]" 0 "[]"] by (simp add: other_endian_def)

end
