(* ===== verification/Percent_Encoding.thy ===== *)
theory Percent_Encoding
  imports Utf_Codec
begin

text \<open>
  Percent encoding of URLs: \<open>src/src/net/url/percent_encoding.cpp\<close>, the set items of
  \<open>src/include/rad/net/url/percent_encoding.h\<close> and the encode sets of \<open>src/src/net/url/url.cpp\<close>.
  Strings are lists of bytes. \<open>output.prepare(n)\<close> appends \<open>n\<close> bytes to the output; a write past
  them is the fault \<open>Out_of_bounds\<close>, as is reading or removing the front of an empty view. A loop
  that never ends is \<open>None\<close>.
\<close>

section \<open>Character classes\<close>

definition is_unreserved_character :: "codepoint \<Rightarrow> bool" where
  "is_unreserved_character cp \<longleftrightarrow>
     (cp \<ge> 0x41 \<and> cp \<le> 0x5a) \<or> (cp \<ge> 0x61 \<and> cp \<le> 0x7a) \<or> (cp \<ge> 0x30 \<and> cp \<le> 0x39) \<or>
     cp = 0x2d \<or> cp = 0x5f \<or> cp = 0x7e \<or> cp = 0x2e"

datatype perecent_encode_set_item =
    Set_codepoint codepoint | Set_upto codepoint | Set_greater_than codepoint

definition set_item_matches :: "perecent_encode_set_item \<Rightarrow> codepoint \<Rightarrow> bool" where
  "set_item_matches es cp =
     (case es of Set_codepoint c \<Rightarrow> c = cp
      | Set_upto stop_inclusive \<Rightarrow> cp \<le> stop_inclusive
      | Set_greater_than start_exclusive \<Rightarrow> cp > start_exclusive)"

fun is_unreserved_character_set :: "perecent_encode_set_item list \<Rightarrow> codepoint \<Rightarrow> bool" where
  "is_unreserved_character_set [] cp = True"
| "is_unreserved_character_set (es # items) cp =
     (if set_item_matches es cp then False else is_unreserved_character_set items cp)"

definition c0_control_percent_encode_set :: "perecent_encode_set_item list" where
  "c0_control_percent_encode_set = [Set_upto 0x1f, Set_greater_than 0x7e]"

definition fragment_percent_encode_set :: "perecent_encode_set_item list" where
  "fragment_percent_encode_set = [Set_upto 0x1f, Set_greater_than 0x7e, Set_codepoint 0x20,
     Set_codepoint 0x22, Set_codepoint 0x3c, Set_codepoint 0x3e, Set_codepoint 0x60]"

definition query_percent_encode_set :: "perecent_encode_set_item list" where
  "query_percent_encode_set = [Set_upto 0x1f, Set_greater_than 0x7e, Set_codepoint 0x20,
     Set_codepoint 0x22, Set_codepoint 0x3c, Set_codepoint 0x3e, Set_codepoint 0x23]"

definition special_query_percent_encode_set :: "perecent_encode_set_item list" where
  "special_query_percent_encode_set = [Set_upto 0x1f, Set_greater_than 0x7e, Set_codepoint 0x20,
     Set_codepoint 0x22, Set_codepoint 0x3c, Set_codepoint 0x3e, Set_codepoint 0x23,
     Set_codepoint 0x27]"

definition path_percent_encode_set :: "perecent_encode_set_item list" where
  "path_percent_encode_set = [Set_upto 0x1f, Set_greater_than 0x7e, Set_codepoint 0x20,
     Set_codepoint 0x22, Set_codepoint 0x3c, Set_codepoint 0x3e, Set_codepoint 0x23,
     Set_codepoint 0x3f, Set_codepoint 0x5e, Set_codepoint 0x60, Set_codepoint 0x7b,
     Set_codepoint 0x7d]"

definition userinfo_percent_encode_set :: "perecent_encode_set_item list" where
  "userinfo_percent_encode_set = [Set_upto 0x1f, Set_greater_than 0x7e, Set_codepoint 0x20,
     Set_codepoint 0x22, Set_codepoint 0x3c, Set_codepoint 0x3e, Set_codepoint 0x23,
     Set_codepoint 0x3f, Set_codepoint 0x5e, Set_codepoint 0x60, Set_codepoint 0x7b,
     Set_codepoint 0x7d, Set_codepoint 0x2f, Set_codepoint 0x3a, Set_codepoint 0x3b,
     Set_codepoint 0x3d, Set_codepoint 0x40, Set_codepoint 0x5b, Set_codepoint 0x5c,
     Set_codepoint 0x5d, Set_codepoint 0x7c]"

section \<open>Encoding\<close>

partial_function (option) encoded_size_loop ::
    "(codepoint \<Rightarrow> bool) \<Rightarrow> u8 list \<Rightarrow> nat \<Rightarrow> (errc option \<times> nat) res option" where
  "encoded_size_loop encode_set_f bs encoded_len =
     (if bs = [] then Some (Inr (None, encoded_len))
      else case utf8_decode None bs of Inl e \<Rightarrow> Some (Inl e)
      | Inr (e, cp, rest) \<Rightarrow>
        if e \<noteq> None then Some (Inr (e, 0))
        else if encode_set_f cp then encoded_size_loop encode_set_f rest (encoded_len + 1)
        else (case utf8_codepoint_size cp of Inl e \<Rightarrow> Some (Inl e)
          | Inr k \<Rightarrow> encoded_size_loop encode_set_f rest (encoded_len + k * 3)))"

definition get_perecent_encoded_size ::
    "(codepoint \<Rightarrow> bool) \<Rightarrow> u8 list \<Rightarrow> (errc option \<times> nat) run" where
  "get_perecent_encoded_size encode_set_f input =
     (if input = [] then Some (Inr (None, 0)) else encoded_size_loop encode_set_f input 0)"

text \<open>The exported functions: the size, or zero with the error reported.\<close>

definition report_size :: "(errc option \<times> nat) run \<Rightarrow> (errc option \<times> nat) run" where
  "report_size r = bind_run r (\<lambda>(e, n).
     if e \<noteq> None then Some (Inr (e, 0)) else Some (Inr (None, n)))"

definition perecent_encoded_size :: "u8 list \<Rightarrow> (errc option \<times> nat) run" where
  "perecent_encoded_size input = report_size (get_perecent_encoded_size is_unreserved_character input)"

definition perecent_encoded_size_set ::
    "perecent_encode_set_item list \<Rightarrow> u8 list \<Rightarrow> (errc option \<times> nat) run" where
  "perecent_encoded_size_set encode_set input =
     report_size (get_perecent_encoded_size (is_unreserved_character_set encode_set) input)"

definition hex_digits :: "u8 list" where
  "hex_digits = [0x30, 0x31, 0x32, 0x33, 0x34, 0x35, 0x36, 0x37, 0x38, 0x39,
     0x41, 0x42, 0x43, 0x44, 0x45, 0x46]"

definition make_hex_seq :: "u8 \<Rightarrow> u8 list" where
  "make_hex_seq v =
     (let first_digit = v AND 0x0f; second_digit = drop_bit 4 v
      in [hex_digits ! unat second_digit, hex_digits ! unat first_digit])"

text \<open>Writing bytes at the end of what has been written to a buffer of \<open>cap\<close> bytes.\<close>

definition write_bytes :: "nat \<Rightarrow> u8 list \<Rightarrow> u8 list \<Rightarrow> u8 list res" where
  "write_bytes cap out ws =
     bind_res (ensure (length out + length ws \<le> cap) Out_of_bounds) (\<lambda>_. Inr (out @ ws))"

fun percent_encode_seq :: "nat \<Rightarrow> nat \<Rightarrow> u8 list \<Rightarrow> u8 list \<Rightarrow> (u8 list \<times> u8 list) res" where
  "percent_encode_seq cap 0 bs out = Inr (bs, out)"
| "percent_encode_seq cap (Suc k) [] out = Inl Out_of_bounds"
| "percent_encode_seq cap (Suc k) (b # bs) out =
     bind_res (write_bytes cap out (0x25 # make_hex_seq b)) (\<lambda>out'. percent_encode_seq cap k bs out')"

partial_function (option) percent_encode_loop ::
    "(codepoint \<Rightarrow> bool) \<Rightarrow> nat \<Rightarrow> u8 list \<Rightarrow> u8 list \<Rightarrow> u8 list res option" where
  "percent_encode_loop encode_set_f cap bs out =
     (case bs of [] \<Rightarrow> Some (Inr out)
      | ch # rest \<Rightarrow>
        if encode_set_f (ucast ch) then
          (case write_bytes cap out [ch] of Inl e \<Rightarrow> Some (Inl e)
           | Inr out' \<Rightarrow> percent_encode_loop encode_set_f cap rest out')
        else
          (case percent_encode_seq cap (utf8_sequence_size ch) bs out of Inl e \<Rightarrow> Some (Inl e)
           | Inr r \<Rightarrow> percent_encode_loop encode_set_f cap (fst r) (snd r)))"

definition do_percent_encode ::
    "(codepoint \<Rightarrow> bool) \<Rightarrow> nat \<Rightarrow> u8 list \<Rightarrow> u8 list run" where
  "do_percent_encode encode_set_f output_size input =
     (if length input = output_size then Some (Inr input)
      else percent_encode_loop encode_set_f output_size input [])"

text \<open>The bytes of a prepared buffer that were not written are zero.\<close>

definition filled :: "u8 list \<Rightarrow> nat \<Rightarrow> u8 list \<Rightarrow> u8 list" where
  "filled output n written = output @ written @ replicate (n - length written) 0"

text \<open>What both overloads do with the size computed, for their class of unreserved characters.\<close>

definition percent_encode_with ::
    "(codepoint \<Rightarrow> bool) \<Rightarrow> (errc option \<times> nat) run \<Rightarrow> u8 list \<Rightarrow> u8 list \<Rightarrow>
       (errc option \<times> nat \<times> u8 list) run" where
  "percent_encode_with encode_set_f encoded_size input output =
     bind_run encoded_size (\<lambda>(ec, encoded_len).
       if ec \<noteq> None \<or> encoded_len = 0 then Some (Inr (ec, 0, output))
       else bind_run (do_percent_encode encode_set_f encoded_len input) (\<lambda>written.
         Some (Inr (None, encoded_len, filled output encoded_len written))))"

definition percent_encode :: "u8 list \<Rightarrow> u8 list \<Rightarrow> (errc option \<times> nat \<times> u8 list) run" where
  "percent_encode input output = 
     percent_encode_with is_unreserved_character (perecent_encoded_size input) input output"

definition percent_encode_set ::
    "perecent_encode_set_item list \<Rightarrow> u8 list \<Rightarrow> u8 list \<Rightarrow> (errc option \<times> nat \<times> u8 list) run" where
  "percent_encode_set encode_set input output =
     percent_encode_with (is_unreserved_character_set encode_set)
       (perecent_encoded_size_set encode_set input) input output"

section \<open>Decoding\<close>

text \<open>\<open>None\<close>: the error \<open>illegal_byte_sequence\<close>.\<close>

definition hex_char_to_decimal :: "u8 \<Rightarrow> u8 option" where
  "hex_char_to_decimal ch =
     (if ch \<ge> 0x30 \<and> ch \<le> 0x39 then Some (ch - 0x30 + 0)
      else if ch \<ge> 0x61 \<and> ch \<le> 0x66 then Some (ch - 0x61 + 10)
      else if ch \<ge> 0x41 \<and> ch \<le> 0x46 then Some (ch - 0x41 + 10)
      else None)"

definition decode_percent_encoded_byte :: "u8 list \<Rightarrow> (u8 \<times> u8 list) option res" where
  "decode_percent_encoded_byte input =
     bind_res (ensure (length input \<ge> 2) Assertion) (\<lambda>_.
       case hex_char_to_decimal (input ! 0) of None \<Rightarrow> Inr None
       | Some byte1 \<Rightarrow>
         (case hex_char_to_decimal (input ! 1) of None \<Rightarrow> Inr None
          | Some byte2 \<Rightarrow> Inr (Some (byte1 * 16 + byte2, drop 2 input))))"

text \<open>The loop that collects the continuation bytes of one sequence.\<close>

fun percent_seq_loop :: "nat \<Rightarrow> u8 list \<Rightarrow> u8 list \<Rightarrow> (u8 list \<times> u8 list) option res" where
  "percent_seq_loop 0 input buff = Inr (Some (buff, input))"
| "percent_seq_loop (Suc k) [] buff = Inl Out_of_bounds"
| "percent_seq_loop (Suc k) (c # input) buff =
     (if c \<noteq> 0x25 then Inr None
      else bind_res (decode_percent_encoded_byte input) (\<lambda>r.
        case r of None \<Rightarrow> Inr None
        | Some (b, input') \<Rightarrow> percent_seq_loop k input' (buff @ [b])))"

text \<open>
  One round of \<open>get_perecent_decoded_size\<close>: the rest of the input and the bytes counted, or the
  error returned. A \<open>char\<close> is sign-extended when it is passed as a code point.
\<close>

definition decoded_size_round ::
    "(codepoint \<Rightarrow> bool) \<Rightarrow> u8 \<Rightarrow> u8 list \<Rightarrow> (errc + (u8 list \<times> nat)) res" where
  "decoded_size_round encode_set_f ch input =
     (if encode_set_f (scast ch) then Inr (Inr (input, 1))
      else if ch \<noteq> 0x25 then Inr (Inl Illegal_byte_sequence)
      else if length input < 2 then Inr (Inl No_buffer_space)
      else bind_res (decode_percent_encoded_byte input) (\<lambda>r.
        case r of None \<Rightarrow> Inr (Inl Illegal_byte_sequence)
        | Some (byte_value, input1) \<Rightarrow>
          let seq_len = utf8_sequence_size byte_value in
          if seq_len = 0 \<or> seq_len > 4 then Inr (Inl Illegal_byte_sequence)
          else if seq_len = 1 then Inr (Inr (input1, 1))
          else if length input1 < (seq_len - 1) * 3 then Inr (Inl No_buffer_space)
          else bind_res (percent_seq_loop (seq_len - 1) input1 [byte_value]) (\<lambda>s.
            case s of None \<Rightarrow> Inr (Inl Illegal_byte_sequence)
            | Some (utf8_seq_buff, input2) \<Rightarrow>
              bind_res (utf8_decode None utf8_seq_buff) (\<lambda>(e, cp, rest).
                if e \<noteq> None \<or> rest \<noteq> [] then Inr (Inl Illegal_byte_sequence)
                else Inr (Inr (input2, 1 + (seq_len - 1)))))))"

partial_function (option) decoded_size_loop ::
    "(codepoint \<Rightarrow> bool) \<Rightarrow> u8 list \<Rightarrow> nat \<Rightarrow> (errc option \<times> nat) res option" where
  "decoded_size_loop encode_set_f input decoded_len =
     (case input of [] \<Rightarrow> Some (Inr (None, decoded_len))
      | ch # rest \<Rightarrow>
        (case decoded_size_round encode_set_f ch rest of Inl e \<Rightarrow> Some (Inl e)
         | Inr r \<Rightarrow>
           (case r of Inl e \<Rightarrow> Some (Inr (Some e, 0))
            | Inr s \<Rightarrow> decoded_size_loop encode_set_f (fst s) (decoded_len + snd s))))"

definition get_perecent_decoded_size ::
    "(codepoint \<Rightarrow> bool) \<Rightarrow> u8 list \<Rightarrow> (errc option \<times> nat) run" where
  "get_perecent_decoded_size encode_set_f input =
     (if input = [] then Some (Inr (None, 0)) else decoded_size_loop encode_set_f input 0)"

definition perecent_decoded_size :: "u8 list \<Rightarrow> (errc option \<times> nat) run" where
  "perecent_decoded_size input = report_size (get_perecent_decoded_size is_unreserved_character input)"

definition perecent_decoded_size_set ::
    "perecent_encode_set_item list \<Rightarrow> u8 list \<Rightarrow> (errc option \<times> nat) run" where
  "perecent_decoded_size_set encode_set input =
     report_size (get_perecent_decoded_size (is_unreserved_character_set encode_set) input)"

fun percent_decode_seq :: "nat \<Rightarrow> nat \<Rightarrow> u8 list \<Rightarrow> u8 list \<Rightarrow> (u8 list \<times> u8 list) res" where
  "percent_decode_seq cap 0 input out = Inr (input, out)"
| "percent_decode_seq cap (Suc k) [] out = Inl Out_of_bounds"
| "percent_decode_seq cap (Suc k) (c # input) out =
     bind_res (ensure (c = 0x25) Assertion) (\<lambda>_.
     bind_res (decode_percent_encoded_byte input) (\<lambda>r.
       case r of None \<Rightarrow> Inl Assertion
       | Some (u8byte, input') \<Rightarrow>
         bind_res (write_bytes cap out [u8byte]) (\<lambda>out'. percent_decode_seq cap k input' out')))"

definition percent_decode_round ::
    "(codepoint \<Rightarrow> bool) \<Rightarrow> nat \<Rightarrow> u8 \<Rightarrow> u8 list \<Rightarrow> u8 list \<Rightarrow> (u8 list \<times> u8 list) res" where
  "percent_decode_round encode_set_f cap ch input out =
     (if encode_set_f (scast ch) then bind_res (write_bytes cap out [ch]) (\<lambda>out'. Inr (input, out'))
      else
        bind_res (ensure (ch = 0x25) Assertion) (\<lambda>_.
        bind_res (decode_percent_encoded_byte input) (\<lambda>r.
          case r of None \<Rightarrow> Inl Assertion
          | Some (byte_value, input1) \<Rightarrow>
            let seq_len = utf8_sequence_size byte_value in
            bind_res (ensure (seq_len > 0 \<and> seq_len \<le> 4) Assertion) (\<lambda>_.
            bind_res (write_bytes cap out [byte_value]) (\<lambda>out1.
              percent_decode_seq cap (seq_len - 1) input1 out1)))))"

partial_function (option) percent_decode_loop ::
    "(codepoint \<Rightarrow> bool) \<Rightarrow> nat \<Rightarrow> u8 list \<Rightarrow> u8 list \<Rightarrow> u8 list res option" where
  "percent_decode_loop encode_set_f cap input out =
     (case input of [] \<Rightarrow> Some (Inr out)
      | ch # rest \<Rightarrow>
        (case percent_decode_round encode_set_f cap ch rest out of Inl e \<Rightarrow> Some (Inl e)
         | Inr r \<Rightarrow> percent_decode_loop encode_set_f cap (fst r) (snd r)))"

definition do_percent_decode ::
    "(codepoint \<Rightarrow> bool) \<Rightarrow> nat \<Rightarrow> u8 list \<Rightarrow> u8 list run" where
  "do_percent_decode encode_set_f output_size input =
     (if length input = output_size then Some (Inr input)
      else percent_decode_loop encode_set_f output_size input [])"

text \<open>
  \<open>percent_decode\<close> sizes its buffer with the default character class in both overloads, and decodes
  with the class given.
\<close>

definition percent_decode_with ::
    "(codepoint \<Rightarrow> bool) \<Rightarrow> u8 list \<Rightarrow> u8 list \<Rightarrow> (errc option \<times> nat \<times> u8 list) run" where
  "percent_decode_with encode_set_f input output =
     bind_run (perecent_decoded_size input) (\<lambda>(ec, decoded_len).
       if ec \<noteq> None \<or> decoded_len = 0 then Some (Inr (ec, 0, output))
       else bind_run (do_percent_decode encode_set_f decoded_len input) (\<lambda>written.
         Some (Inr (None, decoded_len, filled output decoded_len written))))"

definition percent_decode :: "u8 list \<Rightarrow> u8 list \<Rightarrow> (errc option \<times> nat \<times> u8 list) run" where
  "percent_decode input output = percent_decode_with is_unreserved_character input output"

definition percent_decode_set ::
    "perecent_encode_set_item list \<Rightarrow> u8 list \<Rightarrow> u8 list \<Rightarrow> (errc option \<times> nat \<times> u8 list) run" where
  "percent_decode_set encode_set input output =
     percent_decode_with (is_unreserved_character_set encode_set) input output"

end
