(* ===== verification/Percent_Laws.thy ===== *)
theory Percent_Laws
  imports Percent_Encoding Utf_Instances
begin

text \<open>
  Percent encoding over the UTF-8 converter: what is written for one code point, the agreement of
  the computed sizes with what is written, and decoding as the inverse of encoding. The encode
  sets in use encode every code point above ASCII; this is the only assumption on them.
\<close>

definition ascii_only :: "(codepoint \<Rightarrow> bool) \<Rightarrow> bool" where
  "ascii_only f \<longleftrightarrow> (\<forall>cp. f cp \<longrightarrow> unat cp < 128)"

definition percent_bytes :: "u8 list \<Rightarrow> u8 list" where
  "percent_bytes bs = concat (map (\<lambda>b. 0x25 # make_hex_seq b) bs)"

definition percent_piece :: "(codepoint \<Rightarrow> bool) \<Rightarrow> codepoint \<Rightarrow> u8 list" where
  "percent_piece f cp = (if f cp then utf8_units cp else percent_bytes (utf8_units cp))"

definition percent_text :: "(codepoint \<Rightarrow> bool) \<Rightarrow> codepoint list \<Rightarrow> u8 list" where
  "percent_text f cps = concat (map (percent_piece f) cps)"

lemma percent_bytes_simps [simp]:
  "percent_bytes [] = []" "percent_bytes (b # bs) = 0x25 # make_hex_seq b @ percent_bytes bs"
  by (simp_all add: percent_bytes_def)

lemma length_make_hex_seq [simp]: "length (make_hex_seq b) = 2"
  by (simp add: make_hex_seq_def)

lemma length_percent_bytes [simp]: "length (percent_bytes bs) = length bs * 3"
  by (induction bs) simp_all

lemma percent_text_simps [simp]:
  "percent_text f [] = []" "percent_text f (cp # cps) = percent_piece f cp @ percent_text f cps"
  by (simp_all add: percent_text_def)

section \<open>Character classes\<close>

lemma unreserved_ascii: "ascii_only is_unreserved_character"
  by (auto simp: ascii_only_def is_unreserved_character_def word_le_nat_alt)

lemma set_ascii:
  assumes "Set_greater_than 0x7e \<in> set items"
  shows "ascii_only (is_unreserved_character_set items)"
proof -
  have "\<not> is_unreserved_character_set items cp" if "cp > 0x7e" for cp
    using assms that by (induction items) (auto simp: set_item_matches_def)
  then have "is_unreserved_character_set items cp \<Longrightarrow> cp \<le> 0x7e" for cp by (meson not_le)
  then show ?thesis by (fastforce simp: ascii_only_def word_le_nat_alt)
qed

lemma utf8_units_ascii:
  assumes "unat cp < 128"
  shows "utf8_units cp = [ucast cp]" "ucast (ucast cp :: u8) = cp" "scast (ucast cp :: u8) = cp"
proof -
  show "utf8_units cp = [ucast cp]" using assms by (simp add: utf8_units_def utf8_nat_def)
  have u: "unat (ucast cp :: u8) = unat cp" using assms by (simp add: word_arith)
  then show z: "ucast (ucast cp :: u8) = cp" by (simp add: word_unat_eq_iff)
  have "\<not> bit (ucast cp :: u8) 7"
  proof
    assume "bit (ucast cp :: u8) 7"
    then have "7 < (7::nat)" using unat_lt_bit [of "ucast cp :: u8" 7 7] u assms by simp
    then show False by simp
  qed
  then have no: "\<not> (7 \<le> n \<and> bit (ucast cp :: u8) n)" for n
    using bit_imp_le_length [of "ucast cp :: u8" n] by (cases "n = 7") auto
  have "(scast (ucast cp :: u8) :: codepoint) = ucast (ucast cp :: u8)"
    using no by (intro bit_word_eqI) (auto simp: bit_simps min_def split: if_splits)
  then show "scast (ucast cp :: u8) = cp" using z by simp
qed

text \<open>The leading byte of a multi-byte sequence is not ASCII.\<close>

lemma lead_not_ascii:
  assumes "is_valid_codepoint cp" and "128 \<le> unat cp" and "utf8_units cp = b # cs"
  shows "128 \<le> unat b" "cs \<noteq> []"
proof -
  obtain b' cs' where u: "utf8_units cp = b' # cs'" "utf8_sequence_size b' = length cs' + 1"
    using utf8_units_shape [OF assms(1)] by metis
  have "length (utf8_units cp) \<noteq> 1" using assms(2) by (simp add: utf8_units_def utf8_nat_def)
  then show "cs \<noteq> []" using assms(3) by auto
  then show "128 \<le> unat b"
    using u assms(3) by (auto simp: sequence_size_eq split: if_splits)
qed

section \<open>Encoding\<close>

lemma valid_text_u8: "valid_text utf8_codecvt cps \<longleftrightarrow> list_all is_valid_codepoint cps"
  by (simp add: valid_text_def)

lemma encoded_size_loop_text:
  assumes "ascii_only f" and "list_all is_valid_codepoint cps"
  shows "encoded_size_loop f (encoding utf8_units cps @ bs) len
    = encoded_size_loop f bs (len + length (percent_text f cps))"
  using assms(2)
proof (induction cps arbitrary: len)
  case (Cons cp cps)
  then have v: "is_valid_codepoint cp" by simp
  have "length (percent_piece f cp) = 1" if "f cp"
    using that assms(1) by (simp add: percent_piece_def ascii_only_def utf8_units_ascii)
  moreover have "length (percent_piece f cp) = length (utf8_units cp) * 3" if "\<not> f cp"
    using that by (simp add: percent_piece_def)
  ultimately show ?case
    using Cons v utf8_decode_units(1) [OF v, of None] utf8_decode_units(3) [OF v]
      utf8_codepoint_size_units [OF v]
    by (subst encoded_size_loop.simps) (simp add: add.assoc)
qed simp

lemma percent_encode_seq_ok:
  assumes "k = length bs" and "length out + length bs * 3 \<le> cap"
  shows "percent_encode_seq cap k (bs @ rest) out = Inr (rest, out @ percent_bytes bs)"
  using assms by (induction bs arbitrary: k out) (simp_all add: write_bytes_def)

lemma percent_encode_loop_text:
  assumes f: "ascii_only f" and "list_all is_valid_codepoint cps"
    and "length out + length (percent_text f cps) \<le> cap"
  shows "percent_encode_loop f cap (encoding utf8_units cps) out = Some (Inr (out @ percent_text f cps))"
  using assms(2,3)
proof (induction cps arbitrary: out)
  case Nil
  then show ?case by (simp add: percent_encode_loop.simps)
next
  case (Cons cp cps)
  then have v: "is_valid_codepoint cp" by simp
  have IH: "percent_encode_loop f cap (encoding utf8_units cps) (out @ percent_piece f cp)
      = Some (Inr (out @ percent_text f (cp # cps)))" using Cons by simp
  show ?case
  proof (cases "f cp")
    case True
    then have a: "unat cp < 128" using f by (simp add: ascii_only_def)
    then show ?thesis
      using True IH Cons.prems utf8_units_ascii [OF a]
      by (subst percent_encode_loop.simps) (simp add: percent_piece_def write_bytes_def)
  next
    case False
    obtain b cs where u: "utf8_units cp = b # cs" "utf8_sequence_size b = length cs + 1"
      using utf8_units_shape [OF v] by metis
    have "\<not> f (ucast b)"
    proof (cases "unat cp < 128")
      case True
      then show ?thesis using False u utf8_units_ascii [OF True] by simp
    next
      case big: False
      then show ?thesis using lead_not_ascii(1) [OF v _ u(1)] f by (force simp: ascii_only_def)
    qed
    moreover have "percent_encode_seq cap (length cs + 1) (b # cs @ encoding utf8_units cps) out
        = Inr (encoding utf8_units cps, out @ percent_piece f cp)"
      using percent_encode_seq_ok [of "length cs + 1" "b # cs" out cap "encoding utf8_units cps"]
        Cons.prems False u by (simp add: percent_piece_def)
    ultimately show ?thesis
      using IH u by (subst percent_encode_loop.simps) simp
  qed
qed

lemma percent_piece_longer:
  assumes "ascii_only f" and "is_valid_codepoint cp"
  shows "length (utf8_units cp) \<le> length (percent_piece f cp)"
    and "length (utf8_units cp) = length (percent_piece f cp) \<Longrightarrow> percent_piece f cp = utf8_units cp"
  using utf8_decode_units(3) [OF assms(2)] by (auto simp: percent_piece_def)

lemma percent_text_longer:
  assumes "ascii_only f" and "list_all is_valid_codepoint cps"
  shows "length (encoding utf8_units cps) \<le> length (percent_text f cps)"
    and "length (encoding utf8_units cps) = length (percent_text f cps) \<Longrightarrow>
      percent_text f cps = encoding utf8_units cps"
proof -
  have "length (encoding utf8_units cps) \<le> length (percent_text f cps) \<and>
    (length (encoding utf8_units cps) = length (percent_text f cps) \<longrightarrow>
      percent_text f cps = encoding utf8_units cps)"
    using assms(2)
  proof (induction cps)
    case (Cons cp cps)
    then show ?case using percent_piece_longer [OF assms(1), of cp] by auto
  qed simp
  then show "length (encoding utf8_units cps) \<le> length (percent_text f cps)"
    and "length (encoding utf8_units cps) = length (percent_text f cps) \<Longrightarrow>
      percent_text f cps = encoding utf8_units cps" by blast+
qed

lemma percent_encode_text:
  assumes f: "ascii_only f" and v: "list_all is_valid_codepoint cps"
  shows "percent_encode_with f (report_size (get_perecent_encoded_size f (encoding utf8_units cps)))
      (encoding utf8_units cps) output
    = Some (Inr (None, length (percent_text f cps), output @ percent_text f cps))"
proof (cases "cps = []")
  case True
  then show ?thesis by (simp add: percent_encode_with_def report_size_def get_perecent_encoded_size_def)
next
  case False
  let ?e = "encoding utf8_units cps" and ?p = "percent_text f cps"
  have ne: "?e \<noteq> []" using False v u8.encoding_empty [of cps] by (simp add: valid_text_u8)
  have size: "get_perecent_encoded_size f ?e = Some (Inr (None, length ?p))"
    using encoded_size_loop_text [OF f v, of "[]" 0] ne
    by (simp add: get_perecent_encoded_size_def encoded_size_loop.simps [of _ "[]"])
  have "?p \<noteq> []" using ne percent_text_longer(1) [OF f v] by fastforce
  moreover have "do_percent_encode f (length ?p) ?e = Some (Inr ?p)"
    using percent_encode_loop_text [OF f v, of "[]" "length ?p"] percent_text_longer(2) [OF f v]
    by (auto simp: do_percent_encode_def)
  ultimately show ?thesis using size by (simp add: percent_encode_with_def report_size_def filled_def)
qed

lemma percent_encode_invalid:
  assumes f: "ascii_only f" and "list_all is_valid_codepoint cps" and "rest \<noteq> []"
    and "utf8_decode None rest = Inr (Some e, cp, us')"
  shows "percent_encode_with f (report_size (get_perecent_encoded_size f (encoding utf8_units cps @ rest)))
      (encoding utf8_units cps @ rest) output = Some (Inr (Some e, 0, output))"
  using assms encoded_size_loop_text [OF f assms(2), of rest 0]
  by (simp add: percent_encode_with_def report_size_def get_perecent_encoded_size_def encoded_size_loop.simps [of _ rest])

section \<open>Decoding\<close>

lemma hex_digit_inverse:
  assumes "k < 16"
  shows "hex_char_to_decimal (hex_digits ! k) = Some (of_nat k)"
proof -
  have "list_all (\<lambda>k. hex_char_to_decimal (hex_digits ! k) = Some (of_nat k)) [0..<16]"
    by code_simp
  then show ?thesis using assms by (simp add: list_all_iff)
qed

lemma decode_encoded_byte [simp]:
  "decode_percent_encoded_byte (make_hex_seq b @ rest) = Inr (Some (b, rest))"
proof -
  have d: "unat (drop_bit 4 b) = unat b div 16" by (simp add: unat_drop_bit)
  have "b AND 0x0f = take_bit 4 b" by (simp add: take_bit_eq_mask mask_eq_exp_minus_1)
  then have m: "unat (b AND 0x0f) = unat b mod 16" by (simp add: unat_take_bit)
  have "unat b div 16 < 16" using unat_u8 [of b] by (intro less_mult_imp_div_less) simp
  then have h: "hex_char_to_decimal (hex_digits ! (unat b div 16)) = Some (of_nat (unat b div 16))"
    "hex_char_to_decimal (hex_digits ! (unat b mod 16)) = Some (of_nat (unat b mod 16))"
    by (simp_all add: hex_digit_inverse)
  have "(of_nat (unat b div 16) * 16 + of_nat (unat b mod 16) :: u8) = of_nat (unat b div 16 * 16 + unat b mod 16)"
    by (simp only: of_nat_add of_nat_mult of_nat_numeral)
  also have "\<dots> = b" by (simp only: div_mult_mod_eq word_unat_eq_iff) simp
  finally show ?thesis
    using d m h by (simp add: decode_percent_encoded_byte_def make_hex_seq_def Let_def)
qed

lemma percent_seq_loop_ok:
  "k = length bs \<Longrightarrow> percent_seq_loop k (percent_bytes bs @ rest) buff = Inr (Some (buff @ bs, rest))"
  by (induction bs arbitrary: k buff) simp_all

lemma percent_decode_seq_ok:
  "k = length bs \<Longrightarrow> length out + length bs \<le> cap \<Longrightarrow>
     percent_decode_seq cap k (percent_bytes bs @ rest) out = Inr (rest, out @ bs)"
  by (induction bs arbitrary: k out) (simp_all add: write_bytes_def)

text \<open>One round of each decoding loop undoes the encoding of one code point.\<close>

lemma decoded_rounds:
  assumes f: "ascii_only f" and pct: "\<not> f 0x25" and v: "is_valid_codepoint cp"
  obtains ch tail where "percent_piece f cp = ch # tail"
    and "\<And>rest. decoded_size_round f ch (tail @ rest) = Inr (Inr (rest, length (utf8_units cp)))"
    and "\<And>rest cap out. length out + length (utf8_units cp) \<le> cap \<Longrightarrow>
      percent_decode_round f cap ch (tail @ rest) out = Inr (rest, out @ utf8_units cp)"
proof (cases "f cp")
  case True
  then have "unat cp < 128" using f by (simp add: ascii_only_def)
  note a = utf8_units_ascii [OF this]
  show thesis
    using that [of "ucast cp" "[]"] True a
    by (simp add: percent_piece_def decoded_size_round_def percent_decode_round_def write_bytes_def)
next
  case False
  obtain b cs where u: "utf8_units cp = b # cs" "utf8_sequence_size b = length cs + 1"
    using utf8_units_shape [OF v] by metis
  have le: "length cs \<le> 3" using sequence_size_le [of b] u by simp
  have dec: "utf8_decode None (b # cs) = Inr (None, cp, [])"
    using utf8_decode_units(1) [OF v, of None "[]"] u by simp
  have pct': "\<not> f (scast (0x25 :: u8))" using pct by simp
  show thesis
  proof (rule that [of "0x25" "make_hex_seq b @ percent_bytes cs"])
    show "percent_piece f cp = 0x25 # make_hex_seq b @ percent_bytes cs"
      using False u by (simp add: percent_piece_def)
    show "decoded_size_round f 0x25 ((make_hex_seq b @ percent_bytes cs) @ rest)
        = Inr (Inr (rest, length (utf8_units cp)))" for rest
      using pct' u le dec percent_seq_loop_ok [of "length cs" cs rest "[b]"]
      by (cases "cs = []") (simp_all add: decoded_size_round_def Let_def)
    show "percent_decode_round f cap 0x25 ((make_hex_seq b @ percent_bytes cs) @ rest) out
        = Inr (rest, out @ utf8_units cp)" if "length out + length (utf8_units cp) \<le> cap" for rest cap out
      using pct' u le that percent_decode_seq_ok [of "length cs" cs "out @ [b]" cap rest]
      by (simp add: percent_decode_round_def Let_def write_bytes_def)
  qed
qed

lemma decoded_size_loop_text:
  assumes f: "ascii_only f" "\<not> f 0x25" and "list_all is_valid_codepoint cps"
  shows "decoded_size_loop f (percent_text f cps) len
    = Some (Inr (None, len + length (encoding utf8_units cps)))"
  using assms(3)
proof (induction cps arbitrary: len)
  case Nil
  then show ?case by (simp add: decoded_size_loop.simps)
next
  case (Cons cp cps)
  then obtain ch tail where "percent_piece f cp = ch # tail"
    "\<And>rest. decoded_size_round f ch (tail @ rest) = Inr (Inr (rest, length (utf8_units cp)))"
    using decoded_rounds [OF f, of cp] by (metis list.pred_inject(2))
  with Cons show ?case by (subst decoded_size_loop.simps) (simp add: add.assoc)
qed

lemma percent_decode_loop_text:
  assumes f: "ascii_only f" "\<not> f 0x25" and "list_all is_valid_codepoint cps"
    and "length out + length (encoding utf8_units cps) \<le> cap"
  shows "percent_decode_loop f cap (percent_text f cps) out
    = Some (Inr (out @ encoding utf8_units cps))"
  using assms(3,4)
proof (induction cps arbitrary: out)
  case Nil
  then show ?case by (simp add: percent_decode_loop.simps)
next
  case (Cons cp cps)
  then obtain ch tail where p: "percent_piece f cp = ch # tail"
    "\<And>rest cap out. length out + length (utf8_units cp) \<le> cap \<Longrightarrow>
      percent_decode_round f cap ch (tail @ rest) out = Inr (rest, out @ utf8_units cp)"
    using decoded_rounds [OF f, of cp] by (metis list.pred_inject(2))
  have "percent_decode_loop f cap (percent_text f cps) (out @ utf8_units cp)
      = Some (Inr (out @ encoding utf8_units (cp # cps)))" using Cons by simp
  with p(2) [of out cap] p(1) Cons.prems show ?case by (subst percent_decode_loop.simps) simp
qed

lemma percent_decode_text:
  assumes v: "list_all is_valid_codepoint cps"
  shows "percent_decode (percent_text is_unreserved_character cps) output
    = Some (Inr (None, length (encoding utf8_units cps), output @ encoding utf8_units cps))"
proof (cases "cps = []")
  case True
  then show ?thesis
    by (simp add: percent_decode_def percent_decode_with_def perecent_decoded_size_def report_size_def get_perecent_decoded_size_def)
next
  case False
  let ?f = is_unreserved_character
  let ?e = "encoding utf8_units cps" and ?p = "percent_text ?f cps"
  have f: "ascii_only ?f" "\<not> ?f 0x25" by (rule unreserved_ascii) (simp add: is_unreserved_character_def)
  have "?e \<noteq> []" using False v u8.encoding_empty [of cps] by (simp add: valid_text_u8)
  moreover from this have "?p \<noteq> []" using percent_text_longer(1) [OF f(1) v] by fastforce
  moreover have "do_percent_decode ?f (length ?e) ?p = Some (Inr ?e)"
    using percent_decode_loop_text [OF f v, of "[]" "length ?e"] percent_text_longer(2) [OF f(1) v]
    by (auto simp: do_percent_decode_def)
  ultimately show ?thesis
    using decoded_size_loop_text [OF f v, of 0]
    by (simp add: percent_decode_def percent_decode_with_def perecent_decoded_size_def report_size_def get_perecent_decoded_size_def filled_def)
qed

end
