(* ===== verification/Percent_Properties.thy ===== *)
theory Percent_Properties
  imports Percent_Laws
begin

text \<open>The properties of percent encoding.\<close>

text \<open>The encode sets the URL parser uses.\<close>

definition url_encode_sets :: "perecent_encode_set_item list list" where
  "url_encode_sets = [c0_control_percent_encode_set, fragment_percent_encode_set,
     query_percent_encode_set, special_query_percent_encode_set, path_percent_encode_set,
     userinfo_percent_encode_set]"

lemma url_sets_ascii: "es \<in> set url_encode_sets \<Longrightarrow> ascii_only (is_unreserved_character_set es)"
  by (rule set_ascii) (auto simp: url_encode_sets_def c0_control_percent_encode_set_def
      fragment_percent_encode_set_def query_percent_encode_set_def
      special_query_percent_encode_set_def path_percent_encode_set_def userinfo_percent_encode_set_def)

lemma utf8_converter_decode: "cv_decode utf8_codecvt = utf8_decode"
  by (simp add: utf8_codecvt_def)

lemma percent_encode_cases:
  assumes "ascii_only f"
  shows "(\<exists>cps. list_all is_valid_codepoint cps \<and> input = encoding utf8_units cps \<and>
      percent_encode_with f (report_size (get_perecent_encoded_size f input)) input output
        = Some (Inr (None, length (percent_text f cps), output @ percent_text f cps))) \<or>
    (\<nexists>cps. list_all is_valid_codepoint cps \<and> input = encoding utf8_units cps) \<and>
      (\<exists>e. percent_encode_with f (report_size (get_perecent_encoded_size f input)) input output = Some (Inr (Some e, 0, output)))"
proof -
  consider cps where "list_all is_valid_codepoint cps" "input = encoding utf8_units cps"
    | cps rest e cp us' where "list_all is_valid_codepoint cps" "input = encoding utf8_units cps @ rest"
        "rest \<noteq> []" "utf8_decode None rest = Inr (Some e, cp, us')"
    using u8.decode_or_fail [of input] by (auto simp: valid_text_u8 utf8_converter_decode)
  then show ?thesis
  proof cases
    case 1
    then show ?thesis using percent_encode_text [OF assms] by blast
  next
    case 2
    have r: "percent_encode_with f (report_size (get_perecent_encoded_size f input)) input output = Some (Inr (Some e, 0, output))"
      using percent_encode_invalid [OF assms 2(1,3,4)] 2(2) by simp
    then have "\<nexists>cps. list_all is_valid_codepoint cps \<and> input = encoding utf8_units cps"
      using percent_encode_text [OF assms] by auto
    with r show ?thesis by blast
  qed
qed

text \<open>
  C22: With every encode set of the URL parser, percent encoding returns for every input: valid
  UTF-8 is encoded code point by code point into exactly the space computed beforehand, anything
  else is refused with the output untouched.
\<close>

theorem percent_encode_total:
  assumes "es \<in> set url_encode_sets"
  shows "(\<exists>cps. list_all is_valid_codepoint cps \<and> input = encoding utf8_units cps \<and>
      percent_encode_set es input output
        = Some (Inr (None, length (percent_text (is_unreserved_character_set es) cps),
            output @ percent_text (is_unreserved_character_set es) cps))) \<or>
    (\<nexists>cps. list_all is_valid_codepoint cps \<and> input = encoding utf8_units cps) \<and>
      (\<exists>e. percent_encode_set es input output = Some (Inr (Some e, 0, output)))"
  using percent_encode_cases [OF url_sets_ascii [OF assms]] by (simp add: percent_encode_set_def perecent_encoded_size_set_def)

theorem percent_encode_total_witness:
  "\<exists>ec n out. percent_encode_set path_percent_encode_set [0x20, 0xc3, 0xa9] [] = Some (Inr (ec, n, out))"
  using percent_encode_total [of path_percent_encode_set "[0x20, 0xc3, 0xa9]" "[]"]
  by (auto simp: url_encode_sets_def)

text \<open>
  C23: Percent decoding restores what percent encoding has encoded, for every string that encodes
  without an error.
\<close>

theorem percent_round_trip:
  assumes "percent_encode input [] = Some (Inr (None, n, encoded))"
  shows "percent_decode encoded output = Some (Inr (None, length input, output @ input))"
proof -
  obtain cps where "list_all is_valid_codepoint cps" "input = encoding utf8_units cps"
      "encoded = percent_text is_unreserved_character cps"
    using percent_encode_cases [OF unreserved_ascii, of input "[]"] assms
    by (auto simp: percent_encode_def perecent_encoded_size_def)
  then show ?thesis using percent_decode_text by simp
qed

lemma sample_encoding: "percent_encode [0x61, 0x2f] [] = Some (Inr (None, 4, [0x61, 0x25, 0x32, 0x46]))"
proof -
  have "percent_encode (encoding utf8_units [0x61, 0x2f]) []
      = Some (Inr (None, length (percent_text is_unreserved_character [0x61, 0x2f]),
          percent_text is_unreserved_character [0x61, 0x2f]))"
    using percent_encode_text [OF unreserved_ascii, of "[0x61, 0x2f]" "[]"]
    by (simp add: percent_encode_def perecent_encoded_size_def valid_codepoint_unat)
  moreover have "encoding utf8_units [0x61, 0x2f] = [0x61, 0x2f]"
    by (simp add: utf8_units_def utf8_nat_def)
  moreover have "percent_text is_unreserved_character [0x61, 0x2f] = [0x61, 0x25, 0x32, 0x46]"
    by (simp add: percent_piece_def is_unreserved_character_def utf8_units_def utf8_nat_def
        make_hex_seq_def hex_digits_def)
  ultimately show ?thesis by (simp del: percent_text_simps encoding_simps)
qed

theorem percent_round_trip_witness:
  "percent_decode [0x61, 0x25, 0x32, 0x46] [] = Some (Inr (None, 2, [0x61, 0x2f]))"
  using percent_round_trip [OF sample_encoding, of "[]"] by simp

text \<open>
  Percent decoding with an encode set sizes its buffer with the default character class. With
  the path set, which does not contain the percent sign, it writes past the single byte it
  prepared for \<open>%41\<close>, and it refuses the string \<open>a/\<close>, which the same set leaves unencoded.
\<close>

theorem percent_decode_set_mismatch:
  "percent_decode_set path_percent_encode_set [0x25, 0x34, 0x31] output = Some (Inl Out_of_bounds) \<and>
   percent_encode_set path_percent_encode_set [0x61, 0x2f] [] = Some (Inr (None, 2, [0x61, 0x2f])) \<and>
   percent_decode_set path_percent_encode_set [0x61, 0x2f] output
     = Some (Inr (Some Illegal_byte_sequence, 0, output))"
proof -
  let ?f = "is_unreserved_character_set path_percent_encode_set"
  have c: "?f 0x25" "?f 0x34" "?f 0x31" "?f 0x61" "?f 0x2f" "\<not> is_unreserved_character 0x25"
    "is_unreserved_character 0x61" "\<not> is_unreserved_character 0x2f"
    by (simp_all add: path_percent_encode_set_def set_item_matches_def is_unreserved_character_def)
  have size: "decoded_size_loop is_unreserved_character [0x25, 0x34, 0x31] 0 = Some (Inr (None, 1))"
    using c by (simp add: decoded_size_loop.simps [of _ "[0x25, 0x34, 0x31]"]
        decoded_size_loop.simps [of _ "[]"] decoded_size_round_def decode_percent_encoded_byte_def
        hex_char_to_decimal_def sequence_size_eq)
  have "percent_decode_loop ?f 1 [0x25, 0x34, 0x31] [] = Some (Inl Out_of_bounds)"
    using c by (simp add: percent_decode_loop.simps [of _ _ "[0x25, 0x34, 0x31]"]
        percent_decode_loop.simps [of _ _ "[0x34, 0x31]"] percent_decode_round_def write_bytes_def)
  then have "percent_decode_set path_percent_encode_set [0x25, 0x34, 0x31] output = Some (Inl Out_of_bounds)"
    using size by (simp add: percent_decode_set_def percent_decode_with_def perecent_decoded_size_def report_size_def get_perecent_decoded_size_def
        do_percent_decode_def)
  moreover have "percent_decode_set path_percent_encode_set [0x61, 0x2f] output
      = Some (Inr (Some Illegal_byte_sequence, 0, output))"
    using c by (simp add: percent_decode_set_def percent_decode_with_def perecent_decoded_size_def report_size_def get_perecent_decoded_size_def
        decoded_size_loop.simps [of _ "[0x61, 0x2f]"] decoded_size_loop.simps [of _ "[0x2f]"]
        decoded_size_round_def)
  moreover have "percent_encode_set path_percent_encode_set [0x61, 0x2f] [] = Some (Inr (None, 2, [0x61, 0x2f]))"
    using percent_encode_text [OF url_sets_ascii, of path_percent_encode_set "[0x61, 0x2f]" "[]"] c
    by (simp add: percent_encode_set_def perecent_encoded_size_set_def url_encode_sets_def valid_codepoint_unat percent_piece_def
        utf8_units_def utf8_nat_def)
  ultimately show ?thesis by simp
qed

end
