(* ===== verification/Case_Strings.thy ===== *)
theory Case_Strings
  imports Utf_Codec
begin

text \<open>
  Strings of bytes and their comparison without regard to case, \<open>src/include/rad/string.h\<close>. Only the
  letters of ASCII have case. \<open>bytes_of\<close> is a string literal of the source.
\<close>

type_synonym bytes = "u8 list"

definition bytes_of :: "string \<Rightarrow> bytes" where
  "bytes_of s = map of_char s"

definition tolower_ch :: "u8 \<Rightarrow> u8" where
  "tolower_ch ch = (if ch \<ge> 0x41 \<and> ch \<le> 0x5a then ch - 0x41 + 0x61 else ch)"

definition toupper_ch :: "u8 \<Rightarrow> u8" where
  "toupper_ch ch = (if ch \<ge> 0x61 \<and> ch \<le> 0x7a then ch - 0x61 + 0x41 else ch)"

fun iequal_loop :: "bytes \<Rightarrow> bytes \<Rightarrow> bool" where
  "iequal_loop (a # as) (b # bs) = (if tolower_ch a \<noteq> tolower_ch b then False else iequal_loop as bs)"
| "iequal_loop _ _ = True"

definition iequal :: "bytes \<Rightarrow> bytes \<Rightarrow> bool" where
  "iequal str1 str2 = (if length str1 \<noteq> length str2 then False else iequal_loop str1 str2)"

definition to_lower :: "bytes \<Rightarrow> bytes" where
  "to_lower str = map tolower_ch str"

definition to_upper :: "bytes \<Rightarrow> bytes" where
  "to_upper str = map toupper_ch str"

lemma iequal_to_lower: "iequal s t \<longleftrightarrow> to_lower s = to_lower t"
proof -
  have "length s = length t \<Longrightarrow> iequal_loop s t \<longleftrightarrow> map tolower_ch s = map tolower_ch t"
    by (induction s t rule: list_induct2) auto
  then show ?thesis by (auto simp: iequal_def to_lower_def dest: map_eq_imp_length_eq)
qed

lemma length_to_lower [simp]: "length (to_lower s) = length s" "to_lower s = [] \<longleftrightarrow> s = []"
  by (simp_all add: to_lower_def)

lemma tolower_range: "tolower_ch ch \<ge> 0x41 \<and> tolower_ch ch \<le> 0x5a \<Longrightarrow> False"
proof (cases "ch \<ge> 0x41 \<and> ch \<le> 0x5a")
  case True
  then have "unat (ch - 0x41 + 0x61) = unat ch + 0x20"
    by (simp add: word_le_nat_alt unat_word_ariths unat_sub)
  with True show "tolower_ch ch \<ge> 0x41 \<and> tolower_ch ch \<le> 0x5a \<Longrightarrow> False"
    by (simp add: tolower_ch_def word_le_nat_alt)
qed (simp add: tolower_ch_def)

lemma tolower_idem [simp]: "tolower_ch (tolower_ch ch) = tolower_ch ch"
  using tolower_range [of ch] by (auto simp: tolower_ch_def [of "tolower_ch ch"])

lemma to_lower_idem [simp]: "to_lower (to_lower s) = to_lower s"
  by (simp add: to_lower_def)

lemma iequal_equiv [simp]:
  "iequal s s" "iequal (to_lower s) t = iequal s t" "iequal s (to_lower t) = iequal s t"
  by (simp_all add: iequal_to_lower)

end
