(* ===== verification/Http_Headers.thy ===== *)
theory Http_Headers
  imports Case_Strings
begin

text \<open>
  The list of HTTP headers, \<open>class headers_base\<close> of \<open>src/include/rad/net/http/http_parser.h\<close>: a vector of name
  and value pairs, names compared without regard to case. An iterator is an index; the size is
  \<open>end()\<close>. Every list is built with \<open>insert\<close> and \<open>set\<close>, which keep equal names next to each other; \<open>remove\<close>
  and \<open>equal_range\<close> rely on it.
\<close>

type_synonym header = "bytes \<times> bytes"
type_synonym headers = "header list"

section \<open>The code\<close>

abbreviation named :: "bytes \<Rightarrow> header \<Rightarrow> bool" where
  "named name \<equiv> \<lambda>header. iequal (fst header) name"

definition hdr_find :: "bytes \<Rightarrow> headers \<Rightarrow> nat" where
  "hdr_find name hs = length (takeWhile (\<lambda>header. \<not> named name header) hs)"

definition hdr_insert :: "bytes \<Rightarrow> bytes \<Rightarrow> headers \<Rightarrow> headers" where
  "hdr_insert name val hs =
     (let it = hdr_find name hs;
          it1 = (if it \<noteq> length hs then it + 1 else it)
      in take it1 hs @ (name, val) # drop it1 hs)"

definition hdr_set :: "bytes \<Rightarrow> bytes \<Rightarrow> headers \<Rightarrow> headers" where
  "hdr_set name val hs =
     (let it = hdr_find name hs in
      if it \<noteq> length hs then hs[it := (fst (hs ! it), val)] else hs @ [(name, val)])"

function hdr_count_loop :: "bytes \<Rightarrow> nat \<Rightarrow> headers \<Rightarrow> nat" where
  "hdr_count_loop name n hs =
     (if hs \<noteq> [] then
        (case drop (hdr_find name hs) hs of
           [] \<Rightarrow> n
         | _ # rest \<Rightarrow> hdr_count_loop name (n + 1) rest)
      else n)"
  by pat_completeness auto
termination
  by (relation "measure (\<lambda>(name, n, hs). length hs)") (auto dest!: arg_cong [where f = length])

declare hdr_count_loop.simps [simp del]

definition hdr_count :: "bytes \<Rightarrow> headers \<Rightarrow> nat" where
  "hdr_count name hs = hdr_count_loop name 0 hs"

definition hdr_contains :: "bytes \<Rightarrow> headers \<Rightarrow> bool" where
  "hdr_contains name hs \<longleftrightarrow> hdr_find name hs \<noteq> length hs"

definition hdr_equal_range :: "bytes \<Rightarrow> headers \<Rightarrow> headers" where
  "hdr_equal_range name hs =
     (let first = hdr_find name hs in
      if first = length hs then []
      else hs ! first # takeWhile (named name) (drop (first + 1) hs))"

definition hdr_append :: "headers \<Rightarrow> headers \<Rightarrow> headers" where
  "hdr_append hs other = foldl (\<lambda>acc header. hdr_insert (fst header) (snd header) acc) hs other"

definition hdr_from_list :: "headers \<Rightarrow> headers" where
  "hdr_from_list hdrs = foldl (\<lambda>acc header. hdr_insert (fst header) (snd header) acc) [] hdrs"

text \<open>\<open>remove\<close> erases at the position found, then as long as the header there has the name.\<close>

fun hdr_erase_loop :: "bytes \<Rightarrow> headers \<Rightarrow> headers" where
  "hdr_erase_loop name [] = []"
| "hdr_erase_loop name (h # hs) = (if \<not> named name h then h # hs else hdr_erase_loop name hs)"

definition hdr_remove :: "bytes \<Rightarrow> headers \<Rightarrow> headers" where
  "hdr_remove name hs =
     (let it = hdr_find name hs in
      if it = length hs then hs else take it hs @ hdr_erase_loop name (drop (it + 1) hs))"

definition hdr_serialized_size :: "headers \<Rightarrow> nat" where
  "hdr_serialized_size hs =
     (if hs = [] then 0
      else foldl (\<lambda>sz h. sz + (length (fst h) + length (snd h))) ((2 + 2) * length hs) hs)"

section \<open>Positions\<close>

lemma split_at_name:
  obtains (absent) "\<forall>h\<in>set hs. \<not> named name h" "hdr_find name hs = length hs"
  | (present) us h vs where "hs = us @ h # vs" "\<forall>u\<in>set us. \<not> named name u" "named name h"
      "hdr_find name hs = length us"
proof (cases "\<forall>h\<in>set hs. \<not> named name h")
  case True
  then have "takeWhile (\<lambda>h. \<not> named name h) hs = hs" by (simp add: takeWhile_eq_all_conv)
  then have "hdr_find name hs = length hs" by (simp only: hdr_find_def)
  with absent True show thesis by blast
next
  case False
  then obtain us h vs where "hs = us @ h # vs" "named name h" "\<forall>u\<in>set us. \<not> named name u"
    using split_list_first_prop [of hs "named name"] by blast
  with present show thesis by (simp add: hdr_find_def takeWhile_append)
qed

lemma hdr_insert_split:
  "hdr_insert name val hs = (if hdr_contains name hs
     then take (hdr_find name hs + 1) hs @ (name, val) # drop (hdr_find name hs + 1) hs
     else hs @ [(name, val)])"
  by (simp add: hdr_insert_def hdr_contains_def Let_def)

lemma hdr_contains_iff: "hdr_contains name hs \<longleftrightarrow> (\<exists>h\<in>set hs. named name h)"
  by (cases rule: split_at_name [where hs = hs and name = name]) (auto simp: hdr_contains_def)

lemma hdr_insert_new: "\<not> hdr_contains name hs \<Longrightarrow> hdr_insert name val hs = hs @ [(name, val)]"
  by (simp add: hdr_insert_split)

lemma hdr_append_distinct:
  assumes "distinct (map (to_lower \<circ> fst) other)"
    and "\<forall>h\<in>set other. \<not> hdr_contains (fst h) hs"
  shows "hdr_append hs other = hs @ other"
  using assms
proof (induction other arbitrary: hs)
  case (Cons h other)
  have ins: "hdr_insert (fst h) (snd h) hs = hs @ [h]" using Cons(3) by (simp add: hdr_insert_new)
  have "\<forall>x\<in>set other. \<not> hdr_contains (fst x) (hs @ [h])"
    using Cons(2,3) by (auto simp: hdr_contains_iff iequal_to_lower image_iff)
  with Cons ins show ?case by (simp add: hdr_append_def)
qed (simp add: hdr_append_def)

section \<open>Equal names are adjacent\<close>

abbreviation names :: "headers \<Rightarrow> bytes list" where
  "names hs \<equiv> map (to_lower \<circ> fst) hs"

definition grouped :: "headers \<Rightarrow> bool" where
  "grouped hs \<longleftrightarrow> distinct (remdups_adj (names hs))"

lemma named_iff: "named name h \<longleftrightarrow> to_lower (fst h) = to_lower name"
  by (simp add: iequal_to_lower)

lemma remdups_adj_append_disjoint:
  "set us \<inter> set vs = {} \<Longrightarrow> remdups_adj (us @ vs) = remdups_adj us @ remdups_adj vs"
proof (induction us rule: remdups_adj.induct)
  case (2 x)
  then show ?case by (cases vs) auto
qed simp_all

lemma remdups_adj_append_distinct:
  assumes "distinct (remdups_adj (us @ k # vs))" and "k \<notin> set us"
  shows "distinct (remdups_adj us)" "distinct (remdups_adj (k # vs))" "set us \<inter> set vs = {}"
proof -
  have e: "remdups_adj (us @ k # vs) = remdups_adj (us @ [k]) @ tl (remdups_adj (k # vs))"
    by (rule remdups_adj_append)
  have u: "remdups_adj (us @ [k]) = remdups_adj us @ [k]"
    using assms(2) by (simp add: remdups_adj_append_disjoint)
  have k: "remdups_adj (k # vs) = k # tl (remdups_adj (k # vs))"
    by (cases vs) simp_all
  then have e': "remdups_adj (us @ k # vs) = remdups_adj us @ remdups_adj (k # vs)"
    using e u by simp
  show "distinct (remdups_adj us)" "distinct (remdups_adj (k # vs))"
    using assms(1) unfolding e' by simp_all
  have "set us \<inter> set (k # vs) = {}" using assms(1) unfolding e' by (simp del: set_simps)
  then show "set us \<inter> set vs = {}" by auto
qed

lemma grouped_split:
  assumes "grouped hs" and "hs = us @ h # vs" and "\<forall>u\<in>set us. \<not> named name u" and "named name h"
  obtains ws zs where "vs = ws @ zs" "\<forall>w\<in>set ws. named name w" "\<forall>z\<in>set zs. \<not> named name z"
    "ws = takeWhile (named name) vs" "zs = dropWhile (named name) vs" "grouped (us @ zs)"
proof -
  let ?k = "to_lower name" and ?ws = "takeWhile (named name) vs" and ?zs = "dropWhile (named name) vs"
  have k: "to_lower (fst h) = ?k" "?k \<notin> set (names us)" using assms(3,4) by (auto simp: named_iff)
  have d: "distinct (remdups_adj (names us @ ?k # names vs))"
    using assms(1,2) k(1) by (simp add: grouped_def)
  note parts = remdups_adj_append_distinct [OF d k(2)]
  have names_zs: "names ?zs = dropWhile (\<lambda>y. y = ?k) (names vs)"
    by (simp add: dropWhile_map comp_def named_iff)
  have "distinct (?k # remdups_adj (names ?zs))"
    using parts(2) unfolding names_zs remdups_adj_Cons' [symmetric] .
  then have "?k \<notin> set (names ?zs)" and dz: "distinct (remdups_adj (names ?zs))" by simp_all
  then have zs: "\<forall>z\<in>set ?zs. \<not> named name z" by (auto simp: named_iff image_iff)
  have "set ?zs \<subseteq> set vs" using set_dropWhileD [of _ "named name" vs] by blast
  then have "set (names us) \<inter> set (names ?zs) = {}" using parts(3) by (auto simp: image_iff disjoint_iff)
  then have "remdups_adj (names (us @ ?zs)) = remdups_adj (names us) @ remdups_adj (names ?zs)"
    by (simp add: remdups_adj_append_disjoint)
  then have g: "grouped (us @ ?zs)"
    using parts(1) dz \<open>set (names us) \<inter> set (names ?zs) = {}\<close> by (simp add: grouped_def)
  have ws: "\<forall>w\<in>set ?ws. named name w" by (blast dest: set_takeWhileD)
  show thesis by (rule that [OF takeWhile_dropWhile_id [symmetric] ws zs refl refl g])
qed

lemma grouped_Nil [simp]: "grouped []"
  by (simp add: grouped_def)

lemma hdr_insert_grouped:
  assumes "grouped hs"
  shows "grouped (hdr_insert name val hs)"
proof (cases rule: split_at_name [where hs = hs and name = name])
  case absent
  then have "to_lower name \<notin> set (names hs)" by (auto simp: named_iff)
  with absent assms show ?thesis
    by (simp add: hdr_insert_def grouped_def remdups_adj_append_disjoint)
next
  case (present us h vs)
  then have "hdr_insert name val hs = us @ h # (name, val) # vs" by (simp add: hdr_insert_def)
  moreover have "names (us @ h # (name, val) # vs) = names us @ to_lower name # to_lower name # names vs"
    using present(3) by (simp add: named_iff)
  moreover have "remdups_adj (names us @ to_lower name # to_lower name # names vs)
      = remdups_adj (names us @ to_lower name # names vs)"
    using remdups_adj_append [of "names us" "to_lower name" "to_lower name # names vs"]
      remdups_adj_append [of "names us" "to_lower name" "names vs"] by simp
  moreover have "names hs = names us @ to_lower name # names vs"
    using present(1,3) by (simp add: named_iff)
  ultimately show ?thesis using assms by (simp add: grouped_def)
qed

lemma names_hdr_set:
  "names (hdr_set name val hs) = (if hdr_contains name hs then names hs else names hs @ [to_lower name])"
proof -
  have "names (hs[i := (fst (hs ! i), val)]) = names hs" if "i < length hs" for i
    using that by (intro nth_equalityI) (auto simp: nth_list_update)
  then show ?thesis
    by (cases rule: split_at_name [where hs = hs and name = name])
      (auto simp: hdr_set_def hdr_contains_def)
qed

lemma hdr_set_grouped: "grouped hs \<Longrightarrow> grouped (hdr_set name val hs)"
proof (cases "hdr_contains name hs")
  case False
  then have "to_lower name \<notin> set (names hs)" by (auto simp: hdr_contains_iff named_iff)
  then show "grouped hs \<Longrightarrow> grouped (hdr_set name val hs)"
    using False by (simp add: grouped_def names_hdr_set remdups_adj_append_disjoint)
qed (simp add: grouped_def names_hdr_set)

lemma hdr_append_grouped: "grouped hs \<Longrightarrow> grouped (hdr_append hs other)"
  by (induction other arbitrary: hs) (simp_all add: hdr_append_def hdr_insert_grouped)

section \<open>What the operations do\<close>

lemma hdr_erase_loop_drop: "hdr_erase_loop name hs = dropWhile (named name) hs"
  by (induction hs) simp_all

lemma filter_split:
  assumes "\<forall>u\<in>set us. \<not> P u" "P h" "\<forall>w\<in>set ws. P w" "\<forall>z\<in>set zs. \<not> P z"
  shows "filter P (us @ h # ws @ zs) = h # ws" "filter (\<lambda>x. \<not> P x) (us @ h # ws @ zs) = us @ zs"
  using assms by (simp_all add: filter_empty_conv filter_id_conv)

lemma hdr_remove_filter:
  assumes "grouped hs"
  shows "hdr_remove name hs = filter (\<lambda>h. \<not> named name h) hs \<and> grouped (hdr_remove name hs)"
proof (cases rule: split_at_name [where hs = hs and name = name])
  case absent
  with assms show ?thesis by (simp add: hdr_remove_def filter_id_conv)
next
  case (present us h vs)
  obtain ws zs where s: "vs = ws @ zs" "\<forall>w\<in>set ws. named name w" "\<forall>z\<in>set zs. \<not> named name z"
    "zs = dropWhile (named name) vs" "grouped (us @ zs)"
    using grouped_split [OF assms present(1,2,3)] by metis
  have "hdr_remove name hs = us @ zs"
    using present s(4) by (simp add: hdr_remove_def hdr_erase_loop_drop)
  moreover have "filter (\<lambda>x. \<not> named name x) hs = us @ zs"
    using filter_split(2) [OF present(2,3) s(2,3)] present(1) s(1) by simp
  ultimately show ?thesis using s(5) by simp
qed

lemma hdr_equal_range_filter:
  assumes "grouped hs"
  shows "hdr_equal_range name hs = filter (named name) hs"
proof (cases rule: split_at_name [where hs = hs and name = name])
  case absent
  then show ?thesis by (simp add: hdr_equal_range_def filter_empty_conv)
next
  case (present us h vs)
  obtain ws zs where s: "vs = ws @ zs" "\<forall>w\<in>set ws. named name w" "\<forall>z\<in>set zs. \<not> named name z"
    "ws = takeWhile (named name) vs"
    using grouped_split [OF assms present(1,2,3)] by metis
  have "hdr_equal_range name hs = h # ws" using present s(4) by (simp add: hdr_equal_range_def)
  moreover have "filter (named name) hs = h # ws"
    using filter_split(1) [OF present(2,3) s(2,3)] present(1) s(1) by simp
  ultimately show ?thesis by simp
qed

lemma hdr_count_loop_filter: "hdr_count_loop name n hs = n + length (filter (named name) hs)"
proof (induction name n hs rule: hdr_count_loop.induct)
  case (1 name n hs)
  show ?case
  proof (cases rule: split_at_name [where hs = hs and name = name])
    case absent
    then show ?thesis by (subst hdr_count_loop.simps) (simp add: filter_empty_conv)
  next
    case (present us h vs)
    then have "filter (named name) us = []" by (simp add: filter_empty_conv)
    with present 1 [of h vs] show ?thesis by (subst hdr_count_loop.simps) simp
  qed
qed

lemma hdr_count_filter: "hdr_count name hs = length (filter (named name) hs)"
  by (simp add: hdr_count_def hdr_count_loop_filter)

lemma hdr_insert_filter:
  assumes "grouped hs"
  shows "filter (named name) (hdr_insert name val hs) =
    (case filter (named name) hs of [] \<Rightarrow> [(name, val)] | h # rest \<Rightarrow> h # (name, val) # rest)"
    "filter (\<lambda>h. \<not> named name h) (hdr_insert name val hs) = filter (\<lambda>h. \<not> named name h) hs"
proof -
  have "filter (named name) (hdr_insert name val hs) =
      (case filter (named name) hs of [] \<Rightarrow> [(name, val)] | h # rest \<Rightarrow> h # (name, val) # rest) \<and>
    filter (\<lambda>h. \<not> named name h) (hdr_insert name val hs) = filter (\<lambda>h. \<not> named name h) hs"
  proof (cases rule: split_at_name [where hs = hs and name = name])
    case absent
    then show ?thesis by (simp add: hdr_insert_def filter_empty_conv)
  next
    case (present us h vs)
    then have "filter (named name) us = []" by (simp add: filter_empty_conv)
    with present show ?thesis by (simp add: hdr_insert_def)
  qed
  then show "filter (named name) (hdr_insert name val hs) =
    (case filter (named name) hs of [] \<Rightarrow> [(name, val)] | h # rest \<Rightarrow> h # (name, val) # rest)"
    "filter (\<lambda>h. \<not> named name h) (hdr_insert name val hs) = filter (\<lambda>h. \<not> named name h) hs"
    by simp_all
qed

lemma hdr_serialized_size_sum:
  "hdr_serialized_size hs = sum_list (map (\<lambda>h. length (fst h) + length (snd h) + 4) hs)"
proof -
  have "foldl (\<lambda>sz h. sz + (length (fst h) + length (snd h))) a hs + 4 * length hs
      = a + sum_list (map (\<lambda>h. length (fst h) + length (snd h) + 4) hs)" for a
    by (induction hs arbitrary: a) (simp_all add: algebra_simps)
  from this [of "4 * length hs"] show ?thesis by (simp add: hdr_serialized_size_def)
qed

end
