(* ===== verification/Hpack_Table.thy ===== *)
theory Hpack_Table
  imports Ring_Client Http_Headers
begin

text \<open>
  The dynamic table of HPACK: \<open>class dynamic_table\<close> of \<open>src/include/rad/net/http2/hpack.h\<close> and its functions
  in \<open>src/src/net/http2/hpack.cpp\<close>, over the ring buffer of header pairs. \<open>dt_blocks\<close> counts the blocks
  the ring buffer has allocated. The table is shown to refine the one of the standard: a list of
  entries whose total size is bounded, the oldest ones giving way to new ones.
\<close>

section \<open>The code\<close>

record dynamic_table =
  dt_headers :: "header ring_buffer"
  dt_max_size :: nat
  dt_headers_size :: nat
  dt_blocks :: nat

definition dt_new :: dynamic_table where
  "dt_new = \<lparr>dt_headers = null_ring False, dt_max_size = 0, dt_headers_size = 0, dt_blocks = 0\<rparr>"

definition header_size :: "header \<Rightarrow> nat" where
  "header_size h = 32 + length (fst h) + length (snd h)"

function dt_remove_loop :: "nat \<Rightarrow> dynamic_table \<Rightarrow> dynamic_table res" where
  "dt_remove_loop n t =
     (if n > 0 then
        bind_res (ensure (\<not> rb_empty (dt_headers t)) Assertion) (\<lambda>_.
        bind_res (pop_front_value (dt_headers t)) (\<lambda>(header, rb1).
        bind_res (ensure (dt_headers_size t \<ge> header_size header) Assertion) (\<lambda>_.
          dt_remove_loop (n - min n (header_size header))
            (t\<lparr>dt_headers := rb1,
               dt_headers_size := dt_headers_size t - min (dt_headers_size t) (header_size header)\<rparr>))))
      else Inr t)"
  by pat_completeness auto
termination by (relation "measure fst") (auto simp: header_size_def)

declare dt_remove_loop.simps [simp del]

definition dt_remove_size :: "nat \<Rightarrow> dynamic_table \<Rightarrow> dynamic_table res" where
  "dt_remove_size n t =
     bind_res (ensure (n \<le> dt_headers_size t) Assertion) (\<lambda>_. dt_remove_loop n t)"

definition dt_set_max_size :: "nat \<Rightarrow> dynamic_table \<Rightarrow> dynamic_table res" where
  "dt_set_max_size n t =
     (if n = 0 then
        bind_res (clear (dt_headers t)) (\<lambda>rb1.
          Inr (t\<lparr>dt_headers := rb1, dt_max_size := 0, dt_headers_size := 0\<rparr>))
      else
        let t1 = t\<lparr>dt_max_size := n\<rparr> in
        if n < dt_headers_size t1 then dt_remove_size (dt_headers_size t1 - n) t1 else Inr t1)"

definition dt_emplace :: "header \<Rightarrow> dynamic_table \<Rightarrow> dynamic_table res" where
  "dt_emplace h t =
     bind_res (emplace_back h (dt_headers t)) (\<lambda>rb1.
       Inr (t\<lparr>dt_headers := rb1, dt_headers_size := dt_headers_size t + header_size h\<rparr>))"

text \<open>The steps of \<open>add\<close>: evicting entries, growing the ring, and the whole function.\<close>

definition dt_evict_for :: "nat \<Rightarrow> dynamic_table \<Rightarrow> dynamic_table res" where
  "dt_evict_for sz t =
     (if dt_headers_size t + sz > dt_max_size t
      then dt_remove_size (dt_headers_size t + sz - dt_max_size t) t else Inr t)"

definition dt_ensure_space :: "dynamic_table \<Rightarrow> dynamic_table run" where
  "dt_ensure_space t =
     (if full (dt_headers t) then
        bind_run (set_capacity (dt_blocks t) (max (capacity (dt_headers t) * 2) 1) (dt_headers t))
          (\<lambda>(blocks, rb1). Some (Inr (t\<lparr>dt_headers := rb1, dt_blocks := blocks\<rparr>)))
      else Some (Inr t))"

definition dt_add :: "bytes \<Rightarrow> bytes \<Rightarrow> dynamic_table \<Rightarrow> dynamic_table run" where
  "dt_add name val t =
     (let sz = header_size (name, val) in
      if sz > dt_max_size t then
        Some (bind_res (clear (dt_headers t)) (\<lambda>rb1. Inr (t\<lparr>dt_headers := rb1, dt_headers_size := 0\<rparr>)))
      else
        bind_run (Some (dt_evict_for sz t)) (\<lambda>t1.
        bind_run (dt_ensure_space t1) (\<lambda>t2.
        Some (dt_emplace (name, val) t2))))"

definition dt_find_with :: "(header \<Rightarrow> bool) \<Rightarrow> dynamic_table \<Rightarrow> nat option res" where
  "dt_find_with pred t =
     bind_res (find_if pred (dt_headers t)) (\<lambda>it.
       if it = it_end (dt_headers t) then Inr None
       else bind_res (it_diff (dt_headers t) it (it_begin (dt_headers t))) (\<lambda>d.
         Inr (Some (nat (int (rb_size (dt_headers t)) - d) + 61))))"

definition dt_find :: "bytes \<Rightarrow> bytes \<Rightarrow> dynamic_table \<Rightarrow> nat option res" where
  "dt_find name val t = dt_find_with (\<lambda>header. iequal name (fst header) \<and> val = snd header) t"

definition dt_find_name :: "bytes \<Rightarrow> dynamic_table \<Rightarrow> nat option res" where
  "dt_find_name name t = dt_find_with (\<lambda>header. iequal name (fst header)) t"

definition dt_count :: "dynamic_table \<Rightarrow> nat" where
  "dt_count t = rb_size (dt_headers t)"

definition dt_get_header :: "nat \<Rightarrow> dynamic_table \<Rightarrow> header option res" where
  "dt_get_header i t =
     (if i \<ge> rb_size (dt_headers t) then Inr None
      else bind_res (subscript (dt_headers t) (rb_size (dt_headers t) - i - 1)) (\<lambda>h. Inr (Some h)))"

section \<open>The table of the standard\<close>

text \<open>The abstract table: its maximum size and its entries, the oldest first.\<close>

definition table_size :: "header list \<Rightarrow> nat" where
  "table_size es = sum_list (map header_size es)"

fun evict :: "nat \<Rightarrow> header list \<Rightarrow> header list" where
  "evict m [] = []"
| "evict m (e # es) = (if table_size (e # es) \<le> m then e # es else evict m es)"

definition table_add :: "header \<Rightarrow> nat \<times> header list \<Rightarrow> nat \<times> header list" where
  "table_add e tb =
     (fst tb, if header_size e > fst tb then [] else evict (fst tb - header_size e) (snd tb) @ [e])"

definition table_resize :: "nat \<Rightarrow> nat \<times> header list \<Rightarrow> nat \<times> header list" where
  "table_resize n tb = (n, evict n (snd tb))"

text \<open>Index 62 is the newest entry; an index past the oldest one has no entry.\<close>

definition table_index :: "(header \<Rightarrow> bool) \<Rightarrow> header list \<Rightarrow> nat option" where
  "table_index pred es =
     (let i = first_match pred es in if i < length es then Some (length es - i + 61) else None)"

definition table_get :: "nat \<Rightarrow> header list \<Rightarrow> header option" where
  "table_get i es = (if i < length es then Some (rev es ! i) else None)"

lemma table_size_simps [simp]:
  "table_size [] = 0" "table_size (e # es) = header_size e + table_size es"
  "table_size (es @ fs) = table_size es + table_size fs"
  by (simp_all add: table_size_def)

lemma evict_size: "table_size (evict m es) \<le> m"
  by (induction es) auto

lemma evict_all [simp]: "table_size es \<le> m \<Longrightarrow> evict m es = es"
  by (cases es) simp_all

lemma evict_zero: "evict 0 es = []"
  by (induction es) (simp_all add: header_size_def)

lemma table_size_bounded:
  "table_size (snd (table_add e tb)) \<le> fst tb" "table_size (snd (table_resize n tb)) \<le> n"
  using evict_size [of "fst tb - header_size e" "snd tb"] evict_size [of n "snd tb"]
  by (auto simp: table_add_def table_resize_def)

section \<open>The operations refine it\<close>

definition dt_holds :: "nat \<Rightarrow> header list \<Rightarrow> dynamic_table \<Rightarrow> bool" where
  "dt_holds m es t \<longleftrightarrow> wf_ring (dt_headers t) \<and> contents (dt_headers t) = es \<and>
     dt_max_size t = m \<and> dt_headers_size t = table_size es"

definition dt_abs :: "dynamic_table \<Rightarrow> nat \<times> header list" where
  "dt_abs t = (dt_max_size t, contents (dt_headers t))"

definition dt_inv :: "dynamic_table \<Rightarrow> bool" where
  "dt_inv t \<longleftrightarrow> dt_holds (dt_max_size t) (contents (dt_headers t)) t \<and>
     dt_headers_size t \<le> dt_max_size t"

lemma dt_holds_abs: "dt_holds m es t \<Longrightarrow> table_size es \<le> m \<Longrightarrow> dt_inv t \<and> dt_abs t = (m, es)"
  by (auto simp: dt_holds_def dt_inv_def dt_abs_def)

lemma dt_inv_holds: "dt_inv t \<Longrightarrow> dt_abs t = (m, es) \<Longrightarrow> dt_holds m es t \<and> table_size es \<le> m"
  by (auto simp: dt_holds_def dt_inv_def dt_abs_def)

lemma dt_new_holds: "dt_holds 0 [] dt_new"
  using null_ring_holds [of False, where 'a = header] by (simp add: dt_holds_def dt_new_def holds_def)

lemma dt_remove_loop_evicts:
  assumes "dt_holds m es t" and "n \<le> table_size es"
  shows "\<exists>t'. dt_remove_loop n t = Inr t' \<and> dt_holds m (evict (table_size es - n) es) t'"
  using assms
proof (induction n t arbitrary: es rule: dt_remove_loop.induct)
  case (1 n t)
  show ?case
  proof (cases "n > 0")
    case True
    then obtain h hs where es: "es = h # hs" using "1.prems"(2) by (cases es) auto
    have t: "wf_ring (dt_headers t)" "contents (dt_headers t) = h # hs"
        "dt_max_size t = m" "dt_headers_size t = table_size es"
      using "1.prems"(1) es by (simp_all add: dt_holds_def)
    obtain rb1 where pop: "pop_front_value (dt_headers t) = Inr (h, rb1)"
      and rb1: "wf_ring rb1" "contents rb1 = hs"
      using pop_front_value_becomes [OF t(1,2)] by (auto elim!: becomesE)
    have e: "ensure (\<not> rb_empty (dt_headers t)) Assertion = Inr ()"
      "ensure (header_size h \<le> dt_headers_size t) Assertion = Inr ()"
      using t es by (simp_all add: rb_empty_contents)
    let ?t1 = "t\<lparr>dt_headers := rb1, dt_headers_size := table_size hs\<rparr>"
    have step: "dt_remove_loop n t = dt_remove_loop (n - min n (header_size h)) ?t1"
      using True t pop es by (subst dt_remove_loop.simps) (simp add: rb_empty_contents)
    have "dt_holds m hs ?t1" using rb1 t(3) by (simp add: dt_holds_def)
    moreover have "n - min n (header_size h) \<le> table_size hs" using "1.prems"(2) es by auto
    ultimately obtain t' where "dt_remove_loop n t = Inr t'"
      "dt_holds m (evict (table_size hs - (n - min n (header_size h))) hs) t'"
      using "1.IH" [OF True e(1) pop refl e(2), of hs] step t(4) es by auto
    moreover have "evict (table_size es - n) es = evict (table_size hs - (n - min n (header_size h))) hs"
      using True "1.prems"(2) es by (cases "header_size h \<le> n") (auto simp: min_def add.commute)
    ultimately show ?thesis by auto
  next
    case False
    with "1.prems" show ?thesis by (simp add: dt_remove_loop.simps)
  qed
qed

lemma dt_remove_size_evicts:
  assumes "dt_holds m es t" and "n \<le> table_size es"
  shows "\<exists>t'. dt_remove_size n t = Inr t' \<and> dt_holds m (evict (table_size es - n) es) t'"
  using dt_remove_loop_evicts [OF assms] assms by (simp add: dt_remove_size_def dt_holds_def)

lemma dt_cleared:
  assumes "dt_holds m es t"
  shows "\<exists>rb1. clear (dt_headers t) = Inr rb1 \<and>
    dt_holds m' [] (t\<lparr>dt_headers := rb1, dt_max_size := m', dt_headers_size := 0\<rparr>)"
  using clear_becomes [of "dt_headers t"] assms by (auto simp: dt_holds_def elim!: becomesE)

lemma dt_set_max_size_resizes:
  assumes "dt_holds m es t"
  shows "\<exists>t'. dt_set_max_size n t = Inr t' \<and> dt_holds n (evict n es) t'"
proof (cases "n = 0")
  case True
  then show ?thesis using dt_cleared [OF assms, of 0] by (auto simp: dt_set_max_size_def evict_zero)
next
  case False
  have t1: "dt_holds n es (t\<lparr>dt_max_size := n\<rparr>)" and sz: "dt_headers_size t = table_size es"
    using assms by (simp_all add: dt_holds_def)
  show ?thesis
  proof (cases "n < table_size es")
    case True
    then show ?thesis
      using dt_remove_size_evicts [OF t1, of "table_size es - n"] False sz
      by (simp add: dt_set_max_size_def)
  qed (use t1 sz False in \<open>simp add: dt_set_max_size_def\<close>)
qed

lemma dt_ensure_space_grows:
  assumes "dt_holds m es t"
  shows "\<exists>t'. dt_ensure_space t = Some (Inr t') \<and> dt_holds m es t' \<and> length es < capacity (dt_headers t')"
proof -
  have wf: "wf_ring (dt_headers t)" "contents (dt_headers t) = es" using assms by (simp_all add: dt_holds_def)
  define n where "n = max (capacity (dt_headers t) * 2) 1"
  have le: "length es \<le> capacity (dt_headers t)" using contents_le_capacity [OF wf(1)] wf(2) by simp
  have n: "n \<noteq> capacity (dt_headers t)" "length es < n" using le by (auto simp: n_def)
  show ?thesis
  proof (cases "full (dt_headers t)")
    case True
    obtain rb' where "set_capacity (dt_blocks t) n (dt_headers t) = Some (Inr (dt_blocks t + 1, rb'))"
      "holds rb' es n"
      using set_capacity_holds [OF wf(1) n(1), of "dt_blocks t"] wf(2) n(2) by auto
    moreover from this True have "dt_ensure_space t
        = Some (Inr (t\<lparr>dt_headers := rb', dt_blocks := dt_blocks t + 1\<rparr>))"
      by (simp add: dt_ensure_space_def n_def)
    ultimately show ?thesis using assms n by (simp add: dt_holds_def holds_def)
  next
    case False
    with assms le full_contents [OF wf(1)] wf(2) show ?thesis by (auto simp: dt_ensure_space_def)
  qed
qed

lemma dt_evict_for_room:
  assumes "dt_holds m es t" and "table_size es \<le> m" and "sz \<le> m"
  shows "\<exists>t'. dt_evict_for sz t = Inr t' \<and> dt_holds m (evict (m - sz) es) t'"
proof -
  have "dt_max_size t = m" "dt_headers_size t = table_size es" using assms(1) by (simp_all add: dt_holds_def)
  then show ?thesis
    using dt_remove_size_evicts [OF assms(1), of "table_size es + sz - m"] assms
    by (auto simp: dt_evict_for_def)
qed

lemma dt_emplace_appends:
  assumes "dt_holds m es t" and "length es < capacity (dt_headers t)"
  shows "\<exists>t'. dt_emplace h t = Inr t' \<and> dt_holds m (es @ [h]) t'"
proof -
  have wf: "wf_ring (dt_headers t)" "contents (dt_headers t) = es" using assms(1) by (simp_all add: dt_holds_def)
  then have "becomes (dt_headers t) (keep_last (capacity (dt_headers t)) (es @ [h])) (emplace_back h (dt_headers t))"
    using emplace_back_becomes [OF wf(1), of h] assms(2) by simp
  with assms show ?thesis by (auto simp: dt_emplace_def dt_holds_def keep_last_def elim!: becomesE)
qed

lemma dt_add_adds:
  assumes "dt_holds m es t" and "table_size es \<le> m"
  shows "\<exists>t'. dt_add name val t = Some (Inr t') \<and>
    dt_holds m (snd (table_add (name, val) (m, es))) t'"
proof (cases "header_size (name, val) > m")
  case True
  moreover have "dt_max_size t = m" using assms(1) by (simp add: dt_holds_def)
  ultimately show ?thesis
    using dt_cleared [OF assms(1), of m] by (auto simp: dt_add_def table_add_def)
next
  case False
  let ?s = "header_size (name, val)"
  obtain t1 where t1: "dt_evict_for ?s t = Inr t1" "dt_holds m (evict (m - ?s) es) t1"
    using dt_evict_for_room [OF assms, of ?s] False by auto
  obtain t2 where t2: "dt_ensure_space t1 = Some (Inr t2)" "dt_holds m (evict (m - ?s) es) t2"
      "length (evict (m - ?s) es) < capacity (dt_headers t2)"
    using dt_ensure_space_grows [OF t1(2)] by auto
  have "dt_max_size t = m" using assms(1) by (simp add: dt_holds_def)
  with dt_emplace_appends [OF t2(2,3), of "(name, val)"] t1(1) t2(1) False show ?thesis
    by (simp add: dt_add_def table_add_def Let_def)
qed

lemma dt_find_with_index:
  assumes "dt_holds m es t"
  shows "dt_find_with pred t = Inr (table_index pred es)"
proof -
  have wf: "wf_ring (dt_headers t)" and es: "contents (dt_headers t) = es"
    using assms by (simp_all add: dt_holds_def)
  let ?i = "first_match pred es"
  have f: "find_if pred (dt_headers t) = Inr (it_at (dt_headers t) ?i)"
    using find_if_contents [OF wf, of pred] first_match_le [of pred es] it_at_end [of "dt_headers t"]
    by (auto simp: es it_at_def ring_pos_def Let_def)
  show ?thesis
  proof (cases "?i < length es")
    case True
    then have "it_at (dt_headers t) ?i \<noteq> it_end (dt_headers t)" using es by (simp add: it_at_def it_end_def)
    moreover have "it_diff (dt_headers t) (it_at (dt_headers t) ?i) (it_begin (dt_headers t)) = Inr (int ?i)"
      using it_diff_at [OF wf, of ?i 0] True es by (simp add: it_at_begin [OF wf])
    ultimately show ?thesis
      using True f es wf by (simp add: dt_find_with_def table_index_def rb_size_contents nat_diff_distrib)
  next
    case False
    then have "?i = length es" using first_match_le [of pred es] by simp
    then show ?thesis
      using f es it_at_end [of "dt_headers t"] by (simp add: dt_find_with_def table_index_def)
  qed
qed

lemma dt_get_header_entry:
  assumes "dt_holds m es t"
  shows "dt_get_header i t = Inr (table_get i es)"
  using assms subscript_contents [of "dt_headers t" "length es - i - 1"]
  by (auto simp: dt_holds_def dt_get_header_def table_get_def rb_size_contents rev_nth)

section \<open>Sequences of calls\<close>

datatype table_cmd = Add bytes bytes | Set_max_size nat | Find bytes bytes | Find_name bytes
  | Get_header nat | Count

datatype table_out = Table_done | Index "nat option" | Entry "header option" | Number nat

fun dt_step :: "table_cmd \<Rightarrow> dynamic_table \<Rightarrow> (table_out \<times> dynamic_table) run" where
  "dt_step (Add n v) t = bind_run (dt_add n v t) (\<lambda>t1. Some (Inr (Table_done, t1)))"
| "dt_step (Set_max_size k) t = Some (bind_res (dt_set_max_size k t) (\<lambda>t1. Inr (Table_done, t1)))"
| "dt_step (Find n v) t = Some (bind_res (dt_find n v t) (\<lambda>i. Inr (Index i, t)))"
| "dt_step (Find_name n) t = Some (bind_res (dt_find_name n t) (\<lambda>i. Inr (Index i, t)))"
| "dt_step (Get_header i) t = Some (bind_res (dt_get_header i t) (\<lambda>h. Inr (Entry h, t)))"
| "dt_step Count t = Some (Inr (Number (dt_count t), t))"

fun table_spec :: "table_cmd \<Rightarrow> nat \<times> header list \<Rightarrow> table_out \<times> (nat \<times> header list)" where
  "table_spec (Add n v) tb = (Table_done, table_add (n, v) tb)"
| "table_spec (Set_max_size k) tb = (Table_done, table_resize k tb)"
| "table_spec (Find n v) tb =
     (Index (table_index (\<lambda>h. to_lower n = to_lower (fst h) \<and> v = snd h) (snd tb)), tb)"
| "table_spec (Find_name n) tb = (Index (table_index (\<lambda>h. to_lower n = to_lower (fst h)) (snd tb)), tb)"
| "table_spec (Get_header i) tb = (Entry (table_get i (snd tb)), tb)"
| "table_spec Count tb = (Number (length (snd tb)), tb)"

lemma dt_step_refines:
  assumes "dt_inv t"
  shows "\<exists>t'. dt_step c t = Some (Inr (fst (table_spec c (dt_abs t)), t')) \<and> dt_inv t' \<and>
    dt_abs t' = snd (table_spec c (dt_abs t))"
proof -
  obtain m es where a: "dt_abs t = (m, es)" by (cases "dt_abs t")
  with dt_inv_holds [OF assms] have h: "dt_holds m es t" and le: "table_size es \<le> m" by auto
  show ?thesis
  proof (cases c)
    case (Add n v)
    then show ?thesis
      using dt_add_adds [OF h le, of n v] a table_size_bounded(1) [of "(n, v)" "(m, es)"]
      by (auto simp: table_add_def dest!: dt_holds_abs)
  next
    case (Set_max_size k)
    then show ?thesis
      using dt_set_max_size_resizes [OF h, of k] a table_size_bounded(2) [of k "(m, es)"]
      by (auto simp: table_resize_def dest!: dt_holds_abs)
  qed (use assms a h dt_find_with_index [OF h] dt_get_header_entry [OF h] in
      \<open>simp_all add: dt_find_def dt_find_name_def iequal_to_lower dt_count_def dt_holds_def rb_size_contents\<close>)
qed

interpretation dtq: guarded_refinement dt_inv dt_abs "\<lambda>_ _. True" dt_step table_spec
    "\<lambda>(m, es). table_size es \<le> m"
proof (unfold_locales, goal_cases)
  case (1 t c)
  then show ?case using dt_step_refines by simp
next
  case (2 b c)
  then show ?case
    using table_size_bounded [of _ b] by (cases c) (auto simp: table_add_def table_resize_def split: prod.splits)
qed

end
