(* ===== verification/Hpack_Integer.thy ===== *)
theory Hpack_Integer
  imports Utf_Codec Word_Facts
begin

text \<open>
  The prefixed integers of HPACK, \<open>src/src/net/http2/hpack.cpp\<close>. The template argument \<open>N\<close>, the number
  of prefix bits, is an argument. The encoder returns the bytes it stores from \<open>p\<close> on; the decoder
  gets the \<open>n\<close> bytes from \<open>p\<close> on as a list and returns the number of bytes it has read, 0 for a failure,
  with the value of the in-out parameter \<open>i\<close>. Shifting a 64-bit value by 64 or more is the fault
  \<open>Shift_overflow\<close>; the shift count \<open>m\<close> never reaches 256, so its type \<open>uint8_t\<close> does not wrap.
\<close>

type_synonym u64 = "64 word"

section \<open>The code\<close>

definition two_N_1 :: "nat \<Rightarrow> u64" where
  "two_N_1 N = push_bit N 1 - 1"

lemma u64_div_less: "128 \<le> i \<Longrightarrow> unat (i div 128 :: u64) < unat i"
  by (simp add: unat_div word_le_nat_alt)

function integer_len_loop :: "nat \<Rightarrow> u64 \<Rightarrow> nat" where
  "integer_len_loop count i = (if i \<ge> 128 then integer_len_loop (count + 1) (i div 128) else count + 1)"
  by pat_completeness auto
termination by (relation "measure (\<lambda>(count, i). unat i)") (auto intro: u64_div_less)

definition hpack_integer_encoding_len :: "nat \<Rightarrow> u64 \<Rightarrow> nat" where
  "hpack_integer_encoding_len N i =
     (if i < two_N_1 N then 1 else integer_len_loop 1 (i - two_N_1 N))"

function encode_integer_loop :: "u64 \<Rightarrow> u8 list" where
  "encode_integer_loop i =
     (if i \<ge> 128 then ucast (i mod 128 + 128) # encode_integer_loop (i div 128) else [ucast i])"
  by pat_completeness auto
termination by (relation "measure unat") (auto intro: u64_div_less)

definition hpack_encode_integer :: "nat \<Rightarrow> u64 \<Rightarrow> u8 list" where
  "hpack_encode_integer N i =
     (if i < two_N_1 N then [ucast i]
      else ucast (two_N_1 N) # encode_integer_loop (i - two_N_1 N))"

fun decode_integer_loop :: "nat \<Rightarrow> nat \<Rightarrow> u64 \<Rightarrow> u8 list \<Rightarrow> (nat \<times> u64) res" where
  "decode_integer_loop used m i [] = Inr (0, i)"
| "decode_integer_loop used m i (next_byte # bs) =
     bind_res (ensure (m < 64) Shift_overflow) (\<lambda>_.
       let two_M = push_bit m 1;
           i1 = i + ucast (next_byte AND 127) * two_M
       in if next_byte AND 128 = 128 then decode_integer_loop (used + 1) (m + 7) i1 bs
          else Inr (used + 1, i1))"

definition hpack_decode_integer :: "nat \<Rightarrow> u8 list \<Rightarrow> u64 \<Rightarrow> (nat \<times> u64) res" where
  "hpack_decode_integer N bs i =
     (case bs of [] \<Rightarrow> Inr (0, i)
      | b # rest \<Rightarrow>
        let i1 = ucast b AND two_N_1 N in
        if i1 < two_N_1 N then Inr (1, i1) else decode_integer_loop 1 0 i1 rest)"

declare integer_len_loop.simps [simp del] encode_integer_loop.simps [simp del]

section \<open>The tail of an integer\<close>

lemma continuation_byte:
  assumes "(i :: u64) < 128"
  shows "ucast ((ucast (i + 128) :: u8) AND 127) = i" "(ucast (i + 128) :: u8) AND 128 = 128"
proof -
  have "unat i < 128" using assms by (simp add: word_less_nat_alt)
  then have u: "unat (ucast (i + 128) :: u8) = unat i + 128"
    by (simp add: unat_ucast_mod unat_word_ariths)
  have m: "(127 :: u8) = mask 7" "(128 :: u8) = NOT (mask 7)" by (simp_all add: mask_eq_exp_minus_1)
  have "unat ((ucast (i + 128) :: u8) AND 127) = unat i"
    unfolding m(1) take_bit_eq_mask [symmetric] unat_take_bit u using \<open>unat i < 128\<close> by simp
  then show "ucast ((ucast (i + 128) :: u8) AND 127) = i"
    using \<open>unat i < 128\<close> by (simp add: word_unat_eq_iff unat_ucast_mod)
  have "unat ((ucast (i + 128) :: u8) AND NOT (mask 7)) = 128"
    unfolding unat_and_not_mask u using \<open>unat i < 128\<close> by simp
  then show "(ucast (i + 128) :: u8) AND 128 = 128"
    unfolding m(2) [symmetric] by (simp add: word_unat_eq_iff)
qed

lemma final_byte:
  assumes "(i :: u64) < 128"
  shows "ucast ((ucast i :: u8) AND 127) = i" "(ucast i :: u8) AND 128 \<noteq> 128"
proof -
  have l: "unat i < 128" using assms by (simp add: word_less_nat_alt)
  then have u: "unat (ucast i :: u8) = unat i" by (simp add: unat_ucast_mod)
  have m: "(127 :: u8) = mask 7" "(128 :: u8) = NOT (mask 7)" by (simp_all add: mask_eq_exp_minus_1)
  have "unat ((ucast i :: u8) AND 127) = unat i"
    unfolding m(1) take_bit_eq_mask [symmetric] unat_take_bit u using l by simp
  then show "ucast ((ucast i :: u8) AND 127) = i"
    using l by (simp add: word_unat_eq_iff unat_ucast_mod)
  have "unat ((ucast i :: u8) AND NOT (mask 7)) = 0"
    unfolding unat_and_not_mask u using l by simp
  then show "(ucast i :: u8) AND 128 \<noteq> 128"
    unfolding m(2) [symmetric] by (auto simp: word_unat_eq_iff)
qed

lemma decode_encoded_tail:
  assumes "m < 64" and "unat v < 2 ^ (64 - m)"
  shows "decode_integer_loop used m acc (encode_integer_loop v @ rest)
    = Inr (used + length (encode_integer_loop v), acc + v * push_bit m 1)"
  using assms
proof (induction v arbitrary: used m acc rule: encode_integer_loop.induct)
  case (1 v)
  show ?case
  proof (cases "v \<ge> 128")
    case True
    then have v: "128 \<le> unat v" by (simp add: word_le_nat_alt)
    then have "2 ^ 7 < (2 :: nat) ^ (64 - m)" using 1(3) by simp
    then have m: "m + 7 < 64" by (subst (asm) power_strict_increasing_iff) auto
    then have e: "(2 :: nat) ^ (64 - m) = 128 * 2 ^ (64 - (m + 7))"
      using power_add [of "2 :: nat" 7 "64 - (m + 7)"] by simp
    have small: "unat (v div 128) < 2 ^ (64 - (m + 7))"
      using 1(3) unfolding e by (simp add: unat_div less_mult_imp_div_less mult.commute)
    have "v mod 128 < 128" by (simp add: word_mod_less_divisor)
    note b = continuation_byte [OF this]
    have "push_bit (m + 7) (1 :: u64) = 128 * push_bit m 1"
      by (simp add: push_bit_eq_mult power_add mult.commute)
    moreover have "v = v mod 128 + v div 128 * 128" by (metis add.commute div_mult_mod_eq)
    then have "v * push_bit m 1 = (v mod 128 + v div 128 * 128) * push_bit m 1" by simp
    ultimately show ?thesis
      using 1(1) [OF True m small] True 1(2) b
      by (simp add: encode_integer_loop.simps [of v] Let_def algebra_simps)
  next
    case False
    then have "v < 128" by simp
    from final_byte [OF this] False 1(2) show ?thesis
      by (simp add: encode_integer_loop.simps [of v] Let_def)
  qed
qed

lemma integer_len_loop_eq: "integer_len_loop count v = count + length (encode_integer_loop v)"
  by (induction v arbitrary: count rule: encode_integer_loop.induct)
    (simp add: integer_len_loop.simps encode_integer_loop.simps)

lemma encode_integer_loop_bound: "unat v < 128 ^ Suc k \<Longrightarrow> length (encode_integer_loop v) \<le> Suc k"
proof (induction k arbitrary: v)
  case 0
  then show ?case by (simp add: encode_integer_loop.simps [of v] word_le_nat_alt)
next
  case (Suc k)
  then have "unat (v div 128) < 128 ^ Suc k"
    by (simp add: unat_div less_mult_imp_div_less mult.commute)
  with Suc.IH show ?case by (simp add: encode_integer_loop.simps [of v])
qed

section \<open>Integers with a prefix\<close>

lemma two_N_1_mask: "two_N_1 N = mask N"
  by (simp add: two_N_1_def mask_eq_exp_minus_1 push_bit_eq_mult)

lemma unat_two_N_1: "N \<le> 8 \<Longrightarrow> unat (two_N_1 N) = 2 ^ N - 1"
  proof -
  assume "N \<le> 8"
  then have "(2 :: nat) ^ N \<le> 2 ^ 8" by (intro power_increasing) auto
  then have "2 ^ N - 1 < (2 :: nat) ^ 64" by simp
  then have "unat (word_of_nat (2 ^ N - 1) :: u64) = 2 ^ N - 1"
    unfolding unsigned_of_nat by (subst take_bit_nat_eq_self) simp_all
  then show ?thesis by (simp add: two_N_1_def push_bit_eq_mult of_nat_diff)
qed

text \<open>The bits above the prefix belong to the representation the integer is part of.\<close>

definition prefixed :: "u8 \<Rightarrow> u8 list \<Rightarrow> u8 list" where
  "prefixed flags bs = (hd bs OR flags) # tl bs"

lemma encode_integer_nonempty [simp]: "hpack_encode_integer N i \<noteq> []"
  by (simp add: hpack_encode_integer_def)

lemma length_prefixed [simp]: "bs \<noteq> [] \<Longrightarrow> length (prefixed flags bs) = length bs"
  by (cases bs) (simp_all add: prefixed_def)

lemma prefix_byte:
  assumes "N \<le> 8" and "take_bit N flags = 0" and "unat i < 2 ^ N"
  shows "ucast (ucast i OR flags :: u8) AND two_N_1 N = i"
proof (rule bit_word_eqI)
  fix n
  assume "n < LENGTH(64)"
  have i: "bit i n \<Longrightarrow> n < N" using unat_lt_bit [OF assms(3)] .
  have "n < N \<Longrightarrow> \<not> bit flags n"
    using assms(2) by (metis bit_0_eq bit_take_bit_iff bot_apply bot_bool_def)
  with i assms(1) show "bit (ucast (ucast i OR flags :: u8) AND two_N_1 N) n = bit i n"
    by (auto simp: two_N_1_mask bit_simps dest: order_less_le_trans)
qed

lemma decode_encoded_integer:
  assumes "N \<le> 8" and "take_bit N flags = 0"
  shows "hpack_decode_integer N (prefixed flags (hpack_encode_integer N i) @ rest) j
    = Inr (length (hpack_encode_integer N i), i)"
proof (cases "i < two_N_1 N")
  case True
  then have "unat i < 2 ^ N" using unat_two_N_1 [OF assms(1)] by (simp add: word_less_nat_alt)
  from prefix_byte [OF assms this] True show ?thesis
    by (simp add: hpack_encode_integer_def hpack_decode_integer_def prefixed_def Let_def)
next
  case False
  have "unat (two_N_1 N) < 2 ^ N" using unat_two_N_1 [OF assms(1)] by simp
  note p = prefix_byte [OF assms this]
  have "unat (i - two_N_1 N) < 2 ^ 64" using unsigned_less [where 'a = nat, of "i - two_N_1 N"] by simp
  then have "decode_integer_loop 1 0 (two_N_1 N) (encode_integer_loop (i - two_N_1 N) @ rest)
      = Inr (1 + length (encode_integer_loop (i - two_N_1 N)), i)"
    by (subst decode_encoded_tail) simp_all
  with p False show ?thesis
    by (simp add: hpack_encode_integer_def hpack_decode_integer_def prefixed_def Let_def)
qed

lemma encoding_len_exact: "hpack_integer_encoding_len N i = length (hpack_encode_integer N i)"
  by (simp add: hpack_integer_encoding_len_def hpack_encode_integer_def integer_len_loop_eq)

lemma encoding_len_bound: "length (hpack_encode_integer N i) \<le> 11"
proof -
  have "unat (i - two_N_1 N) < 128 ^ Suc 9" using unsigned_less [where 'a = nat, of "i - two_N_1 N"] by simp
  from encode_integer_loop_bound [OF this] show ?thesis by (simp add: hpack_encode_integer_def)
qed

section \<open>Malformed integers\<close>

lemma truncated_tail:
  assumes "list_all (\<lambda>b. b AND 128 = 128) bs" and "m + 7 * length bs < 71"
  shows "\<exists>v. decode_integer_loop used m i bs = Inr (0, v)"
  using assms by (induction bs arbitrary: used m i) (auto simp: Let_def)

lemma overlong_tail:
  assumes "list_all (\<lambda>b. b AND 128 = 128) bs" and "m + 7 * length bs \<ge> 64"
  shows "decode_integer_loop used m i (bs @ b # rest) = Inl Shift_overflow"
  using assms
proof (induction bs arbitrary: used m i)
  case (Cons a bs)
  then show ?case by (cases "m < 64") (auto simp: Let_def)
qed simp

lemma all_ones_prefix:
  assumes "1 \<le> N" and "N \<le> 8"
  shows "ucast (0xff :: u8) AND two_N_1 N = two_N_1 N"
proof (rule bit_word_eqI)
  fix n
  have "bit (0xff :: u8) n \<longleftrightarrow> n < 8"
    using bit_mask_iff [where 'a = "8 word", of 8 n] by (auto simp: mask_eq_exp_minus_1 bit_simps)
  with assms show "bit (ucast (0xff :: u8) AND two_N_1 N) n = bit (two_N_1 N) n"
    by (auto simp: two_N_1_mask bit_simps)
qed

text \<open>What the decoder reads lies inside its input.\<close>

lemma decode_loop_length:
  "decode_integer_loop used m i bs = Inr (n, v) \<Longrightarrow> n = 0 \<or> used < n \<and> n \<le> used + length bs"
proof (induction used m i bs rule: decode_integer_loop.induct)
  case (2 used m i b bs)
  then show ?case by (fastforce simp: bind_res_eq_Inr Let_def split: if_splits)
qed simp

lemma decode_integer_length:
  "hpack_decode_integer N bs i = Inr (n, v) \<Longrightarrow> n \<le> length bs"
  using decode_loop_length by (fastforce simp: hpack_decode_integer_def Let_def split: list.splits if_splits)

end
