(* ===== verification/Bits.thy ===== *)
theory Bits
  imports Rad_Prelude Word_Facts
begin

text \<open>
  The bit operations of \<open>src/include/rad/bits.h\<close> on unsigned integers. The functions with a template
  argument for the bit index check it at compile time; the ones suffixed \<open>_at\<close> take the index at run
  time and assert it. A shift of an operand narrower than \<open>int\<close> is carried out on an \<open>int\<close>, so it
  overflows from 32 bits on; a wider operand overflows from its own width on.
\<close>

section \<open>The code\<close>

definition width_of :: "'a::len word \<Rightarrow> nat" where
  "width_of i = LENGTH('a)"

definition bits_check :: "nat \<Rightarrow> 'a::len word \<Rightarrow> bool" where
  "bits_check n i \<longleftrightarrow> i AND push_bit n 1 \<noteq> 0"

definition bits_check_at :: "'a::len word \<Rightarrow> nat \<Rightarrow> bool res" where
  "bits_check_at i bitn =
     bind_res (ensure (bitn < width_of i) Assertion) (\<lambda>_. Inr (i AND push_bit bitn 1 \<noteq> 0))"

definition bits_set :: "nat \<Rightarrow> 'a::len word \<Rightarrow> 'a word" where
  "bits_set n i = i OR push_bit n 1"

definition bits_set_at :: "'a::len word \<Rightarrow> nat \<Rightarrow> 'a word res" where
  "bits_set_at i bitn =
     bind_res (ensure (bitn < width_of i) Assertion) (\<lambda>_. Inr (i OR push_bit bitn 1))"

definition bits_clear :: "nat \<Rightarrow> 'a::len word \<Rightarrow> 'a word" where
  "bits_clear n i = i AND NOT (push_bit n 1)"

definition bits_clear_at :: "'a::len word \<Rightarrow> nat \<Rightarrow> 'a word res" where
  "bits_clear_at i bitn =
     bind_res (ensure (bitn < width_of i) Assertion) (\<lambda>_. Inr (i AND NOT (push_bit bitn 1)))"

definition first_n_bits :: "nat \<Rightarrow> 'a::len word \<Rightarrow> 'a word res" where
  "first_n_bits n i =
     bind_res (ensure (n < max 32 (width_of i)) Shift_overflow) (\<lambda>_. Inr (i AND (push_bit n 1 - 1)))"

definition first_n_bits_at :: "'a::len word \<Rightarrow> nat \<Rightarrow> 'a word res" where
  "first_n_bits_at i bits_count =
     bind_res (ensure (bits_count > 0 \<and> bits_count \<le> width_of i) Assertion) (\<lambda>_.
       first_n_bits bits_count i)"

definition bits_extract :: "nat \<Rightarrow> nat \<Rightarrow> 'a::len word \<Rightarrow> 'a word res" where
  "bits_extract lo hi i = first_n_bits (hi - lo + 1) (drop_bit lo i)"

definition bits_extract_at :: "'a::len word \<Rightarrow> nat \<Rightarrow> nat \<Rightarrow> 'a word res" where
  "bits_extract_at i lo hi =
     bind_res (ensure (lo < width_of i \<and> hi < width_of i \<and> lo \<le> hi) Assertion) (\<lambda>_.
       first_n_bits_at (drop_bit lo i) (hi - lo + 1))"

definition bits_assign :: "nat \<Rightarrow> 'a::len word \<Rightarrow> bool \<Rightarrow> 'a word" where
  "bits_assign n i on_or_off = i OR push_bit n (of_bool on_or_off)"

definition bits_assign_at :: "'a::len word \<Rightarrow> nat \<Rightarrow> bool \<Rightarrow> 'a word res" where
  "bits_assign_at i bitn on_or_off =
     bind_res (ensure (bitn < width_of i) Assertion) (\<lambda>_. Inr (i OR push_bit bitn (of_bool on_or_off)))"

section \<open>What the operations do to each bit\<close>

lemma bits_check_bit [simp]: "bits_check n i \<longleftrightarrow> bit i n"
proof
  assume "bits_check n i"
  then obtain k where "bit (i AND push_bit n 1) k" by (auto simp: bits_check_def bit_eq_iff)
  then show "bit i n" by (auto simp: bit_simps)
next
  assume b: "bit i n"
  then have "bit (i AND push_bit n 1) n" by (auto simp: bit_simps dest: bit_imp_le_length)
  then show "bits_check n i" by (auto simp: bits_check_def)
qed

lemma bit_bits_set [bit_simps]: "bit (bits_set n i) k \<longleftrightarrow> bit i k \<or> k = n \<and> k < LENGTH('a)"
  for i :: "'a::len word"
  by (auto simp: bits_set_def bit_simps)

lemma bit_bits_clear [bit_simps]: "bit (bits_clear n i) k \<longleftrightarrow> bit i k \<and> k \<noteq> n"
  for i :: "'a::len word"
  by (auto simp: bits_clear_def bit_simps dest: bit_imp_le_length)

lemma bit_bits_assign [bit_simps]:
  "bit (bits_assign n i b) k \<longleftrightarrow> bit i k \<or> b \<and> k = n \<and> k < LENGTH('a)"
  for i :: "'a::len word"
  by (cases b) (auto simp: bits_assign_def bit_simps)

lemma first_n_bits_take:
  "n < LENGTH('a) \<Longrightarrow> first_n_bits n i = Inr (take_bit n i)" for i :: "'a::len word"
  by (simp add: first_n_bits_def width_of_def take_bit_eq_mask mask_eq_exp_minus_1 push_bit_eq_mult)

lemma bits_extract_bit:
  fixes i :: "'a::len word"
  assumes "lo \<le> hi" and "hi - lo + 1 < LENGTH('a)"
  shows "\<exists>r. bits_extract lo hi i = Inr r \<and> (\<forall>k. bit r k \<longleftrightarrow> lo + k \<le> hi \<and> bit i (lo + k))"
  using assms by (auto simp: bits_extract_def first_n_bits_take bit_simps)

text \<open>\<open>assign\<close> never clears a bit, and the whole width of a 32 or 64 bit integer cannot be extracted.\<close>

lemma bits_assign_keeps: "bit i n \<Longrightarrow> bits_assign n i False = i"
  by (simp add: bits_assign_def)

lemma first_n_bits_full: "32 \<le> LENGTH('a) \<Longrightarrow> first_n_bits LENGTH('a) i = Inl Shift_overflow"
  for i :: "'a::len word"
  by (simp add: first_n_bits_def width_of_def)

end
