(* ===== verification/Hpack_Huffman.thy ===== *)
theory Hpack_Huffman
  imports Hpack_Integer Bits
begin

text \<open>
  The Huffman code of HPACK, \<open>src/src/net/http2/hpack.cpp\<close>: the code table, the encoder, which shifts bits
  into a zeroed byte buffer, and the decoder, which reads bits and looks up prefixes in the table.
  The encoder's buffer is a list of bytes, its pointer an offset; an access outside it is a
  fault. The decoder's output buffer is what has been written so far together with its size.
\<close>

section \<open>The code table\<close>

record huffman_entry_t =
  he_symbol :: u8
  he_len :: nat
  he_code :: "32 word"

definition huffman_rows :: "(int \<times> int \<times> int) list" where
  "huffman_rows = [
    (0, 13, 0x1ff8), (1, 23, 0x7fffd8), (2, 28, 0xfffffe2), (3, 28, 0xfffffe3),
    (4, 28, 0xfffffe4), (5, 28, 0xfffffe5), (6, 28, 0xfffffe6), (7, 28, 0xfffffe7),
    (8, 28, 0xfffffe8), (9, 24, 0xffffea), (10, 30, 0x3ffffffc), (11, 28, 0xfffffe9),
    (12, 28, 0xfffffea), (13, 30, 0x3ffffffd), (14, 28, 0xfffffeb), (15, 28, 0xfffffec),
    (16, 28, 0xfffffed), (17, 28, 0xfffffee), (18, 28, 0xfffffef), (19, 28, 0xffffff0),
    (20, 28, 0xffffff1), (21, 28, 0xffffff2), (22, 30, 0x3ffffffe), (23, 28, 0xffffff3),
    (24, 28, 0xffffff4), (25, 28, 0xffffff5), (26, 28, 0xffffff6), (27, 28, 0xffffff7),
    (28, 28, 0xffffff8), (29, 28, 0xffffff9), (30, 28, 0xffffffa), (31, 28, 0xffffffb),
    (32, 6, 0x14), (33, 10, 0x3f8), (34, 10, 0x3f9), (35, 12, 0xffa), (36, 13, 0x1ff9),
    (37, 6, 0x15), (38, 8, 0xf8), (39, 11, 0x7fa), (40, 10, 0x3fa), (41, 10, 0x3fb),
    (42, 8, 0xf9), (43, 11, 0x7fb), (44, 8, 0xfa), (45, 6, 0x16), (46, 6, 0x17), (47, 6, 0x18),
    (48, 5, 0x0), (49, 5, 0x1), (50, 5, 0x2), (51, 6, 0x19), (52, 6, 0x1a), (53, 6, 0x1b),
    (54, 6, 0x1c), (55, 6, 0x1d), (56, 6, 0x1e), (57, 6, 0x1f), (58, 7, 0x5c), (59, 8, 0xfb),
    (60, 15, 0x7ffc), (61, 6, 0x20), (62, 12, 0xffb), (63, 10, 0x3fc), (64, 13, 0x1ffa),
    (65, 6, 0x21), (66, 7, 0x5d), (67, 7, 0x5e), (68, 7, 0x5f), (69, 7, 0x60), (70, 7, 0x61),
    (71, 7, 0x62), (72, 7, 0x63), (73, 7, 0x64), (74, 7, 0x65), (75, 7, 0x66), (76, 7, 0x67),
    (77, 7, 0x68), (78, 7, 0x69), (79, 7, 0x6a), (80, 7, 0x6b), (81, 7, 0x6c), (82, 7, 0x6d),
    (83, 7, 0x6e), (84, 7, 0x6f), (85, 7, 0x70), (86, 7, 0x71), (87, 7, 0x72), (88, 8, 0xfc),
    (89, 7, 0x73), (90, 8, 0xfd), (91, 13, 0x1ffb), (92, 19, 0x7fff0), (93, 13, 0x1ffc),
    (94, 14, 0x3ffc), (95, 6, 0x22), (96, 15, 0x7ffd), (97, 5, 0x3), (98, 6, 0x23), (99, 5, 0x4),
    (100, 6, 0x24), (101, 5, 0x5), (102, 6, 0x25), (103, 6, 0x26), (104, 6, 0x27), (105, 5, 0x6),
    (106, 7, 0x74), (107, 7, 0x75), (108, 6, 0x28), (109, 6, 0x29), (110, 6, 0x2a), (111, 5, 0x7),
    (112, 6, 0x2b), (113, 7, 0x76), (114, 6, 0x2c), (115, 5, 0x8), (116, 5, 0x9), (117, 6, 0x2d),
    (118, 7, 0x77), (119, 7, 0x78), (120, 7, 0x79), (121, 7, 0x7a), (122, 7, 0x7b),
    (123, 15, 0x7ffe), (124, 11, 0x7fc), (125, 14, 0x3ffd), (126, 13, 0x1ffd),
    (127, 28, 0xffffffc), (128, 20, 0xfffe6), (129, 22, 0x3fffd2), (130, 20, 0xfffe7),
    (131, 20, 0xfffe8), (132, 22, 0x3fffd3), (133, 22, 0x3fffd4), (134, 22, 0x3fffd5),
    (135, 23, 0x7fffd9), (136, 22, 0x3fffd6), (137, 23, 0x7fffda), (138, 23, 0x7fffdb),
    (139, 23, 0x7fffdc), (140, 23, 0x7fffdd), (141, 23, 0x7fffde), (142, 24, 0xffffeb),
    (143, 23, 0x7fffdf), (144, 24, 0xffffec), (145, 24, 0xffffed), (146, 22, 0x3fffd7),
    (147, 23, 0x7fffe0), (148, 24, 0xffffee), (149, 23, 0x7fffe1), (150, 23, 0x7fffe2),
    (151, 23, 0x7fffe3), (152, 23, 0x7fffe4), (153, 21, 0x1fffdc), (154, 22, 0x3fffd8),
    (155, 23, 0x7fffe5), (156, 22, 0x3fffd9), (157, 23, 0x7fffe6), (158, 23, 0x7fffe7),
    (159, 24, 0xffffef), (160, 22, 0x3fffda), (161, 21, 0x1fffdd), (162, 20, 0xfffe9),
    (163, 22, 0x3fffdb), (164, 22, 0x3fffdc), (165, 23, 0x7fffe8), (166, 23, 0x7fffe9),
    (167, 21, 0x1fffde), (168, 23, 0x7fffea), (169, 22, 0x3fffdd), (170, 22, 0x3fffde),
    (171, 24, 0xfffff0), (172, 21, 0x1fffdf), (173, 22, 0x3fffdf), (174, 23, 0x7fffeb),
    (175, 23, 0x7fffec), (176, 21, 0x1fffe0), (177, 21, 0x1fffe1), (178, 22, 0x3fffe0),
    (179, 21, 0x1fffe2), (180, 23, 0x7fffed), (181, 22, 0x3fffe1), (182, 23, 0x7fffee),
    (183, 23, 0x7fffef), (184, 20, 0xfffea), (185, 22, 0x3fffe2), (186, 22, 0x3fffe3),
    (187, 22, 0x3fffe4), (188, 23, 0x7ffff0), (189, 22, 0x3fffe5), (190, 22, 0x3fffe6),
    (191, 23, 0x7ffff1), (192, 26, 0x3ffffe0), (193, 26, 0x3ffffe1), (194, 20, 0xfffeb),
    (195, 19, 0x7fff1), (196, 22, 0x3fffe7), (197, 23, 0x7ffff2), (198, 22, 0x3fffe8),
    (199, 25, 0x1ffffec), (200, 26, 0x3ffffe2), (201, 26, 0x3ffffe3), (202, 26, 0x3ffffe4),
    (203, 27, 0x7ffffde), (204, 27, 0x7ffffdf), (205, 26, 0x3ffffe5), (206, 24, 0xfffff1),
    (207, 25, 0x1ffffed), (208, 19, 0x7fff2), (209, 21, 0x1fffe3), (210, 26, 0x3ffffe6),
    (211, 27, 0x7ffffe0), (212, 27, 0x7ffffe1), (213, 26, 0x3ffffe7), (214, 27, 0x7ffffe2),
    (215, 24, 0xfffff2), (216, 21, 0x1fffe4), (217, 21, 0x1fffe5), (218, 26, 0x3ffffe8),
    (219, 26, 0x3ffffe9), (220, 28, 0xffffffd), (221, 27, 0x7ffffe3), (222, 27, 0x7ffffe4),
    (223, 27, 0x7ffffe5), (224, 20, 0xfffec), (225, 24, 0xfffff3), (226, 20, 0xfffed),
    (227, 21, 0x1fffe6), (228, 22, 0x3fffe9), (229, 21, 0x1fffe7), (230, 21, 0x1fffe8),
    (231, 23, 0x7ffff3), (232, 22, 0x3fffea), (233, 22, 0x3fffeb), (234, 25, 0x1ffffee),
    (235, 25, 0x1ffffef), (236, 24, 0xfffff4), (237, 24, 0xfffff5), (238, 26, 0x3ffffea),
    (239, 23, 0x7ffff4), (240, 26, 0x3ffffeb), (241, 27, 0x7ffffe6), (242, 26, 0x3ffffec),
    (243, 26, 0x3ffffed), (244, 27, 0x7ffffe7), (245, 27, 0x7ffffe8), (246, 27, 0x7ffffe9),
    (247, 27, 0x7ffffea), (248, 27, 0x7ffffeb), (249, 28, 0xffffffe), (250, 27, 0x7ffffec),
    (251, 27, 0x7ffffed), (252, 27, 0x7ffffee), (253, 27, 0x7ffffef), (254, 27, 0x7fffff0),
    (255, 26, 0x3ffffee)]"

definition huffman_entry :: "int \<times> int \<times> int \<Rightarrow> huffman_entry_t" where
  "huffman_entry r =
     \<lparr>he_symbol = word_of_int (fst r), he_len = nat (fst (snd r)), he_code = word_of_int (snd (snd r))\<rparr>"

definition http2_huffman_table :: "huffman_entry_t list" where
  "http2_huffman_table = map huffman_entry huffman_rows"

definition find_huffman_code_for_symbol :: "u8 \<Rightarrow> huffman_entry_t res" where
  "find_huffman_code_for_symbol symbol =
     (let entry = http2_huffman_table ! unat symbol in
      bind_res (ensure (he_symbol entry = symbol) Assertion) (\<lambda>_. Inr entry))"

definition find_huffman_code_for_code :: "32 word \<Rightarrow> nat \<Rightarrow> huffman_entry_t option" where
  "find_huffman_code_for_code code len =
     find (\<lambda>entry. he_len entry = len \<and> he_code entry = code) http2_huffman_table"

section \<open>The encoder\<close>

fun huffman_len_loop :: "nat \<Rightarrow> u8 list \<Rightarrow> nat res" where
  "huffman_len_loop len [] = Inr len"
| "huffman_len_loop len (ch # text) =
     bind_res (find_huffman_code_for_symbol ch) (\<lambda>hcode. huffman_len_loop (len + he_len hcode) text)"

definition http2_encoded_huffman_len :: "u8 list \<Rightarrow> nat res" where
  "http2_encoded_huffman_len str =
     bind_res (huffman_len_loop 0 str) (\<lambda>len. Inr (len div 8 + (if len mod 8 \<noteq> 0 then 1 else 0)))"

definition modify_byte :: "nat \<Rightarrow> (u8 \<Rightarrow> u8) \<Rightarrow> u8 list \<Rightarrow> u8 list res" where
  "modify_byte p f mem =
     bind_res (ensure (p < length mem) Out_of_bounds) (\<lambda>_. Inr (mem[p := f (mem ! p)]))"

definition write_code_bit :: "bool \<Rightarrow> nat \<Rightarrow> nat \<Rightarrow> u8 list \<Rightarrow> (nat \<times> nat \<times> u8 list) res" where
  "write_code_bit bit_i used_bits p mem =
     bind_res (modify_byte p (\<lambda>b. b OR of_bool bit_i) mem) (\<lambda>mem1.
       if used_bits + 1 = 8 then Inr (0, p + 1, mem1)
       else bind_res (modify_byte p (push_bit 1) mem1) (\<lambda>mem2. Inr (used_bits + 1, p, mem2)))"

fun huffman_bit_loop ::
    "nat \<Rightarrow> 32 word \<Rightarrow> nat \<Rightarrow> nat \<Rightarrow> u8 list \<Rightarrow> (nat \<times> nat \<times> u8 list) res" where
  "huffman_bit_loop 0 code used_bits p mem = Inr (used_bits, p, mem)"
| "huffman_bit_loop (Suc len) code used_bits p mem =
     bind_res (write_code_bit (bits_check 31 code) used_bits p mem) (\<lambda>(used1, p1, mem1).
       huffman_bit_loop len (push_bit 1 code) used1 p1 mem1)"

definition http2_encode_one_huffman_code ::
    "huffman_entry_t \<Rightarrow> nat \<Rightarrow> nat \<Rightarrow> u8 list \<Rightarrow> (nat \<times> nat \<times> u8 list) res" where
  "http2_encode_one_huffman_code entry used_bits p mem =
     bind_res (ensure (0 < he_len entry \<and> he_len entry \<le> 32) Shift_overflow) (\<lambda>_.
       huffman_bit_loop (he_len entry) (push_bit (32 - he_len entry) (he_code entry)) used_bits p mem)"

fun huffman_text_loop :: "u8 list \<Rightarrow> nat \<Rightarrow> nat \<Rightarrow> u8 list \<Rightarrow> (nat \<times> nat \<times> u8 list) res" where
  "huffman_text_loop [] used_bits p mem = Inr (used_bits, p, mem)"
| "huffman_text_loop (ch # text) used_bits p mem =
     bind_res (find_huffman_code_for_symbol ch) (\<lambda>hcode.
     bind_res (http2_encode_one_huffman_code hcode used_bits p mem) (\<lambda>(used1, p1, mem1).
       huffman_text_loop text used1 p1 mem1))"

text \<open>The returned number is \<open>p - start_p\<close>; a last, partly filled byte is not counted in it.\<close>

definition http2_encode_huffman :: "u8 list \<Rightarrow> u8 list \<Rightarrow> (nat \<times> u8 list) res" where
  "http2_encode_huffman str mem =
     bind_res (huffman_text_loop str 0 0 mem) (\<lambda>(used_bits, p, mem1).
       if used_bits \<noteq> 0 then
         bind_res (modify_byte p (push_bit (8 - used_bits - 1)) mem1) (\<lambda>mem2.
         bind_res (modify_byte p (\<lambda>b. b OR drop_bit used_bits 0xff) mem2) (\<lambda>mem3. Inr (p, mem3)))
       else Inr (p, mem1))"

section \<open>The decoder\<close>

record bits_reader_t =
  br_bytes :: "u8 list"
  br_byte :: u8
  br_used :: nat

definition bits_reader :: "u8 list \<Rightarrow> bits_reader_t" where
  "bits_reader bytes = \<lparr>br_bytes = bytes, br_byte = 0, br_used = 8\<rparr>"

definition br_empty :: "bits_reader_t \<Rightarrow> bool" where
  "br_empty r \<longleftrightarrow> br_bytes r = [] \<and> br_used r = 8"

text \<open>\<open>None\<close>: the input is at its end, \<open>ec\<close> is set to \<open>no_buffer_space\<close> and 0 is returned.\<close>

definition get_next_bit :: "bits_reader_t \<Rightarrow> (bool \<times> bits_reader_t) option" where
  "get_next_bit r =
     (if br_used r = 8 then
        (case br_bytes r of [] \<Rightarrow> None
         | b # bs \<Rightarrow> Some (bits_check 7 b, \<lparr>br_bytes = bs, br_byte = push_bit 1 b, br_used = 1\<rparr>))
      else Some (bits_check 7 (br_byte r),
        r\<lparr>br_byte := push_bit 1 (br_byte r), br_used := br_used r + 1\<rparr>))"

text \<open>
  One round of the decoding loops. \<open>Input_end ok\<close>: the input ended inside a code, \<open>ok\<close> says whether the
  bits read so far are all ones; \<open>Found\<close>: a code has been read; \<open>Not_found\<close>: 30 bits without a code.
\<close>

datatype huffman_round = Input_end bool | Found huffman_entry_t bits_reader_t | Not_found

definition at_input_end :: "32 word \<Rightarrow> nat \<Rightarrow> huffman_round res" where
  "at_input_end code code_len =
     bind_res (ensure (0 < code_len \<and> code_len \<le> 32) Shift_overflow) (\<lambda>_.
       Inr (Input_end (drop_bit 1 code = drop_bit (32 - code_len) (- 1))))"

function huffman_search_loop :: "bits_reader_t \<Rightarrow> 32 word \<Rightarrow> nat \<Rightarrow> huffman_round res" where
  "huffman_search_loop r code code_len =
     (if code_len < 30 then
        (case get_next_bit r of
           None \<Rightarrow> at_input_end code code_len
         | Some (b, r1) \<Rightarrow>
           let code1 = code OR of_bool b; len1 = code_len + 1 in
           (case find_huffman_code_for_code code1 len1 of
              None \<Rightarrow> huffman_search_loop r1 (push_bit 1 code1) len1
            | Some hcode \<Rightarrow> Inr (Found hcode r1)))
      else Inr Not_found)"
  by pat_completeness auto
termination by (relation "measure (\<lambda>(r, code, code_len). 30 - code_len)") auto

declare huffman_search_loop.simps [simp del]

fun huffman_prefix_loop :: "nat \<Rightarrow> bits_reader_t \<Rightarrow> 32 word \<Rightarrow> nat \<Rightarrow> huffman_round res" where
  "huffman_prefix_loop 0 r code code_len = huffman_search_loop r code code_len"
| "huffman_prefix_loop (Suc i) r code code_len =
     (case get_next_bit r of
        None \<Rightarrow> at_input_end code code_len
      | Some (b, r1) \<Rightarrow> huffman_prefix_loop i r1 (push_bit 1 (code OR of_bool b)) (code_len + 1))"

definition read_huffman_code :: "bits_reader_t \<Rightarrow> huffman_round res" where
  "read_huffman_code r = huffman_prefix_loop 4 r 0 0"

text \<open>
  Both decoding functions run the same rounds until the reader is empty: the first counts the
  symbols, the second stores them in a buffer of \<open>cap\<close> bytes. \<open>None\<close> is a loop that does not end.
\<close>

partial_function (option) decoded_len_loop :: "bits_reader_t \<Rightarrow> nat \<Rightarrow> nat run" where
  "decoded_len_loop r len =
     (if br_empty r then Some (Inr len)
      else (case read_huffman_code r of
          Inl e \<Rightarrow> Some (Inl e)
        | Inr (Input_end ok) \<Rightarrow> Some (Inr (if ok then len else 0))
        | Inr Not_found \<Rightarrow> Some (Inr 0)
        | Inr (Found hcode r1) \<Rightarrow> decoded_len_loop r1 (len + 1)))"

definition http2_decoded_huffman_len :: "u8 list \<Rightarrow> nat run" where
  "http2_decoded_huffman_len encoded = decoded_len_loop (bits_reader encoded) 0"

definition store_symbol :: "nat \<Rightarrow> u8 \<Rightarrow> u8 list \<Rightarrow> u8 list res" where
  "store_symbol cap ch out = bind_res (ensure (length out < cap) Out_of_bounds) (\<lambda>_. Inr (out @ [ch]))"

partial_function (option) decode_huffman_loop ::
    "nat \<Rightarrow> bits_reader_t \<Rightarrow> u8 list \<Rightarrow> (errc option \<times> u8 list) run" where
  "decode_huffman_loop cap r out =
     (if br_empty r then Some (Inr (None, out))
      else (case read_huffman_code r of
          Inl e \<Rightarrow> Some (Inl e)
        | Inr (Input_end ok) \<Rightarrow> Some (Inr (if ok then None else Some No_buffer_space, out))
        | Inr Not_found \<Rightarrow> Some (Inr (Some Invalid_argument, out))
        | Inr (Found hcode r1) \<Rightarrow>
            (case store_symbol cap (he_symbol hcode) out of
               Inl e \<Rightarrow> Some (Inl e)
             | Inr out1 \<Rightarrow> decode_huffman_loop cap r1 out1)))"

definition http2_decode_huffman :: "nat \<Rightarrow> u8 list \<Rightarrow> (errc option \<times> u8 list) run" where
  "http2_decode_huffman cap encoded = decode_huffman_loop cap (bits_reader encoded) []"

declare decoded_len_loop.simps [code] decode_huffman_loop.simps [code]

end
