(* ===== verification/Hpack_Codec.thy ===== *)
theory Hpack_Codec
  imports Hpack_Table Hpack_Huffman
begin

text \<open>
  The HPACK encoder and decoder of \<open>src/src/net/http2/hpack.cpp\<close> for lists of headers. The encoder returns the
  bytes it appends to \<open>out\<close>; \<open>out.prepare(n)\<close> appends \<open>n\<close> zero bytes, and writing past them is a fault.
  The decoder's input is the list of remaining bytes; every function returns how many of them it
  has consumed, and \<open>input += n\<close> asserts that there are as many. The in-out parameter \<open>ec\<close> is an
  \<open>errc option\<close>. Sizes are converted to 64-bit integers where the code does it.
\<close>

section \<open>The static table\<close>

definition predefined_rows :: "(string \<times> string) list" where
  "predefined_rows = [
    ('':authority'', ''''), ('':method'', ''GET''), ('':method'', ''POST''), ('':path'', ''/''),
    ('':path'', ''/index.html''), ('':scheme'', ''http''), ('':scheme'', ''https''),
    ('':status'', ''200''), ('':status'', ''204''), ('':status'', ''206''),
    ('':status'', ''304''), ('':status'', ''400''), ('':status'', ''404''),
    ('':status'', ''500''), (''accept-charset'', ''''), (''accept-encoding'', ''gzip, deflate''),
    (''accept-language'', ''''), (''accept-ranges'', ''''), (''accept'', ''''),
    (''access-control-allow-origin'', ''''), (''age'', ''''), (''allow'', ''''),
    (''authorization'', ''''), (''cache-control'', ''''), (''content-disposition'', ''''),
    (''content-encoding'', ''''), (''content-language'', ''''), (''content-length'', ''''),
    (''content-location'', ''''), (''content-range'', ''''), (''content-type'', ''''),
    (''cookie'', ''''), (''date'', ''''), (''etag'', ''''), (''expect'', ''''),
    (''expires'', ''''), (''from'', ''''), (''host'', ''''), (''if-match'', ''''),
    (''if-modified-since'', ''''), (''if-none-match'', ''''), (''if-range'', ''''),
    (''if-unmodified-since'', ''''), (''last-modified'', ''''), (''link'', ''''),
    (''location'', ''''), (''max-forwards'', ''''), (''proxy-authenticate'', ''''),
    (''proxy-authorization'', ''''), (''range'', ''''), (''referer'', ''''), (''refresh'', ''''),
    (''retry-after'', ''''), (''server'', ''''), (''set-cookie'', ''''),
    (''strict-transport-security'', ''''), (''transfer-encoding'', ''''), (''user-agent'', ''''),
    (''vary'', ''''), (''via'', ''''), (''www-authenticate'', '''')]"

definition predefined_http2_headers :: "header list" where
  "predefined_http2_headers = map (\<lambda>(n, v). (bytes_of n, bytes_of v)) predefined_rows"

definition find_predefined :: "(header \<Rightarrow> bool) \<Rightarrow> nat option" where
  "find_predefined pred =
     (let it = length (takeWhile (\<lambda>h. \<not> pred h) predefined_http2_headers) in
      if it = length predefined_http2_headers then None else Some (it + 1))"

definition find_predefined_http2_header :: "bytes \<Rightarrow> bytes \<Rightarrow> nat option" where
  "find_predefined_http2_header name val =
     find_predefined (\<lambda>header. iequal (fst header) name \<and> iequal (snd header) val)"

definition find_predefined_http2_name :: "bytes \<Rightarrow> nat option" where
  "find_predefined_http2_name name = find_predefined (\<lambda>header. iequal (fst header) name)"

section \<open>The encoder\<close>

record hpack_encoder =
  enc_table :: dynamic_table
  enc_host :: bytes
  enc_scheme :: bytes

definition put_integer :: "nat \<Rightarrow> u64 \<Rightarrow> bytes res" where
  "put_integer N i =
     (let len = hpack_integer_encoding_len N i; bs = hpack_encode_integer N i in
      bind_res (ensure (length bs \<le> len) Out_of_bounds) (\<lambda>_. Inr (bs @ replicate (len - length bs) 0)))"

definition set_first :: "(u8 \<Rightarrow> u8) \<Rightarrow> bytes \<Rightarrow> bytes res" where
  "set_first f buff = (case buff of [] \<Rightarrow> Inl Out_of_bounds | b # bs \<Rightarrow> Inr (f b # bs))"

definition encode_length_string :: "bytes \<Rightarrow> bool \<Rightarrow> bytes res" where
  "encode_length_string str huffman =
     (if str = [] then Inr [0]
      else
        bind_res
          (if huffman then
             bind_res (http2_encoded_huffman_len str) (\<lambda>n.
             bind_res (http2_encode_huffman str (replicate n 0)) (\<lambda>(_, encoded_text). Inr encoded_text))
           else Inr str) (\<lambda>encoded.
        bind_res (put_integer 7 (of_nat (length encoded))) (\<lambda>buff.
        bind_res (set_first (\<lambda>b. bits_assign 7 b huffman) buff) (\<lambda>buff1.
        Inr (buff1 @ encoded)))))"

definition encode_name_index :: "bool \<Rightarrow> bool \<Rightarrow> nat \<Rightarrow> bytes res" where
  "encode_name_index indexed never_indexed index =
     (if never_indexed \<or> \<not> indexed then
        bind_res (put_integer 4 (of_nat index))
          (set_first (\<lambda>b. bits_assign 4 (b AND drop_bit 4 0xff) never_indexed))
      else
        bind_res (put_integer 6 (of_nat index)) (set_first (\<lambda>b. bits_set 6 (bits_clear 7 b))))"

definition encode_header ::
    "bytes \<Rightarrow> bytes \<Rightarrow> bool \<Rightarrow> bool \<Rightarrow> bool \<Rightarrow> hpack_encoder \<Rightarrow> (bytes \<times> hpack_encoder) run" where
  "encode_header name val huffman indexed never_indexed enc =
     bind_run (Some
       (let static = (if never_indexed then None else find_predefined_http2_header name val) in
        if \<not> never_indexed \<and> static = None then dt_find name val (enc_table enc) else Inr static))
       (\<lambda>existing.
     case existing of
       Some index \<Rightarrow>
         Some (bind_res (put_integer 7 (of_nat index)) (\<lambda>buff.
               bind_res (set_first (bits_set 7) buff) (\<lambda>buff1. Inr (buff1, enc))))
     | None \<Rightarrow>
         bind_run (Some
           (case find_predefined_http2_name name of
              Some i \<Rightarrow> Inr (Some i)
            | None \<Rightarrow> dt_find_name name (enc_table enc))) (\<lambda>name_index.
         bind_run (Some
           (bind_res (encode_name_index indexed never_indexed (case name_index of Some i \<Rightarrow> i | None \<Rightarrow> 0))
             (\<lambda>b1.
            bind_res (if name_index = None then encode_length_string (to_lower name) huffman else Inr [])
             (\<lambda>b2.
            bind_res (encode_length_string val huffman) (\<lambda>b3. Inr (b1 @ b2 @ b3)))))) (\<lambda>out.
         if indexed then
           bind_run (dt_add name val (enc_table enc)) (\<lambda>t.
             Some (Inr (out, enc\<lparr>enc_table := t\<rparr>)))
         else Some (Inr (out, enc)))))"

fun encode_headers ::
    "headers \<Rightarrow> bool \<Rightarrow> bool \<Rightarrow> bool \<Rightarrow> hpack_encoder \<Rightarrow> (bytes \<times> hpack_encoder) run" where
  "encode_headers [] indexed huffman never_indexed enc = Some (Inr ([], enc))"
| "encode_headers (h # hs) indexed huffman never_indexed enc =
     bind_run (encode_header (fst h) (snd h) huffman indexed never_indexed enc) (\<lambda>(b1, enc1).
     bind_run (encode_headers hs indexed huffman never_indexed enc1) (\<lambda>(b2, enc2).
     Some (Inr (b1 @ b2, enc2))))"

section \<open>The decoder\<close>

definition advance :: "nat \<Rightarrow> bytes \<Rightarrow> bytes res" where
  "advance n input = bind_res (ensure (n \<le> length input) Assertion) (\<lambda>_. Inr (drop n input))"

text \<open>\<open>std::string::resize\<close> followed by writing from the start of the string.\<close>

definition resize_string :: "nat \<Rightarrow> bytes \<Rightarrow> bytes" where
  "resize_string n str = take n str @ replicate (n - length str) 0"

definition overwrite :: "bytes \<Rightarrow> bytes \<Rightarrow> bytes" where
  "overwrite xs str = xs @ drop (length xs) str"

definition decode_length_string :: "bytes \<Rightarrow> bytes \<Rightarrow> errc option \<Rightarrow> (nat \<times> bytes \<times> errc option) run" where
  "decode_length_string input str ec =
     (case input of [] \<Rightarrow> Some (Inr (0, str, Some No_buffer_space))
      | first_byte # _ \<Rightarrow>
        let huffman = bits_check 7 first_byte in
        bind_run (Some (hpack_decode_integer 7 input 0)) (\<lambda>(len, length64).
        if len = 0 then Some (Inr (0, str, Some No_buffer_space))
        else bind_run (Some (advance len input)) (\<lambda>input1.
        if length64 = 0 then Some (Inr (len, str, ec))
        else if length input1 < unat length64 then Some (Inr (0, str, Some No_buffer_space))
        else
          let text_data = take (unat length64) input1 in
          if \<not> huffman then
            bind_run (Some (advance (unat length64) input1)) (\<lambda>input2.
              Some (Inr (length input - length input2, str @ text_data, ec)))
          else
            bind_run (http2_decoded_huffman_len text_data) (\<lambda>decode_len.
            if decode_len = 0 then Some (Inr (length input - length input1, str, Some Invalid_argument))
            else
              bind_run (http2_decode_huffman decode_len text_data) (\<lambda>(ec1, syms).
              let str1 = overwrite syms (resize_string decode_len str) in
              if ec1 \<noteq> None then Some (Inr (length input - length input1, str1, ec1))
              else bind_run (Some (advance (length text_data) input1)) (\<lambda>input2.
                Some (Inr (length input - length input2, str1, ec1))))))))"

text \<open>\<open>predefined_http2_headers[index]\<close> or the entry of the dynamic table, for an index from 0 on.\<close>

definition table_lookup :: "nat \<Rightarrow> dynamic_table \<Rightarrow> header option res" where
  "table_lookup index t =
     (if index < length predefined_http2_headers then Inr (Some (predefined_http2_headers ! index))
      else bind_res (dt_get_header (index - length predefined_http2_headers) t) (\<lambda>h.
        Inr (map_option (\<lambda>(n, v). (to_lower n, v)) h)))"

definition decode_header_name ::
    "bytes \<Rightarrow> bytes \<Rightarrow> errc option \<Rightarrow> dynamic_table \<Rightarrow> (nat \<times> bytes \<times> bool \<times> bool \<times> errc option) run" where
  "decode_header_name input name ec t =
     (case input of [] \<Rightarrow> Some (Inr (0, name, False, False, Some No_buffer_space))
      | first_byte # _ \<Rightarrow>
        let indexed = bits_check 6 first_byte;
            never_indexed = (\<not> indexed \<and> drop_bit 4 first_byte = 1)
        in if \<not> indexed \<and> \<not> (drop_bit 4 first_byte = 0 \<or> drop_bit 4 first_byte = 1) then
          Some (Inr (0, name, indexed, never_indexed, Some Invalid_argument))
        else
          bind_run (Some (hpack_decode_integer (if indexed then 6 else 4) input 0)) (\<lambda>(len, index64).
          if len = 0 then Some (Inr (0, name, indexed, never_indexed, Some No_buffer_space))
          else bind_run (Some (advance len input)) (\<lambda>input1.
          if index64 \<noteq> 0 then
            bind_run (Some (table_lookup (unat index64 - 1) t)) (\<lambda>h.
            case h of
              Some (n, _) \<Rightarrow> Some (Inr (length input - length input1, n, indexed, never_indexed, ec))
            | None \<Rightarrow> Some (Inr (0, name, indexed, never_indexed, Some Invalid_argument)))
          else
            bind_run (decode_length_string input1 name ec) (\<lambda>(k, name1, ec1).
            bind_run (Some (advance k input1)) (\<lambda>input2.
            Some (Inr (length input - length input2, name1, indexed, never_indexed, ec1)))))))"

definition decode_size_update ::
    "bytes \<Rightarrow> errc option \<Rightarrow> dynamic_table \<Rightarrow> (nat \<times> header \<times> errc option \<times> dynamic_table) run" where
  "decode_size_update input ec t =
     bind_run (Some (hpack_decode_integer 5 input 0)) (\<lambda>(len, new_size).
     if len = 0 then Some (Inr (0, ([], []), Some No_buffer_space, t))
     else if unat new_size > dt_max_size t then Some (Inr (0, ([], []), Some Size_too_large, t))
     else bind_run (Some (dt_set_max_size (unat new_size) t)) (\<lambda>t1.
       Some (Inr (len, ([], []), ec, t1))))"

definition decode_indexed ::
    "bytes \<Rightarrow> errc option \<Rightarrow> dynamic_table \<Rightarrow> (nat \<times> header \<times> errc option \<times> dynamic_table) run" where
  "decode_indexed input ec t =
     bind_run (Some (hpack_decode_integer 7 input 0)) (\<lambda>(len, index64).
     if len = 0 then Some (Inr (0, ([], []), Some No_buffer_space, t))
     else if index64 = 0 then Some (Inr (0, ([], []), Some No_buffer_space, t))
     else bind_run (Some (table_lookup (unat index64 - 1) t)) (\<lambda>h.
       case h of
         Some nv \<Rightarrow> Some (Inr (len, nv, ec, t))
       | None \<Rightarrow> Some (Inr (0, ([], []), Some Invalid_argument, t))))"

definition decode_literal ::
    "bytes \<Rightarrow> errc option \<Rightarrow> dynamic_table \<Rightarrow> (nat \<times> header \<times> errc option \<times> dynamic_table) run" where
  "decode_literal input ec t =
     bind_run (decode_header_name input [] ec t) (\<lambda>(k1, name, indexed, never_indexed, ec1).
     bind_run (Some (advance k1 input)) (\<lambda>input1.
     if ec1 \<noteq> None then Some (Inr (length input - length input1, (name, []), ec1, t))
     else
       bind_run (decode_length_string input1 [] ec1) (\<lambda>(k2, val, ec2).
       bind_run (Some (advance k2 input1)) (\<lambda>input2.
       if ec2 \<noteq> None then Some (Inr (length input - length input2, (name, val), ec2, t))
       else bind_run (if indexed \<and> \<not> never_indexed then dt_add name val t else Some (Inr t)) (\<lambda>t1.
         Some (Inr (length input - length input2, (name, val), ec2, t1)))))))"

definition decode_header ::
    "bytes \<Rightarrow> errc option \<Rightarrow> dynamic_table \<Rightarrow> (nat \<times> header \<times> errc option \<times> dynamic_table) run" where
  "decode_header input ec t =
     (case input of [] \<Rightarrow> Some (Inr (0, ([], []), Some No_buffer_space, t))
      | first_byte # _ \<Rightarrow>
        if drop_bit 5 first_byte = 1 then decode_size_update input ec t
        else if bits_check 7 first_byte then decode_indexed input ec t
        else decode_literal input ec t)"

partial_function (option) decode_headers ::
    "bytes \<Rightarrow> headers \<Rightarrow> dynamic_table \<Rightarrow> (errc option \<times> headers \<times> dynamic_table) res option" where
  "decode_headers input hdrs t =
     (if input = [] then Some (Inr (None, hdrs, t))
      else (case decode_header input None t of
          None \<Rightarrow> None
        | Some (Inl e) \<Rightarrow> Some (Inl e)
        | Some (Inr (n, (name, val), ec, t1)) \<Rightarrow>
            (case advance n input of
               Inl e \<Rightarrow> Some (Inl e)
             | Inr input1 \<Rightarrow>
                 if ec \<noteq> None then Some (Inr (ec, hdrs, t1))
                 else decode_headers input1 (hdr_insert name val hdrs) t1)))"

end
