(* ===== verification/Bit_Strings.thy ===== *)
theory Bit_Strings
  imports Word_Facts
begin

text \<open>
  Words as strings of bits, the most significant bit first, the order in which codes are written
  to and read from a stream of bytes.
\<close>

definition msb_val :: "bool list \<Rightarrow> 'a::comm_semiring_1" where
  "msb_val bs = horner_sum of_bool 2 (rev bs)"

definition msb_bits :: "nat \<Rightarrow> 'a::len word \<Rightarrow> bool list" where
  "msb_bits n w = rev (map (bit w) [0..<n])"

lemma msb_val_simps [simp]:
  "msb_val [] = 0"
  "msb_val (bs @ [b]) = of_bool b + 2 * msb_val bs"
  by (simp_all add: msb_val_def)

lemma msb_val_append: "msb_val (xs @ ys) = msb_val xs * 2 ^ length ys + msb_val ys"
  by (simp add: msb_val_def horner_sum_append algebra_simps)

lemma msb_val_int: "0 \<le> (msb_val bs :: int)" "(msb_val bs :: int) < 2 ^ length bs"
  using horner_sum_nonnegative [where 'a = int, of "rev bs"] horner_sum_bound [where 'a = int, of "rev bs"]
  by (simp_all add: msb_val_def)

lemma bit_msb_val: "bit (msb_val bs :: 'a::len word) n \<longleftrightarrow> n < LENGTH('a) \<and> n < length bs \<and> rev bs ! n"
  by (auto simp: msb_val_def bit_simps)

lemma word_of_msb_val [simp]: "word_of_int (msb_val bs) = msb_val bs"
  by (induction bs rule: rev_induct) (simp_all add: of_bool_def)

lemma length_msb_bits [simp]: "length (msb_bits n w) = n"
  by (simp add: msb_bits_def)

lemma msb_val_bits: "msb_val (msb_bits n w) = take_bit n w"
  by (simp add: msb_val_def msb_bits_def horner_sum_bit_eq_take_bit)

lemma msb_bits_val:
  assumes "length bs \<le> LENGTH('a)"
  shows "msb_bits (length bs) (msb_val bs :: 'a::len word) = bs"
proof -
  have "map (bit (msb_val bs :: 'a word)) [0..<length bs] = rev bs"
    by (rule nth_equalityI) (use assms in \<open>simp_all add: bit_msb_val\<close>)
  then show ?thesis by (simp add: msb_bits_def)
qed

lemma msb_val_inj:
  "msb_val xs = (msb_val ys :: 'a::len word) \<Longrightarrow> length xs = length ys \<Longrightarrow> length xs \<le> LENGTH('a) \<Longrightarrow> xs = ys"
  by (metis msb_bits_val)

lemma msb_bits_Suc: "msb_bits (Suc n) w = bit w n # msb_bits n w"
  by (simp add: msb_bits_def)

text \<open>Shifting the most significant bit out of a word.\<close>

lemma take_msb_shift:
  fixes w :: "'a::len word"
  assumes "k < LENGTH('a)"
  shows "take (Suc k) (msb_bits LENGTH('a) w)
    = bit w (LENGTH('a) - 1) # take k (msb_bits LENGTH('a) (push_bit 1 w))"
proof (rule nth_equalityI)
  fix i
  assume "i < length (take (Suc k) (msb_bits LENGTH('a) w))"
  then have i: "i < Suc k" by simp
  show "take (Suc k) (msb_bits LENGTH('a) w) ! i
      = (bit w (LENGTH('a) - 1) # take k (msb_bits LENGTH('a) (push_bit 1 w))) ! i"
  proof (cases i)
    case (Suc j)
    then have "bit (push_bit 1 w) (LENGTH('a) - Suc j) = bit w (LENGTH('a) - Suc i)"
      unfolding bit_push_bit_iff using i assms by (simp add: Suc_le_eq)
    with Suc i assms show ?thesis by (simp add: msb_bits_def rev_nth)
  qed (simp add: msb_bits_def rev_nth)
qed (use assms in simp)

text \<open>Shifting a bit into a word.\<close>

lemma or_shifted_bit: "(2 * w :: 'a::len word) OR of_bool b = of_bool b + 2 * w"
proof -
  have "\<not> bit (2 * w :: 'a word) n \<or> \<not> bit (of_bool b :: 'a word) n" for n
    by (cases n) (simp_all add: bit_simps bit_double_iff)
  then have "2 * w OR of_bool b = 2 * w + of_bool b" by (rule disjunctive_add [symmetric])
  then show ?thesis by (simp add: add.commute)
qed

lemma push_one: "push_bit 1 w = 2 * (w :: 'a::len word)"
  by (simp add: push_bit_eq_mult mult.commute)

lemma msb_val_ones: "(msb_val (replicate n True) :: int) = 2 ^ n - 1"
  by (induction n) (simp_all add: replicate_append_same [symmetric])

end
