(* ===== verification/Huffman_Table.thy ===== *)
theory Huffman_Table
  imports Hpack_Huffman Bit_Strings
begin

text \<open>
  The Huffman table is a prefix code: the codes, read as intervals of 30-bit numbers, are disjoint. Ordered
  by length the intervals ascend, which is checked by evaluating the table.
\<close>

section \<open>The table is a prefix code\<close>

definition row_start :: "int \<times> int \<times> int \<Rightarrow> int" where
  "row_start r = snd (snd r) * 2 ^ nat (30 - fst (snd r))"

definition row_end :: "int \<times> int \<times> int \<Rightarrow> int" where
  "row_end r = (snd (snd r) + 1) * 2 ^ nat (30 - fst (snd r))"

fun ascending :: "int \<Rightarrow> (int \<times> int \<times> int) list \<Rightarrow> bool" where
  "ascending lim [] \<longleftrightarrow> True"
| "ascending lim (r # rs) \<longleftrightarrow> lim \<le> row_start r \<and> ascending (row_end r) rs"

fun rows_from :: "int \<Rightarrow> (int \<times> int \<times> int) list \<Rightarrow> bool" where
  "rows_from i [] \<longleftrightarrow> i = 256"
| "rows_from i (r # rs) \<longleftrightarrow>
     fst r = i \<and> 5 \<le> fst (snd r) \<and> fst (snd r) \<le> 30 \<and> snd (snd r) + 1 < 2 ^ nat (fst (snd r)) \<and>
     rows_from (i + 1) rs"

text \<open>The rows ordered by code length, the order of the table kept within a length.\<close>

fun by_len :: "nat \<Rightarrow> int \<Rightarrow> (int \<times> int \<times> int) list \<Rightarrow> (int \<times> int \<times> int) list" where
  "by_len 0 lo rs = rs"
| "by_len (Suc d) lo rs =
     (let mid = lo + 2 ^ d in
      by_len d lo (filter (\<lambda>r. fst (snd r) < mid) rs) @ by_len d mid (filter (\<lambda>r. mid \<le> fst (snd r)) rs))"

lemma set_by_len [simp]: "set (by_len d lo rs) = set rs"
  by (induction d lo rs rule: by_len.induct) (auto simp: Let_def)

lemma rows_fit: "rows_from 0 huffman_rows"
  by code_simp

lemma rows_ascending: "ascending 0 (by_len 5 0 huffman_rows)"
  by code_simp

lemma ascending_above: "ascending lim rs \<Longrightarrow> r \<in> set rs \<Longrightarrow> lim \<le> row_start r"
proof (induction lim rs rule: ascending.induct)
  case (2 lim s rs)
  have "row_start s \<le> row_end s" by (simp add: row_start_def row_end_def)
  with 2 show ?case by auto
qed simp

lemma ascending_disjoint:
  assumes "ascending lim rs" and "r \<in> set rs" "s \<in> set rs"
    and "row_start r \<le> x" "x < row_end r" and "row_start s \<le> x" "x < row_end s"
  shows "r = s"
  using assms
proof (induction lim rs rule: ascending.induct)
  case (2 lim a rs)
  then show ?case using ascending_above [of "row_end a" rs] by fastforce
qed simp

lemma rows_disjoint:
  assumes "r \<in> set huffman_rows" "s \<in> set huffman_rows"
    and "row_start r \<le> x" "x < row_end r" "row_start s \<le> x" "x < row_end s"
  shows "r = s"
  using ascending_disjoint [OF rows_ascending, of r s x] assms by simp

lemma rows_from_nth:
  "rows_from i rs \<Longrightarrow> k < length rs \<Longrightarrow> fst (rs ! k) = i + int k"
proof (induction i rs arbitrary: k rule: rows_from.induct)
  case (2 i r rs)
  then show ?case by (cases k) auto
qed simp

lemma rows_from_length: "rows_from i rs \<Longrightarrow> i + int (length rs) = 256"
  by (induction i rs rule: rows_from.induct) auto

lemma rows_from_mem:
  "rows_from i rs \<Longrightarrow> r \<in> set rs \<Longrightarrow>
     5 \<le> fst (snd r) \<and> fst (snd r) \<le> 30 \<and> snd (snd r) + 1 < 2 ^ nat (fst (snd r))"
  by (induction i rs rule: rows_from.induct) auto

section \<open>The codes as bit strings\<close>

definition code_bits :: "huffman_entry_t \<Rightarrow> bool list" where
  "code_bits e = msb_bits (he_len e) (he_code e)"

lemma length_code_bits [simp]: "length (code_bits e) = he_len e"
  by (simp add: code_bits_def)

lemma rows_nonneg: "list_all (\<lambda>r. 0 \<le> snd (snd r)) huffman_rows"
  by (simp add: huffman_rows_def)

lemma table_entry:
  assumes "e \<in> set http2_huffman_table"
  obtains r where "r \<in> set huffman_rows" "e = huffman_entry r" "5 \<le> he_len e" "he_len e \<le> 30"
    "int (he_len e) = fst (snd r)" "snd (snd r) = msb_val (code_bits e)"
    "snd (snd r) + 1 < 2 ^ he_len e"
proof -
  obtain r where r: "r \<in> set huffman_rows" "e = huffman_entry r"
    using assms by (auto simp: http2_huffman_table_def)
  note f = rows_from_mem [OF rows_fit r(1)]
  have c0: "0 \<le> snd (snd r)" using rows_nonneg r(1) by (auto simp: list_all_iff)
  have len: "he_len e = nat (fst (snd r))" "he_code e = word_of_int (snd (snd r))"
    using r(2) by (simp_all add: huffman_entry_def)
  have len': "5 \<le> he_len e" "he_len e \<le> 30"
    using f len by (simp_all add: le_nat_iff nat_le_iff)
  have "snd (snd r) < 2 ^ he_len e" using f len by simp
  moreover have p: "(2 :: int) ^ he_len e \<le> 2 ^ 30" using len' by (intro power_increasing) auto
  ultimately have u: "uint (he_code e) = snd (snd r)"
    using c0 by (simp add: len(2) unsigned_of_int take_bit_int_eq_self)
  have "uint (msb_val (code_bits e) :: 32 word) = msb_val (code_bits e)"
    using msb_val_int [of "code_bits e"] p len'
    by (simp add: unsigned_of_int take_bit_int_eq_self flip: word_of_msb_val)
  moreover have "(msb_val (code_bits e) :: 32 word) = he_code e"
  proof -
    have "uint (take_bit (he_len e) (he_code e)) = uint (he_code e)"
      using u c0 f len by (simp add: unsigned_take_bit_eq take_bit_int_eq_self)
    then have "take_bit (he_len e) (he_code e) = he_code e" by (simp only: word_uint_eq_iff)
    then show ?thesis by (simp add: code_bits_def msb_val_bits)
  qed
  ultimately have "snd (snd r) = msb_val (code_bits e)" using u by simp
  with that [OF r len'] f len show thesis by simp
qed

lemma table_length [simp]: "length http2_huffman_table = 256"
  using rows_from_length [OF rows_fit] by (simp add: http2_huffman_table_def)

lemma table_symbol: "he_symbol (http2_huffman_table ! unat s) = s"
proof -
  have l: "length huffman_rows = 256" using rows_from_length [OF rows_fit] by simp
  have "unat s < 256" using unsigned_less [where 'a = nat, of s] by simp
  with l rows_from_nth [OF rows_fit, of "unat s"] show ?thesis
    by (simp add: http2_huffman_table_def huffman_entry_def)
qed

definition entry_of :: "u8 \<Rightarrow> huffman_entry_t" where
  "entry_of s = http2_huffman_table ! unat s"

lemma find_symbol [simp]: "find_huffman_code_for_symbol s = Inr (entry_of s)"
  by (simp add: find_huffman_code_for_symbol_def table_symbol entry_of_def)

lemma entry_of_symbol [simp]: "he_symbol (entry_of s) = s"
  by (simp add: entry_of_def table_symbol)

lemma entry_of_table [simp]: "entry_of s \<in> set http2_huffman_table"
  using unsigned_less [where 'a = nat, of s] by (simp add: entry_of_def)

text \<open>A code that is a prefix of another is the other one.\<close>

lemma prefix_code:
  assumes "e \<in> set http2_huffman_table" "f \<in> set http2_huffman_table"
    and "code_bits e = code_bits f @ ys"
  shows "e = f"
proof -
  obtain r where r: "r \<in> set huffman_rows" "e = huffman_entry r" "he_len e \<le> 30"
    "int (he_len e) = fst (snd r)" "snd (snd r) = msb_val (code_bits e)"
    using table_entry [OF assms(1)] by metis
  obtain s where s: "s \<in> set huffman_rows" "f = huffman_entry s"
    "int (he_len f) = fst (snd s)" "snd (snd s) = msb_val (code_bits f)"
    using table_entry [OF assms(2)] by metis
  let ?y = "msb_val ys :: int" and ?k = "30 - he_len e"
  have len: "he_len e = he_len f + length ys" using arg_cong [OF assms(3), of length] by simp
  have "30 - he_len f = length ys + ?k" using len r(3) by simp
  then have scale: "(2 :: int) ^ (30 - he_len f) = 2 ^ length ys * 2 ^ ?k" by (simp add: power_add)
  have c: "snd (snd r) = snd (snd s) * 2 ^ length ys + ?y" using r(5) s(4) assms(3) by (simp add: msb_val_append)
  have "nat (30 - fst (snd r)) = ?k" "nat (30 - fst (snd s)) = 30 - he_len f"
    using r(4) s(3) by (simp_all flip: r(4) s(3))
  then have rs: "row_start r = snd (snd r) * 2 ^ ?k" "row_end r = (snd (snd r) + 1) * 2 ^ ?k"
    "row_start s = snd (snd s) * (2 ^ length ys * 2 ^ ?k)" "row_end s = (snd (snd s) + 1) * (2 ^ length ys * 2 ^ ?k)"
    using scale by (simp_all add: row_start_def row_end_def)
  have "snd (snd s) * 2 ^ length ys \<le> snd (snd r)" using c msb_val_int(1) [of ys] by simp
  then have 1: "row_start s \<le> row_start r" unfolding rs by (simp flip: mult.assoc)
  have "snd (snd r) < (snd (snd s) + 1) * 2 ^ length ys"
    using c msb_val_int(2) [of ys] by (simp add: algebra_simps)
  then have 2: "row_start r < row_end s" unfolding rs by (simp flip: mult.assoc)
  have 3: "row_start r < row_end r" unfolding rs by (intro mult_strict_right_mono) auto
  from rows_disjoint [OF r(1) s(1) order_refl 3 1 2] show ?thesis using r(2) s(2) by simp
qed

lemma code_not_ones:
  assumes "e \<in> set http2_huffman_table"
  shows "code_bits e \<noteq> replicate n True"
proof
  assume ones: "code_bits e = replicate n True"
  then have "he_len e = n" by (metis length_code_bits length_replicate)
  moreover obtain r where "r \<in> set huffman_rows" "snd (snd r) = (msb_val (code_bits e) :: int)" "snd (snd r) + 1 < 2 ^ he_len e"
    using table_entry [OF assms] by metis
  ultimately show False using msb_val_ones [of n] ones by simp
qed

end
