(* ===== verification/Huffman_Laws.thy ===== *)
theory Huffman_Laws
  imports Huffman_Table
begin

text \<open>
  The decoder is related to a scan of the bit string it reads, the encoder to the concatenation of
  the codes, and decoding inverts encoding.
\<close>

section \<open>The reader as a bit string\<close>

definition byte_bits :: "u8 list \<Rightarrow> bool list" where
  "byte_bits bytes = concat (map (msb_bits 8) bytes)"

definition reader_ok :: "bits_reader_t \<Rightarrow> bool" where
  "reader_ok r \<longleftrightarrow> br_used r \<le> 8"

definition reader_bits :: "bits_reader_t \<Rightarrow> bool list" where
  "reader_bits r = take (8 - br_used r) (msb_bits 8 (br_byte r)) @ byte_bits (br_bytes r)"

lemma byte_bits_simps [simp]:
  "byte_bits [] = []" "byte_bits (b # bs) = msb_bits 8 b @ byte_bits bs"
  "byte_bits (bs @ cs) = byte_bits bs @ byte_bits cs"
  by (simp_all add: byte_bits_def)

lemma length_byte_bits [simp]: "length (byte_bits bs) = 8 * length bs"
  by (induction bs) simp_all

lemma reader_start [simp]:
  "reader_ok (bits_reader bytes)" "reader_bits (bits_reader bytes) = byte_bits bytes"
  by (simp_all add: reader_ok_def reader_bits_def bits_reader_def)

lemma byte_bits_Nil [simp]: "byte_bits bs = [] \<longleftrightarrow> bs = []"
  by (cases bs) (simp_all flip: length_0_conv)

lemma reader_empty [simp]: "reader_ok r \<Longrightarrow> br_empty r \<longleftrightarrow> reader_bits r = []"
  by (auto simp: br_empty_def reader_ok_def reader_bits_def simp flip: length_0_conv)

lemma get_next_bit_bits:
  assumes "reader_ok r"
  shows "(case reader_bits r of [] \<Rightarrow> get_next_bit r = None
    | b # bs \<Rightarrow> \<exists>r1. get_next_bit r = Some (b, r1) \<and> reader_ok r1 \<and> reader_bits r1 = bs)"
proof (cases "br_used r = 8")
  case True
  show ?thesis
  proof (cases "br_bytes r")
    case (Cons b bs)
    have "msb_bits 8 b = bit b 7 # take 7 (msb_bits 8 (push_bit 1 b))"
      using take_msb_shift [of 7 b] by simp
    with True Cons show ?thesis
      by (simp add: reader_bits_def get_next_bit_def reader_ok_def)
  qed (use True in \<open>simp add: reader_bits_def get_next_bit_def\<close>)
next
  case False
  then have u: "br_used r < 8" using assms by (simp add: reader_ok_def)
  define k where "k = 7 - br_used r"
  have k: "br_used r = 7 - k" "k < 8" using u by (simp_all add: k_def)
  have "8 - br_used r = Suc k" using u by (simp add: k_def)
  with take_msb_shift [of k "br_byte r"] False k show ?thesis
    by (auto simp: reader_bits_def get_next_bit_def reader_ok_def)
qed

section \<open>Scanning for a code\<close>

definition lookup_code :: "bool list \<Rightarrow> huffman_entry_t option" where
  "lookup_code p = find (\<lambda>e. code_bits e = p) http2_huffman_table"

datatype scan = End_in "bool list" | Symbol huffman_entry_t "bool list" | No_symbol

function scan_code :: "bool list \<Rightarrow> bool list \<Rightarrow> scan" where
  "scan_code p bs =
     (if length p < 30 then
        (case bs of [] \<Rightarrow> End_in p
         | b # bs1 \<Rightarrow>
           (case lookup_code (p @ [b]) of
              None \<Rightarrow> scan_code (p @ [b]) bs1
            | Some e \<Rightarrow> Symbol e bs1))
      else No_symbol)"
  by pat_completeness auto
termination by (relation "measure (\<lambda>(p, bs). length bs)") auto

declare scan_code.simps [simp del]

lemma code_matches:
  assumes "e \<in> set http2_huffman_table" and "length p \<le> 32"
  shows "he_len e = length p \<and> he_code e = msb_val p \<longleftrightarrow> code_bits e = p"
proof -
  obtain r where r: "r \<in> set huffman_rows" "e = huffman_entry r"
    "snd (snd r) = msb_val (code_bits e)"
    using table_entry [OF assms(1)] by metis
  have "he_code e = word_of_int (snd (snd r))" using r(2) by (simp add: huffman_entry_def)
  then have "he_code e = msb_val (code_bits e)" using r(3) by simp
  then show ?thesis using msb_val_inj [where 'a = 32, of "code_bits e" p] assms(2) by auto
qed

lemma find_code_lookup:
  assumes "length p \<le> 32"
  shows "find_huffman_code_for_code (msb_val p) (length p) = lookup_code p"
  unfolding find_huffman_code_for_code_def lookup_code_def
  by (rule find_cong) (use code_matches [OF _ assms] in auto)

lemma lookup_short: "length p < 5 \<Longrightarrow> lookup_code p = None"
proof -
  assume "length p < 5"
  then have "code_bits e \<noteq> p" if "e \<in> set http2_huffman_table" for e
    using table_entry [OF that] by (metis length_code_bits linorder_not_less)
  then show ?thesis by (auto simp: lookup_code_def find_None_iff)
qed

fun round_matches :: "huffman_round res \<Rightarrow> scan \<Rightarrow> bool" where
  "round_matches (Inr (Input_end ok)) (End_in p) \<longleftrightarrow> (ok \<longleftrightarrow> p = replicate (length p) True)"
| "round_matches (Inr (Found e r)) (Symbol e' bs) \<longleftrightarrow> e = e' \<and> reader_ok r \<and> reader_bits r = bs"
| "round_matches (Inr Not_found) No_symbol \<longleftrightarrow> True"
| "round_matches _ _ \<longleftrightarrow> False"

lemma input_end_ones:
  assumes "0 < length p" and "length p < 30"
  shows "round_matches (at_input_end (2 * msb_val p) (length p)) (End_in p)"
proof -
  have "drop_bit 1 (2 * msb_val p :: 32 word) = msb_val p"
    using assms by (intro bit_word_eqI) (auto simp: bit_simps bit_msb_val bit_double_iff)
  moreover have "drop_bit (32 - length p) (- 1 :: 32 word) = msb_val (replicate (length p) True)"
    using assms by (intro bit_word_eqI) (auto simp: bit_simps bit_msb_val)
  ultimately show ?thesis
    using assms msb_val_inj [where 'a = 32, of p "replicate (length p) True"]
    by (auto simp: at_input_end_def)
qed

lemma search_loop_scan:
  assumes "reader_ok r" and "0 < length p"
  shows "round_matches (huffman_search_loop r (2 * msb_val p) (length p)) (scan_code p (reader_bits r))"
  using assms
proof (induction p "reader_bits r" arbitrary: r rule: scan_code.induct)
  case (1 p)
  show ?case
  proof (cases "length p < 30")
    case True
    note next_bit = get_next_bit_bits [OF 1(2)]
    show ?thesis
    proof (cases "reader_bits r")
      case Nil
      with True next_bit input_end_ones [of p] 1(3) show ?thesis
        by (simp add: huffman_search_loop.simps [of r] scan_code.simps [of p])
    next
      case (Cons b bs)
      then obtain r1 where r1: "get_next_bit r = Some (b, r1)" "reader_ok r1" "reader_bits r1 = bs"
        using next_bit by auto
      have "find_huffman_code_for_code (msb_val (p @ [b])) (length (p @ [b])) = lookup_code (p @ [b])"
        by (rule find_code_lookup) (use True in simp)
      then have f: "find_huffman_code_for_code (of_bool b + 2 * msb_val p) (Suc (length p))
          = lookup_code (p @ [b])"
        by simp
      show ?thesis
      proof (cases "lookup_code (p @ [b])")
        case None
        with 1(1) [OF True _ _ r1(2), of b] Cons r1 have
          "round_matches (huffman_search_loop r1 (2 * msb_val (p @ [b])) (length (p @ [b])))
             (scan_code (p @ [b]) bs)"
          by simp
        with True Cons None r1 f show ?thesis
          by (cases b) (simp_all add: huffman_search_loop.simps [of r] scan_code.simps [of p]
              or_shifted_bit push_one Let_def)
      next
        case (Some e)
        with True Cons r1 f show ?thesis
          by (cases b) (simp_all add: huffman_search_loop.simps [of r] scan_code.simps [of p]
              or_shifted_bit Let_def)
      qed
    qed
  next
    case False
    then show ?thesis by (simp add: huffman_search_loop.simps [of r] scan_code.simps [of p])
  qed
qed

lemma prefix_loop_scan:
  assumes "reader_ok r" and "i + length p = 4" and "p = [] \<Longrightarrow> reader_bits r \<noteq> []"
  shows "round_matches (huffman_prefix_loop i r (2 * msb_val p) (length p)) (scan_code p (reader_bits r))"
  using assms
proof (induction i arbitrary: r p)
  case 0
  then show ?case using search_loop_scan [of r p] by simp
next
  case (Suc i)
  note next_bit = get_next_bit_bits [OF Suc(2)]
  show ?case
  proof (cases "reader_bits r")
    case Nil
    with Suc have "0 < length p" by auto
    with Nil next_bit input_end_ones [of p] Suc(3) show ?thesis by (simp add: scan_code.simps [of p])
  next
    case (Cons b bs)
    then obtain r1 where r1: "get_next_bit r = Some (b, r1)" "reader_ok r1" "reader_bits r1 = bs"
      using next_bit by auto
    have "lookup_code (p @ [b]) = None" using Suc(3) by (intro lookup_short) simp
    with Suc.IH [OF r1(2), of "p @ [b]"] Suc(3) Cons r1 show ?thesis
      by (cases b) (simp_all add: scan_code.simps [of p] or_shifted_bit push_one)
  qed
qed

lemma read_code_scan:
  "reader_ok r \<Longrightarrow> reader_bits r \<noteq> [] \<Longrightarrow> round_matches (read_huffman_code r) (scan_code [] (reader_bits r))"
  using prefix_loop_scan [of r 4 "[]"] by (simp add: read_huffman_code_def)

section \<open>Decoding a bit string\<close>

lemma scan_consumes:
  "scan_code p bs = Symbol e rest \<Longrightarrow> length rest < length bs"
proof (induction p bs rule: scan_code.induct)
  case (1 p bs)
  from 1(2) show ?case
    by (subst (asm) scan_code.simps)
      (use 1(1) in \<open>fastforce split: if_splits list.splits option.splits\<close>)
qed

function decode_bits :: "bool list \<Rightarrow> errc option \<times> u8 list" where
  "decode_bits bs =
     (if bs = [] then (None, [])
      else (case scan_code [] bs of
          End_in p \<Rightarrow> (if p = replicate (length p) True then None else Some No_buffer_space, [])
        | No_symbol \<Rightarrow> (Some Invalid_argument, [])
        | Symbol e rest \<Rightarrow> (fst (decode_bits rest), he_symbol e # snd (decode_bits rest))))"
  by pat_completeness auto
termination by (relation "measure length") (auto dest: scan_consumes)

declare decode_bits.simps [simp del]

lemma round_matchesE:
  assumes "round_matches x s"
  obtains p where "x = Inr (Input_end (p = replicate (length p) True))" "s = End_in p"
    | e r where "x = Inr (Found e r)" "s = Symbol e (reader_bits r)" "reader_ok r"
    | "x = Inr Not_found" "s = No_symbol"
  using assms by (cases "(x, s)" rule: round_matches.cases) auto

lemma decoded_len_loop_bits:
  assumes "reader_ok r"
  shows "decoded_len_loop r len = Some (Inr (case decode_bits (reader_bits r) of
    (None, syms) \<Rightarrow> len + length syms | (Some _, _) \<Rightarrow> 0))"
  using assms
proof (induction "reader_bits r" arbitrary: r len rule: decode_bits.induct)
  case 1
  show ?case
  proof (cases "reader_bits r = []")
    case True
    with "1.prems"(1) show ?thesis by (simp add: decoded_len_loop.simps decode_bits.simps)
  next
    case False
    note d = decoded_len_loop.simps [of r] decode_bits.simps [of "reader_bits r"]
    from read_code_scan [OF "1.prems"(1) False] show ?thesis
    proof (cases rule: round_matchesE)
      case (2 e r1)
      then show ?thesis
        using "1.hyps"(1) [OF False 2(2,3), of "len + 1"] False "1.prems"(1)
        by (simp add: d split: prod.splits option.splits)
    qed (use False "1.prems"(1) in \<open>simp_all add: d\<close>)
  qed
qed

lemma decode_huffman_loop_bits:
  assumes "reader_ok r" and "length out + length (snd (decode_bits (reader_bits r))) \<le> cap"
  shows "decode_huffman_loop cap r out = Some (Inr (fst (decode_bits (reader_bits r)),
    out @ snd (decode_bits (reader_bits r))))"
  using assms
proof (induction "reader_bits r" arbitrary: r out rule: decode_bits.induct)
  case 1
  show ?case
  proof (cases "reader_bits r = []")
    case True
    with "1.prems"(1) show ?thesis by (simp add: decode_huffman_loop.simps decode_bits.simps)
  next
    case False
    note d = decode_huffman_loop.simps [of _ r] decode_bits.simps [of "reader_bits r"]
    from read_code_scan [OF "1.prems"(1) False] show ?thesis
    proof (cases rule: round_matchesE)
      case (2 e r1)
      then show ?thesis
        using "1.hyps"(1) [OF False 2(2,3), of "out @ [he_symbol e]"] False "1.prems"
        by (simp add: d store_symbol_def)
    qed (use False "1.prems"(1) in \<open>simp_all add: d\<close>)
  qed
qed

lemma decoded_len_bits:
  "http2_decoded_huffman_len bytes = Some (Inr (case decode_bits (byte_bits bytes) of
    (None, syms) \<Rightarrow> length syms | (Some _, _) \<Rightarrow> 0))"
  using decoded_len_loop_bits [of "bits_reader bytes" 0]
  by (simp add: http2_decoded_huffman_len_def split: prod.splits option.splits)

lemma decode_huffman_bits:
  "length (snd (decode_bits (byte_bits bytes))) \<le> cap \<Longrightarrow>
     http2_decode_huffman cap bytes = Some (Inr (decode_bits (byte_bits bytes)))"
  by (simp add: http2_decode_huffman_def decode_huffman_loop_bits)

end
