(* ===== verification/Huffman_Roundtrip.thy ===== *)
theory Huffman_Roundtrip
  imports Huffman_Laws
begin

text \<open>
  The encoder writes the codes of the text one after the other and fills the last byte with ones;
  the decoder reads the text again. \<open>written\<close> relates the encoder's state to the bits written so far.
\<close>

section \<open>The encoder\<close>

definition text_bits :: "u8 list \<Rightarrow> bool list" where
  "text_bits str = concat (map (\<lambda>s. code_bits (entry_of s)) str)"

lemma text_bits_simps [simp]:
  "text_bits [] = []" "text_bits (s # str) = code_bits (entry_of s) @ text_bits str"
  by (simp_all add: text_bits_def)

lemma entry_len: "5 \<le> he_len (entry_of s)" "he_len (entry_of s) \<le> 30"
  using table_entry [OF entry_of_table, of s] by (metis, metis)

lemma huffman_len_loop_bits: "huffman_len_loop len str = Inr (len + length (text_bits str))"
  by (induction str arbitrary: len) simp_all

definition bytes_for :: "nat \<Rightarrow> nat" where
  "bytes_for n = n div 8 + (if n mod 8 \<noteq> 0 then 1 else 0)"

lemma bytes_for_bounds: "n \<le> 8 * bytes_for n" "8 * bytes_for n < n + 8"
  unfolding bytes_for_def by (auto; presburger)+

lemma encoded_len_bits: "http2_encoded_huffman_len str = Inr (bytes_for (length (text_bits str)))"
  by (simp add: http2_encoded_huffman_len_def huffman_len_loop_bits bytes_for_def)

text \<open>
  The bytes before \<open>p\<close> hold the first \<open>8 * p\<close> bits written, the byte at \<open>p\<close> the remaining \<open>used\<close> ones
  followed by a zero, and the bytes after \<open>p\<close> are still zero.
\<close>

fun written :: "nat \<Rightarrow> bool list \<Rightarrow> nat \<times> nat \<times> u8 list \<Rightarrow> bool" where
  "written n w (used, p, mem) \<longleftrightarrow>
     length mem = n \<and> used < 8 \<and>
     (\<exists>full part zs. w = byte_bits full @ part \<and> length full = p \<and> length part = used \<and>
        (if p < n then mem = full @ 2 * msb_val part # replicate zs 0 else mem = full \<and> part = []))"

declare written.simps [simp del]

lemma written_start: "written n [] (0, 0, replicate n 0)"
  by (cases n) (auto simp: written.simps)

lemma writtenE:
  assumes "written n w (used, p, mem)"
  obtains full part zs where "w = byte_bits full @ part" "length full = p" "length part = used"
    "used < 8" "length mem = n"
    "if p < n then mem = full @ 2 * msb_val part # replicate zs 0 else mem = full \<and> part = []"
  using assms by (auto simp: written.simps)

lemma modify_mid: "p = length xs \<Longrightarrow> modify_byte p f (xs @ b # ys) = Inr (xs @ f b # ys)"
  by (simp add: modify_byte_def)

lemma full_byte: "length bs = 8 \<Longrightarrow> msb_bits 8 (msb_val bs :: u8) = bs"
  using msb_bits_val [where 'a = 8, of bs] by simp

lemma write_bit:
  assumes "written n w (used, p, mem)" and "length w < 8 * n"
  shows "\<exists>s. write_code_bit b used p mem = Inr s \<and> written n (w @ [b]) s"
proof -
  obtain full part zs where w: "w = byte_bits full @ part" "length full = p" "length part = used"
      "used < 8" "length mem = n"
    and m: "if p < n then mem = full @ 2 * msb_val part # replicate zs 0 else mem = full \<and> part = []"
    using assms(1) by (rule writtenE)
  have p: "p < n" using w m assms(2) by (auto split: if_splits)
  then have mem: "mem = full @ 2 * msb_val part # replicate zs 0" using m by simp
  let ?v = "msb_val (part @ [b]) :: u8"
  have step: "modify_byte p (\<lambda>x. x OR of_bool b) mem = Inr (full @ ?v # replicate zs 0)"
    using w(2) by (simp add: mem modify_mid or_shifted_bit)
  show ?thesis
  proof (cases "used + 1 = 8")
    case True
    then have "msb_bits 8 ?v = part @ [b]" using w(3) by (intro full_byte) simp
    then have "written n (w @ [b]) (0, p + 1, full @ ?v # replicate zs 0)"
      using w mem by (auto intro!: exI [of _ "full @ [?v]"] exI [of _ "zs - 1"] simp: written.simps simp del: msb_val_simps)
        (cases zs; simp)
    with step True show ?thesis by (simp add: write_code_bit_def)
  next
    case False
    then have "written n (w @ [b]) (used + 1, p, full @ 2 * ?v # replicate zs 0)"
      using w mem p by (auto intro!: exI [of _ full] exI [of _ "part @ [b]"] simp: written.simps)
    moreover have "modify_byte p (push_bit 1) (full @ ?v # replicate zs 0)
        = Inr (full @ 2 * ?v # replicate zs 0)"
      using w(2) by (simp add: modify_mid push_one del: msb_val_simps)
    ultimately show ?thesis using step False by (simp add: write_code_bit_def)
  qed
qed

lemma bit_loop_written:
  assumes "written n w (used, p, mem)" and "length w + len \<le> 8 * n" and "len \<le> 32"
  shows "\<exists>s. huffman_bit_loop len code used p mem = Inr s \<and> written n (w @ take len (msb_bits 32 code)) s"
  using assms
proof (induction len arbitrary: code w used p mem)
  case (Suc len)
  obtain used1 p1 mem1 where 1: "write_code_bit (bit code 31) used p mem = Inr (used1, p1, mem1)"
    "written n (w @ [bit code 31]) (used1, p1, mem1)"
    using write_bit [OF Suc(2), of "bit code 31"] Suc(3) by auto
  have "take (Suc len) (msb_bits 32 code) = bit code 31 # take len (msb_bits 32 (push_bit 1 code))"
    using take_msb_shift [where 'a = 32, of len code] Suc(4) by simp
  moreover obtain s where "huffman_bit_loop len (push_bit 1 code) used1 p1 mem1 = Inr s"
    "written n ((w @ [bit code 31]) @ take len (msb_bits 32 (push_bit 1 code))) s"
    using Suc.IH [OF 1(2), of "push_bit 1 code"] Suc(3,4) by auto
  ultimately show ?case using 1(1) by simp
qed simp

lemma code_bits_shifted:
  assumes "0 < he_len e" and "he_len e \<le> 32"
  shows "take (he_len e) (msb_bits 32 (push_bit (32 - he_len e) (he_code e))) = code_bits e"
proof (rule nth_equalityI)
  fix i
  assume "i < length (take (he_len e) (msb_bits 32 (push_bit (32 - he_len e) (he_code e))))"
  then have "i < he_len e" by simp
  with assms show "take (he_len e) (msb_bits 32 (push_bit (32 - he_len e) (he_code e))) ! i = code_bits e ! i"
    by (auto simp: code_bits_def msb_bits_def rev_nth bit_push_bit_iff)
qed (use assms in simp)

lemma text_loop_written:
  assumes "written n w (used, p, mem)" and "length w + length (text_bits str) \<le> 8 * n"
  shows "\<exists>s. huffman_text_loop str used p mem = Inr s \<and> written n (w @ text_bits str) s"
  using assms
proof (induction str arbitrary: w used p mem)
  case (Cons ch str)
  let ?e = "entry_of ch"
  have len: "0 < he_len ?e" "he_len ?e \<le> 32" using entry_len [of ch] by simp_all
  obtain used1 p1 mem1 where 1:
    "http2_encode_one_huffman_code ?e used p mem = Inr (used1, p1, mem1)"
    "written n (w @ code_bits ?e) (used1, p1, mem1)"
    using bit_loop_written [OF Cons(2), of "he_len ?e" "push_bit (32 - he_len ?e) (he_code ?e)"]
      Cons(3) len code_bits_shifted [OF len]
    by (auto simp: http2_encode_one_huffman_code_def)
  with Cons.IH [OF 1(2)] Cons(3) show ?case by simp
qed simp

text \<open>The padding of the last byte.\<close>

lemma pad_byte:
  assumes "length part = used" and "0 < used" and "used < 8"
  shows "push_bit (8 - used - 1) (2 * msb_val part) OR drop_bit used (0xff :: u8)
    = msb_val (part @ replicate (8 - used) True)"
proof (rule bit_word_eqI)
  fix k
  assume k: "k < LENGTH(8)"
  have ff: "bit (0xff :: int) j \<longleftrightarrow> j < 8" for j
    using bit_mask_iff [where 'a = int, of 8 j] by (simp add: mask_eq_exp_minus_1)
  have "push_bit (8 - used - 1) (2 * msb_val part :: u8) = push_bit (8 - used) (msb_val part)"
    using assms by (simp add: push_bit_eq_mult power_eq_if mult_ac)
  then show "bit (push_bit (8 - used - 1) (2 * msb_val part) OR drop_bit used (0xff :: u8)) k
      = bit (msb_val (part @ replicate (8 - used) True) :: u8) k"
    using k assms by (auto simp: bit_or_iff bit_push_bit_iff bit_drop_bit_eq ff bit_msb_val nth_append)
qed

lemma encode_huffman_written:
  assumes "n = bytes_for (length (text_bits str))"
  shows "\<exists>mem k. http2_encode_huffman str (replicate n 0) = Inr (length (text_bits str) div 8, mem) \<and>
    length mem = n \<and> k < 8 \<and> byte_bits mem = text_bits str @ replicate k True"
proof -
  let ?w = "text_bits str"
  obtain used p mem where 1: "huffman_text_loop str 0 0 (replicate n 0) = Inr (used, p, mem)"
    "written n ?w (used, p, mem)"
    using text_loop_written [OF written_start, of str n] bytes_for_bounds(1) [of "length ?w"] assms by auto
  obtain full part zs where w: "?w = byte_bits full @ part" "length full = p" "length part = used"
      "used < 8" "length mem = n"
    and m: "if p < n then mem = full @ 2 * msb_val part # replicate zs 0 else mem = full \<and> part = []"
    using 1(2) by (rule writtenE)
  have len: "length ?w = 8 * p + used" using w by simp
  have d: "length ?w div 8 = p" "length ?w mod 8 = used" using len w(4) by simp_all
  then have n: "n = (if used = 0 then p else p + 1)" using assms by (simp add: bytes_for_def)
  show ?thesis
  proof (cases "used = 0")
    case True
    with n m w have "byte_bits mem = ?w" by simp
    with True 1 d w n show ?thesis
      by (intro exI [of _ mem] exI [of _ 0]) (simp add: http2_encode_huffman_def)
  next
    case False
    let ?v = "msb_val (part @ replicate (8 - used) True) :: u8"
    have mem: "mem = full @ [2 * msb_val part]" using m n False w by (cases zs) auto
    have "msb_bits 8 ?v = part @ replicate (8 - used) True" using w by (intro full_byte) simp
    moreover have "http2_encode_huffman str (replicate n 0) = Inr (p, full @ [?v])"
      using 1(1) False w(2) pad_byte [OF w(3) _ w(4)]
      by (simp add: http2_encode_huffman_def mem modify_mid)
    ultimately show ?thesis using w n False d
      by (intro exI [of _ "full @ [?v]"] exI [of _ "8 - used"]) simp
  qed
qed

section \<open>Round trip\<close>

lemma find_member: "e \<in> set es \<Longrightarrow> find ((=) e) es = Some e"
  by (induction es) auto

lemma lookup_found:
  assumes "e \<in> set http2_huffman_table"
  shows "lookup_code (code_bits e) = Some e"
proof -
  have "code_bits f = code_bits e \<longleftrightarrow> f = e" if "f \<in> set http2_huffman_table" for f
    using prefix_code [OF that assms, of "[]"] by auto
  then have "lookup_code (code_bits e) = find ((=) e) http2_huffman_table"
    unfolding lookup_code_def by (intro find_cong) auto
  also have "\<dots> = Some e" using assms by (rule find_member)
  finally show ?thesis .
qed

lemma lookup_prefix:
  assumes "e \<in> set http2_huffman_table" and "code_bits e = p @ q" and "q \<noteq> []"
  shows "lookup_code p = None"
proof -
  have "code_bits f \<noteq> p" if "f \<in> set http2_huffman_table" for f
    using prefix_code [OF assms(1) that, of q] assms(2,3) by auto
  then show ?thesis by (auto simp: lookup_code_def find_None_iff)
qed

lemma scan_code_found:
  assumes "e \<in> set http2_huffman_table" and "code_bits e = p @ q" and "q \<noteq> []"
  shows "scan_code p (q @ rest) = Symbol e rest"
  using assms(2,3)
proof (induction q arbitrary: p)
  case (Cons b q)
  have "length p < 30"
    using Cons(2) table_entry [OF assms(1)] by (metis length_code_bits length_append length_Cons
        add_Suc_right le_add1 less_Suc_eq_le order_less_le_trans)
  then show ?case
    using Cons lookup_found [OF assms(1)] lookup_prefix [OF assms(1), of "p @ [b]" q]
    by (cases "q = []") (simp_all add: scan_code.simps [of p])
qed simp

lemma scan_code_ones:
  assumes "length p + k < 30" and "p = replicate (length p) True"
  shows "scan_code p (replicate k True) = End_in (p @ replicate k True)"
  using assms
proof (induction k arbitrary: p)
  case (Suc k)
  have ones: "p @ [True] = replicate (length (p @ [True])) True"
    using Suc(3) by (metis length_append_singleton replicate_Suc replicate_append_same)
  then have "code_bits e \<noteq> p @ [True]" if "e \<in> set http2_huffman_table" for e
    using code_not_ones [OF that] by metis
  then have "lookup_code (p @ [True]) = None" by (auto simp: lookup_code_def find_None_iff)
  with Suc.IH [OF _ ones] Suc(2) show ?case by (simp add: scan_code.simps [of p])
qed (simp add: scan_code.simps)

lemma decode_text_bits:
  assumes "k < 8"
  shows "decode_bits (text_bits str @ replicate k True) = (None, str)"
proof (induction str)
  case Nil
  show ?case
    using scan_code_ones [of "[]" k] assms by (simp add: decode_bits.simps)
next
  case (Cons ch str)
  have "code_bits (entry_of ch) \<noteq> []" using entry_len(1) [of ch] by (auto simp flip: length_0_conv)
  then show ?case
    using scan_code_found [OF entry_of_table, of ch "[]" "code_bits (entry_of ch)"] Cons
    by (simp add: decode_bits.simps [of "code_bits _ @ _"])
qed

end
