(* ===== verification/Hpack_Laws.thy ===== *)
theory Hpack_Laws
  imports Hpack_Codec Huffman_Roundtrip
begin

text \<open>
  What the decoder reads from what the encoder has written: integers with flags in front, strings
  with their length, references to the two tables, and whole headers. The tables of the two sides
  are in step when the decoder's holds the encoder's entries with lower-case names.
\<close>

section \<open>Integers with flags\<close>

lemma put_integer_bytes [simp]: "put_integer N i = Inr (hpack_encode_integer N i)"
  by (simp add: put_integer_def encoding_len_exact Let_def)

lemma first_byte_small:
  assumes "N \<le> 8"
  shows "unat (hd (hpack_encode_integer N i)) < 2 ^ N"
proof -
  have t: "unat (two_N_1 N) = 2 ^ N - 1" using unat_two_N_1 [OF assms] .
  have p: "(2 :: nat) ^ N \<le> 2 ^ 8" using assms by (intro power_increasing) auto
  have "unat i < 2 ^ N" if "i < two_N_1 N"
    using that t by (simp add: word_less_nat_alt)
  with t p show ?thesis by (auto simp: hpack_encode_integer_def unat_ucast_mod)
qed

lemma set_first_prefixed:
  assumes "f (hd (hpack_encode_integer N i)) = hd (hpack_encode_integer N i) OR flags"
  shows "set_first f (hpack_encode_integer N i) = Inr (prefixed flags (hpack_encode_integer N i))"
proof -
  obtain b bs where "hpack_encode_integer N i = b # bs"
    using encode_integer_nonempty [of N i] by (meson list.exhaust)
  with assms show ?thesis by (simp add: set_first_def prefixed_def)
qed

lemma prefixed_Cons:
  obtains bs where "prefixed flags (hpack_encode_integer N i) = (hd (hpack_encode_integer N i) OR flags) # bs"
  by (simp add: prefixed_def)

lemma unat_flagged:
  assumes "N \<le> 8" and "unat flags mod 2 ^ N = 0" and "2 ^ N + unat flags \<le> 256"
  shows "unat (hd (hpack_encode_integer N i) OR flags)
    = unat (hd (hpack_encode_integer N i)) + unat flags"
  by (rule unat_or_disjoint [OF first_byte_small [OF assms(1)] assms(2)])
    (use first_byte_small [OF assms(1), of i] assms(3) in simp)

lemma bit_unat: "bit (w :: 'a::len word) n \<longleftrightarrow> odd (unat w div 2 ^ n)"
  by (simp add: bit_iff_odd flip: bit_unsigned_iff)
     (metis bit_iff_odd bit_unsigned_iff bit_imp_le_length possible_bit_nat)

lemma drop_eq_unat: "drop_bit k (w :: u8) = of_nat m \<longleftrightarrow> unat w div 2 ^ k = m" if "m < 256"
  using that by (simp add: word_unat_eq_iff unat_drop_bit unat_of_nat)

text \<open>The four kinds of first byte.\<close>

lemma flag_values [simp]:
  "unat (push_bit 7 1 :: u8) = 128" "unat (push_bit 6 1 :: u8) = 64" "unat (push_bit 4 1 :: u8) = 16"
  by (simp_all add: push_bit_eq_mult)

lemma indexed_byte:
  fixes i :: u64
  defines "b \<equiv> hd (hpack_encode_integer 7 i) OR push_bit 7 1"
  shows "bit b 7" "drop_bit 5 b \<noteq> 1"
proof -
  have b: "unat b = unat (hd (hpack_encode_integer 7 i)) + 128"
    unfolding b_def by (subst unat_flagged) simp_all
  with first_byte_small [of 7 i] have "unat b div 2 ^ 7 = 1" "unat b div 2 ^ 5 \<noteq> 1" by auto
  then show "bit b 7" "drop_bit 5 b \<noteq> 1"
    using drop_eq_unat [of 1 5 b] by (simp_all add: bit_unat)
qed

lemma literal_indexed_byte:
  fixes i :: u64
  defines "b \<equiv> hd (hpack_encode_integer 6 i) OR push_bit 6 1"
  shows "bit b 6" "\<not> bit b 7" "drop_bit 5 b \<noteq> 1"
proof -
  have b: "unat b = unat (hd (hpack_encode_integer 6 i)) + 64"
    unfolding b_def by (subst unat_flagged) simp_all
  with first_byte_small [of 6 i] have "unat b div 2 ^ 6 = 1" "unat b div 2 ^ 7 = 0" "unat b div 2 ^ 5 \<noteq> 1"
    by auto
  then show "bit b 6" "\<not> bit b 7" "drop_bit 5 b \<noteq> 1"
    using drop_eq_unat [of 1 5 b] by (simp_all add: bit_unat)
qed

lemma literal_plain_byte:
  fixes i :: u64 and never :: bool
  defines "b \<equiv> hd (hpack_encode_integer 4 i) OR push_bit 4 (of_bool never)"
  shows "\<not> bit b 6" "\<not> bit b 7" "drop_bit 5 b \<noteq> 1" "drop_bit 4 b = of_bool never"
proof -
  have b: "unat b = unat (hd (hpack_encode_integer 4 i)) + (if never then 16 else 0)"
    unfolding b_def by (subst unat_flagged) simp_all
  with first_byte_small [of 4 i] have "unat b div 2 ^ 6 = 0" "unat b div 2 ^ 7 = 0" "unat b div 2 ^ 5 \<noteq> 1"
    "unat b div 2 ^ 4 = of_bool never"
    by auto
  then show "\<not> bit b 6" "\<not> bit b 7" "drop_bit 5 b \<noteq> 1" "drop_bit 4 b = of_bool never"
    using drop_eq_unat [of 1 5 b] drop_eq_unat [of "of_bool never" 4 b] by (simp_all add: bit_unat)
qed

lemma length_byte: "bit (hd (hpack_encode_integer 7 i) OR push_bit 7 (of_bool h)) 7 \<longleftrightarrow> h"
proof -
  have "unat (hd (hpack_encode_integer 7 i) OR push_bit 7 (of_bool h))
      = unat (hd (hpack_encode_integer 7 i)) + (if h then 128 else 0)"
    by (subst unat_flagged) simp_all
  with first_byte_small [of 7 i]
  have "unat (hd (hpack_encode_integer 7 i) OR push_bit 7 (of_bool h)) div 2 ^ 7 = of_bool h" by auto
  then show ?thesis unfolding bit_unat by simp
qed

lemma flags_clear [simp]:
  "take_bit 7 (push_bit 7 x :: u8) = 0" "take_bit 6 (push_bit 6 x :: u8) = 0"
  "take_bit 4 (push_bit 4 x :: u8) = 0"
  by (simp_all add: take_bit_push_bit)

lemma low_bits_clear:
  "hd (hpack_encode_integer 4 i) AND 15 = hd (hpack_encode_integer 4 i)"
  "bits_clear 7 (hd (hpack_encode_integer 6 i)) = hd (hpack_encode_integer 6 i)"
proof -
  have "take_bit 4 (hd (hpack_encode_integer 4 i)) = hd (hpack_encode_integer 4 i)"
    using first_byte_small [of 4 i] by (simp add: word_unat_eq_iff unat_take_bit)
  moreover have "(15 :: u8) = mask 4" by (simp add: mask_eq_exp_minus_1)
  ultimately show "hd (hpack_encode_integer 4 i) AND 15 = hd (hpack_encode_integer 4 i)"
    by (simp only: take_bit_eq_mask)
  have "\<not> bit (hd (hpack_encode_integer 6 i)) 7"
    using first_byte_small [of 6 i] by (simp add: bit_unat)
  then show "bits_clear 7 (hd (hpack_encode_integer 6 i)) = hd (hpack_encode_integer 6 i)"
    by (auto intro!: bit_word_eqI simp: bit_bits_clear)
qed

section \<open>Strings\<close>

lemma advance_append [simp]: "advance (length xs) (xs @ ys) = Inr ys"
  by (simp add: advance_def)

lemma text_bits_bound: "length (text_bits str) \<le> 30 * length str"
proof (induction str)
  case (Cons s str)
  then show ?case using entry_len(2) [of s] by simp
qed simp

text \<open>The length limit keeps the encoded size below the range of the 64-bit length field.\<close>

definition encodable :: "bytes \<Rightarrow> bool" where
  "encodable str \<longleftrightarrow> length str < 2 ^ 60"

lemma encoded_payload:
  assumes "str \<noteq> []" and "encodable str"
  obtains enc where
    "(if huffman then bind_res (http2_encoded_huffman_len str) (\<lambda>n.
       bind_res (http2_encode_huffman str (replicate n 0)) (\<lambda>(_, e). Inr e)) else Inr str) = Inr enc"
    "0 < length enc" "length enc < 2 ^ 64"
    "huffman \<longrightarrow> http2_decoded_huffman_len enc = Some (Inr (length str)) \<and>
       http2_decode_huffman (length str) enc = Some (Inr (None, str))"
    "\<not> huffman \<longrightarrow> enc = str"
proof (cases huffman)
  case True
  let ?n = "bytes_for (length (text_bits str))"
  obtain mem k where m: "http2_encode_huffman str (replicate ?n 0) = Inr (length (text_bits str) div 8, mem)"
    "length mem = ?n" "k < 8" "byte_bits mem = text_bits str @ replicate k True"
    using encode_huffman_written [OF refl] by blast
  have d: "decode_bits (byte_bits mem) = (None, str)" using decode_text_bits [OF m(3)] m(4) by simp
  obtain s ss where "str = s # ss" using assms(1) by (cases str) auto
  then have "0 < length (text_bits str)" using entry_len(1) [of s] by simp
  then have pos: "0 < ?n" using bytes_for_bounds(1) [of "length (text_bits str)"] by linarith
  have "8 * ?n < 30 * length str + 8"
    using bytes_for_bounds(2) [of "length (text_bits str)"] text_bits_bound [of str] by linarith
  then have "?n < 2 ^ 64" using assms(2) by (simp add: encodable_def)
  with True m pos d that [of mem] show thesis
    by (simp add: encoded_len_bits decoded_len_bits decode_huffman_bits)
next
  case False
  with assms that [of str] show thesis by (simp add: encodable_def)
qed

lemma decode_encoded_string:
  assumes "encodable str"
  shows "\<exists>out. encode_length_string str huffman = Inr out \<and> out \<noteq> [] \<and>
    (\<forall>rest. decode_length_string (out @ rest) [] None = Some (Inr (length out, str, None)))"
proof (cases "str = []")
  case True
  have "two_N_1 7 = 127" by (simp add: two_N_1_def push_bit_eq_mult)
  then have "hpack_decode_integer 7 (0 # rest) 0 = Inr (1, 0)" for rest
    by (simp add: hpack_decode_integer_def)
  with True show ?thesis
    by (simp add: encode_length_string_def decode_length_string_def advance_def)
next
  case False
  obtain enc where e: "(if huffman then bind_res (http2_encoded_huffman_len str) (\<lambda>n.
       bind_res (http2_encode_huffman str (replicate n 0)) (\<lambda>(_, e). Inr e)) else Inr str) = Inr enc"
    "0 < length enc" "length enc < 2 ^ 64"
    "huffman \<longrightarrow> http2_decoded_huffman_len enc = Some (Inr (length str)) \<and>
       http2_decode_huffman (length str) enc = Some (Inr (None, str))"
    "\<not> huffman \<longrightarrow> enc = str"
    using encoded_payload [OF False assms, where huffman = huffman] by blast
  let ?i = "of_nat (length enc) :: u64"
  let ?b = "prefixed (push_bit 7 (of_bool huffman)) (hpack_encode_integer 7 ?i)"
  have u: "unat ?i = length enc" using e(3) by (simp add: unat_of_nat)
  then have nz: "?i \<noteq> 0" using e(2) by (metis less_irrefl unat_0)
  have "set_first (\<lambda>b. bits_assign 7 b huffman) (hpack_encode_integer 7 ?i) = Inr ?b"
    by (rule set_first_prefixed) (simp add: bits_assign_def)
  with e(1) False have out: "encode_length_string str huffman = Inr (?b @ enc)"
    by (simp add: encode_length_string_def)
  have int: "hpack_decode_integer 7 (?b @ ys) 0 = Inr (length ?b, ?i)" for ys
    using decode_encoded_integer [of 7 "push_bit 7 (of_bool huffman)" ?i ys 0] by simp
  have adv: "advance (length ?b) (?b @ ys) = Inr ys" for ys by (rule advance_append)
  obtain c cs where bc: "?b = c # cs" "bit c 7 \<longleftrightarrow> huffman"
    using length_byte [of ?i huffman] by (simp add: prefixed_def)
  have "decode_length_string ((?b @ enc) @ rest) [] None = Some (Inr (length (?b @ enc), str, None))" for rest
  proof -
    have input: "(?b @ enc) @ rest = c # (cs @ enc @ rest)" using bc by simp
    have i2: "hpack_decode_integer 7 (c # cs @ enc @ rest) 0 = Inr (length ?b, ?i)"
      and a2: "advance (length ?b) (c # cs @ enc @ rest) = Inr (enc @ rest)"
      using int [of "enc @ rest"] adv [of "enc @ rest"] unfolding bc(1) by simp_all
    show ?thesis
      unfolding input decode_length_string_def
      using i2 a2 u nz bc e(2,4,5) False
      by (cases huffman) (simp_all add: Let_def overwrite_def resize_string_def)
  qed
  with out bc(1) show ?thesis by auto
qed

section \<open>The two tables\<close>

lemma length_predefined [simp]: "length predefined_http2_headers = 61"
  by (simp add: predefined_http2_headers_def predefined_rows_def)

lemma find_predefined_Some:
  assumes "find_predefined pred = Some i"
  shows "0 < i" "i \<le> 61" "pred (predefined_http2_headers ! (i - 1))"
proof -
  let ?k = "length (takeWhile (\<lambda>h. \<not> pred h) predefined_http2_headers)"
  have i: "i = ?k + 1" "?k \<noteq> 61" using assms by (auto simp: find_predefined_def Let_def split: if_splits)
  moreover have "?k \<le> 61" using length_takeWhile_le [of "\<lambda>h. \<not> pred h" predefined_http2_headers] by simp
  ultimately have k: "?k < length predefined_http2_headers" by simp
  with i show "0 < i" "i \<le> 61" by auto
  show "pred (predefined_http2_headers ! (i - 1))" using nth_length_takeWhile [OF k] i(1) by simp
qed

lemma predefined_lower:
  assumes "h \<in> set predefined_http2_headers"
  shows "to_lower (fst h) = fst h"
proof -
  have "list_all (\<lambda>h. to_lower (fst h) = fst h) predefined_http2_headers"
    by code_simp
  with assms show ?thesis by (simp add: list_all_iff)
qed

definition lower_name :: "header \<Rightarrow> header" where
  "lower_name h = (to_lower (fst h), snd h)"

lemma header_size_lower [simp]: "header_size (lower_name h) = header_size h"
  by (simp add: header_size_def lower_name_def)

lemma table_size_lower [simp]: "table_size (map lower_name es) = table_size es"
  by (induction es) simp_all

lemma evict_lower: "evict m (map lower_name es) = map lower_name (evict m es)"
  by (induction es) simp_all

lemma table_add_lower:
  "snd (table_add (lower_name h) (m, map lower_name es)) = map lower_name (snd (table_add h (m, es)))"
  by (simp add: table_add_def evict_lower)

text \<open>The tables of an encoder and a decoder that have seen the same headers.\<close>

definition in_step :: "nat \<Rightarrow> header list \<Rightarrow> dynamic_table \<Rightarrow> dynamic_table \<Rightarrow> bool" where
  "in_step m es te td \<longleftrightarrow> dt_holds m es te \<and> dt_holds m (map lower_name es) td \<and>
     table_size es \<le> m \<and> m < 2 ^ 64"

lemma in_step_add:
  assumes "in_step m es te td"
  shows "\<exists>te' td' es'. dt_add name val te = Some (Inr te') \<and>
    dt_add (to_lower name) val td = Some (Inr td') \<and> in_step m es' te' td'"
proof -
  have e: "dt_holds m es te" "table_size es \<le> m" and d: "dt_holds m (map lower_name es) td"
    using assms by (simp_all add: in_step_def)
  let ?es = "snd (table_add (name, val) (m, es))"
  obtain te' where te': "dt_add name val te = Some (Inr te')" "dt_holds m ?es te'"
    using dt_add_adds [OF e, of name val] by auto
  have "lower_name (name, val) = (to_lower name, val)" by (simp add: lower_name_def)
  then obtain td' where td': "dt_add (to_lower name) val td = Some (Inr td')" "dt_holds m (map lower_name ?es) td'"
    using dt_add_adds [OF d, of "to_lower name" val] e(2) table_add_lower [of "(name, val)" m es] by auto
  have "table_size ?es \<le> m" using table_size_bounded(1) [of "(name, val)" "(m, es)"] by simp
  with te' td' assms show ?thesis by (auto simp: in_step_def)
qed

lemma entries_bound: "32 * length es \<le> table_size es"
  by (induction es) (simp_all add: header_size_def)

text \<open>An index the encoder finds leads the decoder to the matching entry.\<close>

lemma table_index_get:
  assumes "table_index pred es = Some i"
  shows "61 < i" "i \<le> 61 + length es" "\<exists>h\<in>set es. pred h \<and> table_get (i - 62) (map f es) = Some (f h)"
proof -
  let ?k = "first_match pred es"
  have k: "?k < length es" "i = length es - ?k + 61"
    using assms by (auto simp: table_index_def Let_def split: if_splits)
  then show "61 < i" "i \<le> 61 + length es" by auto
  have "pred (es ! ?k)"
    using k(1) nth_length_takeWhile [of "\<lambda>x. \<not> pred x" es] by (simp add: first_match_def)
  moreover have "table_get (i - 62) (map f es) = Some (f (es ! ?k))"
    using k by (auto simp: table_get_def rev_nth)
  ultimately show "\<exists>h\<in>set es. pred h \<and> table_get (i - 62) (map f es) = Some (f h)"
    using k(1) by auto
qed

lemma lookup_static:
  assumes "find_predefined pred = Some i"
  shows "table_lookup (i - 1) td = Inr (Some (predefined_http2_headers ! (i - 1)))"
    "pred (predefined_http2_headers ! (i - 1))" "0 < i" "i < 2 ^ 64"
    "to_lower (fst (predefined_http2_headers ! (i - 1))) = fst (predefined_http2_headers ! (i - 1))"
proof -
  note p = find_predefined_Some [OF assms]
  then show "pred (predefined_http2_headers ! (i - 1))" "0 < i" "i < 2 ^ 64" by auto
  have "predefined_http2_headers ! (i - 1) \<in> set predefined_http2_headers" using p by (intro nth_mem) simp
  then show "to_lower (fst (predefined_http2_headers ! (i - 1))) = fst (predefined_http2_headers ! (i - 1))"
    by (rule predefined_lower)
  show "table_lookup (i - 1) td = Inr (Some (predefined_http2_headers ! (i - 1)))"
  proof -
    have "i - 1 < 61" using p(1,2) by simp
    then show ?thesis by (simp add: table_lookup_def)
  qed
qed

lemma lookup_dynamic:
  assumes "in_step m es te td" and "dt_find_with pred te = Inr (Some i)"
  shows "\<exists>h. pred h \<and> table_lookup (i - 1) td = Inr (Some (lower_name h))" "0 < i" "i < 2 ^ 64"
proof -
  have s: "dt_holds m es te" "dt_holds m (map lower_name es) td" "table_size es \<le> m" "m < 2 ^ 64"
    using assms(1) by (simp_all add: in_step_def)
  have idx: "table_index pred es = Some i" using dt_find_with_index [OF s(1)] assms(2) by simp
  note t = table_index_get(1,2) [OF idx] table_index_get(3) [OF idx, of lower_name]
  show "0 < i" using t(1) by simp
  show "i < 2 ^ 64" using t(2) entries_bound [of es] s(3,4) by simp
  obtain h where h: "pred h" "table_get (i - 62) (map lower_name es) = Some (lower_name h)"
    using t(3) by blast
  have "dt_get_header (i - 1 - 61) td = Inr (Some (lower_name h))"
    using dt_get_header_entry [OF s(2), of "i - 62"] h(2) by (simp add: numeral_eq_Suc)
  moreover have "\<not> i - 1 < 61" using t(1) by simp
  ultimately have "table_lookup (i - 1) td = Inr (Some (lower_name h))"
    by (simp add: table_lookup_def lower_name_def)
  with h(1) show "\<exists>h. pred h \<and> table_lookup (i - 1) td = Inr (Some (lower_name h))" by blast
qed

section \<open>Headers\<close>

text \<open>What the decoder makes of a header: static entries are found without regard to the case of the value.\<close>

definition decoded_value :: "bool \<Rightarrow> bytes \<Rightarrow> bytes \<Rightarrow> bytes" where
  "decoded_value never_indexed name val =
     (if never_indexed then val
      else case find_predefined_http2_header name val of
          Some i \<Rightarrow> snd (predefined_http2_headers ! (i - 1))
        | None \<Rightarrow> val)"

lemma decode_indexed_header:
  assumes "table_lookup (i - 1) td = Inr (Some nv)" and "0 < i" and "i < 2 ^ 64"
  defines "out \<equiv> prefixed (push_bit 7 1) (hpack_encode_integer 7 (of_nat i))"
  shows "bind_res (put_integer 7 (of_nat i)) (\<lambda>buff. bind_res (set_first (bits_set 7) buff) (\<lambda>b. Inr (b, enc)))
      = Inr (out, enc)"
    "decode_header (out @ rest) None td = Some (Inr (length out, nv, None, td))" "out \<noteq> []"
proof -
  show "bind_res (put_integer 7 (of_nat i)) (\<lambda>buff. bind_res (set_first (bits_set 7) buff) (\<lambda>b. Inr (b, enc)))
      = Inr (out, enc)"
    unfolding out_def by (simp add: set_first_prefixed [where flags = "push_bit 7 1"] bits_set_def)
  obtain c cs where c: "out = c # cs" "bit c 7" "drop_bit 5 c \<noteq> 1"
    using indexed_byte [of "of_nat i"] by (simp add: out_def prefixed_def)
  have int: "hpack_decode_integer 7 (out @ rest) 0 = Inr (length out, of_nat i)"
    unfolding out_def by (subst decode_encoded_integer) (simp_all add: flags_clear)
  have u: "unat (of_nat i :: u64) = i" using assms(3) by (simp add: unat_of_nat)
  then have "(of_nat i :: u64) \<noteq> 0" using assms(2) by (metis less_irrefl unat_0)
  with int u assms(1) have "decode_indexed (out @ rest) None td = Some (Inr (length out, nv, None, td))"
    using c(1) by (simp add: decode_indexed_def)
  with c show "decode_header (out @ rest) None td = Some (Inr (length out, nv, None, td))"
    by (simp add: decode_header_def)
  show "out \<noteq> []" using c(1) by simp
qed

text \<open>The bytes in front of a literal header: its representation and, where known, its name.\<close>

definition literal_prefix :: "bool \<Rightarrow> bool \<Rightarrow> nat \<Rightarrow> bytes" where
  "literal_prefix indexed never_indexed index =
     (if never_indexed \<or> \<not> indexed
      then prefixed (push_bit 4 (of_bool never_indexed)) (hpack_encode_integer 4 (of_nat index))
      else prefixed (push_bit 6 1) (hpack_encode_integer 6 (of_nat index)))"

lemma encode_name_index_prefix:
  "encode_name_index indexed never_indexed index = Inr (literal_prefix indexed never_indexed index)"
  unfolding encode_name_index_def literal_prefix_def
  by (auto simp: low_bits_clear bits_assign_def bits_set_def intro!: set_first_prefixed)

lemma literal_prefix_byte:
  fixes indexed never_indexed :: bool
  assumes "\<not> (indexed \<and> never_indexed)"
  obtains c cs where "literal_prefix indexed never_indexed index = c # cs"
    "\<not> bit c 7" "drop_bit 5 c \<noteq> 1" "bit c 6 \<longleftrightarrow> indexed"
    "\<not> indexed \<longrightarrow> drop_bit 4 c = of_bool never_indexed"
  using assms literal_indexed_byte [of "of_nat index"] literal_plain_byte [of "of_nat index" never_indexed]
  by (cases indexed) (auto simp: literal_prefix_def prefixed_def)

lemma literal_prefix_integer:
  assumes "\<not> (indexed \<and> never_indexed)"
  shows "hpack_decode_integer (if indexed then 6 else 4) (literal_prefix indexed never_indexed index @ rest) 0
    = Inr (length (literal_prefix indexed never_indexed index), of_nat index)"
  using assms
    decode_encoded_integer [of 6 "push_bit 6 1" "of_nat index" rest 0]
    decode_encoded_integer [of 4 "push_bit 4 (of_bool never_indexed)" "of_nat index" rest 0]
  by (cases indexed) (auto simp: literal_prefix_def flags_clear split: if_splits)

lemma decode_name_index:
  assumes "\<not> (indexed \<and> never_indexed)" and "0 < i" and "i < 2 ^ 64"
    and "table_lookup (i - 1) td = Inr (Some nv)"
  defines "out \<equiv> literal_prefix indexed never_indexed i"
  shows "decode_header_name (out @ rest) [] None td
    = Some (Inr (length out, fst nv, indexed, never_indexed, None))"
proof -
  obtain c cs where c: "out = c # cs" "bit c 6 \<longleftrightarrow> indexed"
      "\<not> indexed \<longrightarrow> drop_bit 4 c = of_bool never_indexed"
    unfolding out_def using literal_prefix_byte [OF assms(1), of i] by metis
  have u: "unat (of_nat i :: u64) = i" using assms(3) by (simp add: unat_of_nat)
  then have "(of_nat i :: u64) \<noteq> 0" using assms(2) by (metis less_irrefl unat_0)
  moreover have "hpack_decode_integer (if indexed then 6 else 4) (c # cs @ rest) 0 = Inr (length out, of_nat i)"
    using literal_prefix_integer [OF assms(1), of i rest] c(1) by (simp add: out_def)
  moreover have "advance (length out) (c # cs @ rest) = Inr rest"
    using advance_append [of out rest] c(1) by simp
  ultimately show ?thesis
    using c u assms(1,4) by (cases nv; cases indexed; cases never_indexed)
      (simp_all add: decode_header_name_def Let_def)
qed

lemma decode_new_name:
  assumes "\<not> (indexed \<and> never_indexed)"
    and "\<forall>rest. decode_length_string (enc @ rest) [] None = Some (Inr (length enc, name, None))"
  defines "out \<equiv> literal_prefix indexed never_indexed 0"
  shows "decode_header_name ((out @ enc) @ rest) [] None td
    = Some (Inr (length (out @ enc), name, indexed, never_indexed, None))"
proof -
  obtain c cs where c: "out = c # cs" "bit c 6 \<longleftrightarrow> indexed"
      "\<not> indexed \<longrightarrow> drop_bit 4 c = of_bool never_indexed"
    unfolding out_def using literal_prefix_byte [OF assms(1), of 0] by metis
  have "hpack_decode_integer (if indexed then 6 else 4) (c # cs @ enc @ rest) 0 = Inr (length out, 0)"
    using literal_prefix_integer [OF assms(1), of 0 "enc @ rest"] c(1) by (simp add: out_def)
  moreover have "advance (length out) (c # cs @ enc @ rest) = Inr (enc @ rest)"
    using advance_append [of out "enc @ rest"] c(1) by simp
  ultimately show ?thesis
    using c assms(1,2) by (cases indexed; cases never_indexed) (simp_all add: decode_header_name_def Let_def)
qed

text \<open>A literal header: the name has been decoded, the value and the table update follow.\<close>

lemma decode_literal_header:
  assumes name: "\<And>rest. decode_header_name (b1 @ rest) [] None td
      = Some (Inr (length b1, name, indexed, never_indexed, None))"
    and val: "\<And>rest. decode_length_string (b2 @ rest) [] None = Some (Inr (length b2, val, None))"
    and upd: "(if indexed \<and> \<not> never_indexed then dt_add name val td else Some (Inr td)) = Some (Inr td')"
    and b1: "b1 = c # cs" "\<not> bit c 7" "drop_bit 5 c \<noteq> 1"
  shows "decode_header ((b1 @ b2) @ rest) None td
    = Some (Inr (length (b1 @ b2), (name, val), None, td'))"
proof -
  have a: "advance (length b1) (b1 @ b2 @ rest) = Inr (b2 @ rest)"
    "advance (length b2) (b2 @ rest) = Inr rest" by (rule advance_append)+
  have "decode_literal (b1 @ b2 @ rest) None td = Some (Inr (length (b1 @ b2), (name, val), None, td'))"
    using name [of "b2 @ rest"] val [of rest] a upd by (simp add: decode_literal_def)
  with b1 show ?thesis by (simp add: decode_header_def)
qed

end
