(* ===== verification/Hpack_Roundtrip.thy ===== *)
theory Hpack_Roundtrip
  imports Hpack_Laws
begin

text \<open>
  Decoding inverts encoding: for one header, by the representation the encoder chooses, and for
  lists of headers, with the tables of both sides staying in step.
\<close>

section \<open>One header\<close>

definition decodes_to ::
    "nat \<Rightarrow> dynamic_table \<Rightarrow> bytes \<times> hpack_encoder \<Rightarrow> header \<Rightarrow> bool" where
  "decodes_to m td r nv \<longleftrightarrow>
     (\<exists>es' td'. in_step m es' (enc_table (snd r)) td' \<and> fst r \<noteq> [] \<and>
        (\<forall>rest. decode_header (fst r @ rest) None td = Some (Inr (length (fst r), nv, None, td'))))"

lemma indexed_decodes:
  assumes "in_step m es (enc_table enc) td"
    and "table_lookup (i - 1) td = Inr (Some nv)" "0 < i" "i < 2 ^ 64"
  shows "\<exists>r. bind_res (put_integer 7 (of_nat i)) (\<lambda>buff.
      bind_res (set_first (bits_set 7) buff) (\<lambda>buff1. Inr (buff1, enc))) = Inr r \<and> decodes_to m td r nv"
  using decode_indexed_header [OF assms(2-4)] assms(1) by (force simp: decodes_to_def)

lemma find_header_dynamic:
  assumes "in_step m es te td" and "dt_find name val te = Inr (Some i)"
  shows "table_lookup (i - 1) td = Inr (Some (to_lower name, val))" "0 < i" "i < 2 ^ 64"
  using lookup_dynamic [OF assms(1), of "\<lambda>h. iequal name (fst h) \<and> val = snd h" i] assms(2)
  by (auto simp: dt_find_def lower_name_def iequal_to_lower)

lemma find_header_static:
  assumes "find_predefined_http2_header name val = Some i"
  shows "table_lookup (i - 1) td = Inr (Some (to_lower name, decoded_value False name val))"
    "0 < i" "i < 2 ^ 64"
proof -
  note p = lookup_static [OF assms [unfolded find_predefined_http2_header_def]]
  show "0 < i" "i < 2 ^ 64" using p by auto
  have "fst (predefined_http2_headers ! (i - 1)) = to_lower name"
    using p(2,5) by (simp add: iequal_to_lower)
  then show "table_lookup (i - 1) td = Inr (Some (to_lower name, decoded_value False name val))"
    using p(1) assms by (simp add: decoded_value_def prod_eq_iff)
qed

text \<open>The name of a literal: from one of the tables, or spelled out.\<close>

lemma literal_name:
  assumes "in_step m es te td" and "\<not> (indexed \<and> never_indexed)" and "encodable name"
  shows "\<exists>name_index b1.
    (case find_predefined_http2_name name of Some i \<Rightarrow> Inr (Some i) | None \<Rightarrow> dt_find_name name te) = Inr name_index \<and>
    bind_res (encode_name_index indexed never_indexed (case name_index of Some i \<Rightarrow> i | None \<Rightarrow> 0)) (\<lambda>p.
      bind_res (if name_index = None then encode_length_string (to_lower name) huffman else Inr []) (\<lambda>q.
        Inr (p @ q))) = Inr b1 \<and>
    (\<exists>c cs. b1 = c # cs \<and> \<not> bit c 7 \<and> drop_bit 5 c \<noteq> 1) \<and>
    (\<forall>rest. decode_header_name (b1 @ rest) [] None td
       = Some (Inr (length b1, to_lower name, indexed, never_indexed, None)))"
proof -
  have byte: "\<exists>c cs. literal_prefix indexed never_indexed k = c # cs \<and> \<not> bit c 7 \<and> drop_bit 5 c \<noteq> 1" for k
    using literal_prefix_byte [OF assms(2), of k] by metis
  have indexed: ?thesis
    if "(case find_predefined_http2_name name of Some i \<Rightarrow> Inr (Some i) | None \<Rightarrow> dt_find_name name te) = Inr (Some i)"
      and "table_lookup (i - 1) td = Inr (Some nv)" "0 < i" "i < 2 ^ 64" "fst nv = to_lower name" for i nv
    using that decode_name_index [OF assms(2) that(3,4,2)] byte [of i]
    by (intro exI [of _ "Some i"] exI [of _ "literal_prefix indexed never_indexed i"])
      (auto simp: encode_name_index_prefix)
  show ?thesis
  proof (cases "find_predefined_http2_name name")
    case (Some i)
    note p = lookup_static [OF Some [unfolded find_predefined_http2_name_def]]
    with indexed [of i "predefined_http2_headers ! (i - 1)"] Some show ?thesis
      by (simp add: iequal_to_lower)
  next
    case None
    have h: "dt_holds m es te" using assms(1) by (simp add: in_step_def)
    obtain x where x: "dt_find_name name te = Inr x"
      using dt_find_with_index [OF h] by (simp add: dt_find_name_def)
    show ?thesis
    proof (cases x)
      case (Some i)
      then have "dt_find_with (\<lambda>h. iequal name (fst h)) te = Inr (Some i)" using x by (simp add: dt_find_name_def)
      note d = lookup_dynamic [OF assms(1) this]
      obtain h where h: "iequal name (fst h)" "table_lookup (i - 1) td = Inr (Some (lower_name h))"
        using d(1) by blast
      have "fst (lower_name h) = to_lower name" using h(1) by (simp add: iequal_to_lower lower_name_def)
      with None Some x show ?thesis by (intro indexed [OF _ h(2) d(2,3)]) simp_all
    next
      case None': None
      have "encodable (to_lower name)" using assms(3) by (simp add: encodable_def)
      then obtain enc where e: "encode_length_string (to_lower name) huffman = Inr enc"
        "\<forall>rest. decode_length_string (enc @ rest) [] None = Some (Inr (length enc, to_lower name, None))"
        using decode_encoded_string by blast
      with None None' x decode_new_name [OF assms(2) e(2)] byte [of 0]
      show ?thesis
        by (intro exI [of _ None] exI [of _ "literal_prefix indexed never_indexed 0 @ enc"])
          (auto simp: encode_name_index_prefix)
    qed
  qed
qed

lemma literal_decodes:
  assumes "in_step m es (enc_table enc) td" and "\<not> (indexed \<and> never_indexed)"
    and "encodable name" "encodable val"
  shows "\<exists>r.
    bind_run (Some (case find_predefined_http2_name name of
        Some i \<Rightarrow> Inr (Some i) | None \<Rightarrow> dt_find_name name (enc_table enc))) (\<lambda>name_index.
    bind_run (Some
      (bind_res (encode_name_index indexed never_indexed (case name_index of Some i \<Rightarrow> i | None \<Rightarrow> 0)) (\<lambda>b1.
       bind_res (if name_index = None then encode_length_string (to_lower name) huffman else Inr []) (\<lambda>b2.
       bind_res (encode_length_string val huffman) (\<lambda>b3. Inr (b1 @ b2 @ b3)))))) (\<lambda>out.
    if indexed then bind_run (dt_add name val (enc_table enc)) (\<lambda>t. Some (Inr (out, enc\<lparr>enc_table := t\<rparr>)))
    else Some (Inr (out, enc)))) = Some (Inr r) \<and> decodes_to m td r (to_lower name, val)"
proof -
  obtain name_index b1 c cs where 1:
    "(case find_predefined_http2_name name of Some i \<Rightarrow> Inr (Some i) | None \<Rightarrow> dt_find_name name (enc_table enc))
       = Inr name_index"
    "bind_res (encode_name_index indexed never_indexed (case name_index of Some i \<Rightarrow> i | None \<Rightarrow> 0)) (\<lambda>p.
      bind_res (if name_index = None then encode_length_string (to_lower name) huffman else Inr []) (\<lambda>q.
        Inr (p @ q))) = Inr b1"
    "b1 = c # cs" "\<not> bit c 7" "drop_bit 5 c \<noteq> 1"
    "\<And>rest. decode_header_name (b1 @ rest) [] None td
       = Some (Inr (length b1, to_lower name, indexed, never_indexed, None))"
    using literal_name [OF assms(1-3), of huffman] by blast
  obtain b2 where 2: "encode_length_string val huffman = Inr b2"
    "\<And>rest. decode_length_string (b2 @ rest) [] None = Some (Inr (length b2, val, None))"
    using decode_encoded_string [OF assms(4), of huffman] by blast
  have out: "bind_res (encode_name_index indexed never_indexed (case name_index of Some i \<Rightarrow> i | None \<Rightarrow> 0)) (\<lambda>p.
      bind_res (if name_index = None then encode_length_string (to_lower name) huffman else Inr []) (\<lambda>q.
      bind_res (encode_length_string val huffman) (\<lambda>b3. Inr (p @ q @ b3)))) = Inr (b1 @ b2)"
    using 1(2) 2(1) by (auto simp: bind_res_eq_Inr)
  obtain te' td' es' where t: "dt_add name val (enc_table enc) = Some (Inr te')"
    "dt_add (to_lower name) val td = Some (Inr td')" "in_step m es' te' td'"
    using in_step_add [OF assms(1), of name val] by blast
  show ?thesis
  proof (cases indexed)
    case True
    then have "(if indexed \<and> \<not> never_indexed then dt_add (to_lower name) val td else Some (Inr td)) = Some (Inr td')"
      using assms(2) t(2) by simp
    note dec = decode_literal_header [OF 1(6) 2(2) this 1(3-5)]
    show ?thesis
      by (intro exI [of _ "(b1 @ b2, enc\<lparr>enc_table := te'\<rparr>)"])
        (use True 1(1,3) out t dec in \<open>auto simp: decodes_to_def\<close>)
  next
    case False
    then have "(if indexed \<and> \<not> never_indexed then dt_add (to_lower name) val td else Some (Inr td)) = Some (Inr td)"
      by simp
    note dec = decode_literal_header [OF 1(6) 2(2) this 1(3-5)]
    show ?thesis
      by (intro exI [of _ "(b1 @ b2, enc)"]) (use False 1(1,3) out assms(1) dec in \<open>auto simp: decodes_to_def\<close>)
  qed
qed

lemma encode_header_decodes:
  assumes "in_step m es (enc_table enc) td" and "\<not> (indexed \<and> never_indexed)"
    and "encodable name" "encodable val"
  shows "\<exists>r. encode_header name val huffman indexed never_indexed enc = Some (Inr r) \<and>
    decodes_to m td r (to_lower name, decoded_value never_indexed name val)"
proof -
  have h: "dt_holds m es (enc_table enc)" using assms(1) by (simp add: in_step_def)
  obtain x where x: "dt_find name val (enc_table enc) = Inr x"
    using dt_find_with_index [OF h] by (simp add: dt_find_def)
  note lit = literal_decodes [OF assms, of huffman]
  consider (never) never_indexed
    | (static) i where "\<not> never_indexed" "find_predefined_http2_header name val = Some i"
    | (dynamic) i where "\<not> never_indexed" "find_predefined_http2_header name val = None" "x = Some i"
    | (literal) "\<not> never_indexed" "find_predefined_http2_header name val = None" "x = None"
    by (cases "find_predefined_http2_header name val"; cases x) auto
  then show ?thesis
  proof cases
    case (static i)
    note f = find_header_static(1) [OF static(2), of td] find_header_static(2,3) [OF static(2)]
    from indexed_decodes [OF assms(1) f] static show ?thesis
      by (simp add: encode_header_def)
  next
    case (dynamic i)
    note f = find_header_dynamic [OF assms(1) x [unfolded dynamic(3)]]
    from indexed_decodes [OF assms(1) f] dynamic x show ?thesis
      by (simp add: encode_header_def decoded_value_def)
  qed (use lit x in \<open>simp_all add: encode_header_def decoded_value_def\<close>)
qed

end
