(* ===== verification/Hpack_Total.thy ===== *)
theory Hpack_Total
  imports Hpack_Roundtrip
begin

text \<open>
  The decoder on arbitrary input: it always returns, consumes no more than its input, keeps the
  dynamic table within its bounds, and the only fault it can run into is the oversized shift of the
  integer decoder. Also here: round trips of header lists, and where the two sides part.
\<close>

section \<open>Lists of headers\<close>

definition decoded_list :: "bool \<Rightarrow> headers \<Rightarrow> headers" where
  "decoded_list never_indexed hs =
     map (\<lambda>h. (to_lower (fst h), decoded_value never_indexed (fst h) (snd h))) hs"

lemma decode_headers_Nil [simp]: "decode_headers [] hdrs t = Some (Inr (None, hdrs, t))"
  by (simp add: decode_headers.simps)

lemma decode_headers_append:
  assumes "decode_header (b @ rest) None t = Some (Inr (length b, (name, val), None, t1))" and "b \<noteq> []"
  shows "decode_headers (b @ rest) hdrs t = decode_headers rest (hdr_insert name val hdrs) t1"
  using assms by (simp add: decode_headers.simps [of "b @ rest"])

lemma encode_headers_decode:
  assumes "in_step m es (enc_table enc) td" and "\<not> (indexed \<and> never_indexed)"
    and "\<forall>h\<in>set hs. encodable (fst h) \<and> encodable (snd h)"
  shows "\<exists>out enc' es' td'. encode_headers hs indexed huffman never_indexed enc = Some (Inr (out, enc')) \<and>
    in_step m es' (enc_table enc') td' \<and>
    (\<forall>hdrs. decode_headers out hdrs td
       = Some (Inr (None, hdr_append hdrs (decoded_list never_indexed hs), td')))"
  using assms(1,3)
proof (induction hs arbitrary: enc es td)
  case Nil
  then show ?case by (auto simp: decoded_list_def hdr_append_def)
next
  case (Cons h hs)
  obtain b enc1 where 1: "encode_header (fst h) (snd h) huffman indexed never_indexed enc = Some (Inr (b, enc1))"
    "decodes_to m td (b, enc1) (to_lower (fst h), decoded_value never_indexed (fst h) (snd h))"
    using encode_header_decodes [OF Cons(2) assms(2), of "fst h" "snd h" huffman] Cons(3) by auto
  obtain es1 td1 where 2: "in_step m es1 (enc_table enc1) td1" "b \<noteq> []"
    "\<And>rest. decode_header (b @ rest) None td
       = Some (Inr (length b, (to_lower (fst h), decoded_value never_indexed (fst h) (snd h)), None, td1))"
    using 1(2) by (auto simp: decodes_to_def)
  obtain out enc' es' td' where 3: "encode_headers hs indexed huffman never_indexed enc1 = Some (Inr (out, enc'))"
    "in_step m es' (enc_table enc') td'"
    "\<And>hdrs. decode_headers out hdrs td1 = Some (Inr (None, hdr_append hdrs (decoded_list never_indexed hs), td'))"
    using Cons.IH [OF 2(1)] Cons(3) by auto
  have "decode_headers (b @ out) hdrs td
      = Some (Inr (None, hdr_append hdrs (decoded_list never_indexed (h # hs)), td'))" for hdrs
    using decode_headers_append [OF 2(3,2), of out hdrs] 3(3)
    by (simp add: decoded_list_def hdr_append_def)
  with 1(1) 3(1,2) show ?case by auto
qed

section \<open>Arbitrary input\<close>

lemma decode_loop_faults:
  "decode_integer_loop used m i bs = Inl e \<Longrightarrow> e = Shift_overflow"
  by (induction used m i bs rule: decode_integer_loop.induct)
    (auto simp: Let_def bind_res_def ensure_def split: if_splits sum.splits)

lemma decode_integer_cases:
  obtains "hpack_decode_integer N bs i = Inl Shift_overflow"
  | n v where "hpack_decode_integer N bs i = Inr (n, v)" "n \<le> length bs"
proof (cases "hpack_decode_integer N bs i")
  case (Inl e)
  then have "e = Shift_overflow"
    by (auto simp: hpack_decode_integer_def Let_def split: list.splits if_splits dest: decode_loop_faults)
  with Inl that(1) show thesis by simp
next
  case (Inr r)
  with decode_integer_length that(2) show thesis by (cases r) auto
qed

text \<open>\<open>returns n r\<close>: the call returns; it faults only by an oversized shift; it consumes at most \<open>n\<close> bytes.\<close>

definition returns :: "('a \<Rightarrow> bool) \<Rightarrow> 'a run \<Rightarrow> bool" where
  "returns P r \<longleftrightarrow> r = Some (Inl Shift_overflow) \<or> (\<exists>x. r = Some (Inr x) \<and> P x)"

lemma returns_bind:
  assumes "returns P r" and "\<And>x. P x \<Longrightarrow> returns Q (f x)"
  shows "returns Q (bind_run r f)"
  using assms(1) assms(2) unfolding returns_def by fastforce

lemma returns_weaken: "returns P r \<Longrightarrow> (\<And>x. P x \<Longrightarrow> Q x) \<Longrightarrow> returns Q r"
  by (auto simp: returns_def)

lemma returns_return [simp]: "returns P (Some (Inr x)) \<longleftrightarrow> P x"
  by (auto simp: returns_def)

lemma returns_overflow [simp]: "returns P (Some (Inl Shift_overflow))"
  by (simp add: returns_def)

lemma advance_drop [simp]: "n \<le> length bs \<Longrightarrow> advance n bs = Inr (drop n bs)"
  by (simp add: advance_def)

lemma huffman_exact:
  assumes "http2_decoded_huffman_len bs = Some (Inr n)" and "n \<noteq> 0"
  shows "\<exists>syms. http2_decode_huffman n bs = Some (Inr (None, syms)) \<and> length syms = n"
proof -
  obtain ec syms where d: "decode_bits (byte_bits bs) = (ec, syms)" by (cases "decode_bits (byte_bits bs)")
  with assms have "ec = None" "n = length syms" by (auto simp: decoded_len_bits split: option.splits)
  with d decode_huffman_bits [of bs n] show ?thesis by simp
qed

text \<open>A reader of strings or headers consumes a positive part of its input, unless it reports an error.\<close>

abbreviation consumes :: "bytes \<Rightarrow> nat \<Rightarrow> errc option \<Rightarrow> bool" where
  "consumes input n ec \<equiv> n \<le> length input \<and> (ec = None \<longrightarrow> 0 < n)"

lemma returns_length_string:
  "returns (\<lambda>(n, str', ec'). consumes input n ec') (decode_length_string input str ec)"
proof (cases input)
  case (Cons b bs)
  note d = decode_length_string_def Cons
  show ?thesis
  proof (cases rule: decode_integer_cases [of 7 input 0])
    case 1
    then show ?thesis by (simp add: d)
  next
    case (2 n v)
    let ?data = "take (unat v) (drop n input)"
    consider "n = 0" | "n \<noteq> 0" "v = 0 \<or> length input - n < unat v \<or> \<not> bit b 7"
      | "n \<noteq> 0" "v \<noteq> 0" "\<not> length input - n < unat v" "bit b 7" by blast
    then show ?thesis
    proof cases
      case 3
      obtain k where k: "http2_decoded_huffman_len ?data = Some (Inr k)" by (simp add: decoded_len_bits)
      show ?thesis
      proof (cases "k = 0")
        case True
        with 2 3 k Cons show ?thesis by (simp add: d Let_def)
      next
        case False
        then obtain syms where "http2_decode_huffman k ?data = Some (Inr (None, syms))"
          using huffman_exact [OF k] by blast
        with 2 3 k False Cons show ?thesis by (simp add: d Let_def)
      qed
    qed (use 2 Cons in \<open>auto simp: d Let_def\<close>)
  qed
qed (simp add: decode_length_string_def)

lemma returns_lookup:
  assumes "dt_inv t"
  obtains h where "table_lookup i t = Inr h"
proof -
  have "dt_holds (dt_max_size t) (contents (dt_headers t)) t" using assms by (simp add: dt_inv_def)
  note g = dt_get_header_entry [OF this, of "i - 61"]
  show thesis
  proof (cases "i < 61")
    case True
    with that show thesis by (simp add: table_lookup_def)
  next
    case False
    with that g show thesis by (simp add: table_lookup_def)
  qed
qed

lemma returns_header_name:
  assumes "dt_inv t"
  shows "returns (\<lambda>(n, name', i, v, ec'). consumes input n ec') (decode_header_name input name ec t)"
proof (cases input)
  case (Cons b bs)
  note d = decode_header_name_def Cons
  let ?N = "if bit b 6 then 6 else 4 :: nat"
  show ?thesis
  proof (cases "\<not> bit b 6 \<and> \<not> (drop_bit 4 b = 0 \<or> drop_bit 4 b = 1)")
    case True
    then show ?thesis by (simp add: d Let_def)
  next
    case prefix: False
    show ?thesis
    proof (cases rule: decode_integer_cases [of ?N input 0])
      case 1
      then show ?thesis using prefix by (simp add: d Let_def)
    next
      case (2 n v)
      obtain h where h: "table_lookup (unat v - 1) t = Inr h" by (rule returns_lookup [OF assms])
      have str: "returns (\<lambda>(k, str', ec'). consumes (drop n input) k ec')
          (decode_length_string (drop n input) name ec)" by (rule returns_length_string)
      show ?thesis
      proof (cases "n = 0 \<or> v \<noteq> 0")
        case True
        then show ?thesis using prefix 2 h Cons
          by (cases h) (auto simp: d Let_def split: prod.splits)
      next
        case False
        then have "decode_header_name input name ec t
            = bind_run (decode_length_string (drop n input) name ec) (\<lambda>(k, name1, ec1).
              bind_run (Some (advance k (drop n input))) (\<lambda>input2.
              Some (Inr (length input - length input2, name1, bit b 6, \<not> bit b 6 \<and> drop_bit 4 b = 1, ec1))))"
          using prefix 2 Cons by (auto simp: d Let_def)
        also have "returns (\<lambda>(n, name', i, v, ec'). consumes input n ec') \<dots>"
          by (rule returns_bind [OF str]) (use False 2 in auto)
        finally show ?thesis .
      qed
    qed
  qed
qed (simp add: decode_header_name_def)

lemma returns_add: "dt_inv t \<Longrightarrow> returns dt_inv (dt_add name val t)"
  using dt_add_adds [of "dt_max_size t" "contents (dt_headers t)" t name val]
    table_size_bounded(1) [of "(name, val)" "(dt_max_size t, contents (dt_headers t))"] dt_holds_abs
  by (fastforce simp: dt_inv_def dt_holds_def)

lemma returns_set_max_size: "dt_inv t \<Longrightarrow> returns dt_inv (Some (dt_set_max_size n t))"
  using dt_set_max_size_resizes [of "dt_max_size t" "contents (dt_headers t)" t n] evict_size dt_holds_abs
  by (fastforce simp: dt_inv_def)

abbreviation header_ok :: "bytes \<Rightarrow> nat \<times> header \<times> errc option \<times> dynamic_table \<Rightarrow> bool" where
  "header_ok input \<equiv> \<lambda>(n, nv, ec, t). consumes input n ec \<and> dt_inv t"

lemma returns_size_update: "dt_inv t \<Longrightarrow> returns (header_ok input) (decode_size_update input ec t)"
proof (cases rule: decode_integer_cases [of 5 input 0])
  case (2 n v)
  assume "dt_inv t"
  from returns_bind [OF returns_set_max_size [OF this, of "unat v"],
      where f = "\<lambda>t1. Some (Inr (n, ([], []), ec, t1))" and Q = "header_ok input"] \<open>dt_inv t\<close>
  show ?thesis using 2 by (auto simp: decode_size_update_def)
qed (simp add: decode_size_update_def)

lemma returns_indexed: "dt_inv t \<Longrightarrow> returns (header_ok input) (decode_indexed input ec t)"
proof (cases rule: decode_integer_cases [of 7 input 0])
  case (2 n v)
  assume inv: "dt_inv t"
  obtain h where "table_lookup (unat v - 1) t = Inr h" by (rule returns_lookup [OF inv])
  with 2 inv show ?thesis by (cases h) (auto simp: decode_indexed_def)
qed (simp add: decode_indexed_def)

lemma returns_literal:
  assumes "dt_inv t"
  shows "returns (header_ok input) (decode_literal input ec t)"
  unfolding decode_literal_def
proof (rule returns_bind [OF returns_header_name [OF assms]], clarify)
  fix n :: nat and name indexed never_indexed and ec1 :: "errc option"
  assume n: "n \<le> length input" and e: "ec1 = None \<longrightarrow> 0 < n"
  let ?upd = "\<lambda>val. if indexed \<and> \<not> never_indexed then dt_add name val t else Some (Inr t)"
  have upd: "returns dt_inv (?upd val)" for val using returns_add [OF assms] assms by simp
  have "returns (header_ok input) (bind_run (decode_length_string (drop n input) [] ec1) (\<lambda>(k2, val, ec2).
       bind_run (Some (advance k2 (drop n input))) (\<lambda>input2.
       if ec2 \<noteq> None then Some (Inr (length input - length input2, (name, val), ec2, t))
       else bind_run (?upd val) (\<lambda>t1.
         Some (Inr (length input - length input2, (name, val), ec2, t1))))))" if "ec1 = None"
  proof (rule returns_bind [OF returns_length_string], clarify)
    fix k2 :: nat and val and ec2 :: "errc option"
    assume k: "k2 \<le> length (drop n input)" and "ec2 = None \<longrightarrow> 0 < k2"
    have "returns (header_ok input) (bind_run (?upd val) (\<lambda>t1.
        Some (Inr (n + k2, (name, val), ec2, t1))))" if "ec2 = None"
      by (rule returns_bind [OF upd]) (use n e k \<open>ec1 = None\<close> in auto)
    with n k assms show "returns (header_ok input) (bind_run (Some (advance k2 (drop n input))) (\<lambda>input2.
       if ec2 \<noteq> None then Some (Inr (length input - length input2, (name, val), ec2, t))
       else bind_run (?upd val) (\<lambda>t1.
         Some (Inr (length input - length input2, (name, val), ec2, t1)))))"
      by (auto simp: add.commute)
  qed
  with n assms show "returns (header_ok input) (bind_run (Some (advance n input)) (\<lambda>input1.
     if ec1 \<noteq> None then Some (Inr (length input - length input1, (name, []), ec1, t))
     else
       bind_run (decode_length_string input1 [] ec1) (\<lambda>(k2, val, ec2).
       bind_run (Some (advance k2 input1)) (\<lambda>input2.
       if ec2 \<noteq> None then Some (Inr (length input - length input2, (name, val), ec2, t))
       else bind_run (?upd val) (\<lambda>t1.
         Some (Inr (length input - length input2, (name, val), ec2, t1)))))))"
    by auto
qed

lemma returns_header:
  assumes "dt_inv t"
  shows "returns (header_ok input) (decode_header input ec t)"
proof (cases input)
  case (Cons b bs)
  then have "decode_header input ec t = (if drop_bit 5 b = 1 then decode_size_update input ec t
      else if bits_check 7 b then decode_indexed input ec t else decode_literal input ec t)"
    by (simp add: decode_header_def)
  then show ?thesis
    using returns_size_update [OF assms, of input ec] returns_indexed [OF assms, of input ec]
      returns_literal [OF assms, of input ec]
    by (simp only: split: if_split) blast
qed (simp add: decode_header_def assms)

lemma returns_headers:
  assumes "dt_inv t"
  shows "returns (\<lambda>(ec, hdrs', t'). dt_inv t') (decode_headers input hdrs t)"
  using assms
proof (induction "length input" arbitrary: input hdrs t rule: less_induct)
  case less
  show ?case
  proof (cases "input = []")
    case False
    from returns_header [OF less(2), of input None] show ?thesis
      unfolding returns_def
    proof (elim disjE exE conjE)
      fix x
      assume x: "decode_header input None t = Some (Inr x)" and ok: "header_ok input x"
      obtain n name val ec t1 where xs: "x = (n, (name, val), ec, t1)" by (metis prod.exhaust)
      show "decode_headers input hdrs t = Some (Inl Shift_overflow) \<or>
          (\<exists>x. decode_headers input hdrs t = Some (Inr x) \<and> (case x of (ec, hdrs', t') \<Rightarrow> dt_inv t'))"
        using less(1) [of "drop n input" t1 "hdr_insert name val hdrs"] x xs ok False
        by (cases ec) (auto simp: decode_headers.simps [of input] returns_def)
    qed (simp add: decode_headers.simps [of input] False)
  qed (use less(2) in simp)
qed

end
