(* ===== verification/Hpack_Properties.thy ===== *)
theory Hpack_Properties
  imports Hpack_Total
begin

text \<open>The properties of HPACK and of the list of HTTP headers.\<close>

text \<open>
  C24: Every 64-bit integer survives encoding and decoding with any prefix size and any flags above
  the prefix, the encoder writes exactly the announced number of bytes and at most eleven. A
  truncated integer is reported; from eleven continuation bytes on, the decoder shifts by more
  than the width of its operand.
\<close>

theorem hpack_integer_codec:
  assumes "2 \<le> N" and "N \<le> 8" and "take_bit N flags = 0" and "list_all (\<lambda>b. b AND 128 = 128) bs"
  shows "hpack_decode_integer N (prefixed flags (hpack_encode_integer N i) @ rest) j
      = Inr (hpack_integer_encoding_len N i, i) \<and>
    length (prefixed flags (hpack_encode_integer N i)) = hpack_integer_encoding_len N i \<and>
    hpack_integer_encoding_len N i \<le> 11 \<and>
    (length bs \<le> 10 \<longrightarrow> (\<exists>v. hpack_decode_integer N (0xff # bs) j = Inr (0, v))) \<and>
    (10 \<le> length bs \<longrightarrow> hpack_decode_integer N (0xff # bs @ b # rest) j = Inl Shift_overflow)"
  using decode_encoded_integer [OF assms(2,3), of i rest j] encoding_len_bound [of N i] assms
    truncated_tail [OF assms(4), of 0 1] overlong_tail [OF assms(4), of 0] all_ones_prefix [of N]
  by (simp add: encoding_len_exact hpack_decode_integer_def)

theorem hpack_integer_codec_witness:
  "hpack_decode_integer 5 (prefixed 0x20 (hpack_encode_integer 5 1337)) 0 = Inr (3, 1337)"
proof -
  have "hpack_integer_encoding_len 5 1337 = 3"
    by (simp add: hpack_integer_encoding_len_def two_N_1_def integer_len_loop.simps push_bit_eq_mult)
  moreover have "take_bit 5 (0x20 :: u8) = 0" by (simp add: take_bit_eq_mod)
  ultimately show ?thesis
    using hpack_integer_codec [of 5 "0x20" "[]" 1337 "[]" 0] by simp
qed

text \<open>
  C25: Huffman coding. The encoder fills a zeroed buffer of the announced size without leaving it,
  the decoder announces the length of the text and reads the text again. The number the
  encoder returns leaves out a last, partly filled byte.
\<close>

theorem huffman_round_trip:
  "\<exists>n encoded.
     http2_encoded_huffman_len str = Inr n \<and>
     http2_encode_huffman str (replicate n 0) = Inr (length (text_bits str) div 8, encoded) \<and>
     length encoded = n \<and>
     http2_decoded_huffman_len encoded = Some (Inr (length str)) \<and>
     http2_decode_huffman (length str) encoded = Some (Inr (None, str))"
proof -
  obtain mem k where m: "http2_encode_huffman str (replicate (bytes_for (length (text_bits str))) 0)
      = Inr (length (text_bits str) div 8, mem)"
    "length mem = bytes_for (length (text_bits str))" "k < 8"
    "byte_bits mem = text_bits str @ replicate k True"
    using encode_huffman_written [OF refl] by blast
  have "decode_bits (byte_bits mem) = (None, str)" using decode_text_bits [OF m(3)] m(4) by simp
  with m show ?thesis by (simp add: encoded_len_bits decoded_len_bits decode_huffman_bits)
qed

lemma malformed_byte:
  "http2_decoded_huffman_len [0x00] = Some (Inr 0)" "http2_decode_huffman 0 [0x00] = Some (Inl Out_of_bounds)"
  by code_simp+

text \<open>
  C26: The announced length of arbitrary bytes is computed without a fault. When it is not 0, decoding into a
  buffer of that length succeeds and fills it exactly. Length 0 is the refusal of malformed bytes, and decoding must not
  follow it: the single byte 0 announces 0, and decoding it writes a symbol outside the empty buffer.
\<close>

theorem huffman_decode_total:
  "(\<exists>n. http2_decoded_huffman_len bytes = Some (Inr n) \<and>
     (n \<noteq> 0 \<longrightarrow> (\<exists>syms. http2_decode_huffman n bytes = Some (Inr (None, syms)) \<and> length syms = n))) \<and>
   http2_decoded_huffman_len [0x00] = Some (Inr 0) \<and> http2_decode_huffman 0 [0x00] = Some (Inl Out_of_bounds)"
  using huffman_exact [of bytes] malformed_byte by (auto simp: decoded_len_bits [of bytes])

text \<open>Single bytes: the code of the digit 0 with its padding.\<close>

lemma zero_digit_len: "http2_decoded_huffman_len [0x07] = Some (Inr 1)"
proof -
  have e: "entry_of 0x30 = \<lparr>he_symbol = 0x30, he_len = 5, he_code = 0\<rparr>"
    by (simp add: entry_of_def http2_huffman_table_def huffman_rows_def huffman_entry_def)
  have "byte_bits [0x07] = text_bits [0x30] @ replicate 3 True"
    by (simp add: e code_bits_def msb_bits_def upt_rec numeral_eq_Suc)
  then have "decode_bits (byte_bits [0x07]) = (None, [0x30])" using decode_text_bits [of 3 "[0x30]"] by simp
  then show ?thesis by (simp add: decoded_len_bits)
qed

theorem huffman_decode_total_witness:
  "\<exists>syms. http2_decode_huffman 1 [0x07] = Some (Inr (None, syms)) \<and> length syms = 1"
  using huffman_decode_total [of "[0x07]"] zero_digit_len by auto

text \<open>
  C27: The dynamic table. Every sequence of calls on a new table returns without a fault and
  behaves as the table of the standard: entries are evicted from the oldest on until the new one
  fits, indices count from the newest entry, and the size never exceeds the maximum.
\<close>

theorem dynamic_table_runs_as_specified:
  "\<exists>t. run_steps dt_step cs dt_new = Some (Inr (fst (run_spec table_spec cs (0, [])), t)) \<and>
     dt_abs t = snd (run_spec table_spec cs (0, [])) \<and>
     dt_headers_size t = table_size (snd (dt_abs t)) \<and> dt_headers_size t \<le> dt_max_size t"
proof -
  have "dt_inv dt_new \<and> dt_abs dt_new = (0, [])" using dt_holds_abs [OF dt_new_holds] by simp
  then obtain t where "run_steps dt_step cs dt_new = Some (Inr (fst (run_spec table_spec cs (0, [])), t))"
    "dt_inv t" "dt_abs t = snd (run_spec table_spec cs (0, []))"
    using dtq.run_refines [of dt_new cs] by auto
  then show ?thesis by (auto simp: dt_inv_def dt_holds_def dt_abs_def)
qed

text \<open>A table of the default size.\<close>

definition fresh_table :: dynamic_table where
  "fresh_table = dt_new\<lparr>dt_max_size := 4096\<rparr>"

lemma fresh_holds: "dt_holds 4096 [] fresh_table"
  using dt_new_holds by (simp add: fresh_table_def dt_holds_def)

lemma fresh_in_step: "in_step 4096 [] fresh_table fresh_table"
  using fresh_holds by (simp add: in_step_def)

text \<open>A header the codec does not change: a lower-case name, and a value that no static row matches in another case.\<close>

definition unchanged_header :: "bool \<Rightarrow> header \<Rightarrow> bool" where
  "unchanged_header never_indexed h \<longleftrightarrow>
     to_lower (fst h) = fst h \<and> decoded_value never_indexed (fst h) (snd h) = snd h"

lemma unchanged_fields:
  assumes "\<forall>h\<in>set hs. unchanged_header never_indexed h" and "distinct (map fst hs)"
  shows "decoded_list never_indexed hs = hs" "distinct (names hs)"
proof -
  show "decoded_list never_indexed hs = hs"
    using assms(1) by (auto simp: decoded_list_def unchanged_header_def intro!: map_idI)
  have "names hs = map fst hs" using assms(1) by (simp add: unchanged_header_def)
  then show "distinct (names hs)" using assms(2) by (simp only:)
qed

lemma unchanged_list:
  assumes "\<forall>h\<in>set hs. unchanged_header never_indexed h" and "distinct (map fst hs)"
  shows "hdr_append [] (decoded_list never_indexed hs) = hs"
  using unchanged_fields [OF assms] hdr_append_distinct [of hs "[]"] by (simp add: hdr_contains_def hdr_find_def)

text \<open>
  C28: What decoding makes of encoded headers. Unless a header is to be indexed and never indexed at once,
  from tables in step any list of encodable headers is encoded, with or without Huffman coding, and the decoder inserts
  into its list each name in lower case and each value, a value of the static table in the static table's case; the
  tables are in step afterwards. A list of different lower-case names whose values no static row matches in another
  case arrives unchanged in an empty list.
\<close>

theorem hpack_headers_round_trip:
  assumes "in_step m es (enc_table enc) td" and "\<not> (indexed \<and> never_indexed)"
    and "\<forall>h\<in>set hs. encodable (fst h) \<and> encodable (snd h)"
  shows "\<exists>out enc' es' td'.
    encode_headers hs indexed huffman never_indexed enc = Some (Inr (out, enc')) \<and>
    decode_headers out hdrs td = Some (Inr (None, hdr_append hdrs (decoded_list never_indexed hs), td')) \<and>
    in_step m es' (enc_table enc') td' \<and>
    (hdrs = [] \<and> distinct (map fst hs) \<and> (\<forall>h\<in>set hs. unchanged_header never_indexed h) \<longrightarrow>
      decode_headers out hdrs td = Some (Inr (None, hs, td')))"
proof -
  have "hdrs = [] \<and> distinct (map fst hs) \<and> (\<forall>h\<in>set hs. unchanged_header never_indexed h) \<longrightarrow>
      hdr_append hdrs (decoded_list never_indexed hs) = hs" using unchanged_list by blast
  with encode_headers_decode [OF assms, of huffman] show ?thesis by (metis (no_types, lifting))
qed

lemma sample_decoded:
  "decoded_list False [(bytes_of ''Key'', bytes_of ''V''), (bytes_of '':path'', bytes_of ''/INDEX.html'')]
     = [(bytes_of ''key'', bytes_of ''V''), (bytes_of '':path'', bytes_of ''/index.html'')]"
  by code_simp

theorem hpack_headers_round_trip_witness:
  "\<exists>out enc' td'.
     encode_headers [(bytes_of ''Key'', bytes_of ''V''), (bytes_of '':path'', bytes_of ''/INDEX.html'')]
       True True False \<lparr>enc_table = fresh_table, enc_host = [], enc_scheme = []\<rparr> = Some (Inr (out, enc')) \<and>
     decode_headers out [] fresh_table = Some (Inr (None,
       [(bytes_of ''key'', bytes_of ''V''), (bytes_of '':path'', bytes_of ''/index.html'')], td'))"
proof -
  let ?hs = "[(bytes_of ''Key'', bytes_of ''V''), (bytes_of '':path'', bytes_of ''/INDEX.html'')]"
  have "\<forall>h\<in>set ?hs. encodable (fst h) \<and> encodable (snd h)" by (simp add: encodable_def bytes_of_def)
  moreover have "hdr_append [] (decoded_list False ?hs)
      = [(bytes_of ''key'', bytes_of ''V''), (bytes_of '':path'', bytes_of ''/index.html'')]"
    unfolding sample_decoded by code_simp
  ultimately show ?thesis
    using hpack_headers_round_trip [of 4096 "[]" "\<lparr>enc_table = fresh_table, enc_host = [], enc_scheme = []\<rparr>"
        fresh_table True False ?hs True "[]"] fresh_in_step
    by auto
qed

text \<open>
  C29: The decoder on arbitrary bytes always returns. The only fault it can run into is the
  oversized shift of the integer decoder; otherwise it ends with an error code or a list of headers, and
  the dynamic table is well formed and within its maximum size in both cases.
\<close>

theorem hpack_decoder_total:
  assumes "dt_inv t"
  shows "decode_headers input hdrs t = Some (Inl Shift_overflow) \<or>
    (\<exists>ec hdrs' t'. decode_headers input hdrs t = Some (Inr (ec, hdrs', t')) \<and> dt_inv t' \<and>
       dt_headers_size t' \<le> dt_max_size t')"
  using returns_headers [OF assms, of input hdrs] by (auto simp: returns_def dt_inv_def)

lemma fresh_inv: "dt_inv fresh_table"
  using dt_holds_abs [OF fresh_holds] by simp

theorem hpack_decoder_total_witness:
  "decode_headers [0xbe] [] fresh_table = Some (Inl Shift_overflow) \<or>
    (\<exists>ec hdrs' t'. decode_headers [0xbe] [] fresh_table = Some (Inr (ec, hdrs', t')) \<and> dt_inv t' \<and>
       dt_headers_size t' \<le> dt_max_size t')"
  using hpack_decoder_total [OF fresh_inv] .

section \<open>Where encoder and decoder part\<close>

lemma encode_never_indexed:
  assumes "dt_holds m [] (enc_table enc)" and "dt_holds m [] td" and "m < 2 ^ 64"
    and "encodable name" "encodable val"
  shows "\<exists>out te'. encode_header name val huffman True True enc = Some (Inr (out, enc\<lparr>enc_table := te'\<rparr>)) \<and>
    dt_add name val (enc_table enc) = Some (Inr te') \<and>
    decode_header out None td = Some (Inr (length out, (to_lower name, val), None, td))"
proof -
  have s: "in_step m [] (enc_table enc) td" using assms(1-3) by (simp add: in_step_def)
  obtain te' where t: "dt_add name val (enc_table enc) = Some (Inr te')"
    using in_step_add [OF s, of name val] by blast
  have same: "encode_name_index True True k = encode_name_index False True k" for k
    by (simp add: encode_name_index_def)
  obtain name_index b1 c cs where 1:
    "(case find_predefined_http2_name name of Some i \<Rightarrow> Inr (Some i) | None \<Rightarrow> dt_find_name name (enc_table enc))
       = Inr name_index"
    "bind_res (encode_name_index False True (case name_index of Some i \<Rightarrow> i | None \<Rightarrow> 0)) (\<lambda>p.
      bind_res (if name_index = None then encode_length_string (to_lower name) huffman else Inr []) (\<lambda>q.
        Inr (p @ q))) = Inr b1"
    "b1 = c # cs" "\<not> bit c 7" "drop_bit 5 c \<noteq> 1"
    "\<And>rest. decode_header_name (b1 @ rest) [] None td
       = Some (Inr (length b1, to_lower name, False, True, None))"
    using literal_name [OF s _ assms(4), of False True huffman] by auto
  obtain b2 where 2: "encode_length_string val huffman = Inr b2"
    "\<And>rest. decode_length_string (b2 @ rest) [] None = Some (Inr (length b2, val, None))"
    using decode_encoded_string [OF assms(5), of huffman] by blast
  have "bind_res (encode_name_index True True (case name_index of Some i \<Rightarrow> i | None \<Rightarrow> 0)) (\<lambda>p.
      bind_res (if name_index = None then encode_length_string (to_lower name) huffman else Inr []) (\<lambda>q.
      bind_res (encode_length_string val huffman) (\<lambda>b3. Inr (p @ q @ b3)))) = Inr (b1 @ b2)"
    unfolding same using 1(2) 2(1) by (auto simp: bind_res_eq_Inr)
  then have "encode_header name val huffman True True enc = Some (Inr (b1 @ b2, enc\<lparr>enc_table := te'\<rparr>))"
    using 1(1) t by (simp add: encode_header_def)
  moreover have "decode_header ((b1 @ b2) @ []) None td
      = Some (Inr (length (b1 @ b2), (to_lower name, val), None, td))"
    by (rule decode_literal_header [OF 1(6) 2(2) _ 1(3-5)]) simp
  ultimately show ?thesis using t by auto
qed



text \<open>
  C31: The list of HTTP headers. \<open>insert\<close>, \<open>set\<close>, \<open>append\<close> and \<open>remove\<close> keep headers of the same name next to
  each other; on such lists \<open>remove\<close> removes every header of the name and nothing else, \<open>count\<close> and
  \<open>equal_range\<close> account for all of them, and \<open>insert\<close> puts the new header second among them.
\<close>

theorem http_headers_grouped:
  assumes "grouped hs"
  shows "grouped (hdr_insert name val hs) \<and> grouped (hdr_set name val hs) \<and>
    grouped (hdr_append hs other) \<and> grouped (hdr_remove name hs) \<and>
    hdr_remove name hs = filter (\<lambda>h. \<not> iequal (fst h) name) hs \<and>
    hdr_equal_range name hs = filter (\<lambda>h. iequal (fst h) name) hs \<and>
    hdr_count name hs = length (filter (\<lambda>h. iequal (fst h) name) hs) \<and>
    filter (\<lambda>h. iequal (fst h) name) (hdr_insert name val hs) =
      (case filter (\<lambda>h. iequal (fst h) name) hs of
         [] \<Rightarrow> [(name, val)] | h # rest \<Rightarrow> h # (name, val) # rest)"
  using hdr_insert_grouped [OF assms] hdr_set_grouped [OF assms] hdr_append_grouped [OF assms]
    conjunct1 [OF hdr_remove_filter [OF assms, of name]] conjunct2 [OF hdr_remove_filter [OF assms, of name]]
    hdr_equal_range_filter [OF assms] hdr_insert_filter [OF assms]
  by (simp add: hdr_count_filter)

theorem http_headers_grouped_witness:
  "hdr_count (bytes_of ''A'') (hdr_from_list [(bytes_of ''a'', []), (bytes_of ''b'', []), (bytes_of ''A'', [])]) = 2"
proof -
  let ?hs = "hdr_from_list [(bytes_of ''a'', []), (bytes_of ''b'', []), (bytes_of ''A'', [])]"
  have "grouped ?hs" by (simp add: hdr_from_list_def hdr_insert_grouped)
  moreover have "length (filter (\<lambda>h. iequal (fst h) (bytes_of ''A'')) ?hs) = 2" by code_simp
  ultimately show ?thesis using http_headers_grouped by metis
qed

end
