(* ===== verification/String_Tools.thy ===== *)
theory String_Tools
  imports Case_Strings
begin

text \<open>
  Splitting strings and reading numbers, \<open>src/include/rad/string.h\<close>. \<open>str_find\<close> is
  \<open>std::string_view::find\<close> and \<open>from_chars\<close> is \<open>std::from_chars\<close> for unsigned types, as the C++ standard
  defines them; \<open>to_decimal\<close> is \<open>std::to_string\<close>. The splitting loop does not end for an empty delimiter.
\<close>

type_synonym u32 = "32 word"

section \<open>The code\<close>


definition str_find :: "bytes \<Rightarrow> bytes \<Rightarrow> nat \<Rightarrow> nat option" where
  "str_find str delim pos =
     List.find (\<lambda>i. take (length delim) (drop i str) = delim) [pos..<Suc (length str) - length delim]"

definition substr :: "bytes \<Rightarrow> nat \<Rightarrow> nat \<Rightarrow> bytes" where
  "substr str pos n = take n (drop pos str)"

partial_function (option) split_loop :: "bytes \<Rightarrow> bytes \<Rightarrow> nat \<Rightarrow> bytes list option" where
  "split_loop str delim first_pos =
     (case str_find str delim first_pos of
        None \<Rightarrow> Some [substr str first_pos (length str - first_pos)]
      | Some last_pos \<Rightarrow>
          Option.bind (split_loop str delim (last_pos + length delim)) (\<lambda>parts.
            Some (substr str first_pos (last_pos - first_pos) # parts)))"

definition split :: "bytes \<Rightarrow> bytes \<Rightarrow> bytes list option" where
  "split str delim = split_loop str delim 0"

definition digit_value :: "nat \<Rightarrow> u8 \<Rightarrow> nat option" where
  "digit_value base c =
     (let v = (if 0x30 \<le> c \<and> c \<le> 0x39 then unat c - 0x30
               else if 0x61 \<le> c \<and> c \<le> 0x7a then unat c - 0x61 + 10
               else if 0x41 \<le> c \<and> c \<le> 0x5a then unat c - 0x41 + 10 else 36)
      in if v < base then Some v else None)"

definition number_of :: "nat \<Rightarrow> bytes \<Rightarrow> nat" where
  "number_of base ds = foldl (\<lambda>n c. n * base + the (digit_value base c)) 0 ds"

definition from_chars :: "nat \<Rightarrow> nat \<Rightarrow> bytes \<Rightarrow> errc option \<times> nat \<times> bytes" where
  "from_chars bits base str =
     (let ds = takeWhile (\<lambda>c. digit_value base c \<noteq> None) str; rest = drop (length ds) str in
      if ds = [] then (Some Invalid_argument, 0, str)
      else if number_of base ds < 2 ^ bits then (None, number_of base ds, rest)
      else (Some Result_out_of_range, 0, rest))"

definition to_numeric :: "nat \<Rightarrow> bytes \<Rightarrow> nat \<Rightarrow> errc option \<times> nat" where
  "to_numeric bits str base =
     (let (ec, ret, ptr) = from_chars bits base str in
      (if ptr \<noteq> [] then Some Invalid_argument else ec, ret))"

definition to_uint32 :: "bytes \<Rightarrow> nat \<Rightarrow> errc option \<times> u32" where
  "to_uint32 str base = (let (ec, ret) = to_numeric 32 str base in (ec, of_nat ret))"

fun to_decimal :: "nat \<Rightarrow> bytes" where
  "to_decimal n = (if n < 10 then [0x30 + of_nat n] else to_decimal (n div 10) @ [0x30 + of_nat (n mod 10)])"

declare to_decimal.simps [simp del]

section \<open>Splitting at a character\<close>

fun split_on :: "u8 \<Rightarrow> bytes \<Rightarrow> bytes list" where
  "split_on d [] = [[]]"
| "split_on d (c # str) =
     (if c = d then [] # split_on d str
      else (case split_on d str of p # ps \<Rightarrow> (c # p) # ps | [] \<Rightarrow> [[c]]))"

lemma split_on_not_Nil [simp]: "split_on d str \<noteq> []"
  by (induction str) (auto split: list.splits)

lemma split_on_absent: "d \<notin> set str \<Longrightarrow> split_on d str = [str]"
  by (induction str) auto

lemma split_on_append: "d \<notin> set us \<Longrightarrow> split_on d (us @ d # vs) = us # split_on d vs"
  by (induction us) auto

lemma split_on_pieces: "p \<in> set (split_on d str) \<Longrightarrow> d \<notin> set p \<and> length p \<le> length str"
proof (induction str arbitrary: p)
  case (Cons c str)
  obtain q qs where q: "split_on d str = q # qs" by (cases "split_on d str") auto
  from Cons.prems Cons.IH [of q] Cons.IH show ?case by (fastforce simp: q split: if_splits)
qed simp

lemma take_drop_single: "take (Suc 0) (drop i str) = [d] \<longleftrightarrow> i < length str \<and> str ! i = d"
  by (cases "i < length str") (auto simp: take_Suc hd_drop_conv_nth)

lemma find_upt_None: "List.find P [i..<j] = None \<longleftrightarrow> (\<forall>k. i \<le> k \<and> k < j \<longrightarrow> \<not> P k)"
  by (auto simp: find_None_iff)

lemma find_upt_Some:
  "List.find P [i..<j] = Some k \<longleftrightarrow> i \<le> k \<and> k < j \<and> P k \<and> (\<forall>l. i \<le> l \<and> l < k \<longrightarrow> \<not> P l)"
proof -
  have "List.find P [i..<j] = Some k \<longleftrightarrow>
      (\<exists>n<j - i. P (i + n) \<and> k = i + n \<and> (\<forall>m<n. \<not> P (i + m)))"
    by (auto simp: find_Some_iff)
  also have "\<dots> \<longleftrightarrow> i \<le> k \<and> k < j \<and> P k \<and> (\<forall>l. i \<le> l \<and> l < k \<longrightarrow> \<not> P l)"
    by (auto intro!: exI [of _ "k - i"]) (metis less_diff_conv2 add.commute le_add_diff_inverse le_add1 nat_le_iff_add less_imp_le_nat nat_add_left_cancel_less)+
  finally show ?thesis .
qed

lemma split_loop_split_on: "pos \<le> length str \<Longrightarrow> split_loop str [d] pos = Some (split_on d (drop pos str))"
proof (induction "length str - pos" arbitrary: pos rule: less_induct)
  case less
  show ?case
  proof (cases "str_find str [d] pos")
    case None
    then have "\<forall>k. pos \<le> k \<and> k < length str \<longrightarrow> str ! k \<noteq> d"
      by (simp add: str_find_def find_upt_None take_drop_single)
    then have "d \<notin> set (drop pos str)" by (auto simp: in_set_conv_nth less_diff_conv add.commute)
    with None show ?thesis by (simp add: split_loop.simps [of str] split_on_absent substr_def)
  next
    case (Some k)
    then have k: "pos \<le> k" "k < length str" "str ! k = d" "\<forall>l. pos \<le> l \<and> l < k \<longrightarrow> str ! l \<noteq> d"
      by (auto simp: str_find_def find_upt_Some take_drop_single)
    have "drop pos str = take (k - pos) (drop pos str) @ d # drop (Suc k) str"
      using k by (metis append_take_drop_id drop_drop id_take_nth_drop Cons_nth_drop_Suc le_add_diff_inverse2)
    moreover have "d \<notin> set (take (k - pos) (drop pos str))" using k(2,4) by (auto simp: in_set_conv_nth)
    ultimately have "split_on d (drop pos str) = take (k - pos) (drop pos str) # split_on d (drop (Suc k) str)"
      by (metis split_on_append)
    with Some k less.hyps [of "Suc k"] show ?thesis by (simp add: split_loop.simps [of str] substr_def)
  qed
qed

lemma split_split_on [simp]: "split str [d] = Some (split_on d str)"
  by (simp add: split_def split_loop_split_on)

section \<open>Decimal numbers\<close>

lemma digit_value_decimal: "n < 10 \<Longrightarrow> digit_value 10 (0x30 + of_nat n) = Some n"
  by (simp add: digit_value_def word_le_nat_alt unat_word_ariths unat_of_nat Let_def)

lemma to_decimal_digits: "c \<in> set (to_decimal n) \<Longrightarrow> \<exists>k<10. c = 0x30 + of_nat k"
proof (induction n rule: to_decimal.induct)
  case (1 n)
  show ?case
  proof (cases "n < 10")
    case True
    with "1.prems" show ?thesis by (auto simp: to_decimal.simps [of n])
  next
    case False
    with 1 show ?thesis by (auto simp: to_decimal.simps [of n] intro: exI [of _ "n mod 10"])
  qed
qed

lemma to_decimal_number: "number_of 10 (to_decimal n) = n"
proof (induction n rule: to_decimal.induct)
  case (1 n)
  then show ?case
    by (cases "n < 10") (simp_all add: to_decimal.simps [of n] number_of_def digit_value_decimal)
qed

lemma to_decimal_not_Nil [simp]: "to_decimal n \<noteq> []"
  by (simp add: to_decimal.simps)

lemma to_uint32_to_decimal [simp]: "to_uint32 (to_decimal (unat i)) 10 = (None, i)"
proof -
  have "\<forall>c\<in>set (to_decimal (unat i)). digit_value 10 c \<noteq> None"
    using to_decimal_digits digit_value_decimal by fastforce
  then have "takeWhile (\<lambda>c. digit_value 10 c \<noteq> None) (to_decimal (unat i)) = to_decimal (unat i)"
    by (simp only: takeWhile_eq_all_conv)
  then have "from_chars 32 10 (to_decimal (unat i)) = (None, unat i, [])" if "unat i < 2 ^ 32"
    using that by (simp only: from_chars_def Let_def to_decimal_number) simp
  moreover have "unat i < 2 ^ 32" using unsigned_less [of i, where 'a = nat] by simp
  ultimately show ?thesis by (simp add: to_uint32_def to_numeric_def)
qed

end
