(* ===== verification/Http_Message.thy ===== *)
theory Http_Message
  imports Http_Headers String_Tools
begin

text \<open>
  HTTP messages, \<open>src/include/rad/net/http/http_parser.h\<close> and \<open>src/src/net/http/http_headers_fields.cpp\<close>: methods,
  versions, error codes, the names of the defined fields, and the containers of requests and
  responses. A \<open>field\<close> is its value in the enumeration.
\<close>

section \<open>Methods and versions\<close>

datatype verb = Invalid | Get | Post | Put | Head | Delete | Options | Connect

definition http_verbs :: "bytes list" where
  "http_verbs = map bytes_of [''GET'', ''POST'', ''PUT'', ''HEAD'', ''DELETE'', ''OPTIONS'', ''CONNECT'']"

primrec verb_index :: "verb \<Rightarrow> nat" where
  "verb_index Invalid = 0"
| "verb_index Get = 1"
| "verb_index Post = 2"
| "verb_index Put = 3"
| "verb_index Head = 4"
| "verb_index Delete = 5"
| "verb_index Options = 6"
| "verb_index Connect = 7"

definition verb_of_index :: "nat \<Rightarrow> verb" where
  "verb_of_index i = [Invalid, Get, Post, Put, Head, Delete, Options, Connect] ! i"

text \<open>The index of \<open>Invalid\<close> wraps around to the largest \<open>size_t\<close>, which is past the table.\<close>

definition verb_to_string :: "verb \<Rightarrow> bytes" where
  "verb_to_string v =
     (let v_index = of_nat (verb_index v) - 1 :: 64 word in
      if unat v_index \<ge> length http_verbs then [] else http_verbs ! unat v_index)"

fun string_to_verb_loop :: "bytes \<Rightarrow> nat \<Rightarrow> bytes list \<Rightarrow> verb" where
  "string_to_verb_loop str index [] = Invalid"
| "string_to_verb_loop str index (v # vs) =
     (if v = str then verb_of_index (index + 1) else string_to_verb_loop str (index + 1) vs)"

definition string_to_verb :: "bytes \<Rightarrow> verb" where
  "string_to_verb str = string_to_verb_loop str 0 http_verbs"

datatype version = Version_invalid | V1_0 | V1_1

lemma verb_to_string_nth: "verb_to_string v = (if v = Invalid then [] else http_verbs ! (verb_index v - 1))"
  by (cases v) (simp_all add: verb_to_string_def http_verbs_def Let_def unsigned_minus_1_eq_mask mask_eq_exp_minus_1)

lemma string_to_verb_to_string [simp]: "string_to_verb (verb_to_string v) = v"
  by (cases v; hypsubst; unfold verb_to_string_nth; code_simp)

lemma verb_to_string_empty [simp]: "verb_to_string v = [] \<longleftrightarrow> v = Invalid"
  by (cases v) (simp_all add: verb_to_string_nth http_verbs_def bytes_of_def)

section \<open>Field names\<close>

type_synonym field = nat

definition headers_names_values :: "string list" where
  "headers_names_values = [
    ''<unknown-field>'', ''A-IM'', ''Accept'', ''Accept-Additions'', ''Accept-Charset'',
    ''Accept-Datetime'', ''Accept-Encoding'', ''Accept-Features'', ''Accept-Language'',
    ''Accept-Patch'', ''Accept-Post'', ''Accept-Ranges'', ''Access-Control'',
    ''Access-Control-Allow-Credentials'', ''Access-Control-Allow-Headers'',
    ''Access-Control-Allow-Methods'', ''Access-Control-Allow-Origin'',
    ''Access-Control-Expose-Headers'', ''Access-Control-Max-Age'',
    ''Access-Control-Request-Headers'', ''Access-Control-Request-Method'', ''Age'', ''Allow'',
    ''ALPN'', ''Also-Control'', ''Alt-Svc'', ''Alt-Used'', ''Alternate-Recipient'', ''Alternates'',
    ''Apparently-To'', ''Apply-To-Redirect-Ref'', ''Approved'', ''Archive'', ''Archived-At'',
    ''Article-Names'', ''Article-Updates'', ''Authentication-Control'', ''Authentication-Info'',
    ''Authentication-Results'', ''Authorization'', ''Auto-Submitted'', ''Autoforwarded'',
    ''Autosubmitted'', ''Base'', ''Bcc'', ''Body'', ''C-Ext'', ''C-Man'', ''C-Opt'', ''C-PEP'',
    ''C-PEP-Info'', ''Cache-Control'', ''CalDAV-Timezones'', ''Cancel-Key'', ''Cancel-Lock'',
    ''Cc'', ''Close'', ''Comments'', ''Compliance'', ''Connection'', ''Content-Alternative'',
    ''Content-Base'', ''Content-Description'', ''Content-Disposition'', ''Content-Duration'',
    ''Content-Encoding'', ''Content-features'', ''Content-ID'', ''Content-Identifier'',
    ''Content-Language'', ''Content-Length'', ''Content-Location'', ''Content-MD5'',
    ''Content-Range'', ''Content-Return'', ''Content-Script-Type'', ''Content-Style-Type'',
    ''Content-Transfer-Encoding'', ''Content-Type'', ''Content-Version'', ''Control'',
    ''Conversion'', ''Conversion-With-Loss'', ''Cookie'', ''Cookie2'', ''Cost'', ''DASL'',
    ''Date'', ''Date-Received'', ''DAV'', ''Default-Style'', ''Deferred-Delivery'',
    ''Delivery-Date'', ''Delta-Base'', ''Depth'', ''Derived-From'', ''Destination'',
    ''Differential-ID'', ''Digest'', ''Discarded-X400-IPMS-Extensions'',
    ''Discarded-X400-MTS-Extensions'', ''Disclose-Recipients'',
    ''Disposition-Notification-Options'', ''Disposition-Notification-To'', ''Distribution'',
    ''DKIM-Signature'', ''DL-Expansion-History'', ''Downgraded-Bcc'', ''Downgraded-Cc'',
    ''Downgraded-Disposition-Notification-To'', ''Downgraded-Final-Recipient'',
    ''Downgraded-From'', ''Downgraded-In-Reply-To'', ''Downgraded-Mail-From'',
    ''Downgraded-Message-Id'', ''Downgraded-Original-Recipient'', ''Downgraded-Rcpt-To'',
    ''Downgraded-References'', ''Downgraded-Reply-To'', ''Downgraded-Resent-Bcc'',
    ''Downgraded-Resent-Cc'', ''Downgraded-Resent-From'', ''Downgraded-Resent-Reply-To'',
    ''Downgraded-Resent-Sender'', ''Downgraded-Resent-To'', ''Downgraded-Return-Path'',
    ''Downgraded-Sender'', ''Downgraded-To'', ''EDIINT-Features'', ''Eesst-Version'', ''Encoding'',
    ''Encrypted'', ''Errors-To'', ''ETag'', ''Expect'', ''Expires'', ''Expiry-Date'', ''Ext'',
    ''Followup-To'', ''Forwarded'', ''From'', ''Generate-Delivery-Report'', ''GetProfile'',
    ''Hobareg'', ''Host'', ''HTTP2-Settings'', ''If'', ''If-Match'', ''If-Modified-Since'',
    ''If-None-Match'', ''If-Range'', ''If-Schedule-Tag-Match'', ''If-Unmodified-Since'', ''IM'',
    ''Importance'', ''In-Reply-To'', ''Incomplete-Copy'', ''Injection-Date'', ''Injection-Info'',
    ''Jabber-ID'', ''Keep-Alive'', ''Keywords'', ''Label'', ''Language'', ''Last-Modified'',
    ''Latest-Delivery-Time'', ''Lines'', ''Link'', ''List-Archive'', ''List-Help'', ''List-ID'',
    ''List-Owner'', ''List-Post'', ''List-Subscribe'', ''List-Unsubscribe'',
    ''List-Unsubscribe-Post'', ''Location'', ''Lock-Token'', ''Man'', ''Max-Forwards'',
    ''Memento-Datetime'', ''Message-Context'', ''Message-ID'', ''Message-Type'', ''Meter'',
    ''Method-Check'', ''Method-Check-Expires'', ''MIME-Version'',
    ''MMHS-Acp127-Message-Identifier'', ''MMHS-Authorizing-Users'',
    ''MMHS-Codress-Message-Indicator'', ''MMHS-Copy-Precedence'', ''MMHS-Exempted-Address'',
    ''MMHS-Extended-Authorisation-Info'', ''MMHS-Handling-Instructions'',
    ''MMHS-Message-Instructions'', ''MMHS-Message-Type'', ''MMHS-Originator-PLAD'',
    ''MMHS-Originator-Reference'', ''MMHS-Other-Recipients-Indicator-CC'',
    ''MMHS-Other-Recipients-Indicator-To'', ''MMHS-Primary-Precedence'',
    ''MMHS-Subject-Indicator-Codes'', ''MT-Priority'', ''Negotiate'', ''Newsgroups'',
    ''NNTP-Posting-Date'', ''NNTP-Posting-Host'', ''Non-Compliance'', ''Obsoletes'', ''Opt'',
    ''Optional'', ''Optional-WWW-Authenticate'', ''Ordering-Type'', ''Organization'', ''Origin'',
    ''Original-Encoded-Information-Types'', ''Original-From'', ''Original-Message-ID'',
    ''Original-Recipient'', ''Original-Sender'', ''Original-Subject'',
    ''Originator-Return-Address'', ''Overwrite'', ''P3P'', ''Path'', ''PEP'', ''Pep-Info'',
    ''PICS-Label'', ''Position'', ''Posting-Version'', ''Pragma'', ''Prefer'',
    ''Preference-Applied'', ''Prevent-NonDelivery-Report'', ''Priority'', ''Privicon'',
    ''ProfileObject'', ''Protocol'', ''Protocol-Info'', ''Protocol-Query'', ''Protocol-Request'',
    ''Proxy-Authenticate'', ''Proxy-Authentication-Info'', ''Proxy-Authorization'',
    ''Proxy-Connection'', ''Proxy-Features'', ''Proxy-Instruction'', ''Public'',
    ''Public-Key-Pins'', ''Public-Key-Pins-Report-Only'', ''Range'', ''Received'',
    ''Received-SPF'', ''Redirect-Ref'', ''References'', ''Referer'', ''Referer-Root'',
    ''Relay-Version'', ''Reply-By'', ''Reply-To'', ''Require-Recipient-Valid-Since'',
    ''Resent-Bcc'', ''Resent-Cc'', ''Resent-Date'', ''Resent-From'', ''Resent-Message-ID'',
    ''Resent-Reply-To'', ''Resent-Sender'', ''Resent-To'', ''Resolution-Hint'',
    ''Resolver-Location'', ''Retry-After'', ''Return-Path'', ''Safe'', ''Schedule-Reply'',
    ''Schedule-Tag'', ''Sec-WebSocket-Accept'', ''Sec-WebSocket-Extensions'',
    ''Sec-WebSocket-Key'', ''Sec-WebSocket-Protocol'', ''Sec-WebSocket-Version'',
    ''Security-Scheme'', ''See-Also'', ''Sender'', ''Sensitivity'', ''Server'', ''Set-Cookie'',
    ''Set-Cookie2'', ''SetProfile'', ''SIO-Label'', ''SIO-Label-History'', ''SLUG'',
    ''SoapAction'', ''Solicitation'', ''Status-URI'', ''Strict-Transport-Security'', ''Subject'',
    ''SubOK'', ''Subst'', ''Summary'', ''Supersedes'', ''Surrogate-Capability'',
    ''Surrogate-Control'', ''TCN'', ''TE'', ''Timeout'', ''Title'', ''To'', ''Topic'', ''Trailer'',
    ''Transfer-Encoding'', ''TTL'', ''UA-Color'', ''UA-Media'', ''UA-Pixels'', ''UA-Resolution'',
    ''UA-Windowpixels'', ''Upgrade'', ''Urgency'', ''URI'', ''User-Agent'', ''Variant-Vary'',
    ''Vary'', ''VBR-Info'', ''Version'', ''Via'', ''Want-Digest'', ''Warning'',
    ''WWW-Authenticate'', ''X-Archived-At'', ''X-Device-Accept'', ''X-Device-Accept-Charset'',
    ''X-Device-Accept-Encoding'', ''X-Device-Accept-Language'', ''X-Device-User-Agent'',
    ''X-Frame-Options'', ''X-Mittente'', ''X-PGP-Sig'', ''X-Ricevuta'',
    ''X-Riferimento-Message-ID'', ''X-TipoRicevuta'', ''X-Trasporto'', ''X-VerificaSicurezza'',
    ''X400-Content-Identifier'', ''X400-Content-Return'', ''X400-Content-Type'',
    ''X400-MTS-Identifier'', ''X400-Originator'', ''X400-Received'', ''X400-Recipients'',
    ''X400-Trace'', ''Xref'']"

definition field_to_string :: "field \<Rightarrow> bytes" where
  "field_to_string f =
     (if f \<ge> length headers_names_values then [] else bytes_of (headers_names_values ! f))"

definition field_host :: field where "field_host = 144"
definition field_cookie :: field where "field_cookie = 83"

lemma field_host_name [simp]: "field_to_string field_host = bytes_of ''Host''"
  by code_simp

lemma field_cookie_name [simp]: "field_to_string field_cookie = bytes_of ''Cookie''"
  by code_simp

section \<open>Messages and errors\<close>

datatype http_error = No_error | End_of_stream | Partial_message | Bad_line_ending | Bad_method
  | Bad_target | Bad_version | Bad_status | Bad_reason | Bad_field | Bad_value | Bad_content_length
  | Bad_transfer_encoding | Bad_chunk | Bad_chunk_extension | Too_large_message | Bad_response_code
  | Unexpected_body | Bad_scheme | Too_many_redirections

text \<open>A \<open>std::error_code\<close> of the generic or the HTTP category.\<close>

datatype error_code = Errc errc | Http http_error

record request =
  req_method :: verb
  req_target :: bytes
  req_version :: version
  req_headers :: headers
  req_body :: bytes

record response =
  res_status :: u32
  res_reason :: bytes
  res_headers :: headers
  res_body :: bytes
  res_version :: version

definition response_clear :: "bool \<Rightarrow> response \<Rightarrow> response" where
  "response_clear clear_body res =
     res\<lparr>res_status := 0, res_version := Version_invalid, res_reason := [], res_headers := [],
       res_body := (if clear_body then [] else res_body res)\<rparr>"

end
