(* ===== verification/Hpack_Message.thy ===== *)
theory Hpack_Message
  imports Http_Message Hpack_Codec
begin

text \<open>
  Requests and responses in HPACK, \<open>hpack_encoder::encode\<close> and \<open>hpack_decoder::decode\<close> of
  \<open>src/src/net/http2/hpack.cpp\<close>. An encoder step maps the encoder to the bytes appended and the new
  encoder. The decoders share their loop; what they do with a header is a function of the header and
  the local variables of the call, which ends the call when it sets \<open>ec\<close>.
\<close>

section \<open>Encoding\<close>

type_synonym enc_step = "hpack_encoder \<Rightarrow> (bytes \<times> hpack_encoder) run"

definition no_step :: enc_step where
  "no_step enc = Some (Inr ([], enc))"

definition and_then :: "enc_step \<Rightarrow> enc_step \<Rightarrow> enc_step" where
  "and_then f g enc =
     bind_run (f enc) (\<lambda>(b1, enc1). bind_run (g enc1) (\<lambda>(b2, enc2). Some (Inr (b1 @ b2, enc2))))"

definition trim_spaces :: "bytes \<Rightarrow> bytes" where
  "trim_spaces str = rev (dropWhile (\<lambda>c. c = 0x20) (rev (dropWhile (\<lambda>c. c = 0x20) str)))"

fun encode_cookie_loop :: "(bytes \<Rightarrow> bytes \<Rightarrow> enc_step) \<Rightarrow> bytes list \<Rightarrow> enc_step" where
  "encode_cookie_loop put [] = no_step"
| "encode_cookie_loop put (c # cs) =
     (let cookie_value = trim_spaces c in
      and_then (if cookie_value = [] then no_step else put (field_to_string field_cookie) cookie_value)
        (encode_cookie_loop put cs))"

definition encode_cookies :: "(bytes \<Rightarrow> bytes \<Rightarrow> enc_step) \<Rightarrow> bytes \<Rightarrow> enc_step" where
  "encode_cookies put val enc =
     (case split val (bytes_of '';'') of None \<Rightarrow> None | Some parts \<Rightarrow> encode_cookie_loop put parts enc)"

fun encode_request_loop :: "(bytes \<Rightarrow> bytes \<Rightarrow> enc_step) \<Rightarrow> verb \<Rightarrow> nat \<Rightarrow> nat \<Rightarrow> headers \<Rightarrow> enc_step" where
  "encode_request_loop put method auth_it it [] = no_step"
| "encode_request_loop put method auth_it it (h # hs) =
     and_then
       (if it = auth_it then no_step
        else if method = Connect \<and> iequal (fst h) (field_to_string field_host) then no_step
        else if iequal (fst h) (field_to_string field_cookie) then encode_cookies put (snd h)
        else put (fst h) (snd h))
       (encode_request_loop put method auth_it (it + 1) hs)"

definition find_authority :: "headers \<Rightarrow> nat" where
  "find_authority hdrs =
     (let auth_it = hdr_find (bytes_of '':authority'') hdrs in
      if auth_it = length hdrs then hdr_find (field_to_string field_host) hdrs else auth_it)"

definition encode_request :: "verb \<Rightarrow> bytes \<Rightarrow> headers \<Rightarrow> bool \<Rightarrow> bool \<Rightarrow> bool \<Rightarrow> enc_step" where
  "encode_request method path hdrs indexed huffman never_indexed enc =
     (let put = (\<lambda>name val. encode_header name val huffman indexed never_indexed);
          auth_it = find_authority hdrs
      in and_then (put (bytes_of '':method'') (verb_to_string method))
        (and_then
          (if method \<noteq> Connect
           then and_then (put (bytes_of '':scheme'') (enc_scheme enc)) (put (bytes_of '':path'') path)
           else put (bytes_of '':authority'') path)
        (and_then
          (if auth_it \<noteq> length hdrs \<and> method \<noteq> Connect
           then put (bytes_of '':authority'') (snd (hdrs ! auth_it))
           else if enc_host enc \<noteq> [] \<and> method \<noteq> Connect
           then put (bytes_of '':authority'') (enc_host enc)
           else no_step)
        (encode_request_loop put method auth_it 0 hdrs))) enc)"

definition encode_response :: "u32 \<Rightarrow> headers \<Rightarrow> bool \<Rightarrow> bool \<Rightarrow> bool \<Rightarrow> enc_step" where
  "encode_response status hdrs indexed huffman never_indexed =
     and_then (encode_header (bytes_of '':status'') (to_decimal (unat status)) huffman indexed False)
       (encode_headers hdrs indexed huffman never_indexed)"

section \<open>Decoding\<close>

partial_function (option) decode_fields ::
    "(header \<Rightarrow> 's \<Rightarrow> (error_code option \<times> 's) res) \<Rightarrow> bytes \<Rightarrow> 's \<Rightarrow> dynamic_table \<Rightarrow>
      (error_code option \<times> 's \<times> dynamic_table) res option" where
  "decode_fields visit input s t =
     (if input = [] then Some (Inr (None, s, t))
      else (case decode_header input None t of
          None \<Rightarrow> None
        | Some (Inl e) \<Rightarrow> Some (Inl e)
        | Some (Inr (n, nv, ecode, t1)) \<Rightarrow>
            (case advance n input of
               Inl e \<Rightarrow> Some (Inl e)
             | Inr input1 \<Rightarrow>
                 (case ecode of
                    Some e \<Rightarrow> Some (Inr (Some (Errc e), s, t1))
                  | None \<Rightarrow>
                      (case visit nv s of
                         Inl e \<Rightarrow> Some (Inl e)
                       | Inr (ec, s1) \<Rightarrow>
                           if ec \<noteq> None then Some (Inr (ec, s1, t1))
                           else decode_fields visit input1 s1 t1)))))"

text \<open>An ordinary header: cookies are joined to one header.\<close>

definition add_field :: "bytes \<Rightarrow> bytes \<Rightarrow> headers \<Rightarrow> headers" where
  "add_field name val hs =
     (if name = bytes_of ''cookie'' then
        let it = hdr_find name hs in
        if it \<noteq> length hs then hs[it := (fst (hs ! it), snd (hs ! it) @ bytes_of ''; '' @ val)]
        else hdr_insert name val hs
      else hdr_insert name val hs)"

record request_state =
  rq_req :: request
  rq_scheme :: bytes
  rq_authority :: bytes
  rq_has_method :: bool
  rq_has_authority :: bool
  rq_has_path :: bool
  rq_has_scheme :: bool
  rq_passed_pseudo :: bool

definition validate_request_pseudo_headers :: "request_state \<Rightarrow> error_code option" where
  "validate_request_pseudo_headers s =
     (if \<not> rq_has_method s then Some (Http Bad_method)
      else if req_method (rq_req s) = Connect \<and> (rq_has_path s \<or> rq_has_scheme s) then Some (Http Bad_target)
      else if req_method (rq_req s) = Connect \<and> \<not> rq_has_authority s then Some (Http Bad_target)
      else if req_method (rq_req s) \<noteq> Connect \<and> (\<not> rq_has_path s \<or> \<not> rq_has_scheme s)
        then Some (Http Bad_target)
      else if (rq_scheme s = bytes_of ''http'' \<or> rq_scheme s = bytes_of ''https'') \<and> req_target (rq_req s) = []
        then Some (Http Bad_target)
      else None)"

definition request_pseudo :: "bytes \<Rightarrow> bytes \<Rightarrow> request_state \<Rightarrow> error_code option \<times> request_state" where
  "request_pseudo name val s =
     (if rq_passed_pseudo s then (Some (Http Bad_field), s)
      else if name = bytes_of '':method'' then
        (if rq_has_method s then (Some (Http Bad_field), s)
         else
           let method = string_to_verb val;
               s1 = s\<lparr>rq_has_method := True, rq_req := (rq_req s)\<lparr>req_method := method\<rparr>\<rparr>
           in (if method = Invalid then Some (Http Bad_method) else None, s1))
      else if name = bytes_of '':path'' then
        (if rq_has_path s then (Some (Http Bad_field), s)
         else (None, s\<lparr>rq_has_path := True, rq_req := (rq_req s)\<lparr>req_target := val\<rparr>\<rparr>))
      else if name = bytes_of '':authority'' then
        (if rq_has_authority s then (Some (Http Bad_field), s)
         else (None, s\<lparr>rq_has_authority := True, rq_authority := val\<rparr>))
      else if name = bytes_of '':scheme'' then
        (if rq_has_scheme s then (Some (Http Bad_field), s)
         else (None, s\<lparr>rq_has_scheme := True, rq_scheme := val,
             rq_req := (rq_req s)\<lparr>req_headers := hdr_insert name val (req_headers (rq_req s))\<rparr>\<rparr>))
      else (Some (Http Bad_field), s))"

text \<open>The first ordinary header ends the pseudo headers.\<close>

definition request_end_pseudo :: "bytes \<Rightarrow> request_state \<Rightarrow> (error_code option \<times> request_state) res" where
  "request_end_pseudo scheme s =
     (case validate_request_pseudo_headers s of
        Some ec \<Rightarrow> Inr (Some ec, s)
      | None \<Rightarrow>
          if req_method (rq_req s) = Connect then
            bind_res (ensure (req_target (rq_req s) = []) Assertion) (\<lambda>_.
              Inr (None, s\<lparr>rq_req := (rq_req s)\<lparr>req_target := rq_authority s\<rparr>\<rparr>))
          else if scheme \<noteq> [] \<and> rq_scheme s \<noteq> rq_scheme s then Inr (Some (Http Bad_value), s)
          else Inr (None, s\<lparr>rq_req := (rq_req s)\<lparr>req_headers :=
            hdr_insert (field_to_string field_host) (rq_authority s) (req_headers (rq_req s))\<rparr>\<rparr>))"

definition request_field :: "bytes \<Rightarrow> header \<Rightarrow> request_state \<Rightarrow> (error_code option \<times> request_state) res" where
  "request_field scheme nv s =
     (let (name, val) = nv in
      case name of
        [] \<Rightarrow> Inr (Some (Http Bad_field), s)
      | c # _ \<Rightarrow>
          if c = 0x3a then Inr (request_pseudo name val s)
          else
            bind_res (if \<not> rq_passed_pseudo s then request_end_pseudo scheme s else Inr (None, s)) (\<lambda>(ec, s1).
            if ec \<noteq> None then Inr (ec, s1)
            else Inr (None, s1\<lparr>rq_passed_pseudo := True,
              rq_req := (rq_req s1)\<lparr>req_headers := add_field name val (req_headers (rq_req s1))\<rparr>\<rparr>)))"

definition request_start :: "request \<Rightarrow> request_state" where
  "request_start req =
     \<lparr>rq_req = req\<lparr>req_version := V1_1, req_method := Invalid, req_target := [], req_headers := []\<rparr>,
      rq_scheme = [], rq_authority = [], rq_has_method = False, rq_has_authority = False,
      rq_has_path = False, rq_has_scheme = False, rq_passed_pseudo = False\<rparr>"

definition decode_request ::
    "bytes \<Rightarrow> bytes \<Rightarrow> request \<Rightarrow> dynamic_table \<Rightarrow> (error_code option \<times> request \<times> dynamic_table) run" where
  "decode_request scheme input req t =
     bind_run (decode_fields (request_field scheme) input (request_start req) t) (\<lambda>(ec, s, t1).
       Some (Inr (ec, rq_req s, t1)))"

record response_state =
  rs_res :: response
  rs_got_status :: bool
  rs_passed_pseudo :: bool

definition response_pseudo :: "bytes \<Rightarrow> bytes \<Rightarrow> response_state \<Rightarrow> error_code option \<times> response_state" where
  "response_pseudo name val s =
     (if rs_passed_pseudo s then (Some (Http Bad_field), s)
      else if name = bytes_of '':status'' then
        (if rs_got_status s then (Some (Http Bad_field), s)
         else
           let (ec, status) = to_uint32 val 10;
               s1 = s\<lparr>rs_res := (rs_res s)\<lparr>res_status := status\<rparr>\<rparr>
           in if ec \<noteq> None then (Some (Http Bad_status), s1)
              else (None, s1\<lparr>rs_got_status := True\<rparr>))
      else (Some (Http Bad_field), s))"

definition response_field :: "header \<Rightarrow> response_state \<Rightarrow> (error_code option \<times> response_state) res" where
  "response_field nv s =
     (let (name, val) = nv in
      case name of
        [] \<Rightarrow> Inr (Some (Http Bad_field), s)
      | c # _ \<Rightarrow>
          if c = 0x3a then Inr (response_pseudo name val s)
          else
            let s1 = s\<lparr>rs_passed_pseudo := True\<rparr> in
            if \<not> rs_got_status s1 then Inr (Some (Http Bad_field), s1)
            else Inr (None, s1\<lparr>rs_res :=
              (rs_res s1)\<lparr>res_headers := add_field name val (res_headers (rs_res s1))\<rparr>\<rparr>))"

definition response_start :: "response \<Rightarrow> response_state" where
  "response_start res =
     \<lparr>rs_res = (response_clear False res)\<lparr>res_version := V1_1\<rparr>, rs_got_status = False,
      rs_passed_pseudo = False\<rparr>"

definition decode_response ::
    "bytes \<Rightarrow> response \<Rightarrow> dynamic_table \<Rightarrow> (error_code option \<times> response \<times> dynamic_table) run" where
  "decode_response input res t =
     bind_run (decode_fields response_field input (response_start res) t) (\<lambda>(ec, s, t1).
       Some (Inr (ec, rs_res s, t1)))"

end
