(* ===== verification/Hpack_Message_Laws.thy ===== *)
theory Hpack_Message_Laws
  imports Hpack_Message Hpack_Total
begin

text \<open>
  What the message encoders send, as a list of headers, and what the message decoders make of a list
  of headers.
\<close>

section \<open>The headers of a message\<close>

lemma no_step_id [simp]: "and_then no_step f = f" "and_then f no_step = f"
  by (auto simp: and_then_def no_step_def fun_eq_iff bind_run_def split: option.splits sum.splits)

lemma and_then_assoc: "and_then (and_then f g) h = and_then f (and_then g h)"
  by (auto simp: and_then_def fun_eq_iff bind_run_def split: option.splits sum.splits prod.splits)

lemma encode_headers_steps:
  "encode_headers [] indexed huffman never_indexed = no_step"
  "encode_headers (h # hs) indexed huffman never_indexed
     = and_then (encode_header (fst h) (snd h) huffman indexed never_indexed)
         (encode_headers hs indexed huffman never_indexed)"
  by (simp_all add: fun_eq_iff no_step_def and_then_def)

lemma encode_headers_append:
  "encode_headers (hs @ hs') indexed huffman never_indexed
     = and_then (encode_headers hs indexed huffman never_indexed) (encode_headers hs' indexed huffman never_indexed)"
  by (induction hs) (simp_all add: encode_headers_steps and_then_assoc)

lemma encode_header_single:
  "encode_header name val huffman indexed never_indexed
     = encode_headers [(name, val)] indexed huffman never_indexed"
  by (simp add: encode_headers_steps)

definition cookie_values :: "bytes \<Rightarrow> bytes list" where
  "cookie_values val = filter (\<lambda>v. v \<noteq> []) (map trim_spaces (split_on 0x3b val))"

fun ordinary_fields :: "verb \<Rightarrow> nat \<Rightarrow> nat \<Rightarrow> headers \<Rightarrow> headers" where
  "ordinary_fields method auth_it it [] = []"
| "ordinary_fields method auth_it it (h # hs) =
     (if it = auth_it \<or> method = Connect \<and> iequal (fst h) (bytes_of ''Host'') then []
      else if iequal (fst h) (bytes_of ''Cookie'')
      then map (Pair (bytes_of ''Cookie'')) (cookie_values (snd h)) else [h])
     @ ordinary_fields method auth_it (it + 1) hs"

definition request_authority :: "headers \<Rightarrow> bytes \<Rightarrow> bytes" where
  "request_authority hdrs host =
     (if find_authority hdrs \<noteq> length hdrs then snd (hdrs ! find_authority hdrs) else host)"

definition pseudo_fields :: "verb \<Rightarrow> bytes \<Rightarrow> headers \<Rightarrow> hpack_encoder \<Rightarrow> headers" where
  "pseudo_fields method path hdrs enc =
     (bytes_of '':method'', verb_to_string method) #
     (if method = Connect then [(bytes_of '':authority'', path)]
      else [(bytes_of '':scheme'', enc_scheme enc), (bytes_of '':path'', path)] @
        (if find_authority hdrs \<noteq> length hdrs \<or> enc_host enc \<noteq> []
         then [(bytes_of '':authority'', request_authority hdrs (enc_host enc))] else []))"

abbreviation request_rest :: "verb \<Rightarrow> headers \<Rightarrow> headers" where
  "request_rest method hdrs \<equiv> ordinary_fields method (find_authority hdrs) 0 hdrs"

lemma encode_cookie_loop_headers:
  "encode_cookie_loop (\<lambda>name val. encode_header name val huffman indexed never_indexed) cs
     = encode_headers (map (Pair (bytes_of ''Cookie'')) (filter (\<lambda>v. v \<noteq> []) (map trim_spaces cs)))
         indexed huffman never_indexed"
  by (induction cs) (simp_all add: encode_headers_steps Let_def)

lemma encode_request_loop_headers:
  "encode_request_loop (\<lambda>name val. encode_header name val huffman indexed never_indexed) method auth_it it hs
     = encode_headers (ordinary_fields method auth_it it hs) indexed huffman never_indexed"
proof (induction hs arbitrary: it)
  case (Cons h hs)
  have "encode_cookies (\<lambda>name val. encode_header name val huffman indexed never_indexed) (snd h)
      = encode_headers (map (Pair (bytes_of ''Cookie'')) (cookie_values (snd h))) indexed huffman never_indexed"
    by (simp add: fun_eq_iff encode_cookies_def encode_cookie_loop_headers cookie_values_def bytes_of_def)
  with Cons show ?case by (simp add: encode_headers_append encode_headers_steps)
qed (simp add: encode_headers_steps)

lemma encode_request_headers:
  "encode_request method path hdrs indexed huffman never_indexed enc
     = encode_headers (pseudo_fields method path hdrs enc @ request_rest method hdrs)
         indexed huffman never_indexed enc"
  by (simp add: encode_request_def pseudo_fields_def request_authority_def Let_def
      encode_request_loop_headers encode_headers_append encode_headers_steps and_then_assoc)

lemma encode_response_headers:
  "encode_response status hdrs indexed huffman never_indexed
     = and_then (encode_headers [(bytes_of '':status'', to_decimal (unat status))] indexed huffman False)
         (encode_headers hdrs indexed huffman never_indexed)"
  by (simp add: encode_response_def encode_headers_steps)

section \<open>The decoding loop\<close>

fun visit_all :: "(header \<Rightarrow> 's \<Rightarrow> (error_code option \<times> 's) res) \<Rightarrow> headers \<Rightarrow> 's \<Rightarrow> (error_code option \<times> 's) res" where
  "visit_all visit [] s = Inr (None, s)"
| "visit_all visit (h # hs) s =
     bind_res (visit h s) (\<lambda>(ec, s1). if ec \<noteq> None then Inr (ec, s1) else visit_all visit hs s1)"

lemma decode_fields_Nil [simp]: "decode_fields visit [] s t = Some (Inr (None, s, t))"
  by (simp add: decode_fields.simps)

lemma decode_fields_append:
  assumes "decode_header (b @ rest) None t = Some (Inr (length b, nv, None, t1))" and "b \<noteq> []"
    and "visit nv s = Inr (None, s1)"
  shows "decode_fields visit (b @ rest) s t = decode_fields visit rest s1 t1"
  using assms by (simp add: decode_fields.simps [of _ "b @ rest"])

lemma encode_headers_visited:
  assumes "in_step m es (enc_table enc) td" and "\<not> (indexed \<and> never_indexed)"
    and "\<forall>h\<in>set hs. encodable (fst h) \<and> encodable (snd h)"
  shows "\<exists>out enc' es' td'. encode_headers hs indexed huffman never_indexed enc = Some (Inr (out, enc')) \<and>
    in_step m es' (enc_table enc') td' \<and>
    (\<forall>s s' rest. visit_all visit (decoded_list never_indexed hs) s = Inr (None, s') \<longrightarrow>
       decode_fields visit (out @ rest) s td = decode_fields visit rest s' td')"
  using assms(1,3)
proof (induction hs arbitrary: enc es td)
  case Nil
  then show ?case by (auto simp: decoded_list_def)
next
  case (Cons h hs)
  let ?nv = "(to_lower (fst h), decoded_value never_indexed (fst h) (snd h))"
  obtain b enc1 where 1: "encode_header (fst h) (snd h) huffman indexed never_indexed enc = Some (Inr (b, enc1))"
    "decodes_to m td (b, enc1) ?nv"
    using encode_header_decodes [OF Cons(2) assms(2), of "fst h" "snd h" huffman] Cons(3) by auto
  obtain es1 td1 where 2: "in_step m es1 (enc_table enc1) td1" "b \<noteq> []"
    "\<And>rest. decode_header (b @ rest) None td = Some (Inr (length b, ?nv, None, td1))"
    using 1(2) by (auto simp: decodes_to_def)
  obtain out enc' es' td' where 3: "encode_headers hs indexed huffman never_indexed enc1 = Some (Inr (out, enc'))"
    "in_step m es' (enc_table enc') td'"
    "\<And>s s' rest. visit_all visit (decoded_list never_indexed hs) s = Inr (None, s') \<Longrightarrow>
       decode_fields visit (out @ rest) s td1 = decode_fields visit rest s' td'"
    using Cons.IH [OF 2(1)] Cons(3) by (metis list.set_intros(2))
  have "decode_fields visit ((b @ out) @ rest) s td = decode_fields visit rest s' td'"
    if v: "visit_all visit (decoded_list never_indexed (h # hs)) s = Inr (None, s')" for s s' rest
  proof -
    from v obtain s1 where s1: "visit ?nv s = Inr (None, s1)"
      "visit_all visit (decoded_list never_indexed hs) s1 = Inr (None, s')"
      by (auto simp: decoded_list_def bind_res_eq_Inr split: if_splits)
    show ?thesis
      using decode_fields_append [of b "out @ rest" td ?nv td1 visit s s1] 2(2,3) s1(1) 3(3) [OF s1(2)]
      by simp
  qed
  with 1(1) 3(1,2) show ?case by auto
qed

section \<open>Arbitrary input\<close>

lemma returns_fields:
  assumes "dt_inv t" and "Q s" and "\<And>nv s. Q s \<Longrightarrow> \<exists>ec s'. visit nv s = Inr (ec, s') \<and> (ec = None \<longrightarrow> Q s')"
  shows "returns (\<lambda>(ec, s', t'). (ec = None \<longrightarrow> Q s') \<and> dt_inv t') (decode_fields visit input s t)"
  using assms(1,2)
proof (induction "length input" arbitrary: input s t rule: less_induct)
  case less
  show ?case
  proof (cases "input = []")
    case False
    from returns_header [OF less(2), of input None] show ?thesis
      unfolding returns_def
    proof (elim disjE exE conjE)
      fix x
      assume x: "decode_header input None t = Some (Inr x)" and ok: "header_ok input x"
      obtain n nv ec t1 where xs: "x = (n, nv, ec, t1)" by (metis prod.exhaust)
      obtain ec1 s1 where v: "visit nv s = Inr (ec1, s1)" "ec1 = None \<longrightarrow> Q s1" using assms(3) less(3) by blast
      show "decode_fields visit input s t = Some (Inl Shift_overflow) \<or>
          (\<exists>x. decode_fields visit input s t = Some (Inr x) \<and>
             (case x of (ec, s', t') \<Rightarrow> (ec = None \<longrightarrow> Q s') \<and> dt_inv t'))"
        using less(1) [of "drop n input" t1 s1] x xs ok False v less(3)
        by (cases ec; cases ec1) (auto simp: decode_fields.simps [of _ input] returns_def)
    qed (simp add: decode_fields.simps [of _ input] False)
  qed (use less(2,3) in simp)
qed

end
