(* ===== verification/Message_Laws.thy ===== *)
theory Message_Laws
  imports Hpack_Message_Laws
begin

text \<open>
  What the receiver of a message sees: the values that the static table keeps, the state of the decoders
  after the pseudo headers and after the ordinary ones, and what an accepted request looks like.
\<close>

section \<open>Values the static table does not change\<close>

lemma static_header:
  assumes "find_predefined_http2_header name val = Some i"
  shows "predefined_http2_headers ! (i - 1) \<in> set predefined_http2_headers"
    "iequal (fst (predefined_http2_headers ! (i - 1))) name" "iequal (snd (predefined_http2_headers ! (i - 1))) val"
  using find_predefined_Some [OF assms [unfolded find_predefined_http2_header_def]] by auto

lemma decoded_value_iequal: "iequal (decoded_value never_indexed name val) val"
  using static_header(3) by (auto simp: decoded_value_def split: option.splits)

lemma decoded_value_empty [simp]: "decoded_value never_indexed name val = [] \<longleftrightarrow> val = []"
  using decoded_value_iequal [of never_indexed name val] by (auto simp: iequal_def split: if_splits)

lemma decoded_value_lower:
  assumes "\<forall>h\<in>set predefined_http2_headers. iequal (fst h) name \<longrightarrow> to_lower (snd h) = snd h"
    and "to_lower val = val"
  shows "decoded_value never_indexed name val = val"
  using static_header assms by (fastforce simp: decoded_value_def iequal_to_lower split: option.splits)

lemma status_rows:
  "\<forall>h\<in>set predefined_http2_headers. iequal (fst h) (bytes_of '':status'') \<longrightarrow> to_lower (snd h) = snd h"
  by code_simp

lemma authority_rows:
  "\<forall>h\<in>set predefined_http2_headers. iequal (fst h) (bytes_of '':authority'') \<longrightarrow> snd h = []"
  by code_simp

lemma to_lower_to_decimal [simp]: "to_lower (to_decimal n) = to_decimal n"
proof -
  have "tolower_ch c = c" if "c \<in> set (to_decimal n)" for c
    using to_decimal_digits [OF that]
    by (auto simp: tolower_ch_def word_le_nat_alt unat_word_ariths unat_of_nat)
  then show ?thesis by (simp add: to_lower_def map_idI)
qed

lemma decoded_status [simp]:
  "decoded_value never_indexed (bytes_of '':status'') (to_decimal n) = to_decimal n"
  by (rule decoded_value_lower [OF status_rows]) simp

lemma decoded_authority [simp]: "decoded_value never_indexed (bytes_of '':authority'') val = val"
proof (cases "find_predefined_http2_header (bytes_of '':authority'') val")
  case (Some i)
  note h = static_header [OF Some]
  have "snd (predefined_http2_headers ! (i - 1)) = []" using authority_rows h(1,2) by blast
  with h(3) Some show ?thesis by (auto simp: decoded_value_def iequal_def split: if_splits)
qed (simp add: decoded_value_def)

lemma method_rows:
  "\<forall>h\<in>set predefined_http2_headers. iequal (fst h) (bytes_of '':method'') \<longrightarrow>
     snd h \<in> {bytes_of ''GET'', bytes_of ''POST''}"
  by code_simp

lemma iequal_verb:
  "str \<in> {bytes_of ''GET'', bytes_of ''POST''} \<Longrightarrow> iequal str (verb_to_string method) \<Longrightarrow> str = verb_to_string method"
  by (cases "method")
    (auto simp: verb_to_string_nth http_verbs_def bytes_of_def iequal_def tolower_ch_def split: if_splits)

lemma decoded_method [simp]:
  "decoded_value never_indexed (bytes_of '':method'') (verb_to_string method) = verb_to_string method"
proof (cases "find_predefined_http2_header (bytes_of '':method'') (verb_to_string method)")
  case (Some i)
  note h = static_header [OF Some]
  have "snd (predefined_http2_headers ! (i - 1)) \<in> {bytes_of ''GET'', bytes_of ''POST''}"
    using method_rows h(1,2) by blast
  then have "snd (predefined_http2_headers ! (i - 1)) = verb_to_string method"
    using h(3) iequal_verb [of _ "method"] by auto
  with Some show ?thesis by (simp add: decoded_value_def)
qed (simp add: decoded_value_def)

section \<open>Ordinary headers\<close>

definition ordinary :: "bytes \<Rightarrow> bool" where
  "ordinary name \<longleftrightarrow> name \<noteq> [] \<and> hd name \<noteq> 0x3a"

definition add_fields :: "headers \<Rightarrow> headers \<Rightarrow> headers" where
  "add_fields hs fs = foldl (\<lambda>hs h. add_field (fst h) (snd h) hs) hs fs"

lemma tolower_colon [simp]: "tolower_ch c = 0x3a \<longleftrightarrow> c = 0x3a"
proof (cases "0x41 \<le> c \<and> c \<le> 0x5a")
  case True
  then have "unat (c - 0x41 + 0x61) = unat c + 0x20"
    by (simp add: word_le_nat_alt unat_word_ariths unat_sub)
  then have "c - 0x41 + 0x61 \<noteq> 0x3a" using True by (auto simp: word_le_nat_alt)
  then show ?thesis using True by (auto simp: tolower_ch_def)
qed (auto simp: tolower_ch_def)

lemma ordinary_to_lower [simp]: "ordinary (to_lower name) \<longleftrightarrow> ordinary name"
  by (cases name) (auto simp: ordinary_def to_lower_def)

lemma ordinary_decoded:
  "\<forall>h\<in>set hs. ordinary (fst h) \<Longrightarrow> \<forall>h\<in>set (decoded_list never_indexed hs). ordinary (fst h)"
  by (auto simp: decoded_list_def)

lemma decoded_list_Nil [simp]: "decoded_list never_indexed hs = [] \<longleftrightarrow> hs = []"
  by (simp add: decoded_list_def)

lemma request_fields_passed:
  assumes "rq_passed_pseudo s" and "\<forall>h\<in>set fs. ordinary (fst h)"
  shows "visit_all (request_field scheme) fs s = Inr (None,
    s\<lparr>rq_req := (rq_req s)\<lparr>req_headers := add_fields (req_headers (rq_req s)) fs\<rparr>\<rparr>)"
  using assms
proof (induction fs arbitrary: s)
  case (Cons h fs)
  obtain c cs v where h: "h = (c # cs, v)" "c \<noteq> 0x3a" using Cons.prems(2)
    by (cases h; cases "fst h") (auto simp: ordinary_def)
  have "s\<lparr>rq_passed_pseudo := True\<rparr> = s" using Cons.prems(1) by simp
  with Cons h show ?case by (simp add: request_field_def add_fields_def)
qed (simp add: add_fields_def)

text \<open>The first ordinary header is treated as a later one is, after the pseudo headers are settled.\<close>

definition settled :: "request_state \<Rightarrow> request_state" where
  "settled s =
     (if req_method (rq_req s) = Connect then s\<lparr>rq_req := (rq_req s)\<lparr>req_target := rq_authority s\<rparr>\<rparr>
      else s\<lparr>rq_req := (rq_req s)\<lparr>req_headers :=
        hdr_insert (bytes_of ''Host'') (rq_authority s) (req_headers (rq_req s))\<rparr>\<rparr>)\<lparr>rq_passed_pseudo := True\<rparr>"

lemma request_first_field:
  assumes "\<not> rq_passed_pseudo s" and "validate_request_pseudo_headers s = None"
    and "req_method (rq_req s) = Connect \<longrightarrow> req_target (rq_req s) = []" and "ordinary (fst h)"
  shows "request_field scheme h s = request_field scheme h (settled s)"
proof -
  obtain c cs v where h: "h = (c # cs, v)" "c \<noteq> 0x3a" using assms(4)
    by (cases h; cases "fst h") (auto simp: ordinary_def)
  with assms show ?thesis by (simp add: request_field_def request_end_pseudo_def settled_def)
qed

lemma request_rest_visited:
  assumes "\<not> rq_passed_pseudo s" and "validate_request_pseudo_headers s = None"
    and "req_method (rq_req s) = Connect \<longrightarrow> req_target (rq_req s) = []"
    and "\<forall>h\<in>set fs. ordinary (fst h)" and "fs \<noteq> []"
  shows "visit_all (request_field scheme) fs s = Inr (None,
    (settled s)\<lparr>rq_req := (rq_req (settled s))\<lparr>req_headers := add_fields (req_headers (rq_req (settled s))) fs\<rparr>\<rparr>)"
proof -
  have "visit_all (request_field scheme) fs s = visit_all (request_field scheme) fs (settled s)"
    using assms request_first_field [OF assms(1-3)] by (cases fs) auto
  also have "rq_passed_pseudo (settled s)" by (simp add: settled_def)
  ultimately show ?thesis using request_fields_passed [OF _ assms(4)] by metis
qed

lemma visit_all_append:
  "visit_all visit hs s = Inr (None, s1) \<Longrightarrow> visit_all visit (hs @ hs') s = visit_all visit hs' s1"
  by (induction hs arbitrary: s) (auto simp: bind_res_eq_Inr split: if_splits)

section \<open>Pseudo headers\<close>

definition pseudo_state :: "verb \<Rightarrow> bytes \<Rightarrow> headers \<Rightarrow> hpack_encoder \<Rightarrow> bool \<Rightarrow> request \<Rightarrow> request_state" where
  "pseudo_state method path hdrs enc never_indexed req =
     (let scheme = decoded_value never_indexed (bytes_of '':scheme'') (enc_scheme enc);
          req1 = req\<lparr>req_version := V1_1, req_method := method\<rparr>
      in if method = Connect then
        (request_start req)\<lparr>rq_req := req1\<lparr>req_target := [], req_headers := []\<rparr>, rq_authority := path,
          rq_has_method := True, rq_has_authority := True\<rparr>
      else
        (request_start req)\<lparr>
          rq_req := req1\<lparr>req_target := decoded_value never_indexed (bytes_of '':path'') path,
            req_headers := [(bytes_of '':scheme'', scheme)]\<rparr>,
          rq_scheme := scheme, rq_authority := request_authority hdrs (enc_host enc), rq_has_method := True,
          rq_has_authority := (find_authority hdrs \<noteq> length hdrs \<or> enc_host enc \<noteq> []),
          rq_has_path := True, rq_has_scheme := True\<rparr>)"

lemma pseudo_names [simp]:
  "to_lower (bytes_of '':method'') = bytes_of '':method''" "to_lower (bytes_of '':scheme'') = bytes_of '':scheme''"
  "to_lower (bytes_of '':path'') = bytes_of '':path''"
  "to_lower (bytes_of '':authority'') = bytes_of '':authority''" "to_lower (bytes_of '':status'') = bytes_of '':status''"
  by code_simp+

lemma request_field_pseudo:
  "request_field scheme (bytes_of (CHR '':'' # name), val) s = Inr (request_pseudo (bytes_of (CHR '':'' # name)) val s)"
  by (simp add: request_field_def bytes_of_def)

lemma pseudo_distinct [simp]:
  "bytes_of '':scheme'' \<noteq> bytes_of '':method''" "bytes_of '':path'' \<noteq> bytes_of '':method''"
  "bytes_of '':authority'' \<noteq> bytes_of '':method''" "bytes_of '':authority'' \<noteq> bytes_of '':path''"
  "bytes_of '':scheme'' \<noteq> bytes_of '':path''" "bytes_of '':scheme'' \<noteq> bytes_of '':authority''"
  by code_simp+

lemma hdr_insert_Nil [simp]: "hdr_insert name val [] = [(name, val)]"
  by (simp add: hdr_insert_def)

lemma pseudo_visited:
  assumes "method \<noteq> Invalid"
  shows "visit_all (request_field scheme) (decoded_list never_indexed (pseudo_fields method path hdrs enc))
    (request_start req) = Inr (None, pseudo_state method path hdrs enc never_indexed req)"
  using assms
  by (simp add: pseudo_fields_def decoded_list_def request_field_pseudo request_pseudo_def request_start_def
      pseudo_state_def request_authority_def Let_def)

lemma pseudo_state_valid:
  assumes "method \<noteq> Invalid" and "method \<noteq> Connect \<longrightarrow> path \<noteq> []"
  shows "validate_request_pseudo_headers (pseudo_state method path hdrs enc never_indexed req) = None"
    "\<not> rq_passed_pseudo (pseudo_state method path hdrs enc never_indexed req)"
    "req_method (rq_req (pseudo_state method path hdrs enc never_indexed req)) = method"
    "method = Connect \<longrightarrow> req_target (rq_req (pseudo_state method path hdrs enc never_indexed req)) = []"
  using assms by (auto simp: validate_request_pseudo_headers_def pseudo_state_def request_start_def Let_def bytes_of_def)

text \<open>What the receiver of a request sees.\<close>

definition received_request :: "verb \<Rightarrow> bytes \<Rightarrow> headers \<Rightarrow> hpack_encoder \<Rightarrow> bool \<Rightarrow> request \<Rightarrow> request" where
  "received_request method path hdrs enc never_indexed req =
     (let rest = request_rest method hdrs;
          scheme = decoded_value never_indexed (bytes_of '':scheme'') (enc_scheme enc);
          authority = request_authority hdrs (enc_host enc)
      in req\<lparr>req_version := V1_1, req_method := method,
        req_target := (if method = Connect then (if rest = [] then [] else path)
                       else decoded_value never_indexed (bytes_of '':path'') path),
        req_headers := add_fields
          (if method = Connect then []
           else (bytes_of '':scheme'', scheme) # (if rest = [] then [] else [(bytes_of ''Host'', authority)]))
          (decoded_list never_indexed rest)\<rparr>)"

lemma scheme_is_not_host [simp]: "\<not> iequal (bytes_of '':scheme'') (bytes_of ''Host'')"
  by code_simp

lemma request_visited:
  assumes "method \<noteq> Invalid" and "method \<noteq> Connect \<longrightarrow> path \<noteq> []"
    and "\<forall>h\<in>set (request_rest method hdrs). ordinary (fst h)"
  shows "\<exists>s. visit_all (request_field scheme)
      (decoded_list never_indexed (pseudo_fields method path hdrs enc @ request_rest method hdrs))
      (request_start req) = Inr (None, s) \<and>
    rq_req s = received_request method path hdrs enc never_indexed req"
proof -
  let ?p = "pseudo_state method path hdrs enc never_indexed req"
  let ?rest = "decoded_list never_indexed (request_rest method hdrs)"
  have all: "visit_all (request_field scheme)
      (decoded_list never_indexed (pseudo_fields method path hdrs enc @ request_rest method hdrs))
      (request_start req) = visit_all (request_field scheme) ?rest ?p"
    using visit_all_append [OF pseudo_visited [OF assms(1)]] by (simp add: decoded_list_def)
  have ins: "hdr_insert (bytes_of ''Host'') a [(bytes_of '':scheme'', b)] = [(bytes_of '':scheme'', b), (bytes_of ''Host'', a)]"
    for a b by (simp add: hdr_insert_def hdr_find_def)
  show ?thesis
  proof (cases "request_rest method hdrs = []")
    case True
    then show ?thesis unfolding all
      by (auto simp: received_request_def pseudo_state_def add_fields_def decoded_list_def Let_def request_start_def)
  next
    case False
    note p = pseudo_state_valid [OF assms(1,2), of hdrs enc never_indexed req]
    from request_rest_visited [OF p(2,1) _ ordinary_decoded [OF assms(3)], of never_indexed scheme] p(3,4) False
    show ?thesis unfolding all
      by (auto simp: settled_def received_request_def pseudo_state_def ins Let_def request_start_def)
  qed
qed

section \<open>Lengths\<close>

lemma length_trim_spaces: "length (trim_spaces str) \<le> length str"
  using length_dropWhile_le [of "\<lambda>c. c = 0x20" "rev (dropWhile (\<lambda>c. c = 0x20) str)"]
    length_dropWhile_le [of "\<lambda>c. c = 0x20" str]
  by (simp add: trim_spaces_def)

lemma cookie_values_encodable: "encodable val \<Longrightarrow> v \<in> set (cookie_values val) \<Longrightarrow> encodable v"
  using split_on_pieces length_trim_spaces
  by (fastforce simp: cookie_values_def encodable_def intro: le_less_trans [OF order_trans])

lemma ordinary_fields_encodable:
  assumes "\<forall>h\<in>set hs. encodable (fst h) \<and> encodable (snd h)" and "h \<in> set (ordinary_fields method auth_it it hs)"
  shows "encodable (fst h) \<and> encodable (snd h)"
  using assms
proof (induction hs arbitrary: it)
  case (Cons x hs)
  have "encodable (bytes_of ''Cookie'')" by (simp add: encodable_def bytes_of_def)
  with Cons show ?case by (auto split: if_splits intro: cookie_values_encodable)
qed simp

lemma pseudo_fields_encodable:
  assumes "\<forall>h\<in>set hdrs. encodable (fst h) \<and> encodable (snd h)" and "encodable path"
    and "encodable (enc_scheme enc)" and "encodable (enc_host enc)"
  shows "\<forall>h\<in>set (pseudo_fields method path hdrs enc). encodable (fst h) \<and> encodable (snd h)"
proof -
  have "encodable (verb_to_string method)"
    by (cases "method") (simp_all add: verb_to_string_nth encodable_def http_verbs_def bytes_of_def)
  moreover have "find_authority hdrs \<le> length hdrs"
    by (simp add: find_authority_def hdr_find_def length_takeWhile_le Let_def)
  then have "encodable (request_authority hdrs (enc_host enc))"
    using assms(1,4) by (auto simp: request_authority_def)
  ultimately show ?thesis using assms(2,3) by (auto simp: pseudo_fields_def encodable_def bytes_of_def)
qed

lemma length_to_decimal: "length (to_decimal n) \<le> Suc n"
proof (induction n rule: to_decimal.induct)
  case (1 n)
  then show ?case by (cases "n < 10") (auto simp: to_decimal.simps [of n])
qed

section \<open>Responses\<close>

lemma response_status_visited:
  "response_field (bytes_of '':status'', to_decimal (unat status)) (response_start res)
     = Inr (None, (response_start res)\<lparr>rs_res := (rs_res (response_start res))\<lparr>res_status := status\<rparr>, rs_got_status := True\<rparr>)"
  by (simp add: response_field_def response_pseudo_def response_start_def bytes_of_def)

lemma response_fields_visited:
  assumes "rs_got_status s" and "\<forall>h\<in>set fs. ordinary (fst h)"
  shows "\<exists>s'. visit_all response_field fs s = Inr (None, s') \<and>
    rs_res s' = (rs_res s)\<lparr>res_headers := add_fields (res_headers (rs_res s)) fs\<rparr>"
  using assms
proof (induction fs arbitrary: s)
  case (Cons h fs)
  obtain c cs v where h: "h = (c # cs, v)" "c \<noteq> 0x3a" using Cons.prems(2)
    by (cases h; cases "fst h") (auto simp: ordinary_def)
  let ?s1 = "s\<lparr>rs_passed_pseudo := True, rs_res :=
    (rs_res s)\<lparr>res_headers := add_field (c # cs) v (res_headers (rs_res s))\<rparr>\<rparr>"
  have "response_field h s = Inr (None, ?s1)" using h Cons.prems(1) by (simp add: response_field_def)
  with Cons.IH [of ?s1] Cons.prems h show ?case by (auto simp: add_fields_def)
qed (simp add: add_fields_def)

section \<open>What is accepted\<close>

lemma set_hdr_insert: "set (hdr_insert name val hs) = insert (name, val) (set hs)"
proof -
  have "set (take n hs) \<union> set (drop n hs) = set hs" for n by (metis append_take_drop_id set_append)
  then show ?thesis unfolding hdr_insert_def Let_def set_append list.set by (metis Un_insert_right)
qed

lemma hdr_insert_contains: "hdr_contains x (hdr_insert name val hs) \<longleftrightarrow> iequal name x \<or> hdr_contains x hs"
  by (auto simp: hdr_contains_iff set_hdr_insert)

lemma add_field_names:
  assumes "name = bytes_of ''cookie''" and "hdr_find name hs \<noteq> length hs"
  shows "map fst (add_field name val hs) = map fst hs"
proof -
  have "hdr_find name hs < length hs"
    using assms(2) length_takeWhile_le [of "\<lambda>h. \<not> named name h" hs] by (simp add: hdr_find_def)
  then have "(map fst hs)[hdr_find name hs := fst (hs ! hdr_find name hs)] = map fst hs"
    by (metis list_update_id nth_map)
  with assms show ?thesis by (simp add: add_field_def Let_def map_update)
qed

lemma hdr_contains_names: "hdr_contains x hs \<longleftrightarrow> (\<exists>n\<in>set (map fst hs). iequal n x)"
  by (auto simp: hdr_contains_iff)

lemma add_field_contains: "hdr_contains x hs \<Longrightarrow> hdr_contains x (add_field name val hs)"
proof (cases "name = bytes_of ''cookie'' \<and> hdr_find name hs \<noteq> length hs")
  case True
  moreover assume "hdr_contains x hs"
  ultimately show ?thesis unfolding hdr_contains_names using add_field_names by metis
next
  case False
  moreover assume "hdr_contains x hs"
  ultimately show ?thesis by (auto simp: add_field_def Let_def hdr_insert_contains)
qed

definition well_formed :: "request \<Rightarrow> bool" where
  "well_formed req \<longleftrightarrow> req_method req \<noteq> Invalid \<and>
     (req_method req \<noteq> Connect \<longrightarrow>
        hdr_contains (bytes_of '':scheme'') (req_headers req) \<and> hdr_contains (bytes_of ''Host'') (req_headers req))"

definition request_inv :: "request_state \<Rightarrow> bool" where
  "request_inv s \<longleftrightarrow>
     (if rq_passed_pseudo s then well_formed (rq_req s)
      else (rq_has_path s \<or> req_target (rq_req s) = []) \<and>
        (rq_has_method s \<longrightarrow> req_method (rq_req s) \<noteq> Invalid) \<and>
        (rq_has_scheme s \<longrightarrow> hdr_contains (bytes_of '':scheme'') (req_headers (rq_req s))) \<and>
        (\<forall>h\<in>set (req_headers (rq_req s)). fst h = bytes_of '':scheme''))"

lemma request_pseudo_inv:
  assumes "request_inv s" and "request_pseudo name val s = (None, s')"
  shows "request_inv s'"
  using assms
  by (auto simp: request_inv_def request_pseudo_def Let_def hdr_insert_contains set_hdr_insert split: if_splits)

lemma well_formed_add_field:
  "well_formed req \<Longrightarrow> well_formed (req\<lparr>req_headers := add_field name val (req_headers req)\<rparr>)"
  by (auto simp: well_formed_def add_field_contains)

lemma request_end_pseudo_inv:
  assumes "request_inv s" and "\<not> rq_passed_pseudo s"
  shows "\<exists>ec s'. request_end_pseudo scheme s = Inr (ec, s') \<and> (ec = None \<longrightarrow> well_formed (rq_req s'))"
  using assms
  by (auto simp: request_end_pseudo_def validate_request_pseudo_headers_def request_inv_def well_formed_def
      hdr_insert_contains split: if_splits)

lemma request_field_inv:
  assumes "request_inv s"
  shows "\<exists>ec s'. request_field scheme nv s = Inr (ec, s') \<and> (ec = None \<longrightarrow> request_inv s')"
proof -
  obtain name val where nv: "nv = (name, val)" by (cases nv)
  consider "name = []" | c cs where "name = c # cs" "c = 0x3a" | c cs where "name = c # cs" "c \<noteq> 0x3a"
    by (cases name) auto
  then show ?thesis
  proof cases
    case 2
    with nv assms request_pseudo_inv show ?thesis by (cases "request_pseudo name val s") (auto simp: request_field_def)
  next
    case 3
    have "\<exists>ec s'. (if \<not> rq_passed_pseudo s then request_end_pseudo scheme s else Inr (None, s)) = Inr (ec, s') \<and>
        (ec = None \<longrightarrow> well_formed (rq_req s'))"
      using request_end_pseudo_inv [OF assms] assms by (simp add: request_inv_def)
    then obtain ec s1 where
      "(if \<not> rq_passed_pseudo s then request_end_pseudo scheme s else Inr (None, s)) = Inr (ec, s1)"
      "ec = None \<longrightarrow> well_formed (rq_req s1)" by blast
    with 3 nv well_formed_add_field show ?thesis by (auto simp: request_field_def request_inv_def)
  qed (simp add: request_field_def nv)
qed

lemma response_field_inv:
  assumes "res_headers (rs_res s) \<noteq> [] \<longrightarrow> rs_got_status s"
  shows "\<exists>ec s'. response_field nv s = Inr (ec, s') \<and>
    (ec = None \<longrightarrow> (res_headers (rs_res s') \<noteq> [] \<longrightarrow> rs_got_status s'))"
proof -
  obtain name val where nv: "nv = (name, val)" by (cases nv)
  from assms show ?thesis
    by (cases name) (auto simp: nv response_field_def response_pseudo_def Let_def split: prod.splits if_splits)
qed

end
