(* ===== verification/Message_Properties.thy ===== *)
theory Message_Properties
  imports Message_Laws Hpack_Properties
begin

text \<open>The properties of requests and responses in HPACK.\<close>

lemma add_fields_distinct:
  assumes "distinct (names other)" and "\<forall>h\<in>set other. \<not> hdr_contains (fst h) hs"
  shows "add_fields hs other = hs @ other"
  using assms
proof (induction other arbitrary: hs)
  case (Cons h other)
  have add: "add_field (fst h) (snd h) hs = hs @ [h]"
    using Cons.prems(2) by (cases h) (auto simp: add_field_def hdr_insert_new hdr_contains_def Let_def)
  have "\<forall>x\<in>set other. \<not> hdr_contains (fst x) (hs @ [h])"
    using Cons.prems by (auto simp: hdr_contains_iff iequal_to_lower image_iff)
  with Cons add show ?case by (simp add: add_fields_def)
qed (simp add: add_fields_def)

text \<open>A request that arrives as it was sent, with the scheme and the authority in front of its headers.\<close>

definition unchanged_request :: "verb \<Rightarrow> bytes \<Rightarrow> headers \<Rightarrow> bool \<Rightarrow> bool" where
  "unchanged_request method path hdrs never_indexed \<longleftrightarrow>
     method \<noteq> Connect \<and> unchanged_header never_indexed (bytes_of '':path'', path) \<and>
     request_rest method hdrs \<noteq> [] \<and> distinct (map fst (request_rest method hdrs)) \<and>
     (\<forall>h\<in>set (request_rest method hdrs). unchanged_header never_indexed h \<and> fst h \<noteq> bytes_of ''host'')"

lemma received_unchanged:
  assumes "unchanged_request method path hdrs never_indexed"
    and "\<forall>h\<in>set (request_rest method hdrs). ordinary (fst h)"
  shows "received_request method path hdrs enc never_indexed req
    = req\<lparr>req_version := V1_1, req_method := method, req_target := path,
        req_headers := (bytes_of '':scheme'', decoded_value never_indexed (bytes_of '':scheme'') (enc_scheme enc))
          # (bytes_of ''Host'', request_authority hdrs (enc_host enc)) # request_rest method hdrs\<rparr>"
proof -
  let ?rest = "request_rest method hdrs"
  let ?front = "[(bytes_of '':scheme'', decoded_value never_indexed (bytes_of '':scheme'') (enc_scheme enc)),
    (bytes_of ''Host'', request_authority hdrs (enc_host enc))]"
  note u = unchanged_fields [of ?rest never_indexed]
  have lower: "to_lower (bytes_of ''Host'') = bytes_of ''host''" "to_lower (bytes_of '':scheme'') = bytes_of '':scheme''"
    by code_simp+
  have "\<not> hdr_contains (fst h) ?front" if "h \<in> set ?rest" for h
  proof -
    have "fst h \<noteq> bytes_of ''host''" "to_lower (fst h) = fst h" "fst h \<noteq> bytes_of '':scheme''"
      using assms that by (auto simp: unchanged_request_def unchanged_header_def ordinary_def bytes_of_def)
    with lower show ?thesis by (auto simp: hdr_contains_iff iequal_to_lower)
  qed
  then have "add_fields ?front ?rest = ?front @ ?rest"
    using u(2) assms(1) by (intro add_fields_distinct) (auto simp: unchanged_request_def)
  with u(1) assms(1) show ?thesis
    by (simp add: received_request_def Let_def unchanged_request_def unchanged_header_def)
qed

lemma request_through_hpack:
  assumes "in_step m es (enc_table enc) td" and "\<not> (indexed \<and> never_indexed)"
    and "method \<noteq> Invalid" and "method \<noteq> Connect \<longrightarrow> path \<noteq> []"
    and "\<forall>h\<in>set (request_rest method hdrs). ordinary (fst h)"
    and "\<forall>h\<in>set hdrs. encodable (fst h) \<and> encodable (snd h)"
    and "encodable path" and "encodable (enc_scheme enc)" and "encodable (enc_host enc)"
  shows "\<exists>out enc' es' td'.
    encode_request method path hdrs indexed huffman never_indexed enc = Some (Inr (out, enc')) \<and>
    decode_request scheme out req td
      = Some (Inr (None, received_request method path hdrs enc never_indexed req, td')) \<and>
    in_step m es' (enc_table enc') td'"
proof -
  let ?hs = "pseudo_fields method path hdrs enc @ request_rest method hdrs"
  have e: "\<forall>h\<in>set ?hs. encodable (fst h) \<and> encodable (snd h)"
    using pseudo_fields_encodable [OF assms(6-9), of "method"] ordinary_fields_encodable [OF assms(6)] by auto
  obtain s where s: "visit_all (request_field scheme) (decoded_list never_indexed ?hs) (request_start req) = Inr (None, s)"
    "rq_req s = received_request method path hdrs enc never_indexed req"
    using request_visited [OF assms(3-5)] by blast
  obtain out enc' es' td' where o: "encode_headers ?hs indexed huffman never_indexed enc = Some (Inr (out, enc'))"
    "in_step m es' (enc_table enc') td'"
    "decode_fields (request_field scheme) (out @ []) (request_start req) td = decode_fields (request_field scheme) [] s td'"
    using encode_headers_visited [OF assms(1,2) e, of huffman "request_field scheme"] s(1) by blast
  then show ?thesis using s(2) by (auto simp: decode_request_def encode_request_headers)
qed


lemma received_sample:
  "received_request Get (bytes_of ''/a'') [(bytes_of ''Host'', bytes_of ''h''), (bytes_of ''Cookie'', bytes_of ''a=b;c=d'')]
     \<lparr>enc_table = fresh_table, enc_host = [], enc_scheme = bytes_of ''https''\<rparr> True req
   = req\<lparr>req_version := V1_1, req_method := Get, req_target := bytes_of ''/a'',
       req_headers := [(bytes_of '':scheme'', bytes_of ''https''), (bytes_of ''Host'', bytes_of ''h''),
         (bytes_of ''cookie'', bytes_of ''a=b; c=d'')]\<rparr>"
  by (simp add: received_request_def Let_def find_authority_def hdr_find_def cookie_values_def decoded_list_def
      decoded_value_def request_authority_def add_fields_def add_field_def bytes_of_def iequal_def tolower_ch_def
      hdr_insert_def to_lower_def trim_spaces_def)


text \<open>
  C33: What the receiver of a response sees. Unless headers are to be indexed and never indexed at once, a
  response with ordinary, encodable headers goes through HPACK from tables in step, which stay in step; whatever was in
  the receiver's response before, it has the status, version 1.1, no reason, and the headers with lower-case names, static
  values in the static table's case, cookies joined, equal names together. Headers of different lower-case names whose values
  no static row matches in another case arrive unchanged.
\<close>

theorem hpack_response_round_trip:
  assumes "in_step m es (enc_table enc) td" and "\<not> (indexed \<and> never_indexed)"
    and "\<forall>h\<in>set hdrs. ordinary (fst h) \<and> encodable (fst h) \<and> encodable (snd h)"
  shows "\<exists>out enc' es' td'.
    encode_response status hdrs indexed huffman never_indexed enc = Some (Inr (out, enc')) \<and>
    decode_response out res td = Some (Inr (None, res\<lparr>res_status := status, res_version := V1_1, res_reason := [],
      res_headers := add_fields [] (decoded_list never_indexed hdrs)\<rparr>, td')) \<and>
    in_step m es' (enc_table enc') td' \<and>
    (distinct (map fst hdrs) \<and> (\<forall>h\<in>set hdrs. unchanged_header never_indexed h) \<longrightarrow>
      add_fields [] (decoded_list never_indexed hdrs) = hdrs)"
proof -
  let ?st = "[(bytes_of '':status'', to_decimal (unat status))]"
  let ?s1 = "(response_start res)\<lparr>rs_res := (rs_res (response_start res))\<lparr>res_status := status\<rparr>, rs_got_status := True\<rparr>"
  let ?fs = "decoded_list never_indexed hdrs"
  have "\<forall>h\<in>set ?st. encodable (fst h) \<and> encodable (snd h)"
    using length_to_decimal [of "unat status"] unsigned_less [of status, where 'a = nat]
    by (simp add: encodable_def bytes_of_def)
  from encode_headers_visited [OF assms(1) _ this, of indexed False huffman response_field]
  obtain o1 e1 es1 td1 where 1: "encode_headers ?st indexed huffman False enc = Some (Inr (o1, e1))"
    "in_step m es1 (enc_table e1) td1"
    "\<And>s s' rest. visit_all response_field (decoded_list False ?st) s = Inr (None, s') \<Longrightarrow>
       decode_fields response_field (o1 @ rest) s td = decode_fields response_field rest s' td1" by auto
  from encode_headers_visited [OF 1(2) assms(2), of hdrs huffman response_field] assms(3)
  obtain o2 e2 es2 td2 where 2: "encode_headers hdrs indexed huffman never_indexed e1 = Some (Inr (o2, e2))"
    "in_step m es2 (enc_table e2) td2"
    "\<And>s s' rest. visit_all response_field ?fs s = Inr (None, s') \<Longrightarrow>
       decode_fields response_field (o2 @ rest) s td1 = decode_fields response_field rest s' td2" by auto
  obtain s2 where s2: "visit_all response_field ?fs ?s1 = Inr (None, s2)"
    "rs_res s2 = (rs_res ?s1)\<lparr>res_headers := add_fields (res_headers (rs_res ?s1)) ?fs\<rparr>"
    using response_fields_visited [of ?s1 ?fs] ordinary_decoded [of hdrs] assms(3) by fastforce
  have "visit_all response_field (decoded_list False ?st) (response_start res) = Inr (None, ?s1)"
    by (simp add: response_status_visited decoded_list_def)
  then have "decode_fields response_field (o1 @ o2) (response_start res) td = Some (Inr (None, s2, td2))"
    using 1(3) [of _ _ o2] 2(3) [OF s2(1), of "[]"] by simp
  moreover have "rs_res s2 = res\<lparr>res_status := status, res_version := V1_1, res_reason := [],
      res_headers := add_fields [] ?fs\<rparr>"
    using s2(2) by (simp add: response_start_def response_clear_def)
  moreover have "distinct (map fst hdrs) \<and> (\<forall>h\<in>set hdrs. unchanged_header never_indexed h) \<longrightarrow> add_fields [] ?fs = hdrs"
    using unchanged_fields [of hdrs never_indexed] add_fields_distinct [of hdrs "[]"]
    by (auto simp: hdr_contains_def hdr_find_def)
  ultimately show ?thesis using 1(1) 2(1,2)
    by (auto simp: decode_response_def encode_response_headers and_then_def)
qed

theorem hpack_response_round_trip_witness:
  "\<exists>out enc' td'.
     encode_response 404 [(bytes_of ''A'', bytes_of ''b'')] True False False
       \<lparr>enc_table = fresh_table, enc_host = [], enc_scheme = []\<rparr> = Some (Inr (out, enc')) \<and>
     decode_response out \<lparr>res_status = 0, res_reason = [], res_headers = [], res_body = [], res_version = V1_0\<rparr> fresh_table
       = Some (Inr (None, \<lparr>res_status = 404, res_reason = [], res_headers = [(bytes_of ''a'', bytes_of ''b'')],
           res_body = [], res_version = V1_1\<rparr>, td'))"
proof -
  have "decoded_list False [(bytes_of ''A'', bytes_of ''b'')] = [(bytes_of ''a'', bytes_of ''b'')]" by code_simp
  then have "add_fields [] (decoded_list False [(bytes_of ''A'', bytes_of ''b'')]) = [(bytes_of ''a'', bytes_of ''b'')]"
    by (simp add: add_fields_def add_field_def bytes_of_def)
  moreover have "\<forall>h\<in>set [(bytes_of ''A'', bytes_of ''b'')]. ordinary (fst h) \<and> encodable (fst h) \<and> encodable (snd h)"
    by (simp add: ordinary_def encodable_def bytes_of_def)
  ultimately show ?thesis
    using hpack_response_round_trip [of 4096 "[]" "\<lparr>enc_table = fresh_table, enc_host = [], enc_scheme = []\<rparr>"
        fresh_table True False "[(bytes_of ''A'', bytes_of ''b'')]" 404 False
        "\<lparr>res_status = 0, res_reason = [], res_headers = [], res_body = [], res_version = V1_0\<rparr>"] fresh_in_step
    by auto
qed

text \<open>
  C34: From a well-formed dynamic table the decoders of requests and responses return on every input or fault by the
  oversized shift of the integer decoder, and in no other way: the assertion on the target of CONNECT requests never
  fails. They keep the table well-formed. An accepted request either holds no header but \<open>:scheme\<close> or has a method
  and, unless it is CONNECT, a scheme and a host.
\<close>

theorem hpack_message_decoders_total:
  assumes "dt_inv t"
  shows "(decode_request scheme input req t = Some (Inl Shift_overflow) \<or>
      (\<exists>ec req' t'. decode_request scheme input req t = Some (Inr (ec, req', t')) \<and> dt_inv t' \<and>
         (ec = None \<longrightarrow> (\<forall>h\<in>set (req_headers req'). fst h = bytes_of '':scheme'') \<or> well_formed req'))) \<and>
    (decode_response input res t = Some (Inl Shift_overflow) \<or>
      (\<exists>ec res' t'. decode_response input res t = Some (Inr (ec, res', t')) \<and> dt_inv t'))"
proof
  have "request_inv (request_start req)" by (simp add: request_inv_def request_start_def)
  from returns_fields [OF assms, where Q = request_inv and s = "request_start req", OF this,
      of "request_field scheme" input] request_field_inv
  have "returns (\<lambda>(ec, s', t'). (ec = None \<longrightarrow> request_inv s') \<and> dt_inv t')
      (decode_fields (request_field scheme) input (request_start req) t)" by blast
  then show "decode_request scheme input req t = Some (Inl Shift_overflow) \<or>
      (\<exists>ec req' t'. decode_request scheme input req t = Some (Inr (ec, req', t')) \<and> dt_inv t' \<and>
         (ec = None \<longrightarrow> (\<forall>h\<in>set (req_headers req'). fst h = bytes_of '':scheme'') \<or> well_formed req'))"
    by (auto simp: decode_request_def returns_def request_inv_def split: if_splits)
  let ?Q = "\<lambda>s. res_headers (rs_res s) \<noteq> [] \<longrightarrow> rs_got_status s"
  have "?Q (response_start res)" by (simp add: response_start_def response_clear_def)
  from returns_fields [OF assms, where Q = ?Q and s = "response_start res", OF this, of response_field input]
    response_field_inv
  have "returns (\<lambda>(ec, s', t'). (ec = None \<longrightarrow> ?Q s') \<and> dt_inv t')
      (decode_fields response_field input (response_start res) t)" by blast
  then show "decode_response input res t = Some (Inl Shift_overflow) \<or>
      (\<exists>ec res' t'. decode_response input res t = Some (Inr (ec, res', t')) \<and> dt_inv t')"
    by (auto simp: decode_response_def returns_def)
qed

theorem hpack_message_decoders_total_witness:
  "let res = \<lparr>res_status = 0, res_reason = [], res_headers = [], res_body = [], res_version = V1_0\<rparr> in
   decode_response [0x88] res fresh_table = Some (Inl Shift_overflow) \<or>
     (\<exists>ec res' t'. decode_response [0x88] res fresh_table = Some (Inr (ec, res', t')) \<and> dt_inv t')"
  using hpack_message_decoders_total [OF fresh_inv, of "[]" "[0x88]" _
      "\<lparr>res_status = 0, res_reason = [], res_headers = [], res_body = [], res_version = V1_0\<rparr>"]
  unfolding Let_def by blast

end
