(* ===== verification/Http2_Frame.thy ===== *)
theory Http2_Frame
  imports Hpack_Message
begin

text \<open>
  HTTP/2 frames, \<open>src/include/rad/net/http2/http2_parser.h\<close>, \<open>src/src/net/http2/http2_parser.cpp\<close> and the big-endian
  integers of \<open>src/include/rad/big_endian.h\<close>. The host is little-endian, as \<open>beu_base\<close> presumes: the
  memory of an integer starts with its low byte. A frame type is any byte, since received bytes are
  cast to the enumeration. An output buffer is the list of its bytes; \<open>put_at\<close> is \<open>std::memcpy\<close> into it, a
  fault when it does not fit.
\<close>

section \<open>Big-endian integers\<close>

definition memory16 :: "16 word \<Rightarrow> bytes" where
  "memory16 w = [ucast w, ucast (drop_bit 8 w)]"

definition memory32 :: "u32 \<Rightarrow> bytes" where
  "memory32 w = [ucast w, ucast (drop_bit 8 w), ucast (drop_bit 16 w), ucast (drop_bit 24 w)]"

definition memory64 :: "64 word \<Rightarrow> bytes" where
  "memory64 w = map (\<lambda>i. ucast (drop_bit (8 * i) w)) [0..<8]"

definition of_memory16 :: "bytes \<Rightarrow> 16 word" where
  "of_memory16 bs = ucast (bs ! 0) OR push_bit 8 (ucast (bs ! 1))"

definition of_memory32 :: "bytes \<Rightarrow> u32" where
  "of_memory32 bs = ucast (bs ! 0) OR push_bit 8 (ucast (bs ! 1)) OR push_bit 16 (ucast (bs ! 2))
     OR push_bit 24 (ucast (bs ! 3))"

text \<open>The value of a \<open>beu_base\<close> object is the integer stored in it.\<close>

definition bswap64 :: "64 word \<Rightarrow> 64 word" where
  "bswap64 w = (push_bit 32 (ucast (bswap32 (ucast w)))) OR ucast (bswap32 (ucast (drop_bit 32 w)))"

definition beu16_bytes :: "16 word \<Rightarrow> bytes" where "beu16_bytes v = memory16 (bswap16 v)"
definition beu32_bytes :: "u32 \<Rightarrow> bytes" where "beu32_bytes v = memory32 (bswap32 v)"
definition beu64_bytes :: "64 word \<Rightarrow> bytes" where "beu64_bytes v = memory64 (bswap64 v)"
definition beu16_value :: "bytes \<Rightarrow> 16 word" where "beu16_value bs = bswap16 (of_memory16 bs)"
definition beu32_value :: "bytes \<Rightarrow> u32" where "beu32_value bs = bswap32 (of_memory32 bs)"

section \<open>Frame headers\<close>

abbreviation (input) ft_data :: u8 where "ft_data \<equiv> 0x0"
abbreviation (input) ft_headers :: u8 where "ft_headers \<equiv> 0x1"
abbreviation (input) ft_priority :: u8 where "ft_priority \<equiv> 0x2"
abbreviation (input) ft_rst_stream :: u8 where "ft_rst_stream \<equiv> 0x3"
abbreviation (input) ft_settings :: u8 where "ft_settings \<equiv> 0x4"
abbreviation (input) ft_push_promise :: u8 where "ft_push_promise \<equiv> 0x5"
abbreviation (input) ft_ping :: u8 where "ft_ping \<equiv> 0x6"
abbreviation (input) ft_goaway :: u8 where "ft_goaway \<equiv> 0x7"
abbreviation (input) ft_window_update :: u8 where "ft_window_update \<equiv> 0x8"
abbreviation (input) ft_continuation :: u8 where "ft_continuation \<equiv> 0x9"

abbreviation (input) END_STREAM_FLAG :: u8 where "END_STREAM_FLAG \<equiv> 0x1"
abbreviation (input) SETTINGS_ACK_FLAG :: u8 where "SETTINGS_ACK_FLAG \<equiv> 0x1"
abbreviation (input) PING_ACK_FLAG :: u8 where "PING_ACK_FLAG \<equiv> 0x1"
abbreviation (input) END_HEADERS_FLAG :: u8 where "END_HEADERS_FLAG \<equiv> 0x4"
abbreviation (input) PADDED_FLAG :: u8 where "PADDED_FLAG \<equiv> 0x8"
abbreviation (input) PRIORITY_FLAG :: u8 where "PRIORITY_FLAG \<equiv> 0x20"

abbreviation (input) max_payload_size :: u32 where "max_payload_size \<equiv> 0xffffff"
abbreviation (input) max_stream_id :: u32 where "max_stream_id \<equiv> 0x7fffffff"

record frame_header =
  fh_length :: u32
  fh_stream_id :: u32
  fh_type :: u8
  fh_flags :: u8

definition new_frame_header :: frame_header where
  "new_frame_header = \<lparr>fh_length = 0, fh_stream_id = 0, fh_type = 0, fh_flags = 0\<rparr>"

definition put_at :: "nat \<Rightarrow> bytes \<Rightarrow> bytes \<Rightarrow> bytes res" where
  "put_at off bs mem =
     bind_res (ensure (off + length bs \<le> length mem) Out_of_bounds) (\<lambda>_.
       Inr (take off mem @ bs @ drop (off + length bs) mem))"

definition set_length :: "u32 \<Rightarrow> bytes \<Rightarrow> bytes res" where
  "set_length len buff =
     bind_res (ensure (len \<le> max_payload_size) Assertion) (\<lambda>_. put_at 0 (beu32_bytes (push_bit 8 len)) buff)"

definition set_stream_id :: "u32 \<Rightarrow> bytes \<Rightarrow> bytes res" where
  "set_stream_id sid buff = put_at 5 (beu32_bytes (bits_clear 31 sid)) buff"

definition set_type :: "u8 \<Rightarrow> bytes \<Rightarrow> bytes res" where "set_type t buff = put_at 3 [t] buff"
definition set_flags :: "u8 \<Rightarrow> bytes \<Rightarrow> bytes res" where "set_flags f buff = put_at 4 [f] buff"

definition frame_header_buffer :: "frame_header \<Rightarrow> bytes res" where
  "frame_header_buffer fh =
     bind_res (set_length (fh_length fh) (replicate 9 0)) (\<lambda>b1.
     bind_res (set_stream_id (fh_stream_id fh) b1) (\<lambda>b2.
     bind_res (set_type (fh_type fh) b2) (set_flags (fh_flags fh))))"

definition buff_length :: "bytes \<Rightarrow> u32" where
  "buff_length buff = drop_bit 8 (beu32_value (take 4 buff))"

definition buff_type :: "bytes \<Rightarrow> u8" where "buff_type buff = buff ! 3"
definition buff_flags :: "bytes \<Rightarrow> u8" where "buff_flags buff = buff ! 4"

definition reserved_bit :: "bytes \<Rightarrow> bool" where
  "reserved_bit buff = bits_check 31 (beu32_value (take 4 (drop 5 buff)))"

definition buff_stream_id :: "bytes \<Rightarrow> u32" where
  "buff_stream_id buff = bits_clear 31 (beu32_value (take 4 (drop 5 buff)))"

definition get_frame_header :: "bytes \<Rightarrow> frame_header" where
  "get_frame_header buff =
     \<lparr>fh_length = buff_length buff, fh_stream_id = buff_stream_id buff, fh_type = buff_type buff,
      fh_flags = buff_flags buff\<rparr>"

text \<open>\<open>write_to_buffer\<close> returns the number of bytes written and the buffer.\<close>

definition fh_write :: "frame_header \<Rightarrow> bytes \<Rightarrow> (nat \<times> bytes) res" where
  "fh_write fh out =
     (if length out < 9 then Inr (0, out)
      else bind_res (frame_header_buffer fh) (\<lambda>hbuff.
        bind_res (put_at 0 hbuff out) (\<lambda>out1. Inr (9, out1))))"

section \<open>Frames with a payload\<close>

record rst_stream_frame = frame_header +
  rst_error_code :: u32

text \<open>A header followed by the parts of the payload, as the writers of the small frames do it.\<close>

fun put_parts :: "nat \<Rightarrow> bytes list \<Rightarrow> bytes \<Rightarrow> (nat \<times> bytes) res" where
  "put_parts off [] out = Inr (off, out)"
| "put_parts off (p # ps) out = bind_res (put_at off p out) (put_parts (off + length p) ps)"

definition put_frame :: "frame_header \<Rightarrow> bytes list \<Rightarrow> bytes \<Rightarrow> (nat \<times> bytes) res" where
  "put_frame fh parts out = bind_res (fh_write fh out) (\<lambda>(n, out1). put_parts n parts out1)"

definition rst_stream_write :: "rst_stream_frame \<Rightarrow> bytes \<Rightarrow> (nat \<times> bytes) res" where
  "rst_stream_write f out =
     (if 9 + 4 > length out then Inr (0, out)
      else put_frame (new_frame_header\<lparr>fh_type := ft_rst_stream, fh_length := 4, fh_stream_id := fh_stream_id f\<rparr>)
        [beu32_bytes (rst_error_code f)] out)"

record setting_value =
  sv_id :: "16 word"
  sv_value :: u32

definition setting_value_buffer :: "setting_value \<Rightarrow> bytes" where
  "setting_value_buffer sv = beu16_bytes (sv_id sv) @ beu32_bytes (sv_value sv)"

definition get_setting_value :: "bytes \<Rightarrow> setting_value" where
  "get_setting_value buff = \<lparr>sv_id = beu16_value (take 2 buff), sv_value = beu32_value (take 4 (drop 2 buff))\<rparr>"

definition sv_write :: "setting_value \<Rightarrow> nat \<Rightarrow> bytes \<Rightarrow> (nat \<times> bytes) res" where
  "sv_write sv off out =
     (if length out - off < 6 then Inr (0, out)
      else bind_res (put_at off (setting_value_buffer sv) out) (\<lambda>out1. Inr (6, out1)))"

record settings_frame = frame_header +
  settings_values :: "setting_value list"

definition settings_ack :: "settings_frame \<Rightarrow> bool" where
  "settings_ack f \<longleftrightarrow> fh_flags f AND 0x1 \<noteq> 0"

definition settings_set_ack :: "settings_frame \<Rightarrow> settings_frame" where
  "settings_set_ack f = f\<lparr>fh_flags := fh_flags f OR 0x1\<rparr>"

definition settings_clear_ack :: "settings_frame \<Rightarrow> settings_frame" where
  "settings_clear_ack f = f\<lparr>fh_flags := fh_flags f AND NOT 0x1\<rparr>"

definition settings_needed_size :: "settings_frame \<Rightarrow> nat" where
  "settings_needed_size f =
     (if settings_ack f then 9 else unat (9 + 6 * of_nat (length (settings_values f)) :: u32))"

fun settings_loop :: "setting_value list \<Rightarrow> nat \<Rightarrow> bytes \<Rightarrow> (nat \<times> bytes) res" where
  "settings_loop [] off out = Inr (off, out)"
| "settings_loop (sv # svs) off out =
     bind_res (sv_write sv off out) (\<lambda>(n, out1).
       if n = 0 then Inr (0, out1) else settings_loop svs (off + n) out1)"

definition settings_write :: "settings_frame \<Rightarrow> bytes \<Rightarrow> (nat \<times> bytes) res" where
  "settings_write f out =
     (if settings_needed_size f > length out then Inr (0, out)
      else
        bind_res (fh_write (new_frame_header\<lparr>fh_type := ft_settings,
            fh_length := of_nat (settings_needed_size f) - 9, fh_flags := fh_flags f AND 0x1\<rparr>) out) (\<lambda>(n, out1).
          settings_loop (settings_values f) n out1))"

record ping_frame = frame_header +
  opaque_data :: "64 word"

definition ping_write :: "ping_frame \<Rightarrow> bytes \<Rightarrow> (nat \<times> bytes) res" where
  "ping_write f out =
     (if 9 + 8 > length out then Inr (0, out)
      else put_frame (new_frame_header\<lparr>fh_type := ft_ping, fh_length := 8, fh_flags := fh_flags f AND 0x1\<rparr>)
        [beu64_bytes (opaque_data f)] out)"

record goaway_frame = frame_header +
  last_stream_id :: u32
  goaway_error :: "16 word"
  debug_data :: bytes

definition goaway_needed_size :: "goaway_frame \<Rightarrow> nat" where
  "goaway_needed_size f = unat (9 + (4 * 2) + of_nat (length (debug_data f)) :: u32)"

definition goaway_write :: "goaway_frame \<Rightarrow> bytes \<Rightarrow> (nat \<times> bytes) res" where
  "goaway_write f out =
     (if goaway_needed_size f > length out then Inr (0, out)
      else put_frame (new_frame_header\<lparr>fh_type := ft_goaway, fh_length := of_nat (goaway_needed_size f) - 9\<rparr>)
        [beu32_bytes (last_stream_id f), beu32_bytes (ucast (goaway_error f)), debug_data f] out)"

record window_update_frame = frame_header +
  window_size_increment :: u32

definition window_update_write :: "window_update_frame \<Rightarrow> bytes \<Rightarrow> (nat \<times> bytes) res" where
  "window_update_write f out =
     (if 9 + 4 > length out then Inr (0, out)
      else put_frame (new_frame_header\<lparr>fh_type := ft_window_update, fh_stream_id := fh_stream_id f, fh_length := 4\<rparr>)
        [beu32_bytes (window_size_increment f)] out)"

section \<open>Which frames are valid\<close>

definition is_valid_type :: "frame_header \<Rightarrow> bool \<Rightarrow> bool \<Rightarrow> bool" where
  "is_valid_type fh from_client push_allowed =
     (if fh_type fh = ft_push_promise then \<not> from_client \<and> push_allowed else fh_type fh \<le> 0x9)"

definition is_valid_size :: "frame_header \<Rightarrow> u32 \<Rightarrow> bool" where
  "is_valid_size fh max_frame_payload_size =
     (let is_padded = (fh_flags fh AND PADDED_FLAG = PADDED_FLAG);
          is_priority = (fh_flags fh AND PRIORITY_FLAG = PRIORITY_FLAG);
          len = fh_length fh
      in if len > max_payload_size \<or> len > max_frame_payload_size then False
      else if fh_type fh = ft_settings then
        (if fh_flags fh AND SETTINGS_ACK_FLAG = SETTINGS_ACK_FLAG then len = 0 else len mod 6 = 0)
      else if fh_type fh = ft_priority then len = 5
      else if fh_type fh = ft_rst_stream \<or> fh_type fh = ft_window_update then len = 4
      else if fh_type fh = ft_ping then len = 8
      else if fh_type fh = ft_goaway then len \<ge> 8
      else if fh_type fh = ft_headers then
        len > (if is_padded then 1 else 0) + (if is_priority then 5 else 0)
      else if fh_type fh = ft_data then len \<ge> (if is_padded then 1 else 0)
      else True)"

definition is_valid_flags :: "frame_header \<Rightarrow> bool" where
  "is_valid_flags fh =
     (fh_flags fh AND NOT (END_STREAM_FLAG OR END_HEADERS_FLAG OR PRIORITY_FLAG OR PADDED_FLAG OR PING_ACK_FLAG) = 0)"

definition is_connection_frame :: "frame_header \<Rightarrow> bool" where
  "is_connection_frame fh \<longleftrightarrow> fh_type fh = ft_settings \<or> fh_type fh = ft_ping \<or> fh_type fh = ft_goaway"

definition is_stream_frame :: "frame_header \<Rightarrow> bool" where
  "is_stream_frame fh \<longleftrightarrow> fh_type fh = ft_data \<or> fh_type fh = ft_headers \<or> fh_type fh = ft_continuation \<or>
     fh_type fh = ft_rst_stream \<or> fh_type fh = ft_priority \<or> fh_type fh = ft_push_promise"

definition is_connection_or_stream_frame :: "frame_header \<Rightarrow> bool" where
  "is_connection_or_stream_frame fh \<longleftrightarrow> fh_type fh = ft_window_update"

definition may_be_sent_to_closed_stream :: "frame_header \<Rightarrow> bool" where
  "may_be_sent_to_closed_stream fh \<longleftrightarrow>
     fh_type fh = ft_priority \<or> fh_type fh = ft_window_update \<or> fh_type fh = ft_rst_stream"

definition may_be_sent_to_half_closed_remote_stream :: "frame_header \<Rightarrow> bool" where
  "may_be_sent_to_half_closed_remote_stream fh \<longleftrightarrow>
     fh_type fh = ft_priority \<or> fh_type fh = ft_window_update \<or> fh_type fh = ft_rst_stream"

definition frame_min_payload_size :: "frame_header \<Rightarrow> u32" where
  "frame_min_payload_size fh =
     (if fh_type fh = ft_priority then 5
      else if fh_type fh = ft_rst_stream then 4
      else if fh_type fh = ft_settings then (if fh_flags fh AND SETTINGS_ACK_FLAG = SETTINGS_ACK_FLAG then 0 else 6)
      else if fh_type fh = ft_ping then 8
      else if fh_type fh = ft_goaway then 8
      else if fh_type fh = ft_window_update then 4
      else 0)"

definition is_valid_stream_id :: "frame_header \<Rightarrow> bool \<Rightarrow> u32 \<Rightarrow> u32 \<Rightarrow> bool" where
  "is_valid_stream_id fh from_client last_client_id last_server_id =
     (if fh_stream_id fh = 0 then \<not> is_stream_frame fh
      else if is_connection_frame fh then False
      else if fh_stream_id fh > max_stream_id then False
      else
        let is_new_id = (from_client \<and> fh_type fh = ft_headers \<or> \<not> from_client \<and> fh_type fh = ft_push_promise);
            last_id = (if from_client then last_server_id else last_client_id)
        in if is_new_id then
             let next_id = last_id + 2; is_odd = (fh_stream_id fh mod 2 \<noteq> 0) in
             if next_id > fh_stream_id fh \<or> next_id < last_id then False
             else if fh_stream_id fh \<noteq> next_id then False
             else if is_odd \<noteq> from_client then False
             else True
           else if fh_stream_id fh > last_id then False
           else True)"

definition is_valid_frame ::
    "frame_header \<Rightarrow> frame_header option \<Rightarrow> u32 \<Rightarrow> bool \<Rightarrow> bool \<Rightarrow> u32 \<Rightarrow> u32 \<Rightarrow> bool" where
  "is_valid_frame fh previous_header max_frame_payload_size push_allowed from_client last_client_id last_server_id =
     (if \<not> is_valid_type fh from_client push_allowed then False
      else if \<not> is_valid_flags fh then False
      else if \<not> is_valid_size fh max_frame_payload_size then False
      else if \<not> is_valid_stream_id fh from_client last_client_id last_server_id then False
      else
        (case previous_header of
           None \<Rightarrow> fh_type fh = ft_settings
         | Some prev \<Rightarrow>
             let was_end_headers = (fh_flags prev AND END_HEADERS_FLAG = END_HEADERS_FLAG) in
             if \<not> was_end_headers \<and> (fh_type prev = ft_headers \<or> fh_type prev = ft_continuation) then
               \<not> (fh_type fh \<noteq> ft_continuation \<or> fh_stream_id fh \<noteq> fh_stream_id prev)
             else fh_type fh \<noteq> ft_continuation))"

section \<open>Headers in frames\<close>

text \<open>
  \<open>char\<close> is a signed type on most targets of the library and unsigned on others: the first
  argument of the header checks says which.
\<close>

definition char_value :: "bool \<Rightarrow> u8 \<Rightarrow> int" where
  "char_value char_signed c = (if char_signed then sint c else uint c)"

fun validate_field_loop :: "bool \<Rightarrow> bool \<Rightarrow> bytes \<Rightarrow> bool" where
  "validate_field_loop char_signed first_ch [] = True"
| "validate_field_loop char_signed first_ch (c # cs) =
     (let ch = char_value char_signed c in
      if ch \<ge> 0x0 \<and> ch \<le> 0x20 \<or> ch \<ge> 0x41 \<and> ch \<le> 0x5a \<or> ch \<ge> 0x7f then False
      else if ch \<ge> 0x41 \<and> ch \<le> 0x5a then False
      else if ch = 0x3a \<and> \<not> first_ch then False
      else validate_field_loop char_signed False cs)"

definition starts_with :: "bytes \<Rightarrow> bytes \<Rightarrow> bool" where
  "starts_with str pre = (take (length pre) str = pre)"

definition validate_header_field :: "bool \<Rightarrow> bytes \<Rightarrow> bool" where
  "validate_header_field char_signed field =
     (if field = [] then False
      else if \<not> validate_field_loop char_signed True field then False
      else if starts_with field (bytes_of ''connection-'') \<or> field = bytes_of ''connection'' then False
      else if field = bytes_of ''proxy-connection'' \<or> field = bytes_of ''keep-alive'' \<or>
        field = bytes_of ''transfer-encoding'' \<or> field = bytes_of ''upgrade'' then False
      else True)"

definition validate_header_value :: "bytes \<Rightarrow> bool" where
  "validate_header_value val =
     (if val = [] then True
      else if hd val = 0x20 \<or> last val = 0x20 then False
      else if hd val = 0x09 \<or> last val = 0x09 then False
      else list_all (\<lambda>ch. \<not> (ch = 0 \<or> ch = 0x0a \<or> ch = 0x0d)) val)"

definition validate_header :: "bool \<Rightarrow> bytes \<Rightarrow> bytes \<Rightarrow> bool" where
  "validate_header char_signed field val \<longleftrightarrow> validate_header_field char_signed field \<and> validate_header_value val"

definition validate_headers :: "bool \<Rightarrow> headers \<Rightarrow> bool" where
  "validate_headers char_signed hdrs = list_all (\<lambda>(name, val). validate_header char_signed name val) hdrs"

definition get_header_list_size :: "headers \<Rightarrow> u32" where
  "get_header_list_size hdrs =
     of_nat (foldl (\<lambda>n h. n + (length (fst h) + length (snd h))) (length hdrs * 32) hdrs)"

text \<open>
  The frames of a request are pairs of an encoded header and a payload. \<open>insert_header_and_payload\<close> writes the
  header to the space made for the headers and takes the payload from the front of the block.
\<close>

type_synonym frame_buffers = "(bytes \<times> bytes) list"

definition insert_header_and_payload ::
    "frame_header \<Rightarrow> bytes \<Rightarrow> bytes \<Rightarrow> ((bytes \<times> bytes) \<times> bytes \<times> bytes) res" where
  "insert_header_and_payload fh headers_buff hpack_buff =
     bind_res (fh_write fh headers_buff) (\<lambda>(n, headers_buff1).
     bind_res (ensure (n > 0) Assertion) (\<lambda>_.
     bind_res (advance n headers_buff1) (\<lambda>headers_buff2.
     bind_res (advance (unat (fh_length fh)) hpack_buff) (\<lambda>hpack_buff1.
     Inr ((take n headers_buff1, take (unat (fh_length fh)) hpack_buff), headers_buff2, hpack_buff1)))))"

definition continuation_header :: "u32 \<Rightarrow> nat \<Rightarrow> bool \<Rightarrow> frame_header" where
  "continuation_header sid write_size last_continuation =
     new_frame_header\<lparr>fh_stream_id := sid, fh_type := ft_continuation,
       fh_flags := (if last_continuation then END_HEADERS_FLAG else 0), fh_length := of_nat write_size\<rparr>"

partial_function (option) continuation_loop ::
    "u32 \<Rightarrow> nat \<Rightarrow> bytes \<Rightarrow> bytes \<Rightarrow> frame_buffers res option" where
  "continuation_loop sid max_block headers_buff hpack_buff =
     (if hpack_buff = [] then Some (Inr [])
      else
        let write_size = min max_block (length hpack_buff);
            last_continuation = (write_size = length hpack_buff)
        in case insert_header_and_payload (continuation_header sid write_size last_continuation) headers_buff hpack_buff of
             Inl e \<Rightarrow> Some (Inl e)
           | Inr (frame, headers_buff1, hpack_buff1) \<Rightarrow>
               Option.bind (continuation_loop sid max_block headers_buff1 hpack_buff1) (\<lambda>r.
                 Some (bind_res r (\<lambda>frames. Inr (frame # frames)))))"

text \<open>The headers block in frames, once it is encoded.\<close>

definition split_headers_block :: "u32 \<Rightarrow> bool \<Rightarrow> nat \<Rightarrow> bytes \<Rightarrow> frame_buffers run" where
  "split_headers_block sid empty_body max_block block =
     (if length block < max_block then
        let fh = new_frame_header\<lparr>fh_stream_id := sid, fh_type := ft_headers,
              fh_flags := (if empty_body then END_HEADERS_FLAG OR END_STREAM_FLAG else END_HEADERS_FLAG),
              fh_length := of_nat (length block)\<rparr>
        in bind_run (Some (frame_header_buffer fh)) (\<lambda>hbuff. Some (Inr [(hbuff, block)]))
      else
        let frames_count = length block div max_block + (if length block mod max_block \<noteq> 0 then 1 else 0) in
        bind_run (Some (ensure (frames_count > 1) Assertion)) (\<lambda>_.
        let headers_buff = replicate (frames_count * 9) 0;
            fh = new_frame_header\<lparr>fh_stream_id := sid, fh_type := ft_headers,
              fh_flags := (if empty_body then 0x1 else 0), fh_length := of_nat max_block\<rparr>
        in bind_run (Some (insert_header_and_payload fh headers_buff block)) (\<lambda>(frame, headers_buff1, hpack_buff).
           bind_run (continuation_loop sid max_block headers_buff1 hpack_buff) (\<lambda>frames.
             Some (Inr (frame # frames))))))"

definition make_headers_continuations_frames ::
    "u32 \<Rightarrow> verb \<Rightarrow> bytes \<Rightarrow> headers \<Rightarrow> bool \<Rightarrow> u32 \<Rightarrow> hpack_encoder \<Rightarrow> (frame_buffers \<times> hpack_encoder) run" where
  "make_headers_continuations_frames sid method path hdrs empty_body max_headers_block_size hencoder =
     bind_run (encode_request method path hdrs True True False hencoder) (\<lambda>(block, hencoder1).
     bind_run (split_headers_block sid empty_body (max (unat max_headers_block_size) 1) block) (\<lambda>frames.
     Some (Inr (frames, hencoder1))))"

fun frames_buffers_loop :: "(frame_header \<times> bytes) list \<Rightarrow> bytes \<Rightarrow> frame_buffers res" where
  "frames_buffers_loop [] headers_buff = Inr []"
| "frames_buffers_loop ((fh, buff) # frames) headers_buff =
     bind_res (fh_write fh headers_buff) (\<lambda>(n, headers_buff1).
     bind_res (advance n headers_buff1) (\<lambda>headers_buff2.
     bind_res (frames_buffers_loop frames headers_buff2) (\<lambda>rest.
     Inr ((take 9 headers_buff1, buff) # rest))))"

definition make_frames_buffers :: "(frame_header \<times> bytes) list \<Rightarrow> frame_buffers res" where
  "make_frames_buffers data_frames = frames_buffers_loop data_frames (replicate (length data_frames * 9) 0)"

section \<open>Settings\<close>

record endpoint_config =
  header_table_size :: u32
  max_concurrent_streams :: u32
  initial_window_size :: u32
  max_frame_size :: u32
  max_header_list_size :: u32
  enable_push :: bool

definition make_settings_frame :: "endpoint_config \<Rightarrow> endpoint_config \<Rightarrow> settings_frame" where
  "make_settings_frame cfg old_cfg =
     (settings_clear_ack \<lparr>fh_length = 0, fh_stream_id = 0, fh_type = 0, fh_flags = 0, settings_values = []\<rparr>)
      \<lparr>settings_values :=
        (if header_table_size old_cfg \<noteq> header_table_size cfg then [\<lparr>sv_id = 1, sv_value = header_table_size cfg\<rparr>] else []) @
        (if initial_window_size old_cfg \<noteq> initial_window_size cfg then [\<lparr>sv_id = 4, sv_value = initial_window_size cfg\<rparr>] else []) @
        (if max_concurrent_streams old_cfg \<noteq> max_concurrent_streams cfg then [\<lparr>sv_id = 3, sv_value = max_concurrent_streams cfg\<rparr>] else []) @
        (if max_frame_size old_cfg \<noteq> max_frame_size cfg then [\<lparr>sv_id = 5, sv_value = max_frame_size cfg\<rparr>] else []) @
        (if max_header_list_size old_cfg \<noteq> max_header_list_size cfg then [\<lparr>sv_id = 6, sv_value = max_header_list_size cfg\<rparr>] else []) @
        (if enable_push old_cfg \<noteq> enable_push cfg then [\<lparr>sv_id = 2, sv_value = (if enable_push cfg then 1 else 0)\<rparr>] else [])\<rparr>"

end
