(* ===== verification/Http2_Laws.thy ===== *)
theory Http2_Laws
  imports Http2_Frame Utf16_Laws Hpack_Total
begin

text \<open>
  The bytes of HTTP/2 frames: integers in network order, frame headers and their inverse, the frames
  with a payload, and the division of a headers block into frames.
\<close>

section \<open>Network order\<close>

lemma length_beu [simp]:
  "length (beu16_bytes v) = 2" "length (beu32_bytes w) = 4" "length (beu64_bytes x) = 8"
  by (simp_all add: beu16_bytes_def beu32_bytes_def beu64_bytes_def memory16_def memory32_def memory64_def)

lemma beu16_network: "beu16_bytes v = [ucast (drop_bit 8 v), ucast v]"
  by (auto simp: beu16_bytes_def memory16_def bswap16_def bit_simps intro!: bit_word_eqI)

lemma beu32_network:
  "beu32_bytes v = [ucast (drop_bit 24 v), ucast (drop_bit 16 v), ucast (drop_bit 8 v), ucast v]"
  by (auto simp: beu32_bytes_def memory32_def bit_bswap32 bit_simps add.commute intro!: bit_word_eqI)

text \<open>A word in network order, most significant byte first.\<close>

definition network :: "nat \<Rightarrow> 'a::len word \<Rightarrow> bytes" where
  "network k v = map (\<lambda>i. ucast (drop_bit (8 * i) v)) (rev [0..<k])"

lemma beu32_bytes_network: "beu32_bytes v = network 4 v"
  by (simp add: beu32_network network_def upt_rec)

lemma no_upper_half [simp]:
  "\<not> bit (w :: u32) (32 + n)" "\<not> bit w (40 + n)" "\<not> bit w (48 + n)" "\<not> bit w (56 + n)"
  by (rule impossible_bit, simp)+

lemma beu64_bytes_network: "beu64_bytes v = network 8 v"
proof -
  have hi: "memory64 (bswap64 v) = memory32 (bswap32 (ucast (drop_bit 32 v))) @ memory32 (bswap32 (ucast v))"
    by (auto simp: memory64_def memory32_def bswap64_def upt_rec bit_simps bit_bswap32 intro!: bit_word_eqI)
  show ?thesis
    unfolding beu64_bytes_def hi beu32_bytes_def [symmetric] beu32_network
    by (auto simp: network_def upt_rec bit_simps intro!: bit_word_eqI)
qed

lemma of_memory16 [simp]: "of_memory16 (memory16 w) = w"
  by (auto simp: of_memory16_def memory16_def bit_simps intro!: bit_word_eqI)

lemma of_memory32 [simp]: "of_memory32 (memory32 w) = w"
proof (rule bit_word_eqI)
  fix n assume "n < LENGTH(32)"
  then consider "n < 8" | "8 \<le> n" "n < 16" | "16 \<le> n" "n < 24" | "24 \<le> n" "n < 32" by fastforce
  then show "bit (of_memory32 (memory32 w)) n \<longleftrightarrow> bit w n"
    by cases (simp_all add: of_memory32_def memory32_def bit_simps less_diff_conv2)
qed

lemma no_high_bits [simp]: "\<not> bit (x :: u8) (8 + n)" "\<not> bit x (16 + n)" "\<not> bit x (24 + n)"
  by (rule impossible_bit, simp)+

lemma memory32_of [simp]: "memory32 (of_memory32 [a, b, c, d]) = [a, b, c, d]"
  by (auto simp: of_memory32_def memory32_def bit_simps intro!: bit_word_eqI)

lemma beu16_value_bytes [simp]: "beu16_value (beu16_bytes v) = v"
  by (simp add: beu16_value_def beu16_bytes_def)

lemma beu32_value_bytes [simp]: "beu32_value (beu32_bytes v) = v"
  by (simp add: beu32_value_def beu32_bytes_def)

lemma beu32_bytes_value [simp]: "beu32_bytes (beu32_value [a, b, c, d]) = [a, b, c, d]"
  by (simp add: beu32_value_def beu32_bytes_def)

section \<open>Frame headers\<close>

lemma put_at_fits [simp]:
  "off + length bs \<le> length mem \<Longrightarrow> put_at off bs mem = Inr (take off mem @ bs @ drop (off + length bs) mem)"
  by (simp add: put_at_def)

lemma small_length: "len \<le> (0xffffff :: u32) \<longleftrightarrow> unat len < 2 ^ 24"
  by (simp add: word_le_nat_alt less_Suc_eq_le [symmetric])

lemma length_bytes:
  "beu32_bytes (push_bit 8 len OR ucast (t :: u8)) = [ucast (drop_bit 16 len), ucast (drop_bit 8 len), ucast len, t]"
  by (auto simp: beu32_network bit_simps intro!: bit_word_eqI)

lemma frame_header_bytes:
  assumes "fh_length fh \<le> 0xffffff"
  shows "frame_header_buffer fh =
    Inr (beu32_bytes (push_bit 8 (fh_length fh) OR ucast (fh_type fh)) @ fh_flags fh # beu32_bytes (bits_clear 31 (fh_stream_id fh)))"
proof -
  obtain a b c d where i: "beu32_bytes (bits_clear 31 (fh_stream_id fh)) = [a, b, c, d]" by (simp add: beu32_network)
  have "beu32_bytes (push_bit 8 (fh_length fh)) =
      [ucast (drop_bit 16 (fh_length fh)), ucast (drop_bit 8 (fh_length fh)), ucast (fh_length fh), 0]"
    using length_bytes [of "fh_length fh" 0] by simp
  moreover have "replicate 9 (0 :: u8) = [0, 0, 0, 0, 0, 0, 0, 0, 0]" by (simp add: numeral_eq_Suc)
  ultimately show ?thesis
    using assms unfolding length_bytes
    by (simp add: frame_header_buffer_def set_length_def set_stream_id_def set_type_def set_flags_def i)
qed

lemma drop_push_length:
  assumes "unat len < 2 ^ 24"
  shows "drop_bit 8 (push_bit 8 len OR ucast (t :: u8)) = (len :: u32)"
proof (rule bit_word_eqI)
  fix n
  have "bit len n \<Longrightarrow> n < 24" using unat_lt_bit [OF assms] .
  then show "bit (drop_bit 8 (push_bit 8 len OR ucast t)) n \<longleftrightarrow> bit len n"
    by (auto simp: bit_simps)
qed

lemma take_beu [simp]: "take 4 (beu32_bytes v @ bs) = beu32_bytes v" "drop 4 (beu32_bytes v @ bs) = bs"
  "take 4 (beu32_bytes v) = beu32_bytes v"
  by simp_all

lemma get_frame_header_bytes:
  assumes "fh_length fh \<le> 0xffffff" and "frame_header_buffer fh = Inr hbuff"
  shows "get_frame_header hbuff = fh\<lparr>fh_stream_id := bits_clear 31 (fh_stream_id fh)\<rparr>" "length hbuff = 9"
    "\<not> reserved_bit hbuff"
proof -
  have h: "hbuff = beu32_bytes (push_bit 8 (fh_length fh) OR ucast (fh_type fh)) @ fh_flags fh #
      beu32_bytes (bits_clear 31 (fh_stream_id fh))"
    using frame_header_bytes [OF assms(1)] assms(2) by simp
  have "unat (fh_length fh) < 2 ^ 24" using assms(1) by (simp add: small_length)
  then have len: "buff_length hbuff = fh_length fh"
    by (simp only: buff_length_def h take_beu beu32_value_bytes drop_push_length)
  have ty: "buff_type hbuff = fh_type fh" by (simp add: buff_type_def h length_bytes)
  have fl: "buff_flags hbuff = fh_flags fh" by (simp add: buff_flags_def h nth_append)
  have tail: "drop 5 hbuff = beu32_bytes (bits_clear 31 (fh_stream_id fh))" by (simp add: h)
  have id: "buff_stream_id hbuff = bits_clear 31 (fh_stream_id fh)"
    unfolding buff_stream_id_def tail by (auto simp: bit_bits_clear intro!: bit_word_eqI)
  show "get_frame_header hbuff = fh\<lparr>fh_stream_id := bits_clear 31 (fh_stream_id fh)\<rparr>"
    by (simp add: get_frame_header_def len ty fl id)
  show "length hbuff = 9" by (simp add: h)
  show "\<not> reserved_bit hbuff" unfolding reserved_bit_def tail by (simp add: bit_bits_clear)
qed

lemma low_byte_join: "push_bit 8 (drop_bit 8 v) OR ucast (ucast v :: u8) = (v :: u32)"
proof (rule bit_word_eqI)
  fix n
  show "bit (push_bit 8 (drop_bit 8 v) OR ucast (ucast v :: u8)) n \<longleftrightarrow> bit v n"
    by (cases "n < 8") (auto simp: bit_simps dest: bit_imp_le_length)
qed

lemma beu32_cleared: "beu32_bytes (bits_clear 31 v) = (case beu32_bytes v of b # bs \<Rightarrow> (b AND 0x7f) # bs)"
proof -
  have "ucast (drop_bit 24 (bits_clear 31 v)) = ucast (drop_bit 24 v) AND (0x7f :: u8)"
  proof -
    have m: "(0x7f :: u8) = mask 7" by (simp add: mask_eq_exp_minus_1)
    show ?thesis unfolding m by (auto simp: bit_simps simp del: mask_numeral intro!: bit_word_eqI)
  qed
  moreover have "ucast (drop_bit k (bits_clear 31 v)) = (ucast (drop_bit k v) :: u8)" if "k \<le> 16" for k
    using that by (auto simp: bit_simps intro!: bit_word_eqI)
  from this [of 16] this [of 8] this [of 0] have
    "ucast (drop_bit 16 (bits_clear 31 v)) = (ucast (drop_bit 16 v) :: u8)"
    "ucast (drop_bit 8 (bits_clear 31 v)) = (ucast (drop_bit 8 v) :: u8)"
    "ucast (bits_clear 31 v) = (ucast v :: u8)" by simp_all
  ultimately show ?thesis by (simp add: beu32_network)
qed

lemma frame_header_buffer_inverse:
  "frame_header_buffer (get_frame_header [a, b, c, t, f, i, j, k, l]) = Inr [a, b, c, t, f, i AND 0x7f, j, k, l]"
proof -
  let ?v = "beu32_value [a, b, c, t]"
  let ?fh = "get_frame_header [a, b, c, t, f, i, j, k, l]"
  have fields: "fh_length ?fh = drop_bit 8 ?v" "fh_type ?fh = t" "fh_flags ?fh = f"
    "fh_stream_id ?fh = bits_clear 31 (beu32_value [i, j, k, l])"
    by (simp_all add: get_frame_header_def buff_length_def buff_type_def buff_flags_def buff_stream_id_def)
  have "unat (drop_bit 8 ?v) < 2 ^ 24"
    using unsigned_less [of ?v, where 'a = nat] by (simp add: word_arith less_mult_imp_div_less)
  then have "fh_length ?fh \<le> 0xffffff" by (simp add: small_length fields)
  note b = frame_header_bytes [OF this]
  have "[a, b, c, t] = beu32_bytes ?v" by simp
  then have "t = ucast ?v" unfolding beu32_network by simp
  then have "push_bit 8 (drop_bit 8 ?v) OR ucast t = ?v" using low_byte_join [of ?v] by simp
  moreover have "bits_clear 31 (bits_clear 31 x) = bits_clear 31 (x :: u32)" for x
    by (auto simp: bit_simps intro!: bit_word_eqI)
  ultimately show ?thesis using b unfolding fields by (simp add: beu32_cleared)
qed

section \<open>Frames with a payload\<close>

definition header_bytes :: "frame_header \<Rightarrow> bytes" where
  "header_bytes fh =
     beu32_bytes (push_bit 8 (fh_length fh) OR ucast (fh_type fh)) @ fh_flags fh # beu32_bytes (bits_clear 31 (fh_stream_id fh))"

lemma length_header_bytes [simp]: "length (header_bytes fh) = 9"
  by (simp add: header_bytes_def)

lemma frame_header_buffer_bytes: "fh_length fh \<le> 0xffffff \<Longrightarrow> frame_header_buffer fh = Inr (header_bytes fh)"
  by (simp add: header_bytes_def frame_header_bytes)

lemma get_header_bytes:
  "fh_length fh \<le> 0xffffff \<Longrightarrow> get_frame_header (header_bytes fh) = fh\<lparr>fh_stream_id := bits_clear 31 (fh_stream_id fh)\<rparr>"
  by (simp add: get_frame_header_bytes frame_header_buffer_bytes)

lemma fh_write_fits:
  "fh_length fh \<le> 0xffffff \<Longrightarrow> 9 \<le> length out \<Longrightarrow> fh_write fh out = Inr (9, header_bytes fh @ drop 9 out)"
  by (simp add: fh_write_def frame_header_buffer_bytes)

lemma put_parts_concat:
  "off + length (concat parts) \<le> length out \<Longrightarrow> put_parts off parts out
     = Inr (off + length (concat parts), take off out @ concat parts @ drop (off + length (concat parts)) out)"
proof (induction off parts out rule: put_parts.induct)
  case (2 off p ps out)
  then show ?case by (simp add: ac_simps)
qed simp

lemma put_frame_bytes:
  assumes "fh_length fh \<le> 0xffffff" and "9 + length (concat parts) \<le> length out"
  shows "put_frame fh parts out = Inr (9 + length (concat parts),
    header_bytes fh @ concat parts @ drop (9 + length (concat parts)) out)"
proof -
  have "put_frame fh parts out = put_parts 9 parts (header_bytes fh @ drop 9 out)"
    using assms by (simp add: put_frame_def fh_write_fits)
  also have "\<dots> = Inr (9 + length (concat parts), header_bytes fh @ concat parts @ drop (9 + length (concat parts)) out)"
    using assms(2) by (simp add: put_parts_concat add.commute)
  finally show ?thesis .
qed

lemma length_setting_value [simp]: "length (setting_value_buffer sv) = 6"
  by (simp add: setting_value_buffer_def)

lemma get_setting_value_buffer [simp]: "get_setting_value (setting_value_buffer sv) = sv"
  by (simp add: get_setting_value_def setting_value_buffer_def)

lemma settings_loop_concat:
  "off + 6 * length svs \<le> length out \<Longrightarrow> settings_loop svs off out
     = Inr (off + 6 * length svs,
         take off out @ concat (map setting_value_buffer svs) @ drop (off + 6 * length svs) out)"
proof (induction svs arbitrary: off out)
  case (Cons sv svs)
  have "sv_write sv off out = Inr (6, take off out @ setting_value_buffer sv @ drop (off + 6) out)"
    using Cons.prems by (auto simp: sv_write_def)
  with Cons.prems Cons.IH [of "off + 6" "take off out @ setting_value_buffer sv @ drop (off + 6) out"]
  show ?case by (simp add: ac_simps)
qed simp

section \<open>Accepted frames\<close>

text \<open>A connection remembers the header of the previous frame; the other parameters may change between frames.\<close>

inductive accepted :: "bool \<Rightarrow> frame_header list \<Rightarrow> frame_header option \<Rightarrow> bool" for from_client where
  start: "accepted from_client [] None"
| frame: "accepted from_client hs prev \<Longrightarrow> is_valid_frame fh prev max_size push from_client cid sid \<Longrightarrow>
    accepted from_client (hs @ [fh]) (Some fh)"

inductive_cases accepted_None: "accepted from_client hs None"

definition opens_block :: "frame_header \<Rightarrow> bool" where
  "opens_block fh \<longleftrightarrow> (fh_type fh = 0x1 \<or> fh_type fh = 0x9) \<and> fh_flags fh AND 0x4 \<noteq> 0x4"

lemma valid_after:
  "is_valid_frame fh (Some prev) max_size push from_client cid sid \<Longrightarrow>
     (fh_type fh = 0x9 \<longleftrightarrow> opens_block prev) \<and> (opens_block prev \<longrightarrow> fh_stream_id fh = fh_stream_id prev)"
  by (auto simp: is_valid_frame_def opens_block_def Let_def split: if_splits)

lemma valid_first:
  "is_valid_frame fh None max_size push from_client cid sid \<Longrightarrow> fh_type fh = 0x4"
  by (auto simp: is_valid_frame_def split: if_splits)

lemma valid_bounds:
  assumes "is_valid_frame fh prev max_size push from_client cid sid"
  shows "fh_length fh \<le> 0xffffff" "fh_length fh \<le> max_size"
    "fh_type fh = 0x4 \<or> fh_type fh = 0x6 \<or> fh_type fh = 0x7 \<Longrightarrow> fh_stream_id fh = 0"
    "fh_type fh = 0x0 \<or> fh_type fh = 0x1 \<or> fh_type fh = 0x9 \<Longrightarrow> fh_stream_id fh \<noteq> 0"
  using assms
  by (auto simp: is_valid_frame_def is_valid_size_def is_valid_stream_id_def is_connection_frame_def
      is_stream_frame_def Let_def not_less split: if_splits)

end
