(* ===== verification/Http2_Blocks.thy ===== *)
theory Http2_Blocks
  imports Http2_Laws
begin

text \<open>
  Headers blocks in frames: what is sent for a block, and what a receiver that accepts only valid
  frames can be in the middle of.
\<close>

section \<open>Sending a block\<close>

lemma insert_fits:
  assumes "fh_length fh \<le> 0xffffff" and "9 \<le> length headers_buff" and "unat (fh_length fh) \<le> length hpack_buff"
  shows "insert_header_and_payload fh headers_buff hpack_buff =
    Inr ((header_bytes fh, take (unat (fh_length fh)) hpack_buff), drop 9 headers_buff, drop (unat (fh_length fh)) hpack_buff)"
  using assms by (simp add: insert_header_and_payload_def fh_write_fits)

function continuation_frames :: "u32 \<Rightarrow> nat \<Rightarrow> bytes \<Rightarrow> (frame_header \<times> bytes) list" where
  "continuation_frames sid k block =
     (if block = [] \<or> k = 0 then []
      else (continuation_header sid (min k (length block)) (length block \<le> k), take k block)
        # continuation_frames sid k (drop k block))"
  by pat_completeness auto
termination
  by (relation "measure (\<lambda>(sid, k, block). length block)") auto

declare continuation_frames.simps [simp del]

lemma continuation_frames_Nil [simp]: "continuation_frames sid k [] = []"
  by (simp add: continuation_frames.simps)

lemma continuation_frames_step:
  "block \<noteq> [] \<Longrightarrow> 0 < k \<Longrightarrow> continuation_frames sid k block
     = (continuation_header sid (min k (length block)) (length block \<le> k), take k block)
       # continuation_frames sid k (drop k block)"
  by (subst continuation_frames.simps) simp

abbreviation written_frames :: "(frame_header \<times> bytes) list \<Rightarrow> frame_buffers" where
  "written_frames \<equiv> map (\<lambda>(fh, p). (header_bytes fh, p))"

lemma unat_small: "n < 2 ^ 24 \<Longrightarrow> unat (of_nat n :: u32) = n"
  by (simp add: unat_of_nat)

lemma continuation_loop_frames:
  assumes "0 < k" and "k < 2 ^ 24" and "9 * length (continuation_frames sid k block) \<le> length headers_buff"
  shows "continuation_loop sid k headers_buff block = Some (Inr (written_frames (continuation_frames sid k block)))"
  using assms(3)
proof (induction "length block" arbitrary: block headers_buff rule: less_induct)
  case less
  show ?case
  proof (cases "block = []")
    case False
    let ?n = "min k (length block)"
    let ?fh = "continuation_header sid ?n (length block \<le> k)"
    have n: "unat (fh_length ?fh) = ?n" using assms(2) by (simp add: continuation_header_def unat_small)
    then have "fh_length ?fh \<le> 0xffffff" using assms(2) by (simp add: small_length)
    moreover have "9 \<le> length headers_buff" using less(2) False assms(1) by (simp add: continuation_frames.simps [of sid k block])
    ultimately have ins: "insert_header_and_payload ?fh headers_buff block =
        Inr ((header_bytes ?fh, take k block), drop 9 headers_buff, drop k block)"
      using insert_fits [of ?fh headers_buff block] n by (simp add: min_def)
    have "continuation_loop sid k (drop 9 headers_buff) (drop k block) = Some (Inr (written_frames (continuation_frames sid k (drop k block))))"
      using less False assms(1) by (simp add: continuation_frames.simps [of sid k block])
    moreover have "?n = length block \<longleftrightarrow> length block \<le> k" by auto
    ultimately show ?thesis using False ins assms(1)
      by (simp add: continuation_loop.simps [of sid k headers_buff block] continuation_frames.simps [of sid k block])
  qed (simp add: continuation_loop.simps continuation_frames.simps)
qed

lemma length_continuation_frames:
  "0 < k \<Longrightarrow> length (continuation_frames sid k block) = length block div k + (if length block mod k \<noteq> 0 then 1 else 0)"
proof (induction sid k block rule: continuation_frames.induct)
  case (1 sid k block)
  show ?case
  proof (cases "block = [] \<or> length block < k")
    case True
    with "1.prems" show ?thesis by (cases "block = []") (simp_all add: continuation_frames_step)
  next
    case False
    with 1 show ?thesis by (simp add: continuation_frames_step le_div_geq le_mod_geq)
  qed
qed

lemma continuation_frames_payload: "0 < k \<Longrightarrow> concat (map snd (continuation_frames sid k block)) = block"
proof (induction sid k block rule: continuation_frames.induct)
  case (1 sid k block)
  then show ?case by (cases "block = []") (simp_all add: continuation_frames_step)
qed

lemma continuation_frames_headers:
  assumes "0 < k" and "k < 2 ^ 24" and "(fh, p) \<in> set (continuation_frames sid k block)"
  shows "fh_type fh = 0x9" "fh_stream_id fh = sid" "unat (fh_length fh) = length p" "length p \<le> k"
    "fh_length fh \<le> 0xffffff"
proof -
  have "fh_type fh = 0x9 \<and> fh_stream_id fh = sid \<and> unat (fh_length fh) = length p \<and> length p \<le> k"
    using assms
  proof (induction sid k block rule: continuation_frames.induct)
    case (1 sid k block)
    then show ?case
      by (auto simp: continuation_frames.simps [of sid k block] continuation_header_def unat_small min.commute split: if_splits)
  qed
  then show "fh_type fh = 0x9" "fh_stream_id fh = sid" "unat (fh_length fh) = length p" "length p \<le> k"
    "fh_length fh \<le> 0xffffff" using assms(2) by (auto simp: small_length)
qed

lemma continuation_frames_flags:
  assumes "0 < k" and "block \<noteq> []"
  shows "map (fh_flags \<circ> fst) (continuation_frames sid k block)
    = replicate (length (continuation_frames sid k block) - 1) 0 @ [0x4]"
  using assms
proof (induction sid k block rule: continuation_frames.induct)
  case (1 sid k block)
  have "continuation_frames sid k (drop k block) = [] \<longleftrightarrow> length block \<le> k"
    using "1.prems"(1) by (cases "length block \<le> k") (simp_all add: continuation_frames_step)
  with 1 show ?case
    by (cases "length block \<le> k")
      (auto simp: continuation_frames.simps [of sid k block] continuation_header_def Suc_diff_le
        gr0_conv_Suc simp flip: length_greater_0_conv)
qed

definition block_frames :: "u32 \<Rightarrow> bool \<Rightarrow> nat \<Rightarrow> bytes \<Rightarrow> (frame_header \<times> bytes) list" where
  "block_frames sid empty_body k block =
     (let es = (if empty_body then 0x1 else 0); fh = new_frame_header\<lparr>fh_stream_id := sid, fh_type := 0x1\<rparr> in
      if length block < k
      then [(fh\<lparr>fh_flags := 0x4 OR es, fh_length := of_nat (length block)\<rparr>, block)]
      else (fh\<lparr>fh_flags := es, fh_length := of_nat k\<rparr>, take k block) # continuation_frames sid k (drop k block))"

lemma split_headers_block_frames:
  assumes "0 < k" and "k < 2 ^ 24" and "length block \<noteq> k"
  shows "split_headers_block sid empty_body k block = Some (Inr (written_frames (block_frames sid empty_body k block)))"
proof (cases "length block < k")
  case True
  then have "(of_nat (length block) :: u32) \<le> 0xffffff" using assms(2) by (simp add: small_length unat_small)
  with True show ?thesis by (simp add: split_headers_block_def block_frames_def Let_def frame_header_buffer_bytes)
next
  case False
  let ?c = "length block div k + (if length block mod k \<noteq> 0 then 1 else 0)"
  let ?fh = "new_frame_header\<lparr>fh_stream_id := sid, fh_type := 0x1, fh_flags := (if empty_body then 0x1 else 0), fh_length := of_nat k\<rparr>"
  have rest: "drop k block \<noteq> []" using False assms(3) by simp
  have c: "?c = Suc (length (continuation_frames sid k (drop k block)))"
    using False assms(1) by (simp add: length_continuation_frames le_div_geq le_mod_geq)
  then have "?c > 1" using rest assms(1) by (simp add: continuation_frames_step)
  have k: "unat (fh_length ?fh) = k" using assms(2) by (simp add: unat_small)
  then have "fh_length ?fh \<le> 0xffffff" using assms(2) by (simp add: small_length)
  with k False c have "insert_header_and_payload ?fh (replicate (?c * 9) 0) block =
      Inr ((header_bytes ?fh, take k block), drop 9 (replicate (?c * 9) 0), drop k block)"
    using insert_fits [of ?fh "replicate (?c * 9) 0" block] by simp
  moreover have "continuation_loop sid k (drop 9 (replicate (?c * 9) 0)) (drop k block)
      = Some (Inr (written_frames (continuation_frames sid k (drop k block))))"
    by (rule continuation_loop_frames [OF assms(1,2)], unfold c) simp
  ultimately show ?thesis using False \<open>?c > 1\<close>
    unfolding split_headers_block_def block_frames_def Let_def by (simp del: drop_replicate)
qed

lemma split_headers_block_exact: "0 < k \<Longrightarrow> length block = k \<Longrightarrow> split_headers_block sid empty_body k block = Some (Inl Assertion)"
  by (simp add: split_headers_block_def Let_def)

lemma block_frames_payload: "0 < k \<Longrightarrow> concat (map snd (block_frames sid empty_body k block)) = block"
  by (simp add: block_frames_def Let_def continuation_frames_payload)

lemma block_frames_lengths:
  assumes "0 < k" and "k < 2 ^ 24" and "(fh, p) \<in> set (block_frames sid empty_body k block)"
  shows "fh_stream_id fh = sid" "unat (fh_length fh) = length p" "length p \<le> k" "fh_length fh \<le> 0xffffff"
proof -
  have "fh_stream_id fh = sid \<and> unat (fh_length fh) = length p \<and> length p \<le> k"
    using assms continuation_frames_headers [OF assms(1,2), of fh p sid "drop k block"]
    by (auto simp: block_frames_def Let_def unat_small split: if_splits)
  then show "fh_stream_id fh = sid" "unat (fh_length fh) = length p" "length p \<le> k" "fh_length fh \<le> 0xffffff"
    using assms(2) by (auto simp: small_length)
qed

lemma block_frames_shape:
  assumes "0 < k" and "k < 2 ^ 24" and "length block \<noteq> k"
  shows "\<exists>fh p rest. block_frames sid empty_body k block = (fh, p) # rest \<and> fh_type fh = 0x1 \<and>
    (fh_flags fh AND 0x1 = 0x1 \<longleftrightarrow> empty_body) \<and> (fh_flags fh AND 0x4 = 0x4 \<longleftrightarrow> rest = []) \<and>
    (\<forall>(gh, q)\<in>set rest. fh_type gh = 0x9) \<and>
    (rest \<noteq> [] \<longrightarrow> map (fh_flags \<circ> fst) rest = replicate (length rest - 1) 0 @ [0x4])"
proof (cases "length block < k")
  case False
  then have "drop k block \<noteq> []" using assms(3) by simp
  note f = continuation_frames_flags [OF assms(1) this, of sid]
  have "continuation_frames sid k (drop k block) \<noteq> []"
    using \<open>drop k block \<noteq> []\<close> assms(1) by (simp add: continuation_frames_step)
  with False f show ?thesis
    using continuation_frames_headers(1) [OF assms(1,2)] by (auto simp: block_frames_def Let_def)
qed (auto simp: block_frames_def Let_def)

section \<open>Receiving frames\<close>

lemma accepted_last: "accepted from_client hs prev \<Longrightarrow> prev = (if hs = [] then None else Some (last hs))"
  by (induction rule: accepted.induct) auto

text \<open>In the middle of a block: a HEADERS frame came first, only its continuations since.\<close>

definition in_block :: "frame_header list \<Rightarrow> u32 \<Rightarrow> bool" where
  "in_block hs sid \<longleftrightarrow> (\<exists>us fh vs. hs = us @ fh # vs \<and> fh_type fh = 0x1 \<and> fh_stream_id fh = sid \<and> opens_block fh \<and>
     (\<forall>gh\<in>set vs. fh_type gh = 0x9 \<and> fh_stream_id gh = sid \<and> opens_block gh))"

lemma in_block_append:
  assumes "in_block hs sid" and "fh_type gh = 0x9" "fh_stream_id gh = sid" "opens_block gh"
  shows "in_block (hs @ [gh]) sid"
proof -
  obtain us fh vs where "hs = us @ fh # vs" "fh_type fh = 0x1" "fh_stream_id fh = sid" "opens_block fh"
    "\<forall>gh\<in>set vs. fh_type gh = 0x9 \<and> fh_stream_id gh = sid \<and> opens_block gh"
    using assms(1) unfolding in_block_def by blast
  with assms(2-4) show ?thesis unfolding in_block_def
    by (intro exI [of _ us] exI [of _ fh] exI [of _ "vs @ [gh]"]) auto
qed

lemma in_block_start: "fh_type fh = 0x1 \<Longrightarrow> opens_block fh \<Longrightarrow> in_block (hs @ [fh]) (fh_stream_id fh)"
  unfolding in_block_def by (intro exI [of _ hs] exI [of _ fh] exI [of _ "[]"]) auto

lemma accepted_block:
  assumes "accepted from_client hs prev" and "prev = Some fh" and "opens_block fh"
  shows "in_block hs (fh_stream_id fh)"
  using assms
proof (induction arbitrary: fh rule: accepted.induct)
  case (frame hs prev gh max_size push cid sid)
  then have [simp]: "fh = gh" by simp
  consider "fh_type gh = 0x1" | "fh_type gh = 0x9" using frame.prems by (auto simp: opens_block_def)
  then show ?case
  proof cases
    case 1
    then show ?thesis using in_block_start frame.prems by simp
  next
    case 2
    then obtain p where p: "prev = Some p" using frame.hyps(2) valid_first by (cases prev) auto
    with 2 valid_after frame.hyps(2) have "opens_block p" "fh_stream_id gh = fh_stream_id p" by blast+
    with frame.IH [OF p] 2 frame.prems show ?thesis using in_block_append by simp
  qed
qed simp

lemma accepted_first: "accepted from_client hs prev \<Longrightarrow> hs \<noteq> [] \<Longrightarrow> fh_type (hd hs) = 0x4"
proof (induction rule: accepted.induct)
  case (frame hs prev fh max_size push cid sid)
  then show ?case using accepted_last [OF frame.hyps(1)] valid_first by (cases "hs = []") auto
qed simp

lemma accepted_bounds:
  "accepted from_client hs prev \<Longrightarrow> fh \<in> set hs \<Longrightarrow> fh_length fh \<le> 0xffffff \<and>
     (fh_type fh = 0x0 \<or> fh_type fh = 0x1 \<or> fh_type fh = 0x9 \<longrightarrow> fh_stream_id fh \<noteq> 0)"
proof (induction rule: accepted.induct)
  case (frame hs prev gh max_size push cid sid)
  then show ?case using valid_bounds(1,4) by auto
qed simp

lemma accepted_adjacent:
  "accepted from_client hs prev \<Longrightarrow> Suc i < length hs \<Longrightarrow>
     (fh_type (hs ! Suc i) = 0x9 \<longleftrightarrow> opens_block (hs ! i)) \<and>
     (opens_block (hs ! i) \<longrightarrow> fh_stream_id (hs ! Suc i) = fh_stream_id (hs ! i))"
proof (induction rule: accepted.induct)
  case (frame hs prev fh max_size push cid sid)
  show ?case
  proof (cases "Suc i < length hs")
    case True
    with frame.IH show ?thesis by (simp add: nth_append)
  next
    case False
    with frame.prems have i: "Suc i = length hs" by simp
    then have "prev = Some (hs ! i)" using accepted_last [OF frame.hyps(1)] by (cases "hs = []") (simp_all add: last_conv_nth flip: i)
    with valid_after frame.hyps(2) i show ?thesis by (simp add: nth_append)
  qed
qed simp

text \<open>A new stream of a client never passes the check of its identifier.\<close>

lemma client_headers_refused:
  assumes "even (unat last_server_id)" and "fh_type fh = 0x1"
  shows "\<not> is_valid_frame fh prev max_size push True cid last_server_id"
proof -
  have "\<not> is_valid_stream_id fh True cid last_server_id" if s: "fh_stream_id fh \<noteq> 0"
  proof
    assume "is_valid_stream_id fh True cid last_server_id"
    then have "fh_stream_id fh = last_server_id + 2" "fh_stream_id fh mod 2 \<noteq> 0"
      using assms(2) s by (auto simp: is_valid_stream_id_def is_connection_frame_def Let_def split: if_splits)
    then have "odd (unat (last_server_id + 2))"
      by (simp add: word_unat_eq_iff unat_mod_distrib odd_iff_mod_2_eq_one)
    moreover have "even (unat (last_server_id + 2))"
      using assms(1) by (simp add: unat_word_ariths dvd_mod)
    ultimately show False by simp
  qed
  then show ?thesis using assms(2)
    by (cases "fh_stream_id fh = 0")
      (auto simp: is_valid_frame_def is_valid_stream_id_def is_stream_frame_def split: if_splits)
qed

end
