(* ===== verification/Http2_Properties.thy ===== *)
theory Http2_Properties
  imports Http2_Blocks Message_Properties
begin

text \<open>The properties of HTTP/2 frames.\<close>

text \<open>
  C37: The header of a frame takes nine bytes, and reading them gives the header again with the reserved
  bit of the stream identifier cleared; a payload of more than 2^24 - 1 bytes fails the
  assertion. Encoding what was read from any nine bytes reproduces them but for the
  reserved bit.
\<close>

theorem http2_frame_header_round_trip:
  "(case frame_header_buffer fh of
      Inl e \<Rightarrow> e = Assertion \<and> fh_length fh > 0xffffff
    | Inr hbuff \<Rightarrow> fh_length fh \<le> 0xffffff \<and> length hbuff = 9 \<and> \<not> reserved_bit hbuff \<and>
        get_frame_header hbuff = fh\<lparr>fh_stream_id := bits_clear 31 (fh_stream_id fh)\<rparr>) \<and>
   frame_header_buffer (get_frame_header [a, b, c, t, f, i, j, k, l]) = Inr [a, b, c, t, f, i AND 0x7f, j, k, l]"
proof (cases "fh_length fh \<le> 0xffffff")
  case True
  then obtain hbuff where "frame_header_buffer fh = Inr hbuff" by (simp add: frame_header_buffer_bytes)
  with True get_frame_header_bytes [OF True this] show ?thesis by (simp add: frame_header_buffer_inverse)
next
  case False
  then have "frame_header_buffer fh = Inl Assertion" by (simp add: frame_header_buffer_def set_length_def)
  with False show ?thesis by (simp add: frame_header_buffer_inverse)
qed

lemma settings_values_read:
  assumes "i < length svs"
  shows "get_setting_value (take 6 (drop (6 * i) (concat (map setting_value_buffer svs)))) = svs ! i"
  using assms
proof (induction svs arbitrary: i)
  case (Cons sv svs)
  then show ?case by (cases i) auto
qed simp

lemma length_settings_bytes [simp]: "length (concat (map setting_value_buffer svs)) = 6 * length svs"
  by (induction svs) simp_all

lemma settings_needed:
  assumes "\<not> settings_ack s" and "6 * length (settings_values s) < 2 ^ 24"
  shows "settings_needed_size s = 9 + 6 * length (settings_values s)"
proof -
  have "(9 + 6 * of_nat (length (settings_values s)) :: u32) = of_nat (9 + 6 * length (settings_values s))" by simp
  also have "unat \<dots> = 9 + 6 * length (settings_values s)" using assms(2) by (subst unat_of_nat) simp
  finally show ?thesis using assms(1) by (simp add: settings_needed_size_def)
qed

definition settings_header :: "nat \<Rightarrow> frame_header" where
  "settings_header n = \<lparr>fh_length = of_nat (6 * n), fh_stream_id = 0, fh_type = 0x4, fh_flags = 0\<rparr>"

lemma settings_written:
  assumes "\<not> settings_ack s" and "6 * length (settings_values s) < 2 ^ 24"
    and "9 + 6 * length (settings_values s) \<le> length out"
  shows "settings_write s out = Inr (9 + 6 * length (settings_values s),
    header_bytes (settings_header (length (settings_values s))) @ concat (map setting_value_buffer (settings_values s))
      @ drop (9 + 6 * length (settings_values s)) out)"
proof -
  let ?n = "length (settings_values s)"
  have "fh_flags s AND 0x1 = 0" using assms(1) by (simp add: settings_ack_def)
  then have "settings_write s out
      = bind_res (fh_write (settings_header ?n) out) (\<lambda>(n, out1). settings_loop (settings_values s) n out1)"
    using assms(3) by (simp add: settings_write_def settings_needed [OF assms(1,2)] new_frame_header_def settings_header_def)
  moreover have "fh_length (settings_header ?n) \<le> 0xffffff"
    using assms(2) by (simp add: settings_header_def small_length unat_of_nat del: of_nat_mult)
  ultimately show ?thesis using assms(3) by (simp add: fh_write_fits settings_loop_concat ac_simps)
qed

lemma settings_header_read:
  assumes "6 * n < 2 ^ 24"
  shows "get_frame_header (header_bytes (settings_header n)) = settings_header n"
proof -
  have "fh_length (settings_header n) \<le> 0xffffff"
    using assms by (simp add: settings_header_def small_length unat_of_nat del: of_nat_mult)
  moreover have "bits_clear 31 (0 :: u32) = 0" by (auto simp: bit_simps intro!: bit_word_eqI)
  ultimately show ?thesis by (simp add: get_header_bytes settings_header_def)
qed

definition written_frame :: "(nat \<times> bytes) res \<Rightarrow> bytes \<Rightarrow> frame_header \<Rightarrow> bytes \<Rightarrow> bool" where
  "written_frame r out fh payload \<longleftrightarrow>
     (\<exists>out'. r = Inr (9 + length payload, out') \<and> get_frame_header (take 9 out') = fh \<and>
        take (length payload) (drop 9 out') = payload \<and> drop (9 + length payload) out' = drop (9 + length payload) out)"

lemma put_frame_written:
  assumes "fh_length fh \<le> 0xffffff" and "9 + length payload \<le> length out"
  shows "written_frame (put_frame fh [payload] out) out (fh\<lparr>fh_stream_id := bits_clear 31 (fh_stream_id fh)\<rparr>) payload"
  using assms put_frame_bytes [of fh "[payload]" out] get_header_bytes [of fh] by (simp add: written_frame_def)

lemma length_network [simp]: "length (network k v) = k"
  by (simp add: network_def)

text \<open>
  C38: A SETTINGS frame that is not an acknowledgement and has fewer than 2^24 payload bytes is written completely into
  any buffer of the announced size, the bytes after it stay, and reading it back gives its header and every setting; a
  smaller buffer is left alone. PING, WINDOW_UPDATE and RST_STREAM frames are written into any buffer of 17, 13
  and 13 bytes: their header reads back with the reserved bit of the stream identifier cleared, and the payload is their
  field in network order.
\<close>

theorem http2_frames_written:
  assumes "\<not> settings_ack s" and "6 * length (settings_values s) < 2 ^ 24"
  shows "settings_needed_size s = 9 + 6 * length (settings_values s) \<and>
    (length out < settings_needed_size s \<longrightarrow> settings_write s out = Inr (0, out)) \<and>
    (settings_needed_size s \<le> length out \<longrightarrow>
      (\<exists>out'. settings_write s out = Inr (settings_needed_size s, out') \<and>
        drop (settings_needed_size s) out' = drop (settings_needed_size s) out \<and>
        get_frame_header (take 9 out') = settings_header (length (settings_values s)) \<and>
        (\<forall>i<length (settings_values s).
          get_setting_value (take 6 (drop (9 + 6 * i) out')) = settings_values s ! i))) \<and>
    (17 \<le> length out \<longrightarrow> written_frame (ping_write p out) out
      \<lparr>fh_length = 8, fh_stream_id = 0, fh_type = 0x6, fh_flags = fh_flags p AND 0x1\<rparr> (network 8 (opaque_data p))) \<and>
    (13 \<le> length out \<longrightarrow> written_frame (window_update_write w out) out
      \<lparr>fh_length = 4, fh_stream_id = bits_clear 31 (fh_stream_id w), fh_type = 0x8, fh_flags = 0\<rparr>
      (network 4 (window_size_increment w))) \<and>
    (13 \<le> length out \<longrightarrow> written_frame (rst_stream_write r out) out
      \<lparr>fh_length = 4, fh_stream_id = bits_clear 31 (fh_stream_id r), fh_type = 0x3, fh_flags = 0\<rparr>
      (network 4 (rst_error_code r)))"
proof -
  let ?n = "length (settings_values s)"
  note size = settings_needed [OF assms]
  have "\<exists>out'. settings_write s out = Inr (settings_needed_size s, out') \<and>
        drop (settings_needed_size s) out' = drop (settings_needed_size s) out \<and>
        get_frame_header (take 9 out') = settings_header ?n \<and>
        (\<forall>i<?n. get_setting_value (take 6 (drop (9 + 6 * i) out')) = settings_values s ! i)"
    if "settings_needed_size s \<le> length out"
    using settings_written [OF assms] that settings_header_read [OF assms(2)]
    by (simp add: size settings_values_read)
  moreover have "length out < settings_needed_size s \<longrightarrow> settings_write s out = Inr (0, out)"
    by (simp add: settings_write_def)
  moreover have "bits_clear 31 (0 :: u32) = 0" by (auto simp: bit_simps intro!: bit_word_eqI)
  then have "17 \<le> length out \<longrightarrow> written_frame (ping_write p out) out
      \<lparr>fh_length = 8, fh_stream_id = 0, fh_type = 0x6, fh_flags = fh_flags p AND 0x1\<rparr> (network 8 (opaque_data p))"
    "13 \<le> length out \<longrightarrow> written_frame (window_update_write w out) out
      \<lparr>fh_length = 4, fh_stream_id = bits_clear 31 (fh_stream_id w), fh_type = 0x8, fh_flags = 0\<rparr>
      (network 4 (window_size_increment w))"
    "13 \<le> length out \<longrightarrow> written_frame (rst_stream_write r out) out
      \<lparr>fh_length = 4, fh_stream_id = bits_clear 31 (fh_stream_id r), fh_type = 0x3, fh_flags = 0\<rparr>
      (network 4 (rst_error_code r))"
    using put_frame_written [of "new_frame_header\<lparr>fh_type := 0x6, fh_length := 8, fh_flags := fh_flags p AND 0x1\<rparr>"
        "network 8 (opaque_data p)" out]
      put_frame_written [of "new_frame_header\<lparr>fh_type := 0x8, fh_length := 4, fh_stream_id := fh_stream_id w\<rparr>"
        "network 4 (window_size_increment w)" out]
      put_frame_written [of "new_frame_header\<lparr>fh_type := 0x3, fh_length := 4, fh_stream_id := fh_stream_id r\<rparr>"
        "network 4 (rst_error_code r)" out]
    by (simp_all add: ping_write_def window_update_write_def rst_stream_write_def beu64_bytes_network
        beu32_bytes_network new_frame_header_def)
  ultimately show ?thesis using size by blast
qed

theorem http2_frames_written_witness:
  "\<exists>out'. settings_write \<lparr>fh_length = 0, fh_stream_id = 0, fh_type = 0, fh_flags = 0,
       settings_values = [\<lparr>sv_id = 4, sv_value = 65536\<rparr>]\<rparr> (replicate 15 0) = Inr (15, out') \<and>
     get_setting_value (drop 9 out') = \<lparr>sv_id = 4, sv_value = 65536\<rparr>"
proof -
  let ?s = "\<lparr>fh_length = 0, fh_stream_id = 0, fh_type = 0, fh_flags = 0,
       settings_values = [\<lparr>sv_id = 4, sv_value = 65536\<rparr>]\<rparr> :: settings_frame"
  have "\<not> settings_ack ?s" "6 * length (settings_values ?s) < 2 ^ 24" by (simp_all add: settings_ack_def)
  note w = http2_frames_written [OF this, of "replicate 15 0"]
  have "settings_needed_size ?s = 15" using conjunct1 [OF w] by simp
  then obtain out' where o: "settings_write ?s (replicate 15 0) = Inr (15, out')" "drop 15 out' = []"
    "get_setting_value (take 6 (drop 9 out')) = \<lparr>sv_id = 4, sv_value = 65536\<rparr>"
    using w [THEN conjunct2, THEN conjunct2, THEN conjunct1] by auto
  then have "take 6 (drop 9 out') = drop 9 out'" by simp
  with o show ?thesis by auto
qed

lemma request_in_frames:
  assumes "in_step m es (enc_table enc) td"
    and "method \<noteq> Invalid" and "method \<noteq> Connect \<longrightarrow> path \<noteq> []"
    and "\<forall>h\<in>set (request_rest method hdrs). ordinary (fst h)"
    and "\<forall>h\<in>set hdrs. encodable (fst h) \<and> encodable (snd h)"
    and "encodable path" and "encodable (enc_scheme enc)" and "encodable (enc_host enc)"
    and "0 < unat max_size" and "unat max_size < 2 ^ 24"
  shows "\<exists>block enc' es' td'. encode_request method path hdrs True True False enc = Some (Inr (block, enc')) \<and>
    in_step m es' (enc_table enc') td' \<and>
    (length block = unat max_size \<longrightarrow>
      make_headers_continuations_frames sid method path hdrs empty_body max_size enc = Some (Inl Assertion)) \<and>
    (length block \<noteq> unat max_size \<longrightarrow> (\<exists>frames.
      make_headers_continuations_frames sid method path hdrs empty_body max_size enc
        = Some (Inr (written_frames frames, enc')) \<and>
      decode_request scheme (concat (map snd frames)) req td
        = Some (Inr (None, received_request method path hdrs enc False req, td')) \<and>
      (\<forall>(fh, p)\<in>set frames. get_frame_header (header_bytes fh) = fh\<lparr>fh_stream_id := bits_clear 31 sid\<rparr> \<and>
         unat (fh_length fh) = length p \<and> length p \<le> unat max_size) \<and>
      (\<exists>fh p rest. frames = (fh, p) # rest \<and> fh_type fh = 0x1 \<and> (fh_flags fh AND 0x1 = 0x1 \<longleftrightarrow> empty_body) \<and>
         (fh_flags fh AND 0x4 = 0x4 \<longleftrightarrow> rest = []) \<and> (\<forall>(gh, q)\<in>set rest. fh_type gh = 0x9) \<and>
         (rest \<noteq> [] \<longrightarrow> map (fh_flags \<circ> fst) rest = replicate (length rest - 1) 0 @ [0x4]))))"
proof -
  obtain block enc' es' td' where b: "encode_request method path hdrs True True False enc = Some (Inr (block, enc'))"
    "decode_request scheme block req td = Some (Inr (None, received_request method path hdrs enc False req, td'))"
    "in_step m es' (enc_table enc') td'"
    using request_through_hpack [OF assms(1) _ assms(2-8), where indexed = True and never_indexed = False
        and huffman = True and scheme = scheme and req = req] by auto
  let ?k = "unat max_size"
  let ?frames = "block_frames sid empty_body ?k block"
  have k: "max ?k 1 = ?k" using assms(9) by simp
  note split = split_headers_block_frames [OF assms(9,10), of block sid empty_body]
  note lens = block_frames_lengths [OF assms(9,10)]
  have "\<forall>(fh, p)\<in>set ?frames. get_frame_header (header_bytes fh) = fh\<lparr>fh_stream_id := bits_clear 31 sid\<rparr> \<and>
      unat (fh_length fh) = length p \<and> length p \<le> ?k"
    using lens [of _ _ sid empty_body block] get_header_bytes by fastforce
  with b split block_frames_shape [OF assms(9,10), of block sid empty_body] block_frames_payload [OF assms(9), of sid empty_body block]
    split_headers_block_exact [OF assms(9), of block sid empty_body] k
  show ?thesis
    by (intro exI [of _ block] exI [of _ enc'] exI [of _ es'] exI [of _ td'] conjI impI exI [of _ ?frames])
      (simp_all add: make_headers_continuations_frames_def)
qed

text \<open>
  C35: A request sent over HTTP/2 with a permitted frame size between 1 and 2^24 - 1. The encoded request is
  divided into one HEADERS frame and CONTINUATION frames of at most the permitted size, all of its stream,
  END_HEADERS on the last one only; the payloads together are the block, and decoding them gives what HPACK delivers of
  the request, \<open>received_request\<close>, which is the request itself under the conditions of \<open>unchanged_request\<close>. A block of exactly the
  permitted size fails an assertion instead.
\<close>

theorem http2_request_frames:
  assumes "in_step m es (enc_table enc) td"
    and "method \<noteq> Invalid" and "method \<noteq> Connect \<longrightarrow> path \<noteq> []"
    and "\<forall>h\<in>set (request_rest method hdrs). ordinary (fst h)"
    and "\<forall>h\<in>set hdrs. encodable (fst h) \<and> encodable (snd h)"
    and "encodable path" and "encodable (enc_scheme enc)" and "encodable (enc_host enc)"
    and "0 < unat max_size" and "unat max_size < 2 ^ 24"
  shows "(\<exists>block enc' es' td'. encode_request method path hdrs True True False enc = Some (Inr (block, enc')) \<and>
    in_step m es' (enc_table enc') td' \<and>
    (length block = unat max_size \<longrightarrow>
      make_headers_continuations_frames sid method path hdrs empty_body max_size enc = Some (Inl Assertion)) \<and>
    (length block \<noteq> unat max_size \<longrightarrow> (\<exists>frames.
      make_headers_continuations_frames sid method path hdrs empty_body max_size enc
        = Some (Inr (written_frames frames, enc')) \<and>
      decode_request scheme (concat (map snd frames)) req td
        = Some (Inr (None, received_request method path hdrs enc False req, td')) \<and>
      (\<forall>(fh, p)\<in>set frames. get_frame_header (header_bytes fh) = fh\<lparr>fh_stream_id := bits_clear 31 sid\<rparr> \<and>
         unat (fh_length fh) = length p \<and> length p \<le> unat max_size) \<and>
      (\<exists>fh p rest. frames = (fh, p) # rest \<and> fh_type fh = 0x1 \<and> (fh_flags fh AND 0x1 = 0x1 \<longleftrightarrow> empty_body) \<and>
         (fh_flags fh AND 0x4 = 0x4 \<longleftrightarrow> rest = []) \<and> (\<forall>(gh, q)\<in>set rest. fh_type gh = 0x9) \<and>
         (rest \<noteq> [] \<longrightarrow> map (fh_flags \<circ> fst) rest = replicate (length rest - 1) 0 @ [0x4]))))) \<and>
    (unchanged_request method path hdrs False \<longrightarrow>
      received_request method path hdrs enc False req
        = req\<lparr>req_version := V1_1, req_method := method, req_target := path,
            req_headers := (bytes_of '':scheme'', decoded_value False (bytes_of '':scheme'') (enc_scheme enc))
              # (bytes_of ''Host'', request_authority hdrs (enc_host enc)) # request_rest method hdrs\<rparr>)"
  using request_in_frames [OF assms] received_unchanged [OF _ assms(4)] by blast

theorem http2_request_frames_witness:
  "let hdrs = [(bytes_of ''Host'', bytes_of ''h'')];
       enc = \<lparr>enc_table = fresh_table, enc_host = [], enc_scheme = bytes_of ''https''\<rparr>;
       req = \<lparr>req_method = Invalid, req_target = [], req_version = V1_0, req_headers = [], req_body = []\<rparr>
   in \<exists>max_size frames enc' td'. (max_size = 16384 \<or> max_size = 16385) \<and>
       make_headers_continuations_frames 1 Post (bytes_of ''/a'') hdrs False max_size enc
         = Some (Inr (written_frames frames, enc')) \<and>
       decode_request [] (concat (map snd frames)) req fresh_table
         = Some (Inr (None, received_request Post (bytes_of ''/a'') hdrs enc False req, td'))"
proof -
  let ?hdrs = "[(bytes_of ''Host'', bytes_of ''h'')]"
  let ?enc = "\<lparr>enc_table = fresh_table, enc_host = [], enc_scheme = bytes_of ''https''\<rparr>"
  let ?req = "\<lparr>req_method = Invalid, req_target = [], req_version = V1_0, req_headers = [], req_body = []\<rparr>"
  have h: "\<forall>h\<in>set (request_rest Post ?hdrs). ordinary (fst h)" "\<forall>h\<in>set ?hdrs. encodable (fst h) \<and> encodable (snd h)"
    "encodable (bytes_of ''/a'')" "encodable (enc_scheme ?enc)" "encodable (enc_host ?enc)"
    "Post \<noteq> Invalid" "Post \<noteq> Connect \<longrightarrow> bytes_of ''/a'' \<noteq> []" "in_step 4096 [] (enc_table ?enc) fresh_table"
    using fresh_in_step
    by (simp_all add: find_authority_def hdr_find_def bytes_of_def iequal_def tolower_ch_def ordinary_def encodable_def)
  note frames = http2_request_frames [OF h(8,6,7,1-5), of _ 1 False "[]" ?req, THEN conjunct1]
  let ?block = "encode_request Post (bytes_of ''/a'') ?hdrs True True False ?enc"
  have made: "\<exists>frames enc' td'. make_headers_continuations_frames 1 Post (bytes_of ''/a'') ?hdrs False n ?enc
        = Some (Inr (written_frames frames, enc')) \<and>
      decode_request [] (concat (map snd frames)) ?req fresh_table
        = Some (Inr (None, received_request Post (bytes_of ''/a'') ?hdrs ?enc False ?req, td'))"
    if "0 < unat n" and "unat n < 2 ^ 24" and "\<forall>block enc'. ?block = Some (Inr (block, enc')) \<longrightarrow> length block \<noteq> unat n"
    for n
    using frames [OF that(1,2)] that(3) by (elim exE conjE) (drule spec, drule spec, drule mp, assumption, blast)
  show ?thesis
  proof (cases "\<forall>block enc'. ?block = Some (Inr (block, enc')) \<longrightarrow> length block \<noteq> unat (16384 :: u32)")
    case True
    with made [of 16384] show ?thesis unfolding Let_def by (intro exI [of _ 16384]) simp
  next
    case False
    then have "\<forall>block enc'. ?block = Some (Inr (block, enc')) \<longrightarrow> length block \<noteq> unat (16385 :: u32)" by auto
    with made [of 16385] show ?thesis unfolding Let_def by (intro exI [of _ 16385]) simp
  qed
qed

text \<open>
  C36: What a receiver accepts. In every sequence of frames accepted one after the other the first is a
  SETTINGS frame, a CONTINUATION frame follows exactly the frames that leave a headers block open, on the same
  stream, and when the last frame leaves a block open, the sequence ends with the HEADERS frame of that
  stream and its continuations.
\<close>

theorem http2_accepted_frames:
  assumes "accepted from_client hs prev" and "hs \<noteq> []"
  shows "fh_type (hd hs) = 0x4 \<and>
    (\<forall>i. Suc i < length hs \<longrightarrow> (fh_type (hs ! Suc i) = 0x9 \<longleftrightarrow> opens_block (hs ! i)) \<and>
       (opens_block (hs ! i) \<longrightarrow> fh_stream_id (hs ! Suc i) = fh_stream_id (hs ! i))) \<and>
    (\<forall>fh\<in>set hs. fh_length fh \<le> 0xffffff \<and>
       (fh_type fh = 0x0 \<or> fh_type fh = 0x1 \<or> fh_type fh = 0x9 \<longrightarrow> fh_stream_id fh \<noteq> 0)) \<and>
    (opens_block (last hs) \<longrightarrow> in_block hs (fh_stream_id (last hs)))"
  using accepted_first [OF assms] accepted_adjacent [OF assms(1)] accepted_bounds [OF assms(1)]
    accepted_block [OF assms(1), of "last hs"] accepted_last [OF assms(1)] assms(2)
  by auto

theorem http2_accepted_frames_witness:
  "in_block [\<lparr>fh_length = 0, fh_stream_id = 0, fh_type = 0x4, fh_flags = 0\<rparr>,
     \<lparr>fh_length = 9, fh_stream_id = 1, fh_type = 0x1, fh_flags = 0\<rparr>] 1"
proof -
  let ?s = "\<lparr>fh_length = 0, fh_stream_id = 0, fh_type = 0x4, fh_flags = 0\<rparr> :: frame_header"
  let ?h = "\<lparr>fh_length = 9, fh_stream_id = 1, fh_type = 0x1, fh_flags = 0\<rparr> :: frame_header"
  note d = is_valid_frame_def is_valid_type_def is_valid_flags_def is_valid_size_def is_valid_stream_id_def
    is_connection_frame_def is_stream_frame_def
  have "is_valid_frame ?s None 16384 False False 1 0" by (simp add: d)
  from accepted.frame [OF accepted.start this] have "accepted False [?s] (Some ?s)" by simp
  moreover have "is_valid_frame ?h (Some ?s) 16384 False False 1 0" by (simp add: d)
  ultimately have "accepted False [?s, ?h] (Some ?h)" using accepted.frame [of False "[?s]" "Some ?s" ?h] by simp
  then show ?thesis using http2_accepted_frames [of False "[?s, ?h]" "Some ?h"] by (simp add: opens_block_def)
qed

end
