(* ===== verification/Base64.thy ===== *)
theory Base64
  imports Case_Strings
begin

text \<open>
  Base64, \<open>src/src/crypto/base64.cpp\<close>. Both functions append to a dynamic buffer: the model gives the bytes
  appended. \<open>decode\<close> first enlarges the buffer by three bytes per group, set to zero, and cuts it at the end; when it
  throws, the enlarged buffer stays.
\<close>

section \<open>The code\<close>

definition base64_table :: bytes where
  "base64_table = bytes_of ''ABCDEFGHIJKLMNOPQRSTUVWXYZabcdefghijklmnopqrstuvwxyz0123456789+/''"

definition encode_group :: "u8 \<Rightarrow> u8 \<Rightarrow> u8 \<Rightarrow> bytes" where
  "encode_group a b c =
     [base64_table ! unat (drop_bit 2 a),
      base64_table ! unat (drop_bit 4 b OR push_bit 4 (a AND 3)),
      base64_table ! unat (drop_bit 6 c OR push_bit 2 (b AND 15)),
      base64_table ! unat (c AND 63)]"

definition encode_last_group :: "bytes \<Rightarrow> bytes" where
  "encode_last_group g =
     (if length g = 1 then
        [base64_table ! unat (drop_bit 2 (g ! 0)), base64_table ! unat (push_bit 4 (g ! 0 AND 3)), 0x3d, 0x3d]
      else
        [base64_table ! unat (drop_bit 2 (g ! 0)),
         base64_table ! unat (push_bit 4 (g ! 0 AND 3) OR drop_bit 4 (g ! 1)),
         base64_table ! unat (push_bit 2 (g ! 1 AND 15)), 0x3d])"

definition base64_encode :: "bytes \<Rightarrow> bytes" where
  "base64_encode input =
     (let groups_n = length input div 3;
          last_group_size = length input - groups_n * 3
      in if groups_n = 0 \<and> last_group_size = 0 then []
         else
           concat (map (\<lambda>i. encode_group (input ! (3 * i)) (input ! (3 * i + 1)) (input ! (3 * i + 2))) [0..<groups_n]) @
           (if last_group_size = 0 then []
            else encode_last_group (drop (length input - last_group_size) input)))"

definition index_of :: "u8 \<Rightarrow> u8 option" where
  "index_of ch =
     (if ch \<ge> 0x41 \<and> ch \<le> 0x5a then Some (ch - 0x41)
      else if ch \<ge> 0x61 \<and> ch \<le> 0x7a then Some (ch - 0x61 + 26)
      else if ch \<ge> 0x30 \<and> ch \<le> 0x39 then Some (ch - 0x30 + 52)
      else if ch = 0x2b then Some 62
      else if ch = 0x2f then Some 63
      else if ch = 0x3d then Some 0
      else None)"

definition decode_group :: "u8 \<Rightarrow> u8 \<Rightarrow> u8 \<Rightarrow> u8 \<Rightarrow> bytes" where
  "decode_group i0 i1 i2 i3 =
     [push_bit 2 i0 OR drop_bit 4 (i1 AND 0x30), push_bit 4 i1 OR drop_bit 2 (i2 AND 0x3c),
      push_bit 6 i2 OR drop_bit 0 (i3 AND 0x3f)]"

text \<open>The last group, of \<open>n\<close> characters before the padding.\<close>

definition decode_padded_group :: "nat \<Rightarrow> u8 \<Rightarrow> u8 \<Rightarrow> u8 \<Rightarrow> bytes" where
  "decode_padded_group n i0 i1 i2 =
     (if n = 1 then [push_bit 2 i0]
      else if n = 2 then [push_bit 2 i0 OR drop_bit 4 (i1 AND 0x30)]
      else if n = 3 then
        [push_bit 2 i0 OR drop_bit 4 (i1 AND 0x30), push_bit 4 i1 OR drop_bit 2 (i2 AND 0x3c)]
      else [])"

fun decode_loop :: "bytes \<Rightarrow> bytes \<Rightarrow> errc option \<times> bytes" where
  "decode_loop (c0 # c1 # c2 # c3 # encoded) out =
     (case (index_of c0, index_of c1, index_of c2, index_of c3) of
        (Some i0, Some i1, Some i2, Some i3) \<Rightarrow>
          let n = length (takeWhile (\<lambda>c. c \<noteq> 0x3d) [c0, c1, c2, c3]) in
          if n \<noteq> 4 then (None, out @ decode_padded_group n i0 i1 i2)
          else decode_loop encoded (out @ decode_group i0 i1 i2 i3)
      | _ \<Rightarrow> (Some Invalid_argument, out))"
| "decode_loop _ out = (None, out)"

definition base64_decode :: "bytes \<Rightarrow> errc option \<times> bytes" where
  "base64_decode encoded =
     (if encoded = [] then (None, [])
      else if length encoded mod 4 \<noteq> 0 then (Some Invalid_argument, [])
      else
        let groups_n = length encoded div 4; (ec, out) = decode_loop encoded [] in
        if ec \<noteq> None then (ec, out @ replicate (groups_n * 3 - length out) 0) else (None, out))"

section \<open>The alphabet\<close>

lemma length_table [simp]: "length base64_table = 64"
  by code_simp

lemma table_row: "i < 64 \<Longrightarrow> index_of (base64_table ! i) = Some (of_nat i) \<and> base64_table ! i \<noteq> 0x3d"
proof -
  have "list_all (\<lambda>i. index_of (base64_table ! i) = Some (of_nat i) \<and> base64_table ! i \<noteq> 0x3d) [0..<64]"
    by code_simp
  then show "i < 64 \<Longrightarrow> ?thesis" by (simp add: list_all_iff)
qed

lemma index_of_table: "unat w < 64 \<Longrightarrow> index_of (base64_table ! unat w) = Some (w :: u8)"
  using table_row [of "unat w"] by simp

lemma not_padding: "unat (w :: u8) < 64 \<Longrightarrow> base64_table ! unat w \<noteq> 0x3d"
  using table_row [of "unat w"] by simp

section \<open>Groups\<close>

lemma byte_eqI:
  assumes "\<And>n. n \<in> {0, 1, 2, 3, 4, 5, 6, 7} \<Longrightarrow> bit (a :: u8) n \<longleftrightarrow> bit b n"
  shows "a = b"
proof (rule bit_word_eqI)
  fix n assume "n < LENGTH(8)"
  then have "n \<in> {0, 1, 2, 3, 4, 5, 6, 7}" by auto
  then show "bit a n \<longleftrightarrow> bit b n" by (rule assms)
qed

lemma six_bits:
  assumes "\<not> bit (w :: u8) 6" and "\<not> bit w 7"
  shows "unat w < 64"
proof -
  have "take_bit 6 w = w" by (rule byte_eqI) (use assms in \<open>auto simp: bit_take_bit_iff\<close>)
  then have "unat w = unat w mod 2 ^ 6" by (metis unsigned_take_bit_eq take_bit_eq_mod)
  then show ?thesis using mod_less_divisor [of "2 ^ 6" "unat w"] by simp
qed

lemma decode_encode_group:
  "decode_group (drop_bit 2 a) (drop_bit 4 b OR push_bit 4 (a AND 3)) (drop_bit 6 c OR push_bit 2 (b AND 15)) (c AND 63)
     = [a, b, c]"
  unfolding decode_group_def list.inject by (intro conjI refl; rule byte_eqI; auto simp: bit_simps simp flip: numeral_2_eq_2 numeral_3_eq_3)

lemma no_ninth_bit [simp]: "\<not> bit (a :: u8) 8" "\<not> bit a 9" "\<not> bit a 10" "\<not> bit a 11" "\<not> bit a 12" "\<not> bit a 13"
  by (rule impossible_bit, simp)+

lemma group_indices:
  "unat (drop_bit 2 (a :: u8)) < 64" "unat (drop_bit 4 b OR push_bit 4 (a AND 3) :: u8) < 64"
  "unat (drop_bit 6 c OR push_bit 2 (b AND 15) :: u8) < 64" "unat (c AND 63 :: u8) < 64"
  "unat (push_bit 4 (a AND 3) :: u8) < 64" "unat (push_bit 2 (b AND 15) :: u8) < 64"
  by (rule six_bits; simp add: bit_simps)+

abbreviation row :: "u8 \<Rightarrow> u8" where
  "row i \<equiv> base64_table ! unat i"

lemma decode_loop_full:
  assumes "unat i0 < 64" "unat i1 < 64" "unat i2 < 64" "unat i3 < 64"
  shows "decode_loop (row i0 # row i1 # row i2 # row i3 # encoded) out = decode_loop encoded (out @ decode_group i0 i1 i2 i3)"
  using assms by (simp add: index_of_table not_padding)

lemma padding_index [simp]: "index_of 0x3d = Some 0"
  by (simp add: index_of_def)

lemma decode_loop_padded:
  assumes "unat i0 < 64" "unat i1 < 64" "unat i2 < 64"
  shows "decode_loop [row i0, row i1, 0x3d, 0x3d] out = (None, out @ [push_bit 2 i0 OR drop_bit 4 (i1 AND 0x30)])"
    "decode_loop [row i0, row i1, row i2, 0x3d] out
       = (None, out @ [push_bit 2 i0 OR drop_bit 4 (i1 AND 0x30), push_bit 4 i1 OR drop_bit 2 (i2 AND 0x3c)])"
  using assms by (simp_all add: index_of_table not_padding decode_padded_group_def)

lemma decode_loop_group: "decode_loop (encode_group a b c @ encoded) out = decode_loop encoded (out @ [a, b, c])"
  unfolding encode_group_def append.simps decode_loop_full [OF group_indices(1,2,3,4)] decode_encode_group ..

lemma decode_loop_last:
  assumes "length g = 1 \<or> length g = 2"
  shows "decode_loop (encode_last_group g) out = (None, out @ g)"
proof -
  consider a where "g = [a]" | a b where "g = [a, b]"
    using assms by (auto simp: length_Suc_conv numeral_2_eq_2)
  then show ?thesis
  proof cases
    case (1 a)
    have "push_bit 2 (drop_bit 2 a) OR drop_bit 4 (push_bit 4 (a AND 3) AND 0x30) = a"
      by (rule byte_eqI) (auto simp: bit_simps simp flip: numeral_2_eq_2 numeral_3_eq_3)
    moreover have "encode_last_group g = [row (drop_bit 2 a), row (push_bit 4 (a AND 3)), 0x3d, 0x3d]"
      unfolding 1 encode_last_group_def by simp
    ultimately show ?thesis
      using decode_loop_padded(1) [OF group_indices(1) group_indices(5) group_indices(1), of a a out]
      by (simp only: 1)
  next
    case (2 a b)
    let ?i = "drop_bit 4 b OR push_bit 4 (a AND 3)"
    have "push_bit 2 (drop_bit 2 a) OR drop_bit 4 (?i AND 0x30) = a"
      "push_bit 4 ?i OR drop_bit 2 (push_bit 2 (b AND 15) AND 0x3c) = b"
      by (rule byte_eqI; auto simp: bit_simps simp flip: numeral_2_eq_2 numeral_3_eq_3)+
    moreover have "encode_last_group g = [row (drop_bit 2 a), row ?i, row (push_bit 2 (b AND 15)), 0x3d]"
      unfolding 2 encode_last_group_def by (simp add: or.commute)
    ultimately show ?thesis
      using decode_loop_padded(2) [OF group_indices(1) group_indices(2) group_indices(6), of a b a b out]
      by (simp only: 2)
  qed
qed

section \<open>Whole inputs\<close>

lemma encode_step:
  "base64_encode (a # b # c # input) = encode_group a b c @ base64_encode input"
proof -
  have n: "length (a # b # c # input) div 3 = Suc (length input div 3)" by simp
  have "[0..<Suc (length input div 3)] = 0 # map Suc [0..<length input div 3]" by (simp add: upt_conv_Cons map_Suc_upt)
  then have "concat (map (\<lambda>i. encode_group ((a # b # c # input) ! (3 * i)) ((a # b # c # input) ! (3 * i + 1))
      ((a # b # c # input) ! (3 * i + 2))) [0..<Suc (length input div 3)])
    = encode_group a b c @ concat (map (\<lambda>i. encode_group (input ! (3 * i)) (input ! (3 * i + 1)) (input ! (3 * i + 2)))
        [0..<length input div 3])"
    by (simp add: comp_def)
  then show ?thesis unfolding base64_encode_def Let_def n by (auto simp: Suc_diff_le)
qed

lemma encode_short: "length g < 3 \<Longrightarrow> base64_encode g = (if g = [] then [] else encode_last_group g)"
  by (simp add: base64_encode_def)

lemma encode_length: "length (base64_encode input) = 4 * ((length input + 2) div 3)"
proof (induction "length input" arbitrary: input rule: less_induct)
  case less
  show ?case
  proof (cases "length input < 3")
    case True
    then consider "length input = 0" | "length input = 1" | "length input = 2" by linarith
    then show ?thesis by cases (auto simp: encode_short encode_last_group_def)
  next
    case False
    then obtain a b c rest where i: "input = a # b # c # rest"
      by (metis Suc_le_length_iff numeral_3_eq_3 not_less)
    have "(length input + 2) div 3 = Suc ((length rest + 2) div 3)" unfolding i by simp
    with i less [of rest] show ?thesis by (simp add: encode_step encode_group_def del: div_add_self2)
  qed
qed

lemma decode_loop_encode: "decode_loop (base64_encode input) out = (None, out @ input)"
proof (induction "length input" arbitrary: input out rule: less_induct)
  case less
  show ?case
  proof (cases "length input < 3")
    case True
    then show ?thesis
      using decode_loop_last [of input out] by (cases "input = []") (auto simp: encode_short length_Suc_conv less_Suc_eq numeral_3_eq_3)
  next
    case False
    then obtain a b c rest where i: "input = a # b # c # rest"
      by (metis Suc_le_length_iff numeral_3_eq_3 not_less)
    with less [of rest "out @ [a, b, c]"] show ?thesis by (simp add: encode_step decode_loop_group)
  qed
qed

section \<open>The encoding as digits\<close>

text \<open>
  The reference: three bytes are a number of 24 bits, whose four digits in base 64 select the characters; the last
  group is filled up with zeroes, and the digits that hold none of its bits are written as the padding.
\<close>

definition digits64 :: "nat \<Rightarrow> bytes" where
  "digits64 v = map (\<lambda>k. base64_table ! (v div 64 ^ k mod 64)) [3, 2, 1, 0]"

fun base64_digits :: "bytes \<Rightarrow> bytes" where
  "base64_digits [] = []"
| "base64_digits [a] = take 2 (digits64 (unat a * 65536)) @ [0x3d, 0x3d]"
| "base64_digits [a, b] = take 3 (digits64 (unat a * 65536 + unat b * 256)) @ [0x3d]"
| "base64_digits (a # b # c # input) = digits64 (unat a * 65536 + unat b * 256 + unat c) @ base64_digits input"

lemma byte_split:
  "unat (drop_bit n (w :: u8)) = unat w div 2 ^ n" "unat (w AND 3) = unat w mod 4"
  "unat (w AND 15) = unat w mod 16" "unat (w AND 63) = unat w mod 64"
proof -
  have "w AND 3 = take_bit 2 w" "w AND 15 = take_bit 4 w" "w AND 63 = take_bit 6 w"
    by (simp_all add: take_bit_eq_mask mask_eq_exp_minus_1)
  then show "unat (w AND 3) = unat w mod 4" "unat (w AND 15) = unat w mod 16" "unat (w AND 63) = unat w mod 64"
    by (simp_all only: unsigned_take_bit_eq) (simp_all add: take_bit_eq_mod)
  have "unat (drop_bit n w) = drop_bit n (take_bit 8 (unat w))" by (simp only: unsigned_drop_bit_eq) simp
  then show "unat (drop_bit n w) = unat w div 2 ^ n" using unsigned_less [where w = w and 'a = nat] by (simp add: drop_bit_eq_div take_bit_eq_mod)
qed

lemma joined_index:
  assumes "unat x < 2 ^ n" and "unat y * 2 ^ n < 256"
  shows "unat (x OR push_bit n y :: u8) = unat y * 2 ^ n + unat x"
proof -
  have p: "unat (push_bit n y) = unat y * 2 ^ n"
    unfolding unsigned_push_bit_eq using assms(2) by (simp add: push_bit_eq_mult take_bit_eq_mod)
  have x: "take_bit n (unat x) = unat x" using assms(1) by (simp add: take_bit_nat_eq_self)
  have "take_bit n (unat x) OR push_bit n (unat y) = take_bit n (unat x) + push_bit n (unat y)"
    by (intro disjunctive_add_eq_or [symmetric] bit_eqI) (simp add: bit_simps)
  then have "unat x OR push_bit n (unat y) = push_bit n (unat y) + unat x"
    using x by simp
  with p show ?thesis by (simp add: unsigned_or_eq push_bit_eq_mult)
qed

lemma digits64_sum:
  assumes "d1 < 64" "d2 < 64" "d3 < 64" "d0 < 64"
  shows "digits64 (d0 * 64 ^ 3 + d1 * 64 ^ 2 + d2 * 64 + d3) = map ((!) base64_table) [d0, d1, d2, d3]"
proof -
  have "(d0 * 64 ^ 3 + d1 * 64 ^ 2 + d2 * 64 + d3) div 64 = d0 * 64 ^ 2 + d1 * 64 + d2"
    "(d0 * 64 ^ 3 + d1 * 64 ^ 2 + d2 * 64 + d3) div 64 ^ 2 = d0 * 64 + d1"
    "(d0 * 64 ^ 3 + d1 * 64 ^ 2 + d2 * 64 + d3) div 64 ^ 3 = d0"
    using assms by simp_all
  moreover have "(d0 * 64 ^ 3 + d1 * 64 ^ 2 + d2 * 64 + d3) mod 64 = d3"
    "(d0 * 64 ^ 2 + d1 * 64 + d2) mod 64 = d2" "(d0 * 64 + d1) mod 64 = d1"
    using assms by (simp_all add: mod_add_eq [symmetric] mod_mult_right_eq)
  ultimately show ?thesis using assms unfolding digits64_def by simp
qed

lemma byte_parts:
  "unat (w :: u8) = 4 * (unat w div 4) + unat w mod 4" "unat w = 16 * (unat w div 16) + unat w mod 16"
  "unat w = 64 * (unat w div 64) + unat w mod 64" "unat w div 4 < 64" "unat w div 16 < 16" "unat w div 64 < 4"
  using unsigned_less [where w = w and 'a = nat] by (simp_all add: less_mult_imp_div_less)

lemma regroup:
  "a = 4 * a1 + a0 \<Longrightarrow> b = 16 * b1 + b0 \<Longrightarrow> c = 64 * c1 + c0 \<Longrightarrow>
   a * 65536 + b * 256 + c = a1 * 64 ^ 3 + (a0 * 16 + b1) * 64 ^ 2 + (b0 * 4 + c1) * 64 + (c0 :: nat)"
  by simp

lemma encode_group_digits:
  "encode_group a b c = digits64 (unat a * 65536 + unat b * 256 + unat c)"
proof -
  have d: "unat (drop_bit 4 b OR push_bit 4 (a AND 3)) = unat a mod 4 * 16 + unat b div 16"
    "unat (drop_bit 6 c OR push_bit 2 (b AND 15)) = unat b mod 16 * 4 + unat c div 64"
    using byte_parts(5) [of b] byte_parts(6) [of c] by (subst joined_index; simp add: byte_split)+
  have "unat a mod 4 < 4" "unat b mod 16 < 16" "unat c mod 64 < 64" by simp_all
  then have s: "unat a mod 4 * 16 + unat b div 16 < 64" "unat b mod 16 * 4 + unat c div 64 < 64" "unat c mod 64 < 64"
    using byte_parts(5) [of b] byte_parts(6) [of c] by linarith+
  have "digits64 (unat a * 65536 + unat b * 256 + unat c) = map ((!) base64_table)
    [unat a div 4, unat a mod 4 * 16 + unat b div 16, unat b mod 16 * 4 + unat c div 64, unat c mod 64]"
    unfolding regroup [OF byte_parts(1) [of a] byte_parts(2) [of b] byte_parts(3) [of c]]
    by (rule digits64_sum [OF s byte_parts(4)])
  then show ?thesis unfolding encode_group_def d byte_split by simp
qed

lemma encode_digits: "base64_encode input = base64_digits input"
proof (induction input rule: base64_digits.induct)
  case (2 a)
  then show ?case
    unfolding base64_digits.simps encode_group_digits [of a 0 0, simplified, symmetric]
    by (simp add: encode_short encode_last_group_def encode_group_def numeral_2_eq_2)
next
  case (3 a b)
  then show ?case
    unfolding base64_digits.simps encode_group_digits [of a b 0, simplified, symmetric]
    by (simp add: encode_short encode_last_group_def encode_group_def numeral_3_eq_3 or.commute)
qed (simp_all add: encode_step encode_group_digits base64_encode_def [of "[]"])

section \<open>The properties of the component\<close>

text \<open>
  C39: \<open>decode\<close> undoes \<open>encode\<close> on every input, the empty one and the two padded lengths included; the encoding is
  the one of the standard, the digits in base 64 of each group of three bytes (the last one filled up and padded), and
  has four characters for every group.
\<close>

theorem base64_round_trip:
  "base64_decode (base64_encode input) = (None, input) \<and> base64_encode input = base64_digits input \<and>
   length (base64_encode input) = 4 * ((length input + 2) div 3)"
proof -
  have "base64_decode (base64_encode input) = (None, input)"
  proof (cases "base64_encode input = []")
    case True
    then show ?thesis using decode_loop_encode [of input "[]"] by (simp add: base64_decode_def)
  next
    case False
    then show ?thesis by (simp add: base64_decode_def encode_length decode_loop_encode)
  qed
  then show ?thesis using encode_length [of input] encode_digits [of input] by simp
qed

end
