(* ===== verification/Punycode.thy ===== *)
theory Punycode
  imports String_Tools Percent_Laws
begin

text \<open>
  Punycode, \<open>src/src/net/idna/punycode.cpp\<close>. All counters keep their 32 bits. Both functions append to a dynamic
  buffer; the model passes the buffer through. A division by zero, which needs more code points than 32 bits count,
  is a fault. \<open>punycode_decode\<close> returns the size of what is left of its input, which is nothing when it succeeds.
\<close>

section \<open>Parameters and bias adaptation\<close>

record punycode_params_t =
  pp_base :: u32
  pp_tmin :: u32
  pp_tmax :: u32
  pp_skew :: u32
  pp_damp :: u32
  pp_initial_bias :: u32
  pp_initial_n :: u32

definition params :: punycode_params_t where
  "params = \<lparr>pp_base = 36, pp_tmin = 1, pp_tmax = 26, pp_skew = 38, pp_damp = 700, pp_initial_bias = 72,
     pp_initial_n = 128\<rparr>"

lemma params_simps [simp]:
  "pp_base params = 36" "pp_tmin params = 1" "pp_tmax params = 26" "pp_skew params = 38" "pp_damp params = 700"
  "pp_initial_bias params = 72" "pp_initial_n params = 128"
  by (simp_all add: params_def)

function adapt_loop :: "u32 \<Rightarrow> u32 \<Rightarrow> u32 \<times> u32" where
  "adapt_loop delta k =
     (if delta > ((pp_base params - pp_tmin params) * pp_tmax params) div 2
      then adapt_loop (delta div (pp_base params - pp_tmin params)) (k + pp_base params)
      else (delta, k))"
  by pat_completeness auto
termination
  by (relation "measure (\<lambda>(delta, k). unat delta)") (auto simp: word_less_nat_alt unat_div)

declare adapt_loop.simps [simp del]

definition adapt :: "u32 \<Rightarrow> u32 \<Rightarrow> bool \<Rightarrow> u32 res" where
  "adapt delta numpoints firsttime =
     (let delta1 = (if firsttime then delta div pp_damp params else delta div 2) in
      bind_res (ensure (numpoints \<noteq> 0) Division_by_zero) (\<lambda>_.
      let delta2 = delta1 + delta1 div numpoints; (delta3, k) = adapt_loop delta2 0 in
      Inr (k + ((pp_base params - pp_tmin params + 1) * delta3) div (delta3 + pp_skew params))))"

definition threshold :: "u32 \<Rightarrow> u32 \<Rightarrow> u32" where
  "threshold k bias =
     (if k \<le> bias then pp_tmin params else if k \<ge> bias + pp_tmax params then pp_tmax params else k - bias)"

section \<open>Digits and checked arithmetic\<close>

definition encode_digit :: "u32 \<Rightarrow> u8 res" where
  "encode_digit d =
     (if d < 26 then Inr (ucast (0x61 + d))
      else bind_res (ensure (d < 36) Assertion) (\<lambda>_. Inr (ucast (0x30 + (d - 26)))))"

definition decode_digit :: "u8 \<Rightarrow> u32 option" where
  "decode_digit c =
     (if c \<ge> 0x61 \<and> c \<le> 0x7a then Some (ucast c - 0x61 + 0)
      else if c \<ge> 0x30 \<and> c \<le> 0x39 then Some (ucast c + 26 - 0x30)
      else None)"

definition add_and_check_overflow :: "u32 \<Rightarrow> u32 \<Rightarrow> bool \<times> u32" where
  "add_and_check_overflow out n = (out \<le> out + n, out + n)"

definition multiply_and_check_overflow :: "u32 \<Rightarrow> u32 \<Rightarrow> bool \<times> u32" where
  "multiply_and_check_overflow out n =
     (ucast (out * n) = (ucast out * ucast n :: 64 word), out * n)"

section \<open>Reading the code points\<close>

partial_function (option) count_codepoints_loop ::
    "bytes \<Rightarrow> u32 \<Rightarrow> u32 \<Rightarrow> (errc option \<times> u32 \<times> u32) run" where
  "count_codepoints_loop p basic non_basic =
     (if p = [] then Some (Inr (None, basic, non_basic))
      else case utf8_decode None p of Inl e \<Rightarrow> Some (Inl e)
      | Inr (e, cp, rest) \<Rightarrow>
          if e \<noteq> None then Some (Inr (e, basic, non_basic))
          else count_codepoints_loop rest (basic + (if cp \<le> 127 then 1 else 0)) (non_basic + (if cp > 127 then 1 else 0)))"

definition count_codepoints :: "bytes \<Rightarrow> (errc option \<times> u32 \<times> u32) run" where
  "count_codepoints input = count_codepoints_loop input 0 0"

partial_function (option) fill_codepoints_loop ::
    "bytes \<Rightarrow> bool \<Rightarrow> bytes \<Rightarrow> codepoint list \<Rightarrow> codepoint list
      \<Rightarrow> (bool \<times> bytes \<times> codepoint list \<times> codepoint list) run" where
  "fill_codepoints_loop p has_basic basic non_basic all_codepoints =
     (if p = [] then Some (Inr (has_basic, basic, non_basic, all_codepoints))
      else case utf8_decode_unchecked p of Inl e \<Rightarrow> Some (Inl e)
      | Inr (cp, rest) \<Rightarrow>
          if cp \<le> 127 then fill_codepoints_loop rest True (basic @ [ucast cp]) non_basic (all_codepoints @ [cp])
          else fill_codepoints_loop rest has_basic basic (non_basic @ [cp]) (all_codepoints @ [cp]))"

definition fill_codepoints ::
    "bytes \<Rightarrow> bytes \<Rightarrow> (bytes \<times> codepoint list \<times> codepoint list) run" where
  "fill_codepoints input basic =
     bind_run (fill_codepoints_loop input False basic [] []) (\<lambda>(has_basic, basic, non_basic, all_codepoints).
       Some (Inr (if has_basic then basic @ [0x2d] else basic, non_basic, all_codepoints)))"

partial_function (option) needs_punycode_encode :: "bytes \<Rightarrow> bool run" where
  "needs_punycode_encode p =
     (if p = [] then Some (Inr False)
      else case utf8_decode_unchecked p of Inl e \<Rightarrow> Some (Inl e)
      | Inr (cp, rest) \<Rightarrow> if cp > 127 then Some (Inr True) else needs_punycode_encode rest)"

declare count_codepoints_loop.simps [code] fill_codepoints_loop.simps [code] needs_punycode_encode.simps [code]

section \<open>Encoding\<close>

lemma threshold_bounds: "1 \<le> unat (threshold k bias)" "unat (threshold k bias) \<le> 26"
proof -
  have "1 \<le> unat (k - bias) \<and> unat (k - bias) \<le> 26" if "bias < k" "k < bias + 26"
    using that by (auto simp: word_less_nat_alt unat_sub_if' unat_word_ariths)
  then show "1 \<le> unat (threshold k bias)" "unat (threshold k bias) \<le> 26"
    by (auto simp: threshold_def not_le)
qed

function encode_integer :: "u32 \<Rightarrow> u32 \<Rightarrow> u32 \<Rightarrow> bytes \<Rightarrow> bytes res" where
  "encode_integer bias k q output =
     (let t = threshold k bias in
      if q < t then bind_res (encode_digit q) (\<lambda>c. Inr (output @ [c]))
      else
        let digit = t + ((q - t) mod (pp_base params - t)) in
        bind_res (encode_digit digit) (\<lambda>c.
          encode_integer bias (k + pp_base params) ((q - t) div (pp_base params - t)) (output @ [c])))"
  by pat_completeness auto
termination
proof (relation "measure (\<lambda>(bias, k, q, output). unat q)", goal_cases)
  case (2 bias k q out t digit c)
  then have "unat t \<le> unat q" "1 \<le> unat t" using threshold_bounds by (auto simp: word_le_nat_alt not_less)
  then have "unat (q - t) < unat q" by (simp add: unat_sub word_le_nat_alt)
  then show ?case by (simp add: unat_div) (meson div_le_dividend le_less_trans)
qed simp

declare encode_integer.simps [simp del]

record encode_state =
  es_n :: u32
  es_delta :: u32
  es_bias :: u32
  es_h :: u32
  es_out :: bytes

fun encode_pass :: "u32 \<Rightarrow> codepoint list \<Rightarrow> encode_state \<Rightarrow> encode_state res" where
  "encode_pass b [] s = Inr s"
| "encode_pass b (c # codepoints) s =
     (if c < es_n s then encode_pass b codepoints (s\<lparr>es_delta := es_delta s + 1\<rparr>)
      else if c = es_n s then
        bind_res (encode_integer (es_bias s) (pp_base params) (es_delta s) (es_out s)) (\<lambda>out.
        bind_res (adapt (es_delta s) (es_h s + 1) (es_h s = b)) (\<lambda>bias.
          encode_pass b codepoints (s\<lparr>es_out := out, es_bias := bias, es_delta := 0, es_h := es_h s + 1\<rparr>)))
      else encode_pass b codepoints s)"

fun encode_loop :: "u32 \<Rightarrow> codepoint list \<Rightarrow> codepoint list \<Rightarrow> encode_state \<Rightarrow> encode_state res" where
  "encode_loop b codepoints [] s =
     (if unat (es_h s) < length codepoints then Inl Contract_violation else Inr s)"
| "encode_loop b codepoints (m # non_basic_view) s =
     (if unat (es_h s) < length codepoints then
        if m < es_n s then encode_loop b codepoints non_basic_view s
        else
          bind_res (encode_pass b codepoints
              (s\<lparr>es_delta := es_delta s + (m - es_n s) * (es_h s + 1), es_n := m\<rparr>)) (\<lambda>s1.
            encode_loop b codepoints non_basic_view (s1\<lparr>es_delta := es_delta s1 + 1, es_n := es_n s1 + 1\<rparr>))
      else Inr s)"

definition punycode_encode :: "bytes \<Rightarrow> bytes \<Rightarrow> (errc option \<times> nat \<times> bytes) run" where
  "punycode_encode input output =
     bind_run (count_codepoints input) (\<lambda>(e, basic_count, non_basic_count).
     if e \<noteq> None then Some (Inr (e, 0, output))
     else
       bind_run (fill_codepoints input output) (\<lambda>(output, non_basic_vec, codepoints).
       bind_run (Some (encode_loop basic_count codepoints (sort non_basic_vec)
           \<lparr>es_n = pp_initial_n params, es_delta = 0, es_bias = pp_initial_bias params, es_h = basic_count,
            es_out = output\<rparr>)) (\<lambda>s.
         Some (Inr (None, length input, es_out s)))))"

section \<open>Decoding\<close>

definition consume_basic_codepoints :: "bytes \<Rightarrow> (bool \<times> bytes \<times> codepoint list) res" where
  "consume_basic_codepoints codepoints =
     (if 0x2d \<notin> set codepoints then Inr (True, codepoints, [])
      else
        let digits = rev (takeWhile (\<lambda>c. c \<noteq> 0x2d) (rev codepoints));
            basics = take (length codepoints - length digits - 1) codepoints
        in if \<exists>c\<in>set basics. c > 127 then
             Inr (False, codepoints, map ucast (takeWhile (\<lambda>c. c \<le> 127) basics))
           else
             bind_res (ensure (digits = [] \<or> hd digits \<noteq> 0x2d) Assertion) (\<lambda>_. Inr (True, digits, map ucast basics)))"

fun decode_integer :: "u32 \<Rightarrow> u32 \<Rightarrow> u32 \<Rightarrow> u32 \<Rightarrow> bytes \<Rightarrow> errc option \<times> u32 \<times> bytes" where
  "decode_integer bias k i w [] = (Some Invalid_argument, i, [])"
| "decode_integer bias k i w (c # input) =
     (case decode_digit c of
        None \<Rightarrow> (Some Invalid_argument, i, c # input)
      | Some digit \<Rightarrow>
          let i = i + digit * w; t = threshold k bias in
          if digit < t then (None, i, input)
          else
            let (ok, w) = multiply_and_check_overflow w (pp_base params - t) in
            if \<not> ok then (Some Invalid_argument, i, input)
            else decode_integer bias (k + pp_base params) i w input)"

lemma decode_integer_shorter:
  "decode_integer bias k i w input = (None, i', rest) \<Longrightarrow> length rest < length input"
proof (induction bias k i w input rule: decode_integer.induct)
  case (2 bias k i w c input)
  then show ?case by (fastforce simp: Let_def split: option.splits if_splits prod.splits intro: less_SucI)
qed simp

record decode_state =
  ds_n :: u32
  ds_i :: u32
  ds_bias :: u32
  ds_len :: u32
  ds_output :: "codepoint list"

definition decode_insert :: "u32 \<Rightarrow> u32 \<Rightarrow> decode_state \<Rightarrow> (errc option \<times> decode_state) res" where
  "decode_insert i bias s =
     (let size = length (ds_output s);
          (ok, n) = add_and_check_overflow (ds_n s) (i div of_nat (size + 1))
      in if \<not> ok then Inr (Some Invalid_argument, s)
         else
           let i = of_nat (unat i mod (size + 1)); (valid, e) = validate_codepoint n in
           if \<not> valid then Inr (e, s)
           else
             bind_res (utf8_codepoint_size n) (\<lambda>k.
               Inr (None, \<lparr>ds_n = n, ds_i = i + 1, ds_bias = bias, ds_len = ds_len s + of_nat k,
                 ds_output = take (unat i) (ds_output s) @ n # drop (unat i) (ds_output s)\<rparr>)))"

function punycode_decode_loop :: "bytes \<Rightarrow> decode_state \<Rightarrow> (errc option \<times> decode_state) res" where
  "punycode_decode_loop input s =
     (if input = [] then Inr (None, s)
      else
        case decode_integer (ds_bias s) (pp_base params) (ds_i s) 1 input of
          (None, i, rest) \<Rightarrow>
            bind_res (adapt (i - ds_i s) (of_nat (length (ds_output s) + 1)) (ds_i s = 0)) (\<lambda>bias.
            bind_res (decode_insert i bias s) (\<lambda>(e, s1).
              if e \<noteq> None then Inr (e, s1) else punycode_decode_loop rest s1))
        | (Some e, _, _) \<Rightarrow> Inr (Some e, s))"
  by pat_completeness auto
termination
  by (relation "measure (\<lambda>(input, s). length input)") (auto dest: decode_integer_shorter [OF sym])

declare punycode_decode_loop.simps [simp del]

fun encode_output :: "codepoint list \<Rightarrow> nat \<Rightarrow> bytes \<Rightarrow> (errc option \<times> bytes) res" where
  "encode_output [] out_n out = Inr (None, out @ replicate out_n 0)"
| "encode_output (cp # cps) out_n out =
     bind_res (utf8_encode cp out_n) (\<lambda>us.
       if length us = 0 then Inr (Some Illegal_byte_sequence, out @ replicate out_n 0)
       else encode_output cps (out_n - length us) (out @ us))"

definition punycode_decode :: "bytes \<Rightarrow> bytes \<Rightarrow> (errc option \<times> nat \<times> bytes) res" where
  "punycode_decode input out =
     bind_res (consume_basic_codepoints input) (\<lambda>(ok, rest, output).
     if \<not> ok then Inr (Some Invalid_argument, 0, out)
     else
       bind_res (punycode_decode_loop rest
           \<lparr>ds_n = pp_initial_n params, ds_i = 0, ds_bias = pp_initial_bias params, ds_len = of_nat (length output),
            ds_output = output\<rparr>) (\<lambda>(e, s).
       if e \<noteq> None then Inr (e, 0, out)
       else
         bind_res (encode_output (ds_output s) (unat (ds_len s)) []) (\<lambda>(e, bs).
           Inr (e, 0, out @ bs))))"

end
