(* ===== verification/Punycode_Laws.thy ===== *)
theory Punycode_Laws
  imports Punycode "HOL-Library.Multiset"
begin

text \<open>
  Punycode decoding undoes encoding. One integer first: the digits written for \<open>q\<close> are read back as \<open>q\<close> times the
  weight, for every bias. Then the two state machines: between two insertions the decoder has exactly the code points
  below the encoder's current one, and its position plus the encoder's \<open>delta\<close> is the next position to insert at.
\<close>

section \<open>Digits\<close>

lemma encode_digit_value:
  assumes "unat d < 36"
  obtains c where "encode_digit d = Inr c" "decode_digit c = Some d" "c < 128" "c \<noteq> 0x2d" "c \<noteq> 0x2e"
proof -
  have "list_all (\<lambda>k. case encode_digit (of_nat k) of Inl _ \<Rightarrow> False
      | Inr c \<Rightarrow> decode_digit c = Some (of_nat k) \<and> c < 128 \<and> c \<noteq> 0x2d \<and> c \<noteq> 0x2e) [0..<36]"
    by code_simp
  then have "case encode_digit (of_nat (unat d)) of Inl _ \<Rightarrow> False
      | Inr c \<Rightarrow> decode_digit c = Some (of_nat (unat d)) \<and> c < 128 \<and> c \<noteq> 0x2d \<and> c \<noteq> 0x2e"
    using assms by (auto simp only: list_all_iff set_upt atLeastLessThan_iff)
  then show thesis using that by (simp split: sum.splits)
qed

definition digit_bytes :: "bytes \<Rightarrow> bool" where
  "digit_bytes ds \<longleftrightarrow> (\<forall>c\<in>set ds. c < 128 \<and> c \<noteq> 0x2d \<and> c \<noteq> 0x2e)"

lemma digit_bytes_simps [simp]:
  "digit_bytes []" "digit_bytes (c # ds) \<longleftrightarrow> c < 128 \<and> c \<noteq> 0x2d \<and> c \<noteq> 0x2e \<and> digit_bytes ds"
  "digit_bytes (ds @ es) \<longleftrightarrow> digit_bytes ds \<and> digit_bytes es"
  by (auto simp: digit_bytes_def)

lemma multiply_fits:
  assumes "unat w * unat n < 2 ^ 32"
  shows "multiply_and_check_overflow w n = (True, w * n)" "unat (w * n) = unat w * unat n"
proof -
  show u: "unat (w * n) = unat w * unat n" using assms by (simp add: unat_word_ariths)
  have "unat (ucast w :: 64 word) = unat w" "unat (ucast n :: 64 word) = unat n"
    "unat (ucast (w * n) :: 64 word) = unat (w * n)"
    by (simp_all add: unsigned_ucast_eq take_bit_nat_eq_self unsigned_less [THEN less_trans])
  then have "unat (ucast w * ucast n :: 64 word) = unat (ucast (w * n) :: 64 word)"
    using assms by (simp add: unat_word_ariths(2) [where 'a = 64] u)
  then show "multiply_and_check_overflow w n = (True, w * n)"
    unfolding multiply_and_check_overflow_def by (simp add: word_unat_eq_iff [where 'a = 64])
qed

text \<open>One round of the digit loop in numbers.\<close>

lemma digit_round:
  fixes q t :: u32
  assumes "unat t \<le> unat q" and "1 \<le> unat t" and "unat t \<le> 26"
  shows "unat (t + (q - t) mod (36 - t)) = unat t + (unat q - unat t) mod (36 - unat t)"
    "unat ((q - t) div (36 - t)) = (unat q - unat t) div (36 - unat t)" "unat (36 - t) = 36 - unat t"
proof -
  show p: "unat (36 - t :: u32) = 36 - unat t" using assms(3) by (simp add: unat_sub word_le_nat_alt)
  have s: "unat (q - t) = unat q - unat t" using assms(1) by (simp add: unat_sub word_le_nat_alt)
  show "unat ((q - t) div (36 - t)) = (unat q - unat t) div (36 - unat t)" by (simp add: unat_div p s)
  have "unat ((q - t) mod (36 - t)) = (unat q - unat t) mod (36 - unat t)" by (simp add: unat_mod p s)
  moreover have "(unat q - unat t) mod (36 - unat t) < 36" using assms(3) by (intro less_le_trans [OF mod_less_divisor]) auto
  ultimately show "unat (t + (q - t) mod (36 - t)) = unat t + (unat q - unat t) mod (36 - unat t)"
    using assms(3) by (simp add: unat_word_ariths)
qed

lemma integer_round_trip:
  assumes "unat q * unat w * 35 < 2 ^ 32" and "unat i + unat q * unat w < 2 ^ 32"
  shows "\<exists>ds. digit_bytes ds \<and> ds \<noteq> [] \<and> (\<forall>out. encode_integer bias k q out = Inr (out @ ds)) \<and>
    (\<forall>rest. decode_integer bias k i w (ds @ rest) = (None, i + q * w, rest))"
  using assms
proof (induction "unat q" arbitrary: q k i w rule: less_induct)
  case less
  let ?t = "threshold k bias"
  have t: "1 \<le> unat ?t" "unat ?t \<le> 26" by (rule threshold_bounds)+
  show ?case
  proof (cases "q < ?t")
    case True
    then have "unat q < 36" using t(2) by (simp add: word_less_nat_alt)
    then obtain c where "encode_digit q = Inr c" "decode_digit c = Some q" "c < 128" "c \<noteq> 0x2d" "c \<noteq> 0x2e"
      by (rule encode_digit_value)
    with True show ?thesis by (intro exI [of _ "[c]"]) (simp add: encode_integer.simps [of _ _ q] Let_def)
  next
    case False
    then have q: "unat ?t \<le> unat q" by (simp add: not_less word_le_nat_alt)
    let ?d = "?t + (q - ?t) mod (36 - ?t)" and ?q = "(q - ?t) div (36 - ?t)" and ?w = "w * (36 - ?t)"
    note r = digit_round [OF q t]
    have d: "unat ?d < 36" "unat ?t \<le> unat ?d"
      using t mod_less_divisor [of "36 - unat ?t" "unat q - unat ?t"] unfolding r by linarith+
    obtain c where c: "encode_digit ?d = Inr c" "decode_digit c = Some ?d" "c < 128" "c \<noteq> 0x2d" "c \<noteq> 0x2e"
      using encode_digit_value [OF d(1)] .
    have split: "unat q = unat ?d + unat ?q * (36 - unat ?t)"
      unfolding r(1,2) using q mod_div_mult_eq [of "unat q - unat ?t" "36 - unat ?t"] by linarith
    have "1 \<le> unat q" using t(1) q by linarith
    then have "unat w * 35 \<le> unat q * unat w * 35" by simp
    then have "unat w * unat (36 - ?t) < 2 ^ 32" unfolding r(3)
      using less.prems(1) t(1) mult_le_mono2 [of "36 - unat ?t" 35 "unat w"] by linarith
    note m = multiply_fits [OF this]
    have qw: "unat ?q * unat ?w = unat ?q * (36 - unat ?t) * unat w" unfolding m(2) r(3) by simp
    have total: "unat q * unat w = unat ?d * unat w + unat ?q * unat ?w"
      unfolding qw by (subst split) (simp add: distrib_right)
    have "unat (?d * w) = unat ?d * unat w" using total less.prems(2) by (simp add: unat_word_ariths)
    then have i: "unat (i + ?d * w) = unat i + unat ?d * unat w" using total less.prems(2) by (simp add: unat_word_ariths)
    have "unat ?q < unat q" unfolding r using t(1) q div_le_dividend [of "unat q - unat ?t" "36 - unat ?t"] by linarith
    moreover have "unat ?q * unat ?w * 35 < 2 ^ 32" using total less.prems(1) by simp
    moreover have "unat (i + ?d * w) + unat ?q * unat ?w < 2 ^ 32" using total i less.prems(2) by simp
    ultimately obtain ds where ds: "digit_bytes ds" "ds \<noteq> []" "\<forall>out. encode_integer bias (k + 36) ?q out = Inr (out @ ds)"
      "\<forall>rest. decode_integer bias (k + 36) (i + ?d * w) ?w (ds @ rest) = (None, i + ?d * w + ?q * ?w, rest)"
      using less.hyps [of ?q ?w "i + ?d * w" "k + 36"] by blast
    have "i + ?d * w + ?q * ?w = i + q * w"
      using arg_cong [OF total, of "of_nat :: nat \<Rightarrow> u32"]
      by (simp only: of_nat_mult of_nat_add of_nat_unat ucast_id add.assoc)
    moreover have "\<not> ?d < ?t" using d(2) by (simp add: word_less_nat_alt)
    ultimately show ?thesis using ds c False m(1)
      by (intro exI [of _ "c # ds"]) (simp add: encode_integer.simps [of _ _ q] Let_def)
  qed
qed

section \<open>The two state machines\<close>

text \<open>
  \<open>matched b n pre suf s d\<close>: the encoder in state \<open>s\<close> looks for the code point \<open>n\<close> and has passed \<open>pre\<close>, with
  \<open>suf\<close> ahead; the decoder, having read all that was written, is in state \<open>d\<close>.
\<close>

definition inserted :: "codepoint \<Rightarrow> codepoint list \<Rightarrow> codepoint list \<Rightarrow> codepoint list" where
  "inserted n pre suf = filter (\<lambda>c. c \<le> n) pre @ filter (\<lambda>c. c < n) suf"

definition matched ::
    "u32 \<Rightarrow> codepoint \<Rightarrow> codepoint list \<Rightarrow> codepoint list \<Rightarrow> encode_state \<Rightarrow> decode_state \<Rightarrow> bool" where
  "matched b n pre suf s d \<longleftrightarrow>
     es_n s = n \<and> ds_output d = inserted n pre suf \<and> unat (es_h s) = length (inserted n pre suf) \<and>
     es_bias s = ds_bias d \<and> unat (ds_n d) \<le> unat n \<and>
     unat (ds_n d) * (length (inserted n pre suf) + 1) + unat (ds_i d) + unat (es_delta s)
       = unat n * (length (inserted n pre suf) + 1) + length (filter (\<lambda>c. c \<le> n) pre) \<and>
     unat b \<le> unat (es_h s) \<and> (ds_i d = 0 \<longleftrightarrow> es_h s = b) \<and>
     ds_len d = of_nat (length (encoding utf8_units (inserted n pre suf)))"

lemma inserted_simps [simp]:
  "c < n \<Longrightarrow> inserted n (pre @ [c]) suf = inserted n pre (c # suf)"
  "n < c \<Longrightarrow> inserted n (pre @ [c]) suf = inserted n pre (c # suf)"
  "inserted n pre [] = filter (\<lambda>c. c \<le> n) pre" "inserted n [] suf = filter (\<lambda>c. c < n) suf"
  by (auto simp: inserted_def)

lemma length_inserted: "length (inserted n pre suf) \<le> length pre + length suf"
  by (simp add: inserted_def add_mono)

lemma matched_bounds:
  assumes "matched b n pre suf s d" and "unat n \<le> 0x10ffff" and "length (inserted n pre suf) < k"
  shows "unat (ds_i d) + unat (es_delta s) \<le> 0x10ffff * k + k"
    "unat (ds_i d) + unat (es_delta s)
       = (unat n - unat (ds_n d)) * (length (inserted n pre suf) + 1) + length (filter (\<lambda>c. c \<le> n) pre)"
proof -
  let ?h = "length (inserted n pre suf)" and ?x = "length (filter (\<lambda>c. c \<le> n) pre)"
  have e: "unat (ds_n d) * (?h + 1) + unat (ds_i d) + unat (es_delta s) = unat n * (?h + 1) + ?x"
    "unat (ds_n d) \<le> unat n" using assms(1) by (simp_all add: matched_def)
  have "unat n * (?h + 1) = unat (ds_n d) * (?h + 1) + (unat n - unat (ds_n d)) * (?h + 1)"
    using e(2) by (metis add_mult_distrib le_add_diff_inverse)
  with e(1) show eq: "unat (ds_i d) + unat (es_delta s) = (unat n - unat (ds_n d)) * (?h + 1) + ?x" by linarith
  have "?x \<le> ?h" by (simp add: inserted_def)
  moreover have "(unat n - unat (ds_n d)) * (?h + 1) \<le> 0x10ffff * k"
    using assms(2,3) by (intro mult_le_mono) auto
  ultimately show "unat (ds_i d) + unat (es_delta s) \<le> 0x10ffff * k + k" unfolding eq using assms(3) by linarith
qed

lemma adapt_defined: "np \<noteq> 0 \<Longrightarrow> \<exists>bias. adapt delta np first = Inr bias"
  by (simp add: adapt_def Let_def split: prod.splits)

lemma decode_step:
  assumes "decode_integer (ds_bias d) 36 (ds_i d) 1 (ds @ rest) = (None, i, rest)" and "ds \<noteq> []"
    and "adapt (i - ds_i d) (of_nat (length (ds_output d) + 1)) (ds_i d = 0) = Inr bias"
    and "decode_insert i bias d = Inr (None, d')"
  shows "punycode_decode_loop (ds @ rest) d = punycode_decode_loop rest d'"
  using assms by (subst punycode_decode_loop.simps) simp

lemma quotient_remainder: "x < c \<Longrightarrow> (a * c + x) div c = a \<and> (a * c + x) mod c = (x :: nat)"
  by simp

lemma decode_insert_at:
  assumes "is_valid_codepoint n" and "unat i = (unat n - unat (ds_n d)) * (length (ds_output d) + 1) + x"
    and "unat (ds_n d) \<le> unat n" and "x \<le> length (ds_output d)" and "length (ds_output d) < 110"
  shows "decode_insert i bias d = Inr (None, \<lparr>ds_n = n, ds_i = of_nat (x + 1), ds_bias = bias,
     ds_len = ds_len d + of_nat (length (utf8_units n)), ds_output = take x (ds_output d) @ n # drop x (ds_output d)\<rparr>)"
proof -
  let ?h = "length (ds_output d)"
  have h: "unat (of_nat (?h + 1) :: u32) = ?h + 1" using assms(5) by (simp add: unat_of_nat del: of_nat_add of_nat_Suc)
  have q: "unat i div (?h + 1) = unat n - unat (ds_n d)" "unat i mod (?h + 1) = x"
    unfolding assms(2) using quotient_remainder [of x "?h + 1"] assms(4) by auto
  have "unat (i div of_nat (?h + 1)) = unat n - unat (ds_n d)" by (simp only: unat_div h q)
  then have "unat (ds_n d + i div of_nat (?h + 1)) = unat n"
    using assms(3) unsigned_less [of n, where 'a = nat] by (simp add: unat_word_ariths(1))
  then have "ds_n d + i div of_nat (?h + 1) = n" by (simp add: word_unat_eq_iff)
  then have "add_and_check_overflow (ds_n d) (i div of_nat (?h + 1)) = (True, n)"
    using assms(3) unfolding add_and_check_overflow_def by (simp add: word_le_nat_alt)
  moreover have "unat (of_nat x :: u32) = x" using assms(4,5) by (simp add: unat_of_nat)
  ultimately show ?thesis
    unfolding decode_insert_def Let_def q(2)
    by (simp add: validate_codepoint_eq assms(1) utf8_codepoint_size_units [OF assms(1)] del: of_nat_add of_nat_Suc)
      (simp add: add.commute)
qed

text \<open>Reading \<open>ds\<close> takes the decoder from \<open>d\<close> to \<open>d'\<close>, whatever follows.\<close>

definition reads :: "bytes \<Rightarrow> decode_state \<Rightarrow> decode_state \<Rightarrow> bool" where
  "reads ds d d' \<longleftrightarrow> (\<forall>rest. punycode_decode_loop (ds @ rest) d = punycode_decode_loop rest d')"

lemma reads_Nil [simp]: "reads [] d d"
  by (simp add: reads_def)

lemma reads_append: "reads ds d d1 \<Longrightarrow> reads es d1 d2 \<Longrightarrow> reads (ds @ es) d d2"
  by (simp add: reads_def)

lemma insertion_step:
  assumes m: "matched b n pre (n # suf) s d" and v: "is_valid_codepoint n" and len: "length pre + length suf < 110"
  shows "\<exists>ds bias d'. encode_integer (es_bias s) 36 (es_delta s) (es_out s) = Inr (es_out s @ ds) \<and> digit_bytes ds \<and>
    adapt (es_delta s) (es_h s + 1) (es_h s = b) = Inr bias \<and> reads ds d d' \<and>
    matched b n (pre @ [n]) suf (s\<lparr>es_out := es_out s @ ds, es_bias := bias, es_delta := 0, es_h := es_h s + 1\<rparr>) d'"
proof -
  let ?D = "inserted n pre (n # suf)" and ?x = "length (filter (\<lambda>c. c \<le> n) pre)"
  have D: "?D = filter (\<lambda>c. c \<le> n) pre @ filter (\<lambda>c. c < n) suf" by (simp add: inserted_def)
  have h: "length ?D < 110" unfolding D
    using len length_filter_le [of "\<lambda>c. c \<le> n" pre] length_filter_le [of "\<lambda>c. c < n" suf] unfolding length_append by linarith
  have n: "unat n \<le> 0x10ffff" using v by (simp add: valid_codepoint_unat)
  note bounds = matched_bounds [OF m n h]
  have o: "ds_output d = ?D" and eh: "unat (es_h s) = length ?D" and bias: "ds_bias d = es_bias s"
    and N: "unat (ds_n d) \<le> unat n" and b: "unat b \<le> unat (es_h s)" "ds_i d = 0 \<longleftrightarrow> es_h s = b"
    and l: "ds_len d = of_nat (length (encoding utf8_units ?D))"
    using m by (simp_all add: matched_def)
  let ?i = "ds_i d + es_delta s"
  obtain ds where ds: "digit_bytes ds" "ds \<noteq> []" "\<forall>out. encode_integer (es_bias s) 36 (es_delta s) out = Inr (out @ ds)"
    "\<forall>rest. decode_integer (es_bias s) 36 (ds_i d) 1 (ds @ rest) = (None, ?i, rest)"
    using integer_round_trip [of "es_delta s" 1 "ds_i d" "es_bias s" 36] bounds(1) by auto
  have i: "unat ?i = (unat n - unat (ds_n d)) * (length ?D + 1) + ?x" using bounds by (simp add: unat_word_ariths)
  have e1: "es_h s + 1 = of_nat (length ?D + 1)" unfolding eh [symmetric] by simp
  have e2: "unat (es_h s + 1) = length ?D + 1" using eh h by (simp add: unat_word_ariths)
  then have "es_h s + 1 \<noteq> 0" by auto
  then obtain bias' where a: "adapt (es_delta s) (es_h s + 1) (es_h s = b) = Inr bias'" using adapt_defined by blast
  have x: "?x \<le> length (ds_output d)" unfolding o D by simp
  define d' where "d' = \<lparr>ds_n = n, ds_i = of_nat (?x + 1), ds_bias = bias',
     ds_len = ds_len d + of_nat (length (utf8_units n)), ds_output = inserted n (pre @ [n]) suf\<rparr>"
  have "take ?x (ds_output d) @ n # drop ?x (ds_output d) = inserted n (pre @ [n]) suf"
    unfolding o D by (simp add: inserted_def)
  then have "decode_insert ?i bias' d = Inr (None, d')"
    unfolding d'_def using decode_insert_at [OF v _ N x, of ?i bias'] i h by (simp add: o)
  moreover have "adapt (?i - ds_i d) (of_nat (length (ds_output d) + 1)) (ds_i d = 0) = Inr bias'"
    using a b(2) by (simp only: o e1 add_diff_cancel_left')
  ultimately have "reads ds d d'" unfolding reads_def using ds(2,4) bias decode_step by auto
  moreover have "matched b n (pre @ [n]) suf
      (s\<lparr>es_out := es_out s @ ds, es_bias := bias', es_delta := 0, es_h := es_h s + 1\<rparr>) d'"
  proof -
    have "length (inserted n (pre @ [n]) suf) = length ?D + 1" by (simp add: inserted_def)
    moreover have u: "unat (of_nat (?x + 1) :: u32) = ?x + 1" using x h o by (simp add: unat_of_nat del: of_nat_add of_nat_Suc)
    moreover have "(of_nat (?x + 1) :: u32) \<noteq> 0" using u by auto
    moreover have "es_h s + 1 \<noteq> b" using b(1) eh e2 by auto
    moreover have "es_n s = n" using m by (simp add: matched_def)
    moreover have "encoding utf8_units (inserted n (pre @ [n]) suf)
      = encoding utf8_units (filter (\<lambda>c. c \<le> n) pre) @ utf8_units n @ encoding utf8_units (filter (\<lambda>c. c < n) suf)"
      by (simp add: inserted_def encoding_def)
    ultimately show ?thesis
      unfolding matched_def d'_def using b(1) e2 eh l by (simp add: D encoding_def del: of_nat_add of_nat_Suc) simp
  qed
  ultimately show ?thesis using ds(1,3) a by blast
qed

lemma matched_pass:
  assumes "matched b n pre (c # suf) s d" and "c < n" and "unat n \<le> 0x10ffff" and "length pre + length suf < 110"
  shows "matched b n (pre @ [c]) suf (s\<lparr>es_delta := es_delta s + 1\<rparr>) d"
proof -
  have "length (inserted n pre (c # suf)) < 111" using length_inserted [of n pre "c # suf"] assms(4) by simp
  from matched_bounds(1) [OF assms(1,3) this] have "unat (es_delta s + 1) = unat (es_delta s) + 1"
    by (simp add: unat_word_ariths)
  with assms(1,2) show ?thesis by (simp add: matched_def)
qed

lemma matched_skip: "matched b n pre (c # suf) s d \<Longrightarrow> n < c \<Longrightarrow> matched b n (pre @ [c]) suf s d"
  by (simp add: matched_def)

lemma pass_step:
  assumes "matched b n pre suf s d" and "list_all is_valid_codepoint suf" and "length pre + length suf \<le> 110"
    and n: "unat n \<le> 0x10ffff"
  shows "\<exists>s' ds d'. encode_pass b suf s = Inr s' \<and> es_out s' = es_out s @ ds \<and> digit_bytes ds \<and> reads ds d d' \<and>
    matched b n (pre @ suf) [] s' d'"
  using assms(1-3)
proof (induction suf arbitrary: pre s d)
  case Nil
  then show ?case by (intro exI [of _ s] exI [of _ "[]"] exI [of _ d]) simp
next
  case (Cons c suf)
  have es_n: "es_n s = n" using Cons.prems(1) by (simp add: matched_def)
  note IH = Cons.IH [of "pre @ [c]"]
  consider "c < n" | "c = n" | "n < c" by (metis linorder_cases)
  then show ?case
  proof cases
    case 1
    with Cons.prems es_n IH [OF matched_pass [OF Cons.prems(1) 1 n]] show ?thesis by simp
  next
    case 2
    obtain ds bias d' where st: "encode_integer (es_bias s) 36 (es_delta s) (es_out s) = Inr (es_out s @ ds)" "digit_bytes ds"
      "adapt (es_delta s) (es_h s + 1) (es_h s = b) = Inr bias" "reads ds d d'"
      "matched b n (pre @ [n]) suf (s\<lparr>es_out := es_out s @ ds, es_bias := bias, es_delta := 0, es_h := es_h s + 1\<rparr>) d'"
      using insertion_step [of b n pre suf s d] Cons.prems 2 by auto
    obtain s' es d'' where "encode_pass b suf
        (s\<lparr>es_out := es_out s @ ds, es_bias := bias, es_delta := 0, es_h := es_h s + 1\<rparr>) = Inr s'"
      "es_out s' = (es_out s @ ds) @ es" "digit_bytes es" "reads es d' d''" "matched b n ((pre @ [c]) @ suf) [] s' d''"
      using IH [of _ d'] st(5) Cons.prems 2 by fastforce
    with st es_n 2 show ?thesis
      by (intro exI [of _ s'] exI [of _ "ds @ es"] exI [of _ d'']) (auto intro: reads_append)
  next
    case 3
    then have "\<not> c < n" "c \<noteq> n" by auto
    with Cons.prems es_n IH [OF matched_skip [OF Cons.prems(1) 3]] show ?thesis by simp
  qed
qed

section \<open>All code points\<close>

lemma pass_start:
  assumes "matched b n [] cps s d" and "n \<le> m" and "\<forall>c\<in>set cps. n \<le> c \<longrightarrow> m \<le> c" and "unat m \<le> 0x10ffff"
    and "length cps \<le> 110"
  shows "matched b m [] cps (s\<lparr>es_delta := es_delta s + (m - es_n s) * (es_h s + 1), es_n := m\<rparr>) d"
proof -
  have f: "filter (\<lambda>c. c < m) cps = filter (\<lambda>c. c < n) cps"
    using assms(2,3) by (auto intro!: filter_cong simp: not_le [symmetric])
  let ?h = "length (filter (\<lambda>c. c < n) cps)"
  have h: "?h \<le> 110" using assms(5) length_filter_le le_trans by blast
  have nm: "unat n \<le> unat m" using assms(2) by (simp add: word_le_nat_alt)
  have e: "es_n s = n" "unat (es_h s) = ?h" "unat (ds_n d) * (?h + 1) + unat (ds_i d) + unat (es_delta s) = unat n * (?h + 1)"
    "unat (ds_n d) \<le> unat n" using assms(1) by (simp_all add: matched_def)
  have "unat m * (?h + 1) = unat n * (?h + 1) + (unat m - unat n) * (?h + 1)"
    using nm by (metis add_mult_distrib le_add_diff_inverse)
  then have t: "unat (ds_n d) * (?h + 1) + unat (ds_i d) + (unat (es_delta s) + (unat m - unat n) * (?h + 1)) = unat m * (?h + 1)"
    using e(3) by linarith
  have "unat m * (?h + 1) \<le> 0x10ffff * 111" using assms(4) h by (intro mult_le_mono) auto
  then have small: "unat (es_delta s) + (unat m - unat n) * (?h + 1) \<le> 0x10ffff * 111" using t by linarith
  have "unat (m - n) = unat m - unat n" using assms(2) by (simp add: unat_sub)
  moreover have "unat (es_h s + 1) = ?h + 1" using e(2) h by (simp add: unat_word_ariths)
  ultimately have "unat ((m - n) * (es_h s + 1)) = (unat m - unat n) * (?h + 1)"
    using small by (simp add: unat_word_ariths(2))
  then have "unat (es_delta s + (m - n) * (es_h s + 1)) = unat (es_delta s) + (unat m - unat n) * (?h + 1)"
    using small by (simp add: unat_word_ariths(1))
  with assms(1) f t e nm show ?thesis by (simp add: matched_def)
qed

lemma pass_end:
  assumes "matched b m cps [] s d" and "unat m \<le> 0x10ffff" and "length cps \<le> 110"
  shows "matched b (m + 1) [] cps (s\<lparr>es_delta := es_delta s + 1, es_n := es_n s + 1\<rparr>) d"
proof -
  have m: "unat (m + 1) = unat m + 1" using assms(2) by (simp add: unat_word_ariths)
  then have f: "filter (\<lambda>c. c < m + 1) cps = filter (\<lambda>c. c \<le> m) cps"
    by (auto intro!: filter_cong simp: word_less_nat_alt word_le_nat_alt)
  have "length (inserted m cps []) \<le> length cps" by simp
  then have "length (inserted m cps []) < 111" using assms(3) by linarith
  from matched_bounds(1) [OF assms(1,2) this] have "unat (es_delta s + 1) = unat (es_delta s) + 1"
    by (simp add: unat_word_ariths)
  with assms(1) f m show ?thesis by (simp add: matched_def)
qed

text \<open>The sorted code points still to come, and the least of them.\<close>

definition ahead :: "codepoint \<Rightarrow> codepoint list \<Rightarrow> codepoint list \<Rightarrow> bool" where
  "ahead n view cps \<longleftrightarrow>
     sorted view \<and> mset (filter (\<lambda>c. n \<le> c) view) = mset (filter (\<lambda>c. n \<le> c) cps)"

lemma ahead_done: "ahead n [] cps \<Longrightarrow> filter (\<lambda>c. c < n) cps = cps"
  by (auto simp: ahead_def filter_id_conv not_le [symmetric])

lemma all_below: "\<not> length (filter (\<lambda>c. c < n) cps) < length cps \<Longrightarrow> filter (\<lambda>c. c < n) cps = cps"
  by (metis filter_id_conv length_filter_less)

lemma ahead_skip: "ahead n (m # view) cps \<Longrightarrow> m < n \<Longrightarrow> ahead n view cps"
  by (auto simp: ahead_def not_le [symmetric])

lemma ahead_least:
  assumes "ahead n (m # view) cps" and "n \<le> m" and "list_all is_valid_codepoint cps"
  shows "unat m \<le> 0x10ffff" "\<forall>c\<in>set cps. n \<le> c \<longrightarrow> m \<le> c" "ahead (m + 1) view cps"
proof -
  have eq: "mset (filter (\<lambda>c. n \<le> c) (m # view)) = mset (filter (\<lambda>c. n \<le> c) cps)" and s: "sorted (m # view)"
    using assms(1) by (simp_all add: ahead_def)
  have "m \<in># mset (filter (\<lambda>c. n \<le> c) cps)" unfolding eq [symmetric] using assms(2) by simp
  then show m: "unat m \<le> 0x10ffff" using assms(3) by (auto simp: list_all_iff valid_codepoint_unat)
  show "\<forall>c\<in>set cps. n \<le> c \<longrightarrow> m \<le> c"
  proof clarify
    fix c assume "c \<in> set cps" "n \<le> c"
    then have "c \<in># mset (filter (\<lambda>c. n \<le> c) (m # view))" unfolding eq by simp
    then show "m \<le> c" using s by (auto split: if_splits)
  qed
  have "unat (m + 1) = unat m + 1" using m by (simp add: unat_word_ariths)
  then have above: "m + 1 \<le> c \<longleftrightarrow> m < c" for c by (simp add: word_le_nat_alt word_less_nat_alt Suc_le_eq)
  have "filter (\<lambda>c. m < c) (filter (\<lambda>c. n \<le> c) xs) = filter (\<lambda>c. m < c) xs" for xs
    using assms(2) by (auto simp: filter_filter intro!: filter_cong)
  then have "mset (filter (\<lambda>c. m < c) (m # view)) = mset (filter (\<lambda>c. m < c) cps)"
    using arg_cong [OF eq, of "filter_mset (\<lambda>c. m < c)"] by (simp only: mset_filter [symmetric])
  with s show "ahead (m + 1) view cps" unfolding ahead_def above by simp
qed

lemma encode_loop_reads:
  assumes "matched b n [] cps s d" and "ahead n view cps"
    and "list_all is_valid_codepoint cps" and "length cps \<le> 110"
  shows "\<exists>s' ds d'. encode_loop b cps view s = Inr s' \<and> es_out s' = es_out s @ ds \<and> digit_bytes ds \<and> reads ds d d' \<and>
    ds_output d' = cps \<and> ds_len d' = of_nat (length (encoding utf8_units cps))"
  using assms(1,2)
proof (induction view arbitrary: n s d)
  case Nil
  with ahead_done [OF Nil(2)] show ?case
    by (intro exI [of _ s] exI [of _ "[]"] exI [of _ d]) (simp add: matched_def)
next
  case (Cons m view)
  have h: "unat (es_h s) = length (filter (\<lambda>c. c < n) cps)" "es_n s = n" using Cons.prems(1) by (simp_all add: matched_def)
  consider "\<not> unat (es_h s) < length cps" | "unat (es_h s) < length cps" "m < n" | "unat (es_h s) < length cps" "n \<le> m"
    using not_le by blast
  then show ?case
  proof cases
    case 1
    with Cons.prems(1) all_below [of n cps] h(1) show ?thesis
      by (intro exI [of _ s] exI [of _ "[]"] exI [of _ d]) (simp add: matched_def)
  next
    case 2
    with Cons.IH [OF Cons.prems(1) ahead_skip [OF Cons.prems(2)]] h(2) show ?thesis by simp
  next
    case 3
    note least = ahead_least [OF Cons.prems(2) 3(2) assms(3)]
    note start = pass_start [OF Cons.prems(1) 3(2) least(2,1) assms(4)]
    obtain s1 ds d1 where p: "encode_pass b cps (s\<lparr>es_delta := es_delta s + (m - es_n s) * (es_h s + 1), es_n := m\<rparr>) = Inr s1"
      "es_out s1 = es_out s @ ds" "digit_bytes ds" "reads ds d d1" "matched b m cps [] s1 d1"
      using pass_step [OF start assms(3) _ least(1)] assms(4) by auto
    obtain s' es d' where "encode_loop b cps view (s1\<lparr>es_delta := es_delta s1 + 1, es_n := es_n s1 + 1\<rparr>) = Inr s'"
      "es_out s' = es_out s1 @ es" "digit_bytes es" "reads es d1 d'" "ds_output d' = cps"
      "ds_len d' = of_nat (length (encoding utf8_units cps))"
      using Cons.IH [OF pass_end [OF p(5) least(1) assms(4)] least(3)] by auto
    with p 3 h(2) show ?thesis
      by (intro exI [of _ s'] exI [of _ "ds @ es"] exI [of _ d']) (auto intro: reads_append simp: not_less)
  qed
qed

section \<open>Texts of any length\<close>

text \<open>
  On longer texts \<open>delta\<close> may wrap around; the encoder still returns, without a fault and with an output of digits.
\<close>

lemma encode_integer_total: "\<exists>ds. digit_bytes ds \<and> (\<forall>out. encode_integer bias k q out = Inr (out @ ds))"
proof (induction "unat q" arbitrary: q k rule: less_induct)
  case less
  let ?t = "threshold k bias"
  have t: "1 \<le> unat ?t" "unat ?t \<le> 26" by (rule threshold_bounds)+
  show ?case
  proof (cases "q < ?t")
    case True
    then have "unat q < 36" using t(2) by (simp add: word_less_nat_alt)
    then obtain c where "encode_digit q = Inr c" "c < 128" "c \<noteq> 0x2d" "c \<noteq> 0x2e"
      by (rule encode_digit_value)
    with True show ?thesis by (intro exI [of _ "[c]"]) (simp add: encode_integer.simps [of _ _ q] Let_def)
  next
    case False
    then have q: "unat ?t \<le> unat q" by (simp add: not_less word_le_nat_alt)
    let ?d = "?t + (q - ?t) mod (36 - ?t)" and ?q = "(q - ?t) div (36 - ?t)"
    note r = digit_round [OF q t]
    have "unat ?d < 36" using t mod_less_divisor [of "36 - unat ?t" "unat q - unat ?t"] unfolding r by linarith
    then obtain c where c: "encode_digit ?d = Inr c" "c < 128" "c \<noteq> 0x2d" "c \<noteq> 0x2e" by (rule encode_digit_value)
    have "unat ?q < unat q" unfolding r using t(1) q div_le_dividend [of "unat q - unat ?t" "36 - unat ?t"] by linarith
    then obtain ds where "digit_bytes ds" "\<forall>out. encode_integer bias (k + 36) ?q out = Inr (out @ ds)"
      using less [of ?q "k + 36"] by blast
    with c False show ?thesis by (intro exI [of _ "c # ds"]) (simp add: encode_integer.simps [of _ _ q] Let_def)
  qed
qed

definition counted :: "codepoint \<Rightarrow> codepoint list \<Rightarrow> codepoint list \<Rightarrow> encode_state \<Rightarrow> bool" where
  "counted n pre suf s \<longleftrightarrow> es_n s = n \<and> unat (es_h s) = length (inserted n pre suf)"

lemma pass_total:
  assumes "counted n pre suf s" and "length pre + length suf < 2 ^ 32 - 1"
  shows "\<exists>s' ds. encode_pass b suf s = Inr s' \<and> es_out s' = es_out s @ ds \<and> digit_bytes ds \<and> counted n (pre @ suf) [] s'"
  using assms
proof (induction suf arbitrary: pre s)
  case Nil
  then show ?case by (intro exI [of _ s] exI [of _ "[]"]) simp
next
  case (Cons c suf)
  note IH = Cons.IH [of "pre @ [c]"]
  have es_n: "es_n s = n" using Cons.prems(1) by (simp add: counted_def)
  consider "c < n" | "c = n" | "n < c" by (metis linorder_cases)
  then show ?case
  proof cases
    case 1
    with Cons.prems es_n IH [of "s\<lparr>es_delta := es_delta s + 1\<rparr>"] show ?thesis by (simp add: counted_def)
  next
    case 2
    obtain ds where ds: "digit_bytes ds" "\<forall>out. encode_integer (es_bias s) 36 (es_delta s) out = Inr (out @ ds)"
      using encode_integer_total by blast
    have "length (inserted n pre (c # suf)) \<le> length pre + length suf" by (simp add: inserted_def 2 add_mono)
    then have h: "unat (es_h s + 1) = unat (es_h s) + 1"
      using Cons.prems by (simp add: counted_def unat_word_ariths)
    then have "es_h s + 1 \<noteq> 0" by auto
    then obtain bias where a: "adapt (es_delta s) (es_h s + 1) (es_h s = b) = Inr bias" using adapt_defined by blast
    let ?s = "s\<lparr>es_out := es_out s @ ds, es_bias := bias, es_delta := 0, es_h := es_h s + 1\<rparr>"
    have "counted n (pre @ [c]) suf ?s" using Cons.prems(1) h by (simp add: counted_def inserted_def 2)
    with IH [of ?s] Cons.prems(2) obtain s' es where "encode_pass b suf ?s = Inr s'" "es_out s' = (es_out s @ ds) @ es"
      "digit_bytes es" "counted n ((pre @ [c]) @ suf) [] s'" by auto
    with ds a es_n 2 show ?thesis by (intro exI [of _ s'] exI [of _ "ds @ es"]) simp
  next
    case 3
    then have "\<not> c < n" "c \<noteq> n" by auto
    with Cons.prems es_n IH [of s] 3 show ?thesis by (simp add: counted_def)
  qed
qed

lemma loop_total:
  assumes "counted n [] cps s" and "ahead n view cps" and "list_all is_valid_codepoint cps" and "length cps < 2 ^ 32 - 1"
  shows "\<exists>s' ds. encode_loop b cps view s = Inr s' \<and> es_out s' = es_out s @ ds \<and> digit_bytes ds"
  using assms(1,2)
proof (induction view arbitrary: n s)
  case Nil
  with ahead_done [OF Nil(2)] show ?case by (intro exI [of _ s] exI [of _ "[]"]) (simp add: counted_def)
next
  case (Cons m view)
  have h: "unat (es_h s) = length (filter (\<lambda>c. c < n) cps)" "es_n s = n" using Cons.prems(1) by (simp_all add: counted_def)
  consider "\<not> unat (es_h s) < length cps" | "unat (es_h s) < length cps" "m < n" | "unat (es_h s) < length cps" "n \<le> m"
    using not_le by blast
  then show ?case
  proof cases
    case 1
    then show ?thesis by (intro exI [of _ s] exI [of _ "[]"]) simp
  next
    case 2
    with Cons.IH [OF Cons.prems(1) ahead_skip [OF Cons.prems(2)]] h(2) show ?thesis by simp
  next
    case 3
    note least = ahead_least [OF Cons.prems(2) 3(2) assms(3)]
    let ?s = "s\<lparr>es_delta := es_delta s + (m - es_n s) * (es_h s + 1), es_n := m\<rparr>"
    have "filter (\<lambda>c. c < m) cps = filter (\<lambda>c. c < n) cps"
      using 3(2) least(2) by (auto intro!: filter_cong simp: not_le [symmetric])
    then have "counted m [] cps ?s" using h by (simp add: counted_def)
    then obtain s1 ds where p: "encode_pass b cps ?s = Inr s1" "es_out s1 = es_out s @ ds" "digit_bytes ds" "counted m cps [] s1"
      using pass_total [of m "[]" cps ?s b] assms(4) by auto
    have "unat (m + 1) = unat m + 1" using least(1) by (simp add: unat_word_ariths)
    then have "filter (\<lambda>c. c < m + 1) cps = filter (\<lambda>c. c \<le> m) cps"
      by (auto intro!: filter_cong simp: word_less_nat_alt word_le_nat_alt)
    then have "counted (m + 1) [] cps (s1\<lparr>es_delta := es_delta s1 + 1, es_n := es_n s1 + 1\<rparr>)"
      using p(4) by (simp add: counted_def)
    from Cons.IH [OF this least(3)] obtain s' es where
      "encode_loop b cps view (s1\<lparr>es_delta := es_delta s1 + 1, es_n := es_n s1 + 1\<rparr>) = Inr s'"
      "es_out s' = es_out s1 @ es" "digit_bytes es" by auto
    with p 3 h(2) show ?thesis by (intro exI [of _ s'] exI [of _ "ds @ es"]) (auto simp: not_less)
  qed
qed

end
