(* ===== verification/Punycode_Properties.thy ===== *)
theory Punycode_Properties
  imports Punycode_Laws
begin

text \<open>Whole texts through Punycode, and the decoder on arbitrary input.\<close>

section \<open>Reading the text\<close>

abbreviation basic_of :: "codepoint list \<Rightarrow> codepoint list" where
  "basic_of cps \<equiv> filter (\<lambda>c. c < 128) cps"

lemma le_127: "c \<le> 127 \<longleftrightarrow> c < (128 :: u32)" "c > 127 \<longleftrightarrow> \<not> c < (128 :: u32)"
  by (auto simp: word_le_nat_alt word_less_nat_alt)

lemma count_codepoints_text:
  assumes "list_all is_valid_codepoint cps"
  shows "count_codepoints_loop (encoding utf8_units cps) basic non_basic
    = Some (Inr (None, basic + of_nat (length (basic_of cps)), non_basic + of_nat (length (filter (\<lambda>c. \<not> c < 128) cps))))"
  using assms
proof (induction cps arbitrary: basic non_basic)
  case Nil
  then show ?case by (simp add: count_codepoints_loop.simps encoding_def)
next
  case (Cons cp cps)
  then have v: "is_valid_codepoint cp" by simp
  note u = utf8_decode_units(1) [OF v, of None "encoding utf8_units cps"] utf8_decode_units(2) [OF v, of "encoding utf8_units cps"]
    utf8_decode_units(3) [OF v]
  have "encoding utf8_units (cp # cps) = utf8_units cp @ encoding utf8_units cps" by (simp add: encoding_def)
  with Cons u show ?case
    by (subst count_codepoints_loop.simps) (simp add: le_127 add.assoc)
qed

lemma fill_codepoints_text:
  assumes "list_all is_valid_codepoint cps"
  shows "fill_codepoints_loop (encoding utf8_units cps) has_basic basic non_basic all
    = Some (Inr (has_basic \<or> basic_of cps \<noteq> [], basic @ map ucast (basic_of cps),
        non_basic @ filter (\<lambda>c. \<not> c < 128) cps, all @ cps))"
  using assms
proof (induction cps arbitrary: has_basic basic non_basic all)
  case Nil
  then show ?case by (simp add: fill_codepoints_loop.simps encoding_def)
next
  case (Cons cp cps)
  then have v: "is_valid_codepoint cp" by simp
  note u = utf8_decode_units(1) [OF v, of None "encoding utf8_units cps"] utf8_decode_units(2) [OF v, of "encoding utf8_units cps"]
    utf8_decode_units(3) [OF v]
  have "encoding utf8_units (cp # cps) = utf8_units cp @ encoding utf8_units cps" by (simp add: encoding_def)
  with Cons u show ?case
    by (subst fill_codepoints_loop.simps) (simp add: le_127)
qed

section \<open>The basic code points in front\<close>

lemma basic_bytes:
  assumes "c < (128 :: u32)"
  shows "(ucast c :: u8) \<le> 127" "ucast (ucast c :: u8) = c" "(ucast c :: u8) < 128"
  using assms utf8_units_ascii [of c] by (simp_all add: word_less_nat_alt word_le_nat_alt unsigned_ucast_eq take_bit_nat_eq_self)

lemma consume_basic_text:
  assumes "digit_bytes ds" and that: "\<forall>c\<in>set bs. c < 128"
  shows "consume_basic_codepoints (if bs = [] then ds else map ucast bs @ 0x2d # ds)
    = Inr (True, ds, bs)"
proof (cases "bs = []")
  case True
  then show ?thesis using assms(1) by (auto simp: consume_basic_codepoints_def digit_bytes_def)
next
  case False
  let ?bs = "map ucast bs :: bytes"
  have d: "0x2d \<notin> set ds" using assms(1) by (auto simp: digit_bytes_def)
  have "takeWhile (\<lambda>c. c \<noteq> 0x2d) (rev (?bs @ 0x2d # ds)) = rev ds"
    using d by (auto simp: takeWhile_append2 takeWhile_tail)
  moreover have "\<not> (\<exists>c\<in>set ?bs. c > 127)" using that basic_bytes(1) by (auto simp: not_less)
  moreover have "map ucast ?bs = bs" using that basic_bytes(2) by (simp add: map_idI)
  moreover have "ds = [] \<or> hd ds \<noteq> 0x2d" using d by (cases ds) auto
  ultimately show ?thesis
    using False unfolding consume_basic_codepoints_def Let_def by (simp del: rev_append)
qed

section \<open>The output\<close>

text \<open>The buffer is prepared with the exact size.\<close>

lemma encode_output_text:
  assumes "list_all is_valid_codepoint cps"
  shows "encode_output cps (length (encoding utf8_units cps)) out = Inr (None, out @ encoding utf8_units cps)"
  using assms
proof (induction cps arbitrary: out)
  case (Cons cp cps)
  then have v: "is_valid_codepoint cp" by simp
  with Cons utf8_decode_units(3) [OF v] show ?case by (simp add: encoding_def utf8_encode_units)
qed (simp add: encoding_def)

lemma encoding_short:
  assumes "list_all is_valid_codepoint cps"
  shows "length (encoding utf8_units cps) \<le> 4 * length cps"
  using assms
proof (induction cps)
  case (Cons cp cps)
  have "length (utf8_units cp) \<le> 4" by (simp add: utf8_units_def utf8_nat_def)
  with Cons show ?case by (simp add: encoding_def)
qed (simp add: encoding_def)

lemma initial_matched:
  "matched (of_nat (length (basic_of cps))) 128 [] cps
     \<lparr>es_n = 128, es_delta = 0, es_bias = 72, es_h = of_nat (length (basic_of cps)), es_out = out\<rparr>
     \<lparr>ds_n = 128, ds_i = 0, ds_bias = 72, ds_len = of_nat (length (basic_of cps)), ds_output = basic_of cps\<rparr>"
  if "length cps \<le> 110"
proof -
  have "length (basic_of cps) \<le> 110" using that length_filter_le [of "\<lambda>c. c < 128" cps] by linarith
  moreover have "length (encoding utf8_units (basic_of cps)) = length (basic_of cps)"
    by (induction cps) (auto simp: encoding_def utf8_units_ascii word_less_nat_alt)
  ultimately show ?thesis by (simp add: matched_def unat_of_nat)
qed

lemma initial_ahead: "ahead 128 (sort (filter (\<lambda>c. \<not> c < 128) cps)) cps"
  by (simp add: ahead_def not_less filter_filter_mset)

definition basic_prefix :: "codepoint list \<Rightarrow> bytes" where
  "basic_prefix cps = (if basic_of cps = [] then [] else map ucast (basic_of cps) @ [0x2d])"

definition initial_state :: "codepoint list \<Rightarrow> bytes \<Rightarrow> encode_state" where
  "initial_state cps out =
     \<lparr>es_n = 128, es_delta = 0, es_bias = 72, es_h = of_nat (length (basic_of cps)), es_out = out @ basic_prefix cps\<rparr>"

lemma punycode_encode_as_loop:
  assumes v: "list_all is_valid_codepoint cps"
    and "encode_loop (of_nat (length (basic_of cps))) cps (sort (filter (\<lambda>c. \<not> c < 128) cps)) (initial_state cps out) = Inr s'"
  shows "punycode_encode (encoding utf8_units cps) out = Some (Inr (None, length (encoding utf8_units cps), es_out s'))"
proof -
  have "fill_codepoints (encoding utf8_units cps) out = Some (Inr (out @ basic_prefix cps, filter (\<lambda>c. \<not> c < 128) cps, cps))"
    unfolding fill_codepoints_def fill_codepoints_text [OF v] basic_prefix_def by simp
  moreover have "count_codepoints (encoding utf8_units cps)
      = Some (Inr (None, of_nat (length (basic_of cps)), of_nat (length (filter (\<lambda>c. \<not> c < 128) cps))))"
    unfolding count_codepoints_def count_codepoints_text [OF v] by simp
  ultimately show ?thesis using assms(2) by (simp add: punycode_encode_def initial_state_def)
qed

lemma basic_prefix_ascii: "c \<in> set (basic_prefix cps) \<Longrightarrow> c < 128 \<and> (c = 0x2e \<longrightarrow> 0x2e \<in> set cps)"
  using basic_bytes(2,3) by (auto simp: basic_prefix_def split: if_splits) force

lemma punycode_encode_returns:
  assumes v: "list_all is_valid_codepoint cps" and len: "length cps < 2 ^ 32 - 1"
  shows "\<exists>enc. punycode_encode (encoding utf8_units cps) out = Some (Inr (None, length (encoding utf8_units cps), out @ enc)) \<and>
    (\<forall>c\<in>set enc. c < 128 \<and> (c = 0x2e \<longrightarrow> 0x2e \<in> set cps))"
proof -
  have "length (basic_of cps) < 2 ^ 32 - 1" using len length_filter_le [of "\<lambda>c. c < 128" cps] by linarith
  then have "counted 128 [] cps (initial_state cps out)" by (simp add: counted_def initial_state_def unat_of_nat)
  from loop_total [OF this initial_ahead v len, of "of_nat (length (basic_of cps))"] obtain s' ds where s:
    "encode_loop (of_nat (length (basic_of cps))) cps (sort (filter (\<lambda>c. \<not> c < 128) cps)) (initial_state cps out) = Inr s'"
    "es_out s' = out @ basic_prefix cps @ ds" "digit_bytes ds"
    by (auto simp: initial_state_def)
  show ?thesis
    using punycode_encode_as_loop [OF v s(1)] s(2,3) basic_prefix_ascii [of _ cps]
    by (intro exI [of _ "basic_prefix cps @ ds"]) (auto simp: digit_bytes_def)
qed

lemma punycode_through:
  assumes v: "list_all is_valid_codepoint cps" and len: "length cps \<le> 110"
  shows "\<exists>enc. (\<forall>c\<in>set enc. c < 128) \<and>
    punycode_encode (encoding utf8_units cps) out = Some (Inr (None, length (encoding utf8_units cps), out @ enc)) \<and>
    punycode_decode enc dest = Inr (None, 0, dest @ encoding utf8_units cps)"
proof -
  let ?b = "of_nat (length (basic_of cps)) :: u32" and ?nb = "filter (\<lambda>c. \<not> c < 128) cps"
  let ?d = "\<lparr>ds_n = 128, ds_i = 0, ds_bias = 72, ds_len = ?b, ds_output = basic_of cps\<rparr>"
  obtain s' ds d' where r: "encode_loop ?b cps (sort ?nb) (initial_state cps out) = Inr s'"
    "es_out s' = out @ basic_prefix cps @ ds" "digit_bytes ds"
    "reads ds ?d d'" "ds_output d' = cps" "ds_len d' = of_nat (length (encoding utf8_units cps))"
    using encode_loop_reads [OF initial_matched [OF len, of "out @ basic_prefix cps"] initial_ahead v len]
    by (auto simp: initial_state_def)
  have "punycode_decode (basic_prefix cps @ ds) dest = Inr (None, 0, dest @ encoding utf8_units cps)"
  proof -
    have "basic_prefix cps @ ds = (if basic_of cps = [] then ds else map ucast (basic_of cps) @ 0x2d # ds)"
      by (simp add: basic_prefix_def)
    then have c: "consume_basic_codepoints (basic_prefix cps @ ds) = Inr (True, ds, basic_of cps)"
      using consume_basic_text [OF r(3), of "basic_of cps"] by simp
    have "punycode_decode_loop ds ?d = Inr (None, d')"
      using r(4) [unfolded reads_def, rule_format, of "[]"] by (simp add: punycode_decode_loop.simps [of "[]"])
    moreover have "unat (ds_len d') = length (encoding utf8_units cps)"
      using encoding_short [OF v] len by (simp add: r(6) unat_of_nat)
    ultimately show ?thesis by (simp add: punycode_decode_def c r(5) encode_output_text [OF v])
  qed
  moreover have "\<forall>c\<in>set (basic_prefix cps @ ds). c < 128"
    using r(3) basic_prefix_ascii by (auto simp: digit_bytes_def)
  ultimately show ?thesis using punycode_encode_as_loop [OF v r(1)] r(2) by auto
qed

section \<open>The decoder on arbitrary input\<close>

definition decode_sane :: "nat \<Rightarrow> decode_state \<Rightarrow> bool" where
  "decode_sane k d \<longleftrightarrow> list_all is_valid_codepoint (ds_output d) \<and> length (ds_output d) \<le> k \<and>
     ds_len d = of_nat (length (encoding utf8_units (ds_output d)))"

lemma decode_insert_sane:
  assumes "decode_sane k d"
  shows "\<exists>e d'. decode_insert i bias d = Inr (e, d') \<and> (e = None \<longrightarrow> decode_sane (Suc k) d')"
proof (cases "validate_codepoint (ds_n d + i div of_nat (length (ds_output d) + 1))")
  case (Pair valid e)
  let ?n = "ds_n d + i div of_nat (length (ds_output d) + 1)"
  show ?thesis
  proof (cases "is_valid_codepoint ?n")
    case True
    have "length (encoding utf8_units (take x xs @ ?n # drop x xs))
        = length (encoding utf8_units xs) + length (utf8_units ?n)" for x xs
      by (subst (3) append_take_drop_id [symmetric, of _ x]) (simp add: encoding_def del: append_take_drop_id)
    moreover have "list_all is_valid_codepoint (take x xs @ ?n # drop x xs)" if "list_all is_valid_codepoint xs" for x xs
      using True that by (auto simp: list_all_iff dest: in_set_takeD in_set_dropD)
    ultimately show ?thesis
      using assms True
      by (auto simp: decode_insert_def add_and_check_overflow_def validate_codepoint_eq utf8_codepoint_size_units
          decode_sane_def Let_def)
  next
    case False
    then show ?thesis
      by (auto simp: decode_insert_def add_and_check_overflow_def validate_codepoint_eq Let_def)
  qed
qed

lemma decode_loop_sane:
  assumes "decode_sane k d" and "k + length input < 2 ^ 32 - 1"
  shows "\<exists>e d'. punycode_decode_loop input d = Inr (e, d') \<and> (e = None \<longrightarrow> decode_sane (k + length input) d')"
  using assms
proof (induction "length input" arbitrary: input d k rule: less_induct)
  case less
  show ?case
  proof (cases "input = []")
    case True
    with less.prems show ?thesis by (simp add: punycode_decode_loop.simps)
  next
    case False
    obtain e i rest where r: "decode_integer (ds_bias d) (pp_base params) (ds_i d) 1 input = (e, i, rest)"
      by (cases "decode_integer (ds_bias d) (pp_base params) (ds_i d) 1 input")
    show ?thesis
    proof (cases e)
      case None
      let ?k = "of_nat (length (ds_output d) + 1) :: u32"
      have l: "length rest < length input" using decode_integer_shorter r None by simp
      have "length (ds_output d) \<le> k" using less.prems(1) by (simp add: decode_sane_def)
      then have "unat ?k = length (ds_output d) + 1"
        using less.prems(2) by (simp add: unat_of_nat del: of_nat_add of_nat_Suc)
      then have "?k \<noteq> 0" by auto
      then obtain bias where a: "adapt (i - ds_i d) ?k (ds_i d = 0) = Inr bias" using adapt_defined by blast
      obtain e1 d1 where d1: "decode_insert i bias d = Inr (e1, d1)" "e1 = None \<longrightarrow> decode_sane (Suc k) d1"
        using decode_insert_sane [OF less.prems(1)] by blast
      show ?thesis
      proof (cases e1)
        case None
        have "Suc k + length rest \<le> k + length input" using l by simp
        moreover obtain e2 d2 where "punycode_decode_loop rest d1 = Inr (e2, d2)"
          "e2 = None \<longrightarrow> decode_sane (Suc k + length rest) d2"
          using less.hyps [OF l, of "Suc k" d1] d1(2) None less.prems(2) l by auto
        ultimately show ?thesis using False r \<open>e = None\<close> a d1(1) None
          by (auto simp: punycode_decode_loop.simps [of input] decode_sane_def)
      qed (use False r \<open>e = None\<close> a d1 in \<open>simp add: punycode_decode_loop.simps [of input]\<close>)
    qed (use False r in \<open>simp add: punycode_decode_loop.simps [of input]\<close>)
  qed
qed

lemma ascii_byte_codepoint:
  assumes "(c :: u8) \<le> 127"
  shows "is_valid_codepoint (ucast c)" "length (utf8_units (ucast c)) = 1"
  using assms utf8_units_ascii(1) [of "ucast c"] by (simp_all add: valid_codepoint_unat word_le_nat_alt)

lemma consume_basic_sane:
  "\<exists>ok rest basics. consume_basic_codepoints input = Inr (ok, rest, basics) \<and>
     (ok \<longrightarrow> list_all is_valid_codepoint basics \<and> length (encoding utf8_units basics) = length basics \<and>
        length basics + length rest \<le> length input)"
proof (cases "0x2d \<in> set input")
  case False
  then show ?thesis by (intro exI [of _ True]) (simp add: consume_basic_codepoints_def encoding_def)
next
  case True
  define digits where "digits = rev (takeWhile (\<lambda>c. c \<noteq> 0x2d) (rev input))"
  define basics where "basics = take (length input - length digits - 1) input"
  have "0x2d \<notin> set digits" using set_takeWhileD by (fastforce simp: digits_def)
  then have "digits = [] \<or> hd digits \<noteq> 0x2d" by (cases digits) auto
  moreover have "length digits \<le> length input"
    unfolding digits_def by (metis length_rev length_takeWhile_le)
  then have l: "length basics + length digits \<le> length input" by (simp add: basics_def)
  moreover have "list_all is_valid_codepoint (map ucast basics) \<and>
      length (encoding utf8_units (map ucast basics)) = length basics" if "\<not> (\<exists>c\<in>set basics. c > 127)"
  proof -
    have "\<forall>c\<in>set basics. c \<le> 127" using that by (auto simp: not_less)
    then show ?thesis by (induction basics) (auto simp: encoding_def ascii_byte_codepoint)
  qed
  ultimately show ?thesis
    using True unfolding consume_basic_codepoints_def Let_def digits_def [symmetric] basics_def [symmetric]
    by (intro exI [of _ "\<not> (\<exists>c\<in>set basics. c > 127)"]) auto
qed

text \<open>
  C40: Punycode decoding undoes encoding: any text of up to 110 valid code points, written in UTF-8, is encoded into ASCII
  without a fault or an endless loop, and decoding the result gives the text again. The encoder returns the length of
  its input; the decoder returns zero. Both append to what their buffers hold.
\<close>

theorem punycode_round_trip:
  assumes "list_all is_valid_codepoint cps" and "length cps \<le> 110"
  shows "\<exists>enc. (\<forall>c\<in>set enc. c < 128) \<and>
    punycode_encode (encoding utf8_units cps) out = Some (Inr (None, length (encoding utf8_units cps), out @ enc)) \<and>
    punycode_decode enc dest = Inr (None, 0, dest @ encoding utf8_units cps)"
  by (rule punycode_through [OF assms])

lemma sample_label:
  "punycode_encode (bytes_of ''b'' @ [0xc3, 0xbc] @ bytes_of ''cher'') [] = Some (Inr (None, 7, bytes_of ''bcher-kva''))"
  by code_simp

theorem punycode_round_trip_witness:
  "punycode_decode (bytes_of ''bcher-kva'') [] = Inr (None, 0, bytes_of ''b'' @ [0xc3, 0xbc] @ bytes_of ''cher'')"
proof -
  let ?cps = "[0x62, 0xfc, 0x63, 0x68, 0x65, 0x72] :: codepoint list"
  have "list_all is_valid_codepoint ?cps" "length ?cps \<le> 110" by (simp_all add: valid_codepoint_unat)
  note p = punycode_round_trip [OF this, of "[]" "[]"]
  have "encoding utf8_units ?cps = bytes_of ''b'' @ [0xc3, 0xbc] @ bytes_of ''cher''" by code_simp
  with p sample_label show ?thesis by auto
qed

text \<open>
  The Punycode decoder returns on every input, with an error and the buffer unchanged or with
  at most one valid code point per byte read, written as UTF-8 into a buffer of exactly the size.
\<close>

theorem punycode_decode_total:
  assumes "length input < 2 ^ 29"
  shows "\<exists>e bs. punycode_decode input out = Inr (e, 0, out @ bs) \<and> (e \<noteq> None \<longrightarrow> bs = []) \<and>
    (e = None \<longrightarrow> (\<exists>cps. list_all is_valid_codepoint cps \<and> length cps \<le> length input \<and> bs = encoding utf8_units cps))"
proof -
  obtain ok rest basics where c: "consume_basic_codepoints input = Inr (ok, rest, basics)"
    "ok \<longrightarrow> list_all is_valid_codepoint basics \<and> length (encoding utf8_units basics) = length basics \<and>
        length basics + length rest \<le> length input"
    using consume_basic_sane by blast
  show ?thesis
  proof (cases ok)
    case True
    let ?d = "\<lparr>ds_n = 128, ds_i = 0, ds_bias = 72, ds_len = of_nat (length basics), ds_output = basics\<rparr>"
    have "decode_sane (length basics) ?d" using c(2) True by (simp add: decode_sane_def)
    moreover have l: "length basics + length rest < 2 ^ 29" using assms c(2) True by simp
    ultimately obtain e d where d: "punycode_decode_loop rest ?d = Inr (e, d)"
      "e = None \<longrightarrow> decode_sane (length basics + length rest) d"
      using decode_loop_sane [of "length basics" ?d rest] by auto
    show ?thesis
    proof (cases e)
      case None
      then have s: "list_all is_valid_codepoint (ds_output d)" "length (ds_output d) < 2 ^ 29"
        "ds_len d = of_nat (length (encoding utf8_units (ds_output d)))" "length (ds_output d) \<le> length input"
        using d(2) l c(2) True by (auto simp: decode_sane_def)
      have "unat (ds_len d) = length (encoding utf8_units (ds_output d))"
        using s encoding_short [OF s(1)] by (simp add: unat_of_nat)
      with None True c(1) d(1) s show ?thesis by (auto simp: punycode_decode_def encode_output_text)
    next
      case (Some ec)
      with True c(1) d(1) show ?thesis by (simp add: punycode_decode_def)
    qed
  next
    case False
    with c(1) show ?thesis by (simp add: punycode_decode_def)
  qed
qed

theorem punycode_decode_total_witness:
  "\<exists>e bs. punycode_decode (bytes_of ''a-'') [] = Inr (e, 0, bs)"
  using punycode_decode_total [of "bytes_of ''a-''" "[]"] by (auto simp: bytes_of_def)

text \<open>The position is not checked for overflow: an encoding whose integer exceeds 32 bits is accepted.\<close>

lemma punycode_overflow_accepted:
  "decode_integer 72 36 0 1 (bytes_of ''jn012716a'') = (None, 0x300, []) \<and>
   9 + 13 * 35 + 26 * 1225 + 27 * 12250 + 28 * 122500 + 33 * 1225000 + 27 * 12250000 + 32 * 122500000 = 2 ^ 32 + (0x300 :: nat)"
proof
  show "decode_integer 72 36 0 1 (bytes_of ''jn012716a'') = (None, 0x300, [])" by code_simp
qed simp

end
