(* ===== verification/Spec2Isabelle.thy ===== *)
theory Spec2Isabelle
  imports Ring_Properties View_Properties List_Properties Utf_Properties Percent_Properties
    Hpack_Properties Message_Properties Http2_Properties Base64 Punycode_Properties
begin

text \<open>
  A verification development of the C++ library rad: its containers, its text encodings, the encodings
  its URLs and domain names are built on, and its HTTP/2 messages from header compression to frames.

  \<^bold>\<open>The program.\<close> rad is a general purpose library. Its network code buffers bytes in ring buffers and ring
  views, its asynchronous runtime queues operations on intrusive lists that never allocate, and its string
  functions convert between UTF-8, UTF-16, UTF-32 and Windows-1256. Its URL parser percent-encodes UTF-8
  text and sends domain names through Punycode. Its HTTP/2 client keeps headers in a list, compresses
  requests with HPACK, whose dynamic table is a ring buffer, and divides the result into frames. These parts
  carry their own state and algorithms; they are modelled here from the bottom up.

  \<^bold>\<open>Conventions.\<close> \<open>Rad_Prelude\<close> fixes the vocabulary. An operation that can have undefined behaviour or
  fail an assertion returns \<open>fault + 'a\<close>: \<open>Assertion\<close> is a failed \<open>assert\<close>, \<open>Out_of_bounds\<close> an access
  outside a block, and so on, so that a theorem of the form \<open>f x = Inr y\<close> includes the absence of
  faults. Pointers are offsets into their block or, for list nodes, addresses in an explicit store.
  Machine words keep their width in the encodings, in HPACK integers, in frames and in Punycode. Sizes of
  objects in memory are natural numbers. A loop without an evident bound is a \<open>partial_function (option)\<close>
  whose value \<open>None\<close> means that the call never returns; there is no fuel anywhere. Theorems about such calls
  state \<open>Some\<close>, that is, termination. Element constructors do not throw and allocation does not fail.

  \<^bold>\<open>Interfaces.\<close> \<open>Refinement\<close> holds the locale \<open>data_refinement\<close>: a step function over a concrete state
  meets a contract over an abstract state on every call, hence on every sequence of calls; its
  extension \<open>guarded_refinement\<close> has no obligations on the caller. The ring buffer, the ring views, the
  forward list, the doubly linked list and the dynamic table of HPACK interpret them on their own
  operations (\<open>rq\<close>, \<open>vq\<close>, \<open>flq\<close>, \<open>dlq\<close>, \<open>dtq\<close>). \<open>byte_order\<close> and its extensions state what the reader and
  writer policies of the UTF-16 and UTF-32 converters promise; \<open>code_converter\<close>, \<open>assigning_converter\<close>,
  \<open>conversion\<close>, \<open>replacing_conversion\<close> and \<open>two_way_conversion\<close> state what the concept \<open>CodeCvt\<close> promises
  and what \<open>utf_converter\<close> makes of it; every converter of the library and every pair the library's
  functions use is an interpretation.

  \<^bold>\<open>Ring buffer\<close> (\<open>src/include/rad/ring_buffer.h\<close>). \<open>Cell_Memory\<close> models raw storage with object
  lifetimes, \<open>Ring_Buffer\<close> the class: single-element and range operations, \<open>linearize\<close>, searching;
  \<open>Ring_Iterator\<close> its iterator; \<open>Ring_Lifetime\<close> constructors, assignment, \<open>set_capacity\<close> and \<open>resize\<close>
  together with the count of allocated blocks, for allocators that always compare equal where they
  matter. \<open>Ring_Layout\<close> gives the representation invariant; \<open>Ring_Single\<close>, \<open>Ring_Insert\<close>, \<open>Ring_Range\<close>,
  \<open>Ring_Linearize\<close>, \<open>Ring_Assign\<close> and \<open>Ring_Resize\<close> show what each operation does to the represented list;
  \<open>Ring_Client\<close> is the refinement of a bounded queue that overwrites its oldest elements, for ten of the
  operations and a positive capacity. C1 to C8 in \<open>Ring_Properties\<close>. The defects found have theorems as
  well: the range form of \<open>pop_back\<close> across both arrays (in C4), the leak of \<open>set_capacity\<close> (in C7), and
  \<open>end() - n\<close>, \<open>resize(0)\<close> and the filling constructor with an allocator beside them.

  \<^bold>\<open>Ring views\<close> (\<open>src/include/rad/ring_buffer_consumer.h\<close>,
  \<open>src/src/ring_buffer_consumer_producer.cpp\<close>). \<open>Byte_Memory\<close> and \<open>Ring_View\<close> are the model,
  \<open>Ring_View_Laws\<close> and \<open>Ring_View_Client\<close> the refinement of a byte queue under the obligation to leave one
  byte free. C9 and C10 in \<open>View_Properties\<close> state it and what \<open>read_from\<close> overwrites outside it; the
  theorems beside them show the overruns of a full view and of \<open>linearize\<close>.

  \<^bold>\<open>Intrusive lists\<close> (\<open>src/include/rad/stack_forward_list.h\<close>, \<open>src/include/rad/stack_list.h\<close>). \<open>Node_Heap\<close> is
  the store of nodes, \<open>Node_Ownership\<close> accounts for which list owns which node. \<open>Forward_List\<close> and
  \<open>Double_List\<close> are the models in the debug build, where every assertion is checked; the \<open>Laws\<close>
  theories relate them to node sequences, the \<open>Client\<close> theories refine sequences for arbitrary permitted
  calls while the nodes of other lists stay untouched. C11 to C13 in \<open>List_Properties\<close>.

  \<^bold>\<open>Text encodings\<close> (\<open>src/include/rad/utf.h\<close>, \<open>src/src/utf.cpp\<close>). \<open>Utf_Codec\<close> holds the converters of
  single code points and the Windows-1256 tables, \<open>Utf_Converter\<close> the conversion of strings.
  \<open>Word_Facts\<close> reads masks and shifts as arithmetic; \<open>Utf8_Laws\<close> and \<open>Utf16_Laws\<close> show the encoders equal
  to the standard's tables and the decoders their exact inverses; \<open>Utf_Contract\<close> and \<open>Utf_Instances\<close>
  carry that to whole strings, \<open>Utf_Bom\<close> treats byte order marks. C14 to C21 in \<open>Utf_Properties\<close>. The byte
  order of the host is a parameter of every result; the byte swap is that of the unsigned types.

  \<^bold>\<open>Percent encoding\<close> (\<open>src/src/net/url/percent_encoding.cpp\<close> and the encode sets of
  \<open>src/src/net/url/url.cpp\<close>). \<open>Percent_Encoding\<close> is the model over the UTF-8 converter, \<open>Percent_Laws\<close> shows
  that the computed sizes are what is written and that decoding undoes encoding. C22 and C23 in
  \<open>Percent_Properties\<close>.

  \<^bold>\<open>Bits and strings\<close> (\<open>src/include/rad/bits.h\<close>, \<open>src/include/rad/string.h\<close>). \<open>Bits\<close> models the free functions
  on unsigned integers, \<open>Case_Strings\<close> case mapping and comparison of byte strings, \<open>String_Tools\<close> splitting
  and reading of unsigned numbers; \<open>Bit_Strings\<close> reads words as strings of bits. Other conversions of
  numbers are not modelled.

  \<^bold>\<open>HTTP headers and messages\<close> (\<open>src/include/rad/net/http/http_parser.h\<close>,
  \<open>src/src/net/http/http_headers_fields.cpp\<close>). \<open>Http_Headers\<close> is the list of headers, in which equal names
  stay adjacent (C31), \<open>Http_Message\<close> the methods, versions, field names, error codes and the containers of
  requests and responses.

  \<^bold>\<open>HPACK\<close> (\<open>src/include/rad/net/http2/hpack.h\<close>, \<open>src/src/net/http2/hpack.cpp\<close>). \<open>Hpack_Integer\<close>, \<open>Hpack_Huffman\<close>,
  \<open>Hpack_Table\<close>, \<open>Hpack_Codec\<close> and \<open>Hpack_Message\<close> are the model: prefixed integers, Huffman coding, the
  dynamic table over the ring buffer, the codec of header lists, and the codecs of requests and
  responses. \<open>Huffman_Table\<close>, \<open>Huffman_Laws\<close> and \<open>Huffman_Roundtrip\<close> show that the table is a prefix code
  and that decoding undoes encoding; \<open>Hpack_Laws\<close>, \<open>Hpack_Roundtrip\<close> and \<open>Hpack_Total\<close> do the same for
  headers and treat arbitrary input; \<open>Hpack_Message_Laws\<close> and \<open>Message_Laws\<close> carry it to messages. C24 to C31
  in \<open>Hpack_Properties\<close>, C32 to C34 in \<open>Message_Properties\<close>. HPACK as written does not always deliver what was
  sent: names arrive in lower case, a value that differs from a row of the static table in case only
  arrives as that row, and headers of equal names can change places. \<open>decoded_list\<close> and
  \<open>received_request\<close> specify what arrives; they are not code. \<open>unchanged_header\<close> and \<open>unchanged_request\<close> are
  the conditions under which the properties state that exactly the sent data arrives. Headers that are both
  indexed and never indexed put the two tables out of step (C30) and are excluded elsewhere.

  \<^bold>\<open>HTTP/2 frames\<close> (\<open>src/include/rad/net/http2/http2_parser.h\<close>, \<open>src/src/net/http2/http2_parser.cpp\<close>,
  \<open>src/include/rad/big_endian.h\<close>). \<open>Http2_Frame\<close> models frame headers, the frames with a payload, the checks of
  received frames and the division of a headers block, on a little-endian host; \<open>Http2_Laws\<close> and
  \<open>Http2_Blocks\<close> hold the lemmas. C35 to C38 in \<open>Http2_Properties\<close>. \<open>opens_block\<close> specifies which frames leave a
  block open and counts HEADERS and CONTINUATION, as the code does, not PUSH_PROMISE.

  \<^bold>\<open>Base64\<close> (\<open>src/src/crypto/base64.cpp\<close>). Model, laws and C39 are in \<open>Base64\<close>.

  \<^bold>\<open>Punycode\<close> (\<open>src/src/net/idna/punycode.cpp\<close>). \<open>Punycode\<close> is the model, \<open>Punycode_Laws\<close> the passes of the encoder
  against the steps of the decoder, C40 in \<open>Punycode_Properties\<close> the round trip. Its bound of 110 code points
  keeps every 32-bit position from overflowing whatever the code points are; a label of a domain name
  has at most 63 bytes. The decoder is total on inputs of less than \<open>2 ^ 29\<close> bytes.

  \<^bold>\<open>Not modelled.\<close> Sockets, TLS, resolvers, files, pipes, processes, databases, the other cryptography and the
  asynchronous runtime are calls into the operating system or third-party libraries. The HTTP/1 parser and
  both HTTP clients run inside coroutines over sockets; the states of the URL parser, the parsing of IP
  addresses, the mapping of domain names, JSON and DNS messages have logic of their own and are
  left to extensions of this development.
\<close>

end
